(* ===== verification/Prelude.thy ===== *)
theory Prelude
  imports Complex_Main "HOL-Library.Word"
begin

unbundle bit_operations_syntax

text \<open>
  Shared vocabulary of the development: results that may be errors, the
  arithmetic of \<open>size_t\<close> (a natural number, with the wrap-around at
  \<open>2 ^ 64\<close> written out by \<open>wrap\<close>), and the generic lemmas on lists,
  natural numbers and words that several components use.

  The model is of the 64-bit configuration of the runtime
  (\<open>GC_MODEL_NATIVE64\<close> in \<open>runtime/gc/model.h\<close>).
\<close>

section \<open>Collections of facts\<close>

named_theorems layout_simps \<open>sizes of the parts of an object\<close>
named_theorems mem_simps \<open>reads after writes of the byte memory\<close>
named_theorems state_simps \<open>fields of the collector state after an operation\<close>

section \<open>Results\<close>

text \<open>
  \<open>Die\<close> is a call of \<open>die\<close> or \<open>diee\<close> (the process prints the message and exits),
  \<open>Undefined\<close> is a read outside a table the compiled program supplies (undefined
  behaviour in C), and \<open>OutOfFuel\<close> is a loop that did not end within the fuel the
  model was given.
\<close>

datatype error = Die string | Undefined | OutOfFuel

type_synonym 'a res = "error + 'a"

definition bindE :: "'a res \<Rightarrow> ('a \<Rightarrow> 'b res) \<Rightarrow> 'b res" where
  "bindE m f = (case m of Inl e \<Rightarrow> Inl e | Inr x \<Rightarrow> f x)"

lemma bindE_simps [simp]:
  "bindE (Inl e) f = Inl e"
  "bindE (Inr x) f = f x"
  by (simp_all add: bindE_def)

lemma bindE_Inr_iff: "bindE m f = Inr y \<longleftrightarrow> (\<exists>x. m = Inr x \<and> f x = Inr y)"
  by (cases m) auto

lemma bindE_InrE [elim!]:
  assumes "bindE m f = Inr y"
  obtains x where "m = Inr x" "f x = Inr y"
  using assms by (auto simp: bindE_Inr_iff)

lemma bindE_assoc: "bindE (bindE m f) g = bindE m (\<lambda>x. bindE (f x) g)"
  by (cases m) auto

lemma bindE_cong [fundef_cong]:
  "m = m' \<Longrightarrow> (\<And>x. m' = Inr x \<Longrightarrow> f x = g x) \<Longrightarrow> bindE m f = bindE m' g"
  by (cases m') auto

text \<open>An assertion of the code, in builds that evaluate them.\<close>

definition asserting :: "bool \<Rightarrow> unit res" where
  "asserting b = (if b then Inr () else Inl (Die ''assert''))"

text \<open>A loop over the elements of a list, threading a state.\<close>

fun foldE :: "('s \<Rightarrow> 'a \<Rightarrow> 's res) \<Rightarrow> 'a list \<Rightarrow> 's \<Rightarrow> 's res" where
  "foldE f [] s = Inr s"
| "foldE f (x # xs) s = bindE (f s x) (foldE f xs)"

lemma foldE_append: "foldE f (xs @ ys) s = bindE (foldE f xs s) (foldE f ys)"
proof (induction xs arbitrary: s)
  case (Cons x xs)
  then show ?case by (cases "f s x") auto
qed simp

lemma foldE_invariant:
  assumes "foldE f xs s = Inr t" "P s"
    and "\<And>s x t. x \<in> set xs \<Longrightarrow> P s \<Longrightarrow> f s x = Inr t \<Longrightarrow> P t"
  shows "P t"
  using assms by (induction xs arbitrary: s) auto

section \<open>\<open>size_t\<close> arithmetic\<close>

abbreviation SIZE_MAX :: nat where "SIZE_MAX \<equiv> 18446744073709551615"

definition wrap :: "nat \<Rightarrow> nat" where
  "wrap n = n mod 18446744073709551616"

lemma wrap_small [simp]: "n < 18446744073709551616 \<Longrightarrow> wrap n = n"
  by (simp add: wrap_def)

lemma wrap_le: "wrap n \<le> n"
  by (simp add: wrap_def)

lemma wrap_bound [simp]: "wrap n < 18446744073709551616"
  by (simp add: wrap_def)

lemma wrap_numeral [simp]: "wrap (numeral k) = numeral k mod 18446744073709551616"
  by (simp add: wrap_def)

lemma wrap_0 [simp]: "wrap 0 = 0"
  by (simp add: wrap_def)

lemma wrap_wrap [simp]: "wrap (wrap n) = wrap n"
  by (simp add: wrap_def)

text \<open>The two's complement difference \<open>a - b\<close> of two \<open>size_t\<close> values.\<close>

definition wrap_sub :: "nat \<Rightarrow> nat \<Rightarrow> nat" where
  "wrap_sub a b = wrap (a + (18446744073709551616 - b))"

lemma wrap_sub_eq:
  assumes "b \<le> a" "a < 18446744073709551616"
  shows "wrap_sub a b = a - b"
proof -
  have "a + (18446744073709551616 - b) = (a - b) + 18446744073709551616"
    using assms by linarith
  then have "(a + (18446744073709551616 - b)) mod 18446744073709551616 = (a - b) mod 18446744073709551616"
    by (metis mod_add_self2)
  also have "\<dots> = a - b"
    using assms by simp
  finally show ?thesis
    by (simp only: wrap_sub_def wrap_def)
qed

section \<open>Bitwise operations on natural numbers\<close>

lemma and_neg_power_nat:
  fixes a :: nat
  assumes "a < 2 ^ n" "k \<le> n"
  shows "a AND (2 ^ n - 2 ^ k) = a - a mod 2 ^ k"
proof -
  have "(2::nat) ^ n - 2 ^ k = push_bit k (mask (n - k))"
    using assms(2)
    by (simp add: push_bit_eq_mult mask_eq_exp_minus_1 diff_mult_distrib flip: power_add)
  then have "a AND (2 ^ n - 2 ^ k) = push_bit k (drop_bit k a AND mask (n - k))"
    by (simp add: bit_eq_iff bit_push_bit_iff bit_and_iff bit_drop_bit_eq) auto
  also have "\<dots> = push_bit k (take_bit (n - k) (drop_bit k a))"
    by (simp add: take_bit_eq_mask)
  also have "take_bit (n - k) (drop_bit k a) = drop_bit k a"
  proof (rule take_bit_nat_eq_self)
    have "a div 2 ^ k < 2 ^ (n - k)"
      using assms by (simp add: less_mult_imp_div_less flip: power_add)
    then show "drop_bit k a < 2 ^ (n - k)"
      by (simp add: drop_bit_eq_div)
  qed
  also have "push_bit k (drop_bit k a) = a - a mod 2 ^ k"
    by (simp add: push_bit_eq_mult drop_bit_eq_div minus_mod_eq_div_mult)
  finally show ?thesis .
qed

lemma unat_of_nat_small:
  "n < 18446744073709551616 \<Longrightarrow> unat (word_of_nat n :: 64 word) = n"
  by (simp add: unat_of_nat)

lemma unat_lt_64: "unat (w :: 64 word) < 18446744073709551616"
  using unsigned_less [of w, where ?'a = nat] by simp

lemma unat_lt_32: "unat (w :: 32 word) < 4294967296"
  using unsigned_less [of w, where ?'a = nat] by simp

lemma unat_lt_8: "unat (w :: 8 word) < 256"
  using unsigned_less [of w, where ?'a = nat] by simp

section \<open>Ranges of natural numbers\<close>

lemma upt_0_Suc: "[0..<Suc n] = 0 # map Suc [0..<n]"
  by (simp add: upt_conv_Cons map_Suc_upt del: upt_Suc)

lemma upt_0_add: "[0..<n + k] = [0..<n] @ map (\<lambda>i. i + n) [0..<k]"
  using upt_add_eq_append [of 0 n k] by (simp add: map_add_upt add.commute)

end
