(* ===== verification/Memory.thy ===== *)
theory Memory
  imports Prelude
begin

text \<open>
  The address space: a byte for every address, read and written in little-endian
  units of 4 and 8 bytes, and copied in blocks (\<open>GC_memcpy\<close>, \<open>GC_memmove\<close> of
  \<open>runtime/gc/virtual-memory.c\<close>). A pointer is its address, a natural number;
  C pointer arithmetic never leaves the address space, so no wrap-around is written.
\<close>

type_synonym pointer = nat
type_synonym byte = "8 word"
type_synonym mem = "pointer \<Rightarrow> byte"
type_synonym objptr = "64 word"

section \<open>Little-endian units\<close>

fun load_le :: "mem \<Rightarrow> pointer \<Rightarrow> nat \<Rightarrow> nat" where
  "load_le m a 0 = 0"
| "load_le m a (Suc k) = unat (m a) + 256 * load_le m (Suc a) k"

fun store_le :: "mem \<Rightarrow> pointer \<Rightarrow> nat \<Rightarrow> nat \<Rightarrow> mem" where
  "store_le m a 0 v = m"
| "store_le m a (Suc k) v = store_le (m(a := word_of_nat v)) (Suc a) k (v div 256)"

definition load64 :: "mem \<Rightarrow> pointer \<Rightarrow> 64 word" where
  "load64 m a = word_of_nat (load_le m a 8)"

definition store64 :: "mem \<Rightarrow> pointer \<Rightarrow> 64 word \<Rightarrow> mem" where
  "store64 m a v = store_le m a 8 (unat v)"

definition load32 :: "mem \<Rightarrow> pointer \<Rightarrow> 32 word" where
  "load32 m a = word_of_nat (load_le m a 4)"

definition store32 :: "mem \<Rightarrow> pointer \<Rightarrow> 32 word \<Rightarrow> mem" where
  "store32 m a v = store_le m a 4 (unat v)"

text \<open>A block copy; source and destination bytes are those before the copy.\<close>

definition copy_block :: "mem \<Rightarrow> pointer \<Rightarrow> pointer \<Rightarrow> nat \<Rightarrow> mem" where
  "copy_block m src dst n = (\<lambda>b. if dst \<le> b \<and> b < dst + n then m (src + (b - dst)) else m b)"

definition fill_block :: "mem \<Rightarrow> pointer \<Rightarrow> nat \<Rightarrow> byte \<Rightarrow> mem" where
  "fill_block m a n c = (\<lambda>b. if a \<le> b \<and> b < a + n then c else m b)"

text \<open>
  \<open>memcpy\<close> on overlapping blocks is undefined; \<open>memmove\<close> allows the overlap.
  Both take the source first, as the runtime's wrappers do.
\<close>

definition GC_memcpy :: "mem \<Rightarrow> pointer \<Rightarrow> pointer \<Rightarrow> nat \<Rightarrow> mem res" where
  "GC_memcpy m src dst n =
     (if (src \<le> dst \<and> dst < src + n) \<or> (dst \<le> src \<and> src < dst + n) then Inl Undefined
      else Inr (copy_block m src dst n))"

definition GC_memmove :: "mem \<Rightarrow> pointer \<Rightarrow> pointer \<Rightarrow> nat \<Rightarrow> mem" where
  "GC_memmove m src dst n = (if src = dst then m else copy_block m src dst n)"

section \<open>Reads after writes\<close>

lemma store_le_other: "b < a \<or> a + k \<le> b \<Longrightarrow> store_le m a k v b = m b"
  by (induction k arbitrary: m a v) auto

lemma load_le_cong:
  "(\<And>b. a \<le> b \<Longrightarrow> b < a + k \<Longrightarrow> m b = m' b) \<Longrightarrow> load_le m a k = load_le m' a k"
  by (induction k arbitrary: a) auto

lemma load_le_bound: "load_le m a k < 256 ^ k"
proof (induction k arbitrary: a)
  case (Suc k)
  have "unat (m a) < 256" by (rule unat_lt_8)
  moreover have "load_le m (Suc a) k + 1 \<le> 256 ^ k" using Suc [of "Suc a"] by simp
  then have "256 * load_le m (Suc a) k + 256 \<le> 256 * 256 ^ k"
    by (metis add_mult_distrib2 mult.right_neutral mult_le_mono2)
  ultimately show ?case by simp
qed simp

lemma load_store_le: "load_le (store_le m a k v) a k = v mod 256 ^ k"
proof (induction k arbitrary: m a v)
  case (Suc k)
  have "store_le (m(a := word_of_nat v)) (Suc a) k (v div 256) a = word_of_nat v"
    by (simp add: store_le_other)
  moreover have "unat (word_of_nat v :: 8 word) = v mod 256"
    by (simp add: unat_of_nat)
  moreover have "v mod (256 * 256 ^ k) = 256 * (v div 256 mod 256 ^ k) + v mod 256"
    by (rule mod_mult2_eq)
  ultimately show ?case by (simp add: Suc)
qed simp

lemma load_le_store_disjoint:
  "b + j \<le> a \<or> a + k \<le> b \<Longrightarrow> load_le (store_le m a k v) b j = load_le m b j"
  by (rule load_le_cong) (auto simp: store_le_other)

lemma load_le_copy_block:
  "load_le (copy_block m src dst n) a k =
     (if dst \<le> a \<and> a + k \<le> dst + n then load_le m (src + (a - dst)) k
      else load_le (copy_block m src dst n) a k)"
proof (induction k arbitrary: a)
  case (Suc k)
  show ?case
  proof (cases "dst \<le> a \<and> a + Suc k \<le> dst + n")
    case True
    then have "load_le (copy_block m src dst n) (Suc a) k = load_le m (Suc (src + (a - dst))) k"
      using Suc [of "Suc a"] by (simp add: Suc_diff_le)
    with True show ?thesis by (simp add: copy_block_def)
  qed auto
qed simp

lemma load_le_copy_block_in:
  "dst \<le> a \<Longrightarrow> a + k \<le> dst + n \<Longrightarrow>
   load_le (copy_block m src dst n) a k = load_le m (src + (a - dst)) k"
  by (subst load_le_copy_block) simp

lemma load_le_copy_block_out:
  "a + k \<le> dst \<or> dst + n \<le> a \<Longrightarrow> load_le (copy_block m src dst n) a k = load_le m a k"
  by (rule load_le_cong) (auto simp: copy_block_def)

lemma load_le_fill_block_out:
  "a + k \<le> b \<or> b + n \<le> a \<Longrightarrow> load_le (fill_block m b n c) a k = load_le m a k"
  by (rule load_le_cong) (auto simp: fill_block_def)

lemma load64_store64_same [simp, mem_simps]: "load64 (store64 m a v) a = v"
  using unat_lt_64 [of v] by (simp add: load64_def store64_def load_store_le)

lemma load32_store32_same [simp, mem_simps]: "load32 (store32 m a v) a = v"
  using unat_lt_32 [of v] by (simp add: load32_def store32_def load_store_le)

lemma load64_store64_disjoint [mem_simps]:
  "b + 8 \<le> a \<or> a + 8 \<le> b \<Longrightarrow> load64 (store64 m a v) b = load64 m b"
  by (simp only: load64_def store64_def load_le_store_disjoint)

lemma load64_store32_disjoint [mem_simps]:
  "b + 8 \<le> a \<or> a + 4 \<le> b \<Longrightarrow> load64 (store32 m a v) b = load64 m b"
  by (simp only: load64_def store32_def load_le_store_disjoint)

lemma load32_store64_disjoint [mem_simps]:
  "b + 4 \<le> a \<or> a + 8 \<le> b \<Longrightarrow> load32 (store64 m a v) b = load32 m b"
  by (simp only: load32_def store64_def load_le_store_disjoint)

lemma load64_copy_in [mem_simps]:
  "dst \<le> a \<Longrightarrow> a + 8 \<le> dst + n \<Longrightarrow>
   load64 (copy_block m src dst n) a = load64 m (src + (a - dst))"
  unfolding load64_def by (subst load_le_copy_block_in) simp_all

lemma load64_copy_out [mem_simps]:
  "a + 8 \<le> dst \<or> dst + n \<le> a \<Longrightarrow> load64 (copy_block m src dst n) a = load64 m a"
  unfolding load64_def by (subst load_le_copy_block_out) simp_all

lemma load32_copy_in [mem_simps]:
  "dst \<le> a \<Longrightarrow> a + 4 \<le> dst + n \<Longrightarrow>
   load32 (copy_block m src dst n) a = load32 m (src + (a - dst))"
  unfolding load32_def by (subst load_le_copy_block_in) simp_all

lemma load64_fill_out [mem_simps]:
  "a + 8 \<le> b \<or> b + n \<le> a \<Longrightarrow> load64 (fill_block m b n c) a = load64 m a"
  unfolding load64_def by (subst load_le_fill_block_out) simp_all

lemma store64_other [mem_simps]: "b < a \<or> a + 8 \<le> b \<Longrightarrow> store64 m a v b = m b"
  by (simp only: store64_def store_le_other)

lemma load64_cong: "(\<And>b. a \<le> b \<Longrightarrow> b < a + 8 \<Longrightarrow> m b = m' b) \<Longrightarrow> load64 m a = load64 m' a"
  unfolding load64_def by (subst load_le_cong [of a 8 m m']) simp_all

lemma load64_zero [simp]: "load64 (\<lambda>_. 0) a = 0"
  by (simp add: load64_def eval_nat_numeral)

lemma GC_memmove_alt: "GC_memmove m src dst n = copy_block m src dst n"
  by (auto simp: GC_memmove_def copy_block_def fun_eq_iff)

lemma GC_memcpy_Inr:
  "GC_memcpy m src dst n = Inr m' \<Longrightarrow> m' = copy_block m src dst n"
  by (auto simp: GC_memcpy_def split: if_splits)

section \<open>Writes over writes\<close>

lemma store_le_byte:
  "store_le m a k v b = (if a \<le> b \<and> b < a + k then word_of_nat (v div 256 ^ (b - a)) else m b)"
proof (induction k arbitrary: m a v)
  case (Suc k)
  show ?case
  proof (cases "a < b")
    case True
    then have "256 ^ (b - a) = (256 :: nat) * 256 ^ (b - Suc a)"
      by (metis Suc_diff_Suc power_Suc)
    with True show ?thesis by (simp add: Suc div_mult2_eq)
  qed (auto simp: Suc)
qed auto

lemma store64_same: "store64 (store64 m a v) a w = store64 m a w"
  by (rule ext) (simp add: store64_def store_le_byte)

lemma store64_commute:
  "a + 8 \<le> b \<or> b + 8 \<le> a \<Longrightarrow> store64 (store64 m a v) b w = store64 (store64 m b w) a v"
  by (rule ext) (auto simp: store64_def store_le_byte)

lemma store_le_load_le: "store_le m a k (load_le m a k) = m"
proof (induction k arbitrary: a)
  case (Suc k)
  have "unat (m a) < 256" by (rule unat_lt_8)
  then have "load_le m a (Suc k) div 256 = load_le m (Suc a) k" by simp
  moreover have "(word_of_nat 256 :: byte) = 0" unfolding word_of_nat_eq_0_iff by simp
  then have "(256 :: byte) * x = 0" for x by (simp only: of_nat_numeral mult_zero_left)
  then have "(word_of_nat (load_le m a (Suc k)) :: byte) = m a" by simp
  ultimately show ?case using Suc [of "Suc a"] by simp
qed simp

lemma store64_load: "store64 m a (load64 m a) = m"
proof -
  have "unat (word_of_nat (load_le m a 8) :: 64 word) = load_le m a 8"
    using load_le_bound [of m a 8] by (intro unat_of_nat_small) simp
  then show ?thesis by (simp add: store64_def load64_def store_le_load_le)
qed

text \<open>Two words that do not overlap.\<close>

definition apart :: "pointer \<Rightarrow> pointer \<Rightarrow> bool" where
  "apart a b \<longleftrightarrow> a + 8 \<le> b \<or> b + 8 \<le> a"

lemma apart_sym: "apart a b \<Longrightarrow> apart b a"
  by (auto simp: apart_def)

lemma apart_load: "apart a b \<Longrightarrow> load64 (store64 m b v) a = load64 m a"
  unfolding apart_def by (rule load64_store64_disjoint)

lemma apart_store: "apart a b \<Longrightarrow> store64 (store64 m a v) b w = store64 (store64 m b w) a v"
  unfolding apart_def by (rule store64_commute)

section \<open>One value in many words\<close>

definition storeAll :: "pointer list \<Rightarrow> 64 word \<Rightarrow> mem \<Rightarrow> mem" where
  "storeAll slots v = fold (\<lambda>slot m. store64 m slot v) slots"

lemma storeAll_simps [simp]:
  "storeAll [] v m = m" "storeAll (a # as) v m = storeAll as v (store64 m a v)"
  "storeAll (as @ bs) v m = storeAll bs v (storeAll as v m)"
  by (simp_all add: storeAll_def)

lemma storeAll_store: "\<forall>b\<in>set as. apart a b \<Longrightarrow> storeAll as v (store64 m a w) = store64 (storeAll as v m) a w"
  by (induction as arbitrary: m) (auto simp: apart_store [of a])

lemma storeAll_load: "\<forall>a\<in>set as. apart b a \<Longrightarrow> load64 (storeAll as v m) b = load64 m b"
  by (induction as arbitrary: m) (auto simp: apart_load)

lemma storeAll_outside: "\<forall>a\<in>set as. b < a \<or> a + 8 \<le> b \<Longrightarrow> storeAll as v m b = m b"
  by (induction as arbitrary: m) (auto simp: store64_other)

lemma storeAll_inside:
  assumes "p \<in> set as" "\<forall>a\<in>set as. a = p \<or> apart p a"
  shows "load64 (storeAll as v m) p = v"
  using assms
proof (induction as arbitrary: m)
  case (Cons a as)
  show ?case
  proof (cases "p \<in> set as")
    case False
    then have "p = a" "\<forall>x\<in>set as. apart p x" using Cons.prems by auto
    then show ?thesis by (simp add: storeAll_load)
  qed (use Cons in auto)
qed simp

end
