(* ===== verification/Align.thy ===== *)
theory Align
  imports Prelude
begin

text \<open>
  Rounding of \<open>size_t\<close> values to a power of two, \<open>runtime/util/align.h\<close>. The code
  asserts \<open>b >= 1 && b == (b & -b)\<close>, here \<open>is_power2 b\<close>; the additions wrap at
  \<open>2 ^ 64\<close>, which the code of \<open>GC_sequenceAllocate\<close> relies on to see an overflow.
\<close>

definition is_power2 :: "nat \<Rightarrow> bool" where
  "is_power2 b \<longleftrightarrow> (\<exists>k<64. b = 2 ^ k)"

definition isAligned :: "nat \<Rightarrow> nat \<Rightarrow> bool" where
  "isAligned a b \<longleftrightarrow> 0 = a mod b"

definition alignDown :: "nat \<Rightarrow> nat \<Rightarrow> nat" where
  "alignDown a b = a AND wrap_sub 0 b"

definition align :: "nat \<Rightarrow> nat \<Rightarrow> nat" where
  "align a b = wrap (a + (b - 1)) AND wrap_sub 0 b"

text \<open>\<open>uintmax_t\<close> has the width of \<open>size_t\<close> here, so the Max variants compute the same.\<close>

definition isAlignedMax :: "nat \<Rightarrow> nat \<Rightarrow> bool" where
  "isAlignedMax a b \<longleftrightarrow> 0 = a mod b"

definition alignMaxDown :: "nat \<Rightarrow> nat \<Rightarrow> nat" where
  "alignMaxDown a b = a AND wrap_sub 0 b"

definition alignMax :: "nat \<Rightarrow> nat \<Rightarrow> nat" where
  "alignMax a b = wrap (a + (b - 1)) AND wrap_sub 0 b"

section \<open>Rounding as arithmetic\<close>

lemma is_power2_pos: "is_power2 b \<Longrightarrow> 0 < b"
  by (auto simp: is_power2_def)

lemma is_power2_less: "is_power2 b \<Longrightarrow> b < 18446744073709551616"
proof -
  assume "is_power2 b"
  then obtain k where k: "k < 64" "b = 2 ^ k" by (auto simp: is_power2_def)
  have "(2::nat) ^ k < 2 ^ 64" using k by (intro power_strict_increasing) auto
  with k show ?thesis by simp
qed

lemma is_power2_numeral:
  "is_power2 4" "is_power2 8" "is_power2 16" "is_power2 256" "is_power2 4096"
  unfolding is_power2_def
  by (rule exI [of _ 2], simp, rule exI [of _ 3], simp, rule exI [of _ 4], simp,
      rule exI [of _ 8], simp, rule exI [of _ 12], simp)

lemma and_neg_is_power2:
  assumes "is_power2 b" "a < 18446744073709551616"
  shows "a AND wrap_sub 0 b = a - a mod b"
proof -
  obtain k where k: "k < 64" "b = 2 ^ k" using assms(1) by (auto simp: is_power2_def)
  have "wrap_sub 0 b = 2 ^ 64 - 2 ^ k"
    using is_power2_pos [OF assms(1)] is_power2_less [OF assms(1)] k
    by (simp add: wrap_sub_def)
  then show ?thesis
    using and_neg_power_nat [of a 64 k] assms k by simp
qed

lemma alignDown_eq:
  "is_power2 b \<Longrightarrow> a < 18446744073709551616 \<Longrightarrow> alignDown a b = a - a mod b"
  by (simp add: alignDown_def and_neg_is_power2)

lemma align_eq:
  "is_power2 b \<Longrightarrow> a + (b - 1) < 18446744073709551616 \<Longrightarrow>
   align a b = (a + (b - 1)) - (a + (b - 1)) mod b"
  by (simp add: align_def and_neg_is_power2)

lemma align_eq_div:
  "is_power2 b \<Longrightarrow> a + (b - 1) < 18446744073709551616 \<Longrightarrow>
   align a b = (a + (b - 1)) div b * b"
  by (simp add: align_eq minus_mod_eq_div_mult)

lemma isAligned_0 [simp]: "isAligned 0 b"
  by (simp add: isAligned_def)

lemma isAligned_self [simp]: "isAligned b b"
  by (simp add: isAligned_def)

lemma isAligned_iff_dvd: "isAligned a b \<longleftrightarrow> b dvd a"
  by (auto simp: isAligned_def dvd_eq_mod_eq_0)

lemma isAligned_add: "isAligned a b \<Longrightarrow> isAligned c b \<Longrightarrow> isAligned (a + c) b"
  by (simp add: isAligned_iff_dvd)

lemma isAligned_diff: "isAligned a b \<Longrightarrow> isAligned c b \<Longrightarrow> isAligned (a - c) b"
  by (simp add: isAligned_iff_dvd dvd_diff_nat)

lemma isAligned_less_add:
  "isAligned a b \<Longrightarrow> isAligned c b \<Longrightarrow> a < c \<Longrightarrow> a + b \<le> c"
  unfolding isAligned_iff_dvd
  by (metis add.commute dvd_imp_le le_add_diff_inverse less_imp_le_nat nat_add_left_cancel_le
      zero_less_diff dvd_diff_nat)

lemma align_aligned: "is_power2 b \<Longrightarrow> a + (b - 1) < 18446744073709551616 \<Longrightarrow> isAligned (align a b) b"
  by (simp add: align_eq_div isAligned_def)

lemma alignDown_aligned: "is_power2 b \<Longrightarrow> a < 18446744073709551616 \<Longrightarrow> isAligned (alignDown a b) b"
  by (simp add: alignDown_eq isAligned_iff_dvd)

lemma alignDown_le: "is_power2 b \<Longrightarrow> a < 18446744073709551616 \<Longrightarrow> alignDown a b \<le> a"
  by (simp add: alignDown_eq)

lemma alignDown_gt: "is_power2 b \<Longrightarrow> a < 18446744073709551616 \<Longrightarrow> a < alignDown a b + b"
  using mod_less_divisor [of b a] mod_less_eq_dividend [of a b] is_power2_pos [of b]
  unfolding alignDown_eq by linarith

lemma align_ge:
  assumes "is_power2 b" "a + (b - 1) < 18446744073709551616"
  shows "a \<le> align a b"
proof -
  have "(a + (b - 1)) mod b \<le> b - 1"
    using mod_less_divisor [of b "a + (b - 1)"] is_power2_pos [OF assms(1)] by linarith
  then show ?thesis using assms by (simp add: align_eq)
qed

lemma align_less:
  assumes "is_power2 b" "a + (b - 1) < 18446744073709551616"
  shows "align a b < a + b"
  using assms is_power2_pos [OF assms(1)] by (simp add: align_eq)

lemma align_least:
  assumes "is_power2 b" "a + (b - 1) < 18446744073709551616" "isAligned c b" "a \<le> c"
  shows "align a b \<le> c"
proof (rule ccontr)
  assume "\<not> align a b \<le> c"
  then have "c + b \<le> align a b"
    using isAligned_less_add [OF assms(3) align_aligned [OF assms(1,2)]] by simp
  with align_less [OF assms(1,2)] assms(4) show False by simp
qed

lemma align_id: "is_power2 b \<Longrightarrow> a + (b - 1) < 18446744073709551616 \<Longrightarrow> isAligned a b \<Longrightarrow> align a b = a"
  by (intro antisym align_least align_ge) auto

lemma align_mono:
  assumes "is_power2 b" "c + (b - 1) < 18446744073709551616" "a \<le> c"
  shows "align a b \<le> align c b"
  using assms align_ge [of b c] align_aligned [of b c] by (intro align_least) auto

text \<open>When the addition wraps, the result is 0, below the argument.\<close>

lemma align_overflow:
  assumes "is_power2 b" "a < 18446744073709551616" "\<not> a + (b - 1) < 18446744073709551616"
  shows "align a b = 0"
proof -
  have b: "b < 18446744073709551616" by (rule is_power2_less [OF assms(1)])
  have "wrap (a + (b - 1)) = a + (b - 1) - 18446744073709551616"
    unfolding wrap_def using assms b by (subst le_mod_geq) auto
  then have "wrap (a + (b - 1)) < b" using assms b by simp
  then have "wrap (a + (b - 1)) mod b = wrap (a + (b - 1))" by (rule mod_less)
  then show ?thesis
    by (simp only: align_def and_neg_is_power2 [OF assms(1) wrap_bound] diff_self_eq_0)
qed

text \<open>The test of \<open>GC_sequenceAllocate\<close> for an overflow of the rounding.\<close>

lemma align_less_iff_overflow:
  assumes "is_power2 b" "0 < a" "a < 18446744073709551616"
  shows "align a b < a \<longleftrightarrow> \<not> a + (b - 1) < 18446744073709551616"
  using align_ge [of b a] align_overflow [of b a] assms by (auto simp: not_le)

section \<open>Rounding up\<close>

text \<open>
  For a power of two \<open>b\<close>, \<open>align a b\<close> is the least multiple of \<open>b\<close> that is not below
  \<open>a\<close>; when the rounding would pass \<open>2 ^ 64\<close> the result is 0, below the argument, so
  that a caller can see the overflow.
\<close>

theorem align_spec:
  assumes "is_power2 b" "a < 18446744073709551616"
  shows "if a + (b - 1) < 18446744073709551616
         then isAligned (align a b) b \<and> a \<le> align a b
              \<and> (\<forall>c. isAligned c b \<longrightarrow> a \<le> c \<longrightarrow> align a b \<le> c)
         else align a b = 0"
  using assms by (simp add: align_aligned align_ge align_least align_overflow)

theorem align_spec_witness:
  "isAligned (align 4097 4096) 4096 \<and> 4097 \<le> align 4097 4096
   \<and> align 18446744073709551615 8 = 0"
  using align_spec [of 4096 4097] align_spec [of 8 18446744073709551615]
  by (simp add: is_power2_numeral)

end
