(* ===== verification/Floats.thy ===== *)
theory Floats
  imports Prelude "HOL-Library.Log_Nat"
begin

text \<open>
  The floating-point arithmetic of the sizing policies. A \<open>double\<close> or \<open>float\<close> value is
  the rational number it denotes; every operation rounds its exact result to 53
  (\<open>double\<close>) or 24 (\<open>float\<close>) binary digits, to nearest, ties to even, as IEEE 754
  does. The exponent range is not bounded: the policies multiply and divide sizes
  below \<open>2 ^ 64\<close> by ratios, far from the limits of the formats. A quotient with
  divisor 0 is written out where the code can meet one.
\<close>

type_synonym double = rat

section \<open>Rounding\<close>

text \<open>The exponent of the leading binary digit of a positive number.\<close>

definition ilog2 :: "rat \<Rightarrow> int" where
  "ilog2 x = (if 1 \<le> x then bitlen \<lfloor>x\<rfloor> - 1 else - bitlen (\<lceil>1 / x\<rceil> - 1))"

definition round_even :: "rat \<Rightarrow> int" where
  "round_even x = (let n = \<lfloor>x\<rfloor>; d = x - of_int n in
     if d < 1 / 2 then n else if 1 / 2 < d then n + 1 else if even n then n else n + 1)"

definition rnd :: "nat \<Rightarrow> rat \<Rightarrow> rat" where
  "rnd p x = (if x = 0 then 0
     else let u = 2 powi (ilog2 \<bar>x\<bar> + 1 - int p) in of_int (round_even (x / u)) * u)"

abbreviation dbl :: "rat \<Rightarrow> double" where "dbl \<equiv> rnd 53"
abbreviation flt :: "rat \<Rightarrow> double" where "flt \<equiv> rnd 24"

definition dbl_of_size :: "nat \<Rightarrow> double" where "dbl_of_size n = dbl (of_nat n)"
definition flt_of_size :: "nat \<Rightarrow> double" where "flt_of_size n = flt (of_nat n)"

text \<open>\<open>(size_t) x\<close> truncates; the code applies it to values below \<open>2 ^ 64\<close> only.\<close>

definition size_of_dbl :: "double \<Rightarrow> nat" where "size_of_dbl x = nat \<lfloor>x\<rfloor>"

section \<open>The leading digit\<close>

lemma bitlen_lower: "0 < n \<Longrightarrow> (2::rat) powi (bitlen n - 1) \<le> of_int n"
proof -
  assume "0 < n"
  then have "2 ^ nat (bitlen n - 1) \<le> n" and "1 \<le> bitlen n"
    using bitlen_bounds [of n] by (auto simp: bitlen_alt_def)
  then have "(2::rat) ^ nat (bitlen n - 1) \<le> of_int n"
    by (metis of_int_le_iff of_int_numeral of_int_power)
  with \<open>1 \<le> bitlen n\<close> show ?thesis by (simp add: power_int_def)
qed

lemma bitlen_upper: "0 < n \<Longrightarrow> of_int n + 1 \<le> (2::rat) powi bitlen n"
proof -
  assume "0 < n"
  then have "n + 1 \<le> 2 ^ nat (bitlen n)"
    using bitlen_bounds [of n] by auto
  then have "(of_int (n + 1) :: rat) \<le> 2 ^ nat (bitlen n)"
    by (metis of_int_le_iff of_int_numeral of_int_power)
  then show ?thesis by (simp add: power_int_def bitlen_nonneg)
qed

lemma ilog2_bounds:
  assumes "0 < x"
  shows "2 powi ilog2 x \<le> x" "x < 2 powi (ilog2 x + 1)"
proof -
  have "2 powi ilog2 x \<le> x \<and> x < 2 powi (ilog2 x + 1)"
  proof (cases "1 \<le> x")
    case True
    then have "0 < \<lfloor>x\<rfloor>" by simp
    from bitlen_lower [OF this] bitlen_upper [OF this] True show ?thesis
      by (simp add: ilog2_def) linarith
  next
    case False
    define n where "n = \<lceil>1 / x\<rceil> - 1"
    have gt: "1 < 1 / x" using False assms by simp
    then have n: "0 < n" by (simp add: n_def less_ceiling_iff)
    have lo: "of_int n < 1 / x" and hi: "1 / x \<le> of_int n + 1"
      unfolding n_def by linarith+
    have "1 / x \<le> 2 powi bitlen n"
      using bitlen_upper [OF n] hi by linarith
    then have a: "2 powi (- bitlen n) \<le> x"
      using assms by (simp add: power_int_minus field_simps)
    have "2 powi (bitlen n - 1) < 1 / x"
      using bitlen_lower [OF n] lo by linarith
    then have b: "x < 2 powi (1 - bitlen n)"
      using assms by (simp add: power_int_diff power_int_minus field_simps)
    from a b False show ?thesis
      by (simp add: ilog2_def n_def add.commute)
  qed
  then show "2 powi ilog2 x \<le> x" "x < 2 powi (ilog2 x + 1)" by auto
qed

lemma ilog2_mono: "0 < x \<Longrightarrow> x \<le> y \<Longrightarrow> ilog2 x \<le> ilog2 y"
proof (rule ccontr)
  assume a: "0 < x" "x \<le> y" "\<not> ilog2 x \<le> ilog2 y"
  then have "(2::rat) powi (ilog2 y + 1) \<le> 2 powi ilog2 x"
    by (simp add: power_int_increasing)
  with ilog2_bounds [of x] ilog2_bounds [of y] a show False by simp
qed

section \<open>Rounding to an integer\<close>

lemma round_even_of_int [simp]: "round_even (of_int n) = n"
  by (simp add: round_even_def)

lemma round_even_error: "\<bar>of_int (round_even x) - x\<bar> \<le> 1 / 2"
  unfolding round_even_def Let_def by (auto simp: abs_if split: if_splits) linarith+

lemma round_even_bounds: "\<lfloor>x\<rfloor> \<le> round_even x" "round_even x \<le> \<lceil>x\<rceil>"
  unfolding round_even_def Let_def by (auto split: if_splits) linarith+

lemma round_even_mono: "x \<le> y \<Longrightarrow> round_even x \<le> round_even y"
proof -
  assume le: "x \<le> y"
  show ?thesis
  proof (cases "\<lfloor>x\<rfloor> = \<lfloor>y\<rfloor>")
    case True
    with le show ?thesis unfolding round_even_def Let_def by auto
  next
    case False
    then have "\<lfloor>x\<rfloor> + 1 \<le> \<lfloor>y\<rfloor>" using floor_mono [OF le] by linarith
    moreover have "round_even x \<le> \<lfloor>x\<rfloor> + 1"
      unfolding round_even_def Let_def by auto
    ultimately show ?thesis using round_even_bounds(1) [of y] by linarith
  qed
qed

section \<open>Rounding to a precision\<close>

lemma rnd_0 [simp]: "rnd p 0 = 0"
  by (simp add: rnd_def)

lemma rnd_nonneg: "0 \<le> x \<Longrightarrow> 0 \<le> rnd p x"
proof -
  assume "0 \<le> x"
  then have "0 \<le> x / 2 powi (ilog2 \<bar>x\<bar> + 1 - int p)" by simp
  then have "0 \<le> round_even (x / 2 powi (ilog2 \<bar>x\<bar> + 1 - int p))"
    using round_even_mono [of 0] round_even_of_int [of 0] by fastforce
  then show ?thesis by (simp add: rnd_def Let_def)
qed

lemma rnd_nonpos: "x \<le> 0 \<Longrightarrow> rnd p x \<le> 0"
proof -
  assume "x \<le> 0"
  then have "x / 2 powi (ilog2 \<bar>x\<bar> + 1 - int p) \<le> 0" by (simp add: divide_nonpos_pos)
  then have "round_even (x / 2 powi (ilog2 \<bar>x\<bar> + 1 - int p)) \<le> 0"
    using round_even_mono [of _ 0] round_even_of_int [of 0] by fastforce
  then show ?thesis by (simp add: rnd_def Let_def mult_nonpos_nonneg)
qed

text \<open>The relative error of one rounding is at most \<open>2 ^ - p\<close>.\<close>

lemma rnd_error:
  assumes "0 < x"
  shows "\<bar>rnd p x - x\<bar> \<le> x / 2 ^ p"
proof -
  define u :: rat where "u = 2 powi (ilog2 x + 1 - int p)"
  have u: "0 < u" by (simp add: u_def)
  have "u = 2 powi ilog2 x * (2 / 2 ^ p)"
    by (simp add: u_def power_int_add power_int_diff)
  then have up: "u / 2 \<le> x / 2 ^ p"
    using ilog2_bounds(1) [OF assms] by (simp add: divide_right_mono)
  have "\<bar>of_int (round_even (x / u)) * u - x\<bar> = \<bar>of_int (round_even (x / u)) - x / u\<bar> * u"
    using u by (simp add: abs_mult field_simps flip: abs_of_pos)
  also have "\<dots> \<le> 1 / 2 * u"
    using round_even_error [of "x / u"] u by (intro mult_right_mono) auto
  finally have "\<bar>of_int (round_even (x / u)) * u - x\<bar> \<le> x / 2 ^ p"
    using up by linarith
  then show ?thesis
    using assms by (simp add: rnd_def u_def [symmetric])
qed

text \<open>A whole number of at most \<open>p\<close> binary digits is not changed.\<close>

lemma rnd_exact:
  assumes "x = of_int n * 2 powi k" "\<bar>n\<bar> < 2 ^ p"
  shows "rnd p x = x"
proof (cases "n = 0")
  case False
  then have x: "0 < \<bar>x\<bar>" using assms by simp
  define e where "e = ilog2 \<bar>x\<bar> + 1 - int p"
  have "(of_int \<bar>n\<bar> :: rat) < 2 ^ p"
    using assms(2) by (metis of_int_less_iff of_int_numeral of_int_power)
  then have "\<bar>x\<bar> < 2 ^ p * 2 powi k"
    using assms(1) by (simp add: abs_mult)
  then have "\<bar>x\<bar> < 2 powi (int p + k)" by (simp add: power_int_add)
  then have "(2::rat) powi ilog2 \<bar>x\<bar> < 2 powi (int p + k)"
    using ilog2_bounds(1) [OF x] by linarith
  then have "ilog2 \<bar>x\<bar> < int p + k"
    by (meson leD le_less_linear one_le_numeral power_int_increasing)
  then have "0 \<le> k - e" by (simp add: e_def)
  have "x / 2 powi e = of_int n * 2 powi (k - e)"
    using assms(1) by (simp add: power_int_diff)
  also have "\<dots> = of_int (n * 2 ^ nat (k - e))"
    using \<open>0 \<le> k - e\<close> by (simp add: power_int_def)
  finally have "x / 2 powi e = of_int (n * 2 ^ nat (k - e))" .
  then have "of_int (round_even (x / 2 powi e)) * 2 powi e = x"
    by (metis round_even_of_int nonzero_eq_divide_eq power_int_eq_0_iff zero_neq_numeral)
  then show ?thesis using x by (simp add: rnd_def e_def [symmetric])
qed (use assms in simp)

corollary rnd_of_nat: "n < 2 ^ p \<Longrightarrow> rnd p (of_nat n) = of_nat n"
  by (rule rnd_exact [of _ "int n" 0]) (simp_all flip: of_nat_power)

text \<open>Rounding keeps the order, so it never moves past a representable number.\<close>

lemma rnd_mono_pos:
  assumes "0 < x" "x \<le> y" "0 < p"
  shows "rnd p x \<le> rnd p y"
proof -
  define ex ey where "ex = ilog2 x" and "ey = ilog2 y"
  have y: "0 < y" using assms by simp
  have ex: "ex \<le> ey" unfolding ex_def ey_def by (rule ilog2_mono [OF assms(1,2)])
  have rx: "rnd p x = of_int (round_even (x / 2 powi (ex + 1 - int p))) * 2 powi (ex + 1 - int p)"
    and ry: "rnd p y = of_int (round_even (y / 2 powi (ey + 1 - int p))) * 2 powi (ey + 1 - int p)"
    using assms y by (simp_all add: rnd_def ex_def ey_def Let_def)
  show ?thesis
  proof (cases "ex = ey")
    case True
    have "x / 2 powi (ey + 1 - int p) \<le> y / 2 powi (ey + 1 - int p)"
      using assms by (simp add: divide_right_mono)
    from round_even_mono [OF this] show ?thesis
      unfolding rx ry True by (simp add: mult_right_mono)
  next
    case False
    have "x \<le> 2 powi (ex + 1)"
      unfolding ex_def using ilog2_bounds(2) [OF assms(1)] by simp
    then have "x / 2 powi (ex + 1 - int p) \<le> of_int (2 ^ p)"
      by (simp add: power_int_diff field_simps)
    from round_even_mono [OF this] have "round_even (x / 2 powi (ex + 1 - int p)) \<le> 2 ^ p"
      by (simp only: round_even_of_int)
    then have "rnd p x \<le> of_int (2 ^ p) * 2 powi (ex + 1 - int p)"
      unfolding rx by (intro mult_right_mono) (simp_all only: of_int_le_iff zero_le_power_int zero_le_numeral)
    also have "\<dots> = 2 powi (ex + 1)"
      by (simp add: power_int_diff)
    also have "\<dots> \<le> 2 powi ey"
      using ex False by (intro power_int_increasing) auto
    also have "\<dots> = of_int (2 ^ (p - 1)) * 2 powi (ey + 1 - int p)"
      using assms(3) by (cases p) (simp_all add: power_int_diff power_int_add)
    also have "\<dots> \<le> rnd p y"
    proof -
      have "2 powi ey \<le> y" unfolding ey_def by (rule ilog2_bounds(1) [OF y])
      then have "of_int (2 ^ (p - 1)) \<le> y / 2 powi (ey + 1 - int p)"
        using assms(3) by (cases p) (simp_all add: power_int_diff power_int_add field_simps)
      from round_even_mono [OF this] have "2 ^ (p - 1) \<le> round_even (y / 2 powi (ey + 1 - int p))"
        by (simp only: round_even_of_int)
      then show ?thesis
        unfolding ry by (intro mult_right_mono) (simp_all only: of_int_le_iff zero_le_power_int zero_le_numeral)
    qed
    finally show ?thesis .
  qed
qed

lemma rnd_mono: "0 \<le> x \<Longrightarrow> x \<le> y \<Longrightarrow> 0 < p \<Longrightarrow> rnd p x \<le> rnd p y"
  using rnd_mono_pos [of x y p] rnd_nonneg [of y p] by (cases "x = 0") auto

corollary rnd_ge_nat: "n < 2 ^ p \<Longrightarrow> 0 < p \<Longrightarrow> of_nat n \<le> x \<Longrightarrow> of_nat n \<le> rnd p x"
  using rnd_mono [of "of_nat n" x p] by (simp add: rnd_of_nat)

corollary rnd_le_nat: "n < 2 ^ p \<Longrightarrow> 0 < p \<Longrightarrow> 0 \<le> x \<Longrightarrow> x \<le> of_nat n \<Longrightarrow> rnd p x \<le> of_nat n"
  using rnd_mono [of x "of_nat n" p] by (simp add: rnd_of_nat)

end
