(* ===== verification/GC_State.thy ===== *)
theory GC_State
  imports Memory Align Floats
begin

text \<open>
  The state of the collector: the records of the header files of \<open>runtime/gc\<close>, one
  field per field of the C structure, and the byte memory that everything in the heap
  lives in. Fields whose address the collector takes
  (\<open>&s->currentThread\<close> and its three companions, which \<open>foreachGlobalObjptr\<close> hands to
  closures that write through it) live in the memory: the record keeps their address
  and \<open>currentThread\<close> and the others read them.

  Counters of type \<open>uintmax_t\<close> are natural numbers without a bound. The \<open>float\<close> ratios
  are the rational numbers they denote. Diagnostic output is not modelled.
\<close>

section \<open>Tables the compiled program supplies\<close>

datatype GC_objectTypeTag = NORMAL_TAG | SEQUENCE_TAG | STACK_TAG | WEAK_TAG

record GC_objectType =
  tag :: GC_objectTypeTag
  hasIdentity :: bool
  bytesNonObjptrs :: nat
  numObjptrs :: nat

datatype GC_frameKind = CONT_FRAME | CRETURN_FRAME | FUNC_FRAME | HANDLER_FRAME

text \<open>
  \<open>offsets\<close> holds the elements after the zeroth; the zeroth element of the C array is
  their number.
\<close>

record GC_frameInfo =
  frame_kind :: GC_frameKind
  offsets :: "nat list"
  frame_size :: nat
  sourceSeqIndex :: nat

record GC_source =
  sourceNameIndex :: nat
  successorSourceSeqIndex :: nat

text \<open>
  A source sequence is the list of its source indices; the C array starts with their
  number.
\<close>

record GC_sourceMaps =
  curSourceSeqIndex :: nat
  sourceNames :: "string list"
  sourceSeqs :: "nat list list"
  sources :: "GC_source list"

section \<open>Heaps\<close>

record GC_heap =
  nursery :: pointer
  oldGenSize :: nat
  heapSize :: nat
  heapStart :: pointer
  withMapsSize :: nat

record GC_staticHeap =
  staticStart :: pointer
  staticSize :: nat

record GC_staticHeaps =
  dynamicHeap :: GC_staticHeap
  immutableHeap :: GC_staticHeap
  mutableHeap :: GC_staticHeap
  rootHeap :: GC_staticHeap

record GC_generationalMaps =
  cardMap :: pointer
  cardMapAbsolute :: nat
  cardMapLength :: nat
  crossMap :: pointer
  crossMapLength :: nat
  crossMapValidSize :: nat

section \<open>Controls, statistics, system values\<close>

record GC_ratios =
  copy_ratio :: double
  copyGenerational :: double
  grow_ratio :: double
  hashCons_ratio :: double
  live_ratio :: double
  markCompact :: double
  markCompactGenerational :: double
  nursery_ratio :: double
  ramSlop :: double
  stackCurrentGrow :: double
  stackCurrentMaxReserved :: double
  stackCurrentPermitReserved :: double
  stackCurrentShrink :: double
  stackMaxReserved :: double
  stackShrink :: double

record GC_controls =
  fixedHeap :: nat
  maxHeap :: nat
  mayLoadWorld :: bool
  mayPageHeap :: bool
  mayProcessAtMLton :: bool
  messages :: bool
  oldGenSequenceSize :: nat
  ratios :: GC_ratios
  rusageMeasureGC :: bool
  summary :: bool
  summaryFile :: string

record timeval =
  tv_sec :: int
  tv_usec :: int

record rusage =
  ru_utime :: timeval
  ru_stime :: timeval

record GC_cumulativeStatistics =
  bytesAllocated :: nat
  bytesCopied :: nat
  bytesCopiedMinor :: nat
  bytesHashConsed :: nat
  bytesMarkCompacted :: nat
  bytesScannedMinor :: nat
  bytesStackAllocated :: nat
  maxBytesLive :: nat
  maxHeapSize :: nat
  maxPauseTime :: nat
  maxStackSize :: nat
  maxRegionBytesLive :: nat
  numCardsMarked :: nat
  numGCs :: nat
  numCopyingGCs :: nat
  numHashConsGCs :: nat
  numMarkCompactGCs :: nat
  numMinorGCs :: nat
  ru_gc :: rusage
  ru_gcCopying :: rusage
  ru_gcMarkCompact :: rusage
  ru_gcMinor :: rusage

datatype GC_majorKind = GC_COPYING | GC_MARK_COMPACT

record GC_lastMajorStatistics =
  lm_bytesHashConsed :: nat
  lm_bytesLive :: nat
  lm_kind :: GC_majorKind
  lm_numMinorGCs :: nat

record GC_sysvals =
  ram :: nat
  pageSize :: nat
  physMem :: nat

section \<open>Signals, profiling, hash-consing\<close>

record GC_signalsInfo =
  amInSignalHandler :: bool
  gcSignalHandled :: bool
  gcSignalPending :: bool
  signalIsPending :: bool
  signalsHandled :: "nat set"
  signalsPending :: "nat set"

datatype GC_profileKind = PROFILE_ALLOC | PROFILE_COUNT | PROFILE_NONE | PROFILE_TIME

record GC_profileStack =
  ticks :: nat
  ticksGC :: nat
  lastTotal :: nat
  lastTotalGC :: nat
  numOccurrences :: nat

record GC_profileData =
  countTop :: "nat list"
  profStack :: "GC_profileStack list"
  total :: nat
  totalGC :: nat

record GC_profiling =
  prof_data :: GC_profileData
  isOn :: bool
  prof_kind :: GC_profileKind
  prof_stack :: bool

text \<open>An element with the null object pointer is a free slot of the table.\<close>

record GC_objectHashElement =
  elem_hash :: "32 word"
  elem_object :: pointer

record GC_objectHashTable =
  elements :: "GC_objectHashElement list"
  elementsIsInHeap :: bool
  elementsLengthCur :: nat
  elementsLengthMax :: nat
  elementsLengthMaxLog2 :: nat
  mayInsert :: bool

section \<open>The collector\<close>

record GC_state =
  mem :: mem
  frontier :: pointer
  limit :: pointer
  stackTop :: pointer
  stackLimit :: pointer
  exnStack :: "64 word"
  alignment :: nat
  amInGC :: bool
  amOriginal :: bool
  atomicState :: "32 word"
  callFromCHandlerThreadp :: pointer
  callFromCOpArgsResPtr :: pointer
  canMinor :: bool
  controls :: GC_controls
  cumulativeStatistics :: GC_cumulativeStatistics
  currentThreadp :: pointer
  frameInfos :: "GC_frameInfo list"
  generationalMaps :: GC_generationalMaps
  globals :: pointer
  globalsLength :: nat
  hashConsDuringGC :: bool
  heap :: GC_heap
  lastMajorStatistics :: GC_lastMajorStatistics
  limitPlusSlop :: pointer
  magic :: "32 word"
  maxFrameSize :: nat
  mutatorMarksCards :: bool
  objectHashTable :: GC_objectHashTable
  objectTypes :: "GC_objectType list"
  profiling :: GC_profiling
  regionBuffer :: pointer
  regionBufferSize :: nat
  regionTop :: pointer
  regionBase :: pointer
  returnAddressToFrameIndex :: "64 word \<Rightarrow> nat"
  savedThreadp :: pointer
  saveWorldStatus :: bool
  secondaryHeap :: GC_heap
  signalHandlerThreadp :: pointer
  signalsInfo :: GC_signalsInfo
  sourceMaps :: GC_sourceMaps
  stackBottom :: pointer
  staticHeaps :: GC_staticHeaps
  sysvals :: GC_sysvals
  weaks :: pointer
  osCalls :: nat
  addressScanDir :: bool

text \<open>
  The operating system and the C library: what the n-th call returns (of \<open>malloc\<close> and
  \<open>calloc\<close>, whether they return memory). \<open>osCalls\<close> of the state counts the
  calls made so far; \<open>addressScanDir\<close> is the static variable of \<open>createHeap\<close>.
\<close>

record OS =
  os_mmapAnon :: "nat \<Rightarrow> pointer \<Rightarrow> nat \<Rightarrow> pointer option"
  os_mremap :: "nat \<Rightarrow> pointer \<Rightarrow> nat \<Rightarrow> nat \<Rightarrow> pointer option"
  os_getrusage :: "nat \<Rightarrow> rusage"
  os_malloc :: "nat \<Rightarrow> nat \<Rightarrow> bool"

section \<open>Memory-resident fields\<close>

abbreviation BOGUS_OBJPTR :: objptr where "BOGUS_OBJPTR \<equiv> 1"

definition callFromCHandlerThread :: "GC_state \<Rightarrow> objptr" where
  "callFromCHandlerThread s = load64 (mem s) (callFromCHandlerThreadp s)"

definition currentThread :: "GC_state \<Rightarrow> objptr" where
  "currentThread s = load64 (mem s) (currentThreadp s)"

definition savedThread :: "GC_state \<Rightarrow> objptr" where
  "savedThread s = load64 (mem s) (savedThreadp s)"

definition signalHandlerThread :: "GC_state \<Rightarrow> objptr" where
  "signalHandlerThread s = load64 (mem s) (signalHandlerThreadp s)"

definition write64 :: "pointer \<Rightarrow> 64 word \<Rightarrow> GC_state \<Rightarrow> GC_state" where
  "write64 a v s = s\<lparr>mem := store64 (mem s) a v\<rparr>"

definition write32 :: "pointer \<Rightarrow> 32 word \<Rightarrow> GC_state \<Rightarrow> GC_state" where
  "write32 a v s = s\<lparr>mem := store32 (mem s) a v\<rparr>"

lemma write64_mem [simp]: "mem (write64 a v s) = store64 (mem s) a v"
  by (simp add: write64_def)

lemma write32_mem [simp]: "mem (write32 a v s) = store32 (mem s) a v"
  by (simp add: write32_def)

text \<open>Nested field updates, as \<open>s->heap.f = ...\<close> in the code.\<close>

definition heap_upd :: "(GC_heap \<Rightarrow> GC_heap) \<Rightarrow> GC_state \<Rightarrow> GC_state" where
  "heap_upd f s = s\<lparr>heap := f (heap s)\<rparr>"

definition secondaryHeap_upd :: "(GC_heap \<Rightarrow> GC_heap) \<Rightarrow> GC_state \<Rightarrow> GC_state" where
  "secondaryHeap_upd f s = s\<lparr>secondaryHeap := f (secondaryHeap s)\<rparr>"

definition cumul_upd :: "(GC_cumulativeStatistics \<Rightarrow> GC_cumulativeStatistics) \<Rightarrow> GC_state \<Rightarrow> GC_state" where
  "cumul_upd f s = s\<lparr>cumulativeStatistics := f (cumulativeStatistics s)\<rparr>"

definition lastMajor_upd :: "(GC_lastMajorStatistics \<Rightarrow> GC_lastMajorStatistics) \<Rightarrow> GC_state \<Rightarrow> GC_state" where
  "lastMajor_upd f s = s\<lparr>lastMajorStatistics := f (lastMajorStatistics s)\<rparr>"

definition maps_upd :: "(GC_generationalMaps \<Rightarrow> GC_generationalMaps) \<Rightarrow> GC_state \<Rightarrow> GC_state" where
  "maps_upd f s = s\<lparr>generationalMaps := f (generationalMaps s)\<rparr>"

definition signals_upd :: "(GC_signalsInfo \<Rightarrow> GC_signalsInfo) \<Rightarrow> GC_state \<Rightarrow> GC_state" where
  "signals_upd f s = s\<lparr>signalsInfo := f (signalsInfo s)\<rparr>"

lemmas upd_defs = heap_upd_def secondaryHeap_upd_def cumul_upd_def lastMajor_upd_def
  maps_upd_def signals_upd_def write64_def write32_def

section \<open>The zero state\<close>

text \<open>
  The state in which every field is zero, as static storage is before the program sets
  it up. The examples below are updates of it.
\<close>

definition timeval0 :: timeval where
  "timeval0 = \<lparr>
     tv_sec = 0, tv_usec = 0\<rparr>"

definition rusage0 :: rusage where
  "rusage0 = \<lparr>
     ru_utime = timeval0, ru_stime = timeval0\<rparr>"

definition GC_heap0 :: GC_heap where
  "GC_heap0 = \<lparr>
     nursery = 0, oldGenSize = 0, heapSize = 0, heapStart = 0, withMapsSize = 0\<rparr>"

definition GC_staticHeap0 :: GC_staticHeap where
  "GC_staticHeap0 = \<lparr>
     staticStart = 0, staticSize = 0\<rparr>"

definition GC_staticHeaps0 :: GC_staticHeaps where
  "GC_staticHeaps0 = \<lparr>
     dynamicHeap = GC_staticHeap0, immutableHeap = GC_staticHeap0, mutableHeap =
     GC_staticHeap0, rootHeap = GC_staticHeap0\<rparr>"

definition GC_generationalMaps0 :: GC_generationalMaps where
  "GC_generationalMaps0 = \<lparr>
     cardMap = 0, cardMapAbsolute = 0, cardMapLength = 0, crossMap = 0, crossMapLength = 0,
     crossMapValidSize = 0\<rparr>"

definition GC_ratios0 :: GC_ratios where
  "GC_ratios0 = \<lparr>
     copy_ratio = 0, copyGenerational = 0, grow_ratio = 0, hashCons_ratio = 0, live_ratio =
     0, markCompact = 0, markCompactGenerational = 0, nursery_ratio = 0, ramSlop = 0,
     stackCurrentGrow = 0, stackCurrentMaxReserved = 0, stackCurrentPermitReserved = 0,
     stackCurrentShrink = 0, stackMaxReserved = 0, stackShrink = 0\<rparr>"

definition GC_controls0 :: GC_controls where
  "GC_controls0 = \<lparr>
     fixedHeap = 0, maxHeap = 0, mayLoadWorld = False, mayPageHeap = False,
     mayProcessAtMLton = False, messages = False, oldGenSequenceSize = 0, ratios =
     GC_ratios0, rusageMeasureGC = False, summary = False, summaryFile = []\<rparr>"

definition GC_cumulativeStatistics0 :: GC_cumulativeStatistics where
  "GC_cumulativeStatistics0 = \<lparr>
     bytesAllocated = 0, bytesCopied = 0, bytesCopiedMinor = 0, bytesHashConsed = 0,
     bytesMarkCompacted = 0, bytesScannedMinor = 0, bytesStackAllocated = 0, maxBytesLive =
     0, maxHeapSize = 0, maxPauseTime = 0, maxStackSize = 0, maxRegionBytesLive = 0,
     numCardsMarked = 0, numGCs = 0, numCopyingGCs = 0, numHashConsGCs = 0,
     numMarkCompactGCs = 0, numMinorGCs = 0, ru_gc = rusage0, ru_gcCopying = rusage0,
     ru_gcMarkCompact = rusage0, ru_gcMinor = rusage0\<rparr>"

definition GC_lastMajorStatistics0 :: GC_lastMajorStatistics where
  "GC_lastMajorStatistics0 = \<lparr>
     lm_bytesHashConsed = 0, lm_bytesLive = 0, lm_kind = GC_COPYING, lm_numMinorGCs = 0\<rparr>"

definition GC_sysvals0 :: GC_sysvals where
  "GC_sysvals0 = \<lparr>
     ram = 0, pageSize = 0, physMem = 0\<rparr>"

definition GC_signalsInfo0 :: GC_signalsInfo where
  "GC_signalsInfo0 = \<lparr>
     amInSignalHandler = False, gcSignalHandled = False, gcSignalPending = False,
     signalIsPending = False, signalsHandled = {}, signalsPending = {}\<rparr>"

definition GC_profileData0 :: GC_profileData where
  "GC_profileData0 = \<lparr>
     countTop = [], profStack = [], total = 0, totalGC = 0\<rparr>"

definition GC_profiling0 :: GC_profiling where
  "GC_profiling0 = \<lparr>
     prof_data = GC_profileData0, isOn = False, prof_kind = PROFILE_NONE, prof_stack = False\<rparr>"

definition GC_objectHashTable0 :: GC_objectHashTable where
  "GC_objectHashTable0 = \<lparr>
     elements = [], elementsIsInHeap = False, elementsLengthCur = 0, elementsLengthMax = 0,
     elementsLengthMaxLog2 = 0, mayInsert = False\<rparr>"

definition GC_sourceMaps0 :: GC_sourceMaps where
  "GC_sourceMaps0 = \<lparr>
     curSourceSeqIndex = 0, sourceNames = [], sourceSeqs = [], sources = []\<rparr>"

definition state0 :: GC_state where
  "state0 = \<lparr>
     mem = \<lambda>_. 0, frontier = 0, limit = 0, stackTop = 0, stackLimit = 0, exnStack =
     0, alignment = 0, amInGC = False, amOriginal = False, atomicState = 0,
     callFromCHandlerThreadp = 0, callFromCOpArgsResPtr = 0, canMinor = False, controls =
     GC_controls0, cumulativeStatistics = GC_cumulativeStatistics0, currentThreadp = 0,
     frameInfos = [], generationalMaps = GC_generationalMaps0, globals = 0, globalsLength =
     0, hashConsDuringGC = False, heap = GC_heap0, lastMajorStatistics =
     GC_lastMajorStatistics0, limitPlusSlop = 0, magic = 0, maxFrameSize = 0,
     mutatorMarksCards = False, objectHashTable = GC_objectHashTable0, objectTypes = [],
     profiling = GC_profiling0, regionBuffer = 0, regionBufferSize = 0, regionTop = 0,
     regionBase = 0, returnAddressToFrameIndex = \<lambda>_. 0, savedThreadp = 0,
     saveWorldStatus = False, secondaryHeap = GC_heap0, signalHandlerThreadp = 0,
     signalsInfo = GC_signalsInfo0, sourceMaps = GC_sourceMaps0, stackBottom = 0,
     staticHeaps = GC_staticHeaps0, sysvals = GC_sysvals0, weaks = 0, osCalls = 0,
     addressScanDir = True\<rparr>"

lemmas zero_defs = timeval0_def rusage0_def GC_heap0_def GC_staticHeap0_def GC_staticHeaps0_def GC_generationalMaps0_def GC_ratios0_def GC_controls0_def GC_cumulativeStatistics0_def GC_lastMajorStatistics0_def GC_sysvals0_def GC_signalsInfo0_def GC_profileData0_def GC_profiling0_def GC_objectHashTable0_def GC_sourceMaps0_def state0_def

end
