(* ===== verification/Objects.thy ===== *)
theory Objects
  imports GC_State
begin

text \<open>
  The layout of heap objects: pointers and object pointers (\<open>pointer.c\<close>, \<open>objptr.c\<close>),
  headers (\<open>object.h\<close>, \<open>object.c\<close>), sequences (\<open>sequence.c\<close>), sizes
  (\<open>object-size.c\<close>, \<open>align.c\<close>), frames (\<open>frame.c\<close>), and the accessors of the
  structures \<open>GC_stack\<close>, \<open>GC_thread\<close> and \<open>GC_weak\<close> that lie over object data.
\<close>

section \<open>Pointers and object pointers\<close>

abbreviation (input) GC_MODEL_OBJPTR_SHIFT :: nat where "GC_MODEL_OBJPTR_SHIFT \<equiv> 0"
abbreviation (input) GC_MODEL_OBJPTR_BASE :: bool where "GC_MODEL_OBJPTR_BASE \<equiv> False"
abbreviation (input) GC_MODEL_MINALIGN_SHIFT :: nat where "GC_MODEL_MINALIGN_SHIFT \<equiv> 2"

definition isPointer :: "pointer \<Rightarrow> bool" where
  "isPointer p \<longleftrightarrow>
     (let msk = NOT (push_bit GC_MODEL_MINALIGN_SHIFT (NOT 0)) :: 64 word
      in 0 = word_of_nat p AND msk)"

definition isObjptr :: "objptr \<Rightarrow> bool" where
  "isObjptr p \<longleftrightarrow>
     (let shift = GC_MODEL_MINALIGN_SHIFT - GC_MODEL_OBJPTR_SHIFT;
          msk = NOT (push_bit shift (NOT 0))
      in 0 = p AND msk)"

definition objptrToPointer :: "objptr \<Rightarrow> pointer \<Rightarrow> pointer" where
  "objptrToPointer op B =
     (let base = (if GC_MODEL_OBJPTR_BASE then word_of_nat B else 0)
      in unat (push_bit GC_MODEL_OBJPTR_SHIFT op + base))"

definition pointerToObjptr :: "pointer \<Rightarrow> pointer \<Rightarrow> objptr" where
  "pointerToObjptr p B =
     (let base = (if GC_MODEL_OBJPTR_BASE then word_of_nat B else 0)
      in drop_bit GC_MODEL_OBJPTR_SHIFT (word_of_nat p - base))"

definition fetchObjptrToPointer :: "GC_state \<Rightarrow> pointer \<Rightarrow> pointer \<Rightarrow> pointer" where
  "fetchObjptrToPointer s opp B = objptrToPointer (load64 (mem s) opp) B"

definition storeObjptrFromPointer :: "GC_state \<Rightarrow> pointer \<Rightarrow> pointer \<Rightarrow> pointer \<Rightarrow> GC_state" where
  "storeObjptrFromPointer s opp p B = write64 opp (pointerToObjptr p B) s"

lemma objptrToPointer_eq [simp]: "objptrToPointer op B = unat op"
  by (simp add: objptrToPointer_def)

lemma pointerToObjptr_eq [simp]: "pointerToObjptr p B = word_of_nat p"
  by (simp add: pointerToObjptr_def)

lemma mask2_word: "NOT (push_bit 2 (NOT 0)) = (mask 2 :: 64 word)"
  by (simp add: mask_eq_exp_minus_1)

lemma isObjptr_iff: "isObjptr op \<longleftrightarrow> unat op mod 4 = 0"
proof -
  have "isObjptr op \<longleftrightarrow> take_bit 2 op = 0"
    by (simp add: isObjptr_def mask2_word Let_def eq_commute [of 0] flip: take_bit_eq_mask)
  also have "\<dots> \<longleftrightarrow> unat (take_bit 2 op) = 0" by (simp add: unat_eq_0)
  also have "unat (take_bit 2 op) = unat op mod 4"
    by (simp add: unsigned_take_bit_eq take_bit_eq_mod [where 'a = nat] del: take_bit_eq_mod)
  finally show ?thesis .
qed

lemma isPointer_iff: "isPointer p \<longleftrightarrow> p mod 4 = 0"
proof -
  have "isPointer p \<longleftrightarrow> isObjptr (word_of_nat p)"
    by (simp add: isPointer_def isObjptr_def)
  also have "\<dots> \<longleftrightarrow> p mod 18446744073709551616 mod 4 = 0"
    by (simp add: isObjptr_iff unat_of_nat)
  also have "\<dots> \<longleftrightarrow> p mod 4 = 0"
    by (subst mod_mod_cancel) simp_all
  finally show ?thesis .
qed

section \<open>Headers\<close>

abbreviation (input) GC_HEADER_SIZE :: nat where "GC_HEADER_SIZE \<equiv> 8"
abbreviation (input) OBJPTR_SIZE :: nat where "OBJPTR_SIZE \<equiv> 8"
abbreviation (input) GC_SEQUENCE_LENGTH_SIZE :: nat where "GC_SEQUENCE_LENGTH_SIZE \<equiv> 8"
abbreviation (input) GC_SEQUENCE_COUNTER_SIZE :: nat where "GC_SEQUENCE_COUNTER_SIZE \<equiv> 8"
abbreviation (input) GC_NORMAL_METADATA_SIZE :: nat where "GC_NORMAL_METADATA_SIZE \<equiv> 8"
abbreviation (input) GC_STACK_METADATA_SIZE :: nat where "GC_STACK_METADATA_SIZE \<equiv> 8"
abbreviation (input) GC_SEQUENCE_METADATA_SIZE :: nat where "GC_SEQUENCE_METADATA_SIZE \<equiv> 24"
abbreviation (input) GC_RETURNADDRESS_SIZE :: nat where "GC_RETURNADDRESS_SIZE \<equiv> 8"

abbreviation (input) GC_VALID_HEADER_MASK :: "64 word" where "GC_VALID_HEADER_MASK \<equiv> 1"
abbreviation (input) TYPE_INDEX_MASK :: "64 word" where "TYPE_INDEX_MASK \<equiv> 0x000FFFFE"
abbreviation (input) TYPE_INDEX_SHIFT :: nat where "TYPE_INDEX_SHIFT \<equiv> 1"
abbreviation (input) COUNTER_MASK :: "64 word" where "COUNTER_MASK \<equiv> 0x7FF00000"
abbreviation (input) COUNTER_SHIFT :: nat where "COUNTER_SHIFT \<equiv> 20"
abbreviation (input) MARK_MASK :: "64 word" where "MARK_MASK \<equiv> 0x80000000"

abbreviation (input) STACK_TYPE_INDEX :: "32 word" where "STACK_TYPE_INDEX \<equiv> 0"
abbreviation (input) THREAD_TYPE_INDEX :: "32 word" where "THREAD_TYPE_INDEX \<equiv> 1"
abbreviation (input) WEAK_GONE_TYPE_INDEX :: "32 word" where "WEAK_GONE_TYPE_INDEX \<equiv> 2"
abbreviation (input) WORD8_VECTOR_TYPE_INDEX :: "32 word" where "WORD8_VECTOR_TYPE_INDEX \<equiv> 5"
abbreviation (input) WORD64_VECTOR_TYPE_INDEX :: "32 word" where "WORD64_VECTOR_TYPE_INDEX \<equiv> 8"

definition objectTypeTagToString :: "GC_objectTypeTag \<Rightarrow> string" where
  "objectTypeTagToString t =
     (case t of SEQUENCE_TAG \<Rightarrow> ''SEQUENCE'' | NORMAL_TAG \<Rightarrow> ''NORMAL''
      | STACK_TAG \<Rightarrow> ''STACK'' | WEAK_TAG \<Rightarrow> ''WEAK'')"

definition getHeaderp :: "pointer \<Rightarrow> pointer" where
  "getHeaderp p = p - GC_HEADER_SIZE"

definition getHeader :: "GC_state \<Rightarrow> pointer \<Rightarrow> 64 word" where
  "getHeader s p = load64 (mem s) (getHeaderp p)"

definition buildHeaderFromTypeIndex :: "32 word \<Rightarrow> 64 word" where
  "buildHeaderFromTypeIndex t = ucast (1 OR push_bit 1 t)"

definition typeIndexOfHeader :: "64 word \<Rightarrow> nat" where
  "typeIndexOfHeader header = unat (drop_bit TYPE_INDEX_SHIFT (header AND TYPE_INDEX_MASK))"

definition splitHeader :: "GC_state \<Rightarrow> 64 word \<Rightarrow> GC_objectType res" where
  "splitHeader s header =
     (let objectTypeIndex = typeIndexOfHeader header
      in if objectTypeIndex < length (objectTypes s) then Inr (objectTypes s ! objectTypeIndex)
         else Inl Undefined)"

abbreviation (input) GC_STACK_HEADER :: "64 word" where
  "GC_STACK_HEADER \<equiv> buildHeaderFromTypeIndex STACK_TYPE_INDEX"
abbreviation (input) GC_THREAD_HEADER :: "64 word" where
  "GC_THREAD_HEADER \<equiv> buildHeaderFromTypeIndex THREAD_TYPE_INDEX"
abbreviation (input) GC_WEAK_GONE_HEADER :: "64 word" where
  "GC_WEAK_GONE_HEADER \<equiv> buildHeaderFromTypeIndex WEAK_GONE_TYPE_INDEX"
abbreviation (input) GC_WORD8_VECTOR_HEADER :: "64 word" where
  "GC_WORD8_VECTOR_HEADER \<equiv> buildHeaderFromTypeIndex WORD8_VECTOR_TYPE_INDEX"
abbreviation (input) GC_WORD64_VECTOR_HEADER :: "64 word" where
  "GC_WORD64_VECTOR_HEADER \<equiv> buildHeaderFromTypeIndex WORD64_VECTOR_TYPE_INDEX"

section \<open>Alignment of objects\<close>

definition alignWithExtra :: "GC_state \<Rightarrow> nat \<Rightarrow> nat \<Rightarrow> nat" where
  "alignWithExtra s bytes extra = wrap_sub (align (wrap (bytes + extra)) (alignment s)) extra"

definition isFrontierAligned :: "GC_state \<Rightarrow> pointer \<Rightarrow> bool" where
  "isFrontierAligned s p \<longleftrightarrow> isAligned (p + GC_NORMAL_METADATA_SIZE) (alignment s)"

definition alignFrontier :: "GC_state \<Rightarrow> pointer \<Rightarrow> pointer" where
  "alignFrontier s p = alignWithExtra s p GC_NORMAL_METADATA_SIZE"

definition advanceToObjectData :: "GC_state \<Rightarrow> pointer \<Rightarrow> pointer" where
  "advanceToObjectData s p =
     (if 0 = load64 (mem s) p then p + GC_SEQUENCE_METADATA_SIZE else p + GC_NORMAL_METADATA_SIZE)"

section \<open>Sequences\<close>

definition getSequenceLengthp :: "pointer \<Rightarrow> pointer" where
  "getSequenceLengthp a = a - GC_HEADER_SIZE - GC_SEQUENCE_LENGTH_SIZE"

definition getSequenceLength :: "GC_state \<Rightarrow> pointer \<Rightarrow> nat" where
  "getSequenceLength s a = unat (load64 (mem s) (getSequenceLengthp a))"

definition GC_getSequenceLength :: "GC_state \<Rightarrow> pointer \<Rightarrow> nat" where
  "GC_getSequenceLength s a = getSequenceLength s a"

definition getSequenceCounterp :: "pointer \<Rightarrow> pointer" where
  "getSequenceCounterp a = a - GC_HEADER_SIZE - GC_SEQUENCE_LENGTH_SIZE - GC_SEQUENCE_COUNTER_SIZE"

definition getSequenceCounter :: "GC_state \<Rightarrow> pointer \<Rightarrow> nat" where
  "getSequenceCounter s a = unat (load64 (mem s) (getSequenceCounterp a))"

definition indexSequenceAtObjptrIndex :: "GC_state \<Rightarrow> pointer \<Rightarrow> nat \<Rightarrow> nat \<Rightarrow> pointer res" where
  "indexSequenceAtObjptrIndex s a sequenceIndex objptrIndex =
     bindE (splitHeader s (getHeader s a)) (\<lambda>t.
       Inr (a + sequenceIndex * (bytesNonObjptrs t + numObjptrs t * OBJPTR_SIZE)
            + bytesNonObjptrs t + objptrIndex * OBJPTR_SIZE))"

section \<open>Sizes\<close>

abbreviation (input) sizeof_GC_stack :: nat where "sizeof_GC_stack \<equiv> 32"

definition stack_markTop :: "GC_state \<Rightarrow> pointer \<Rightarrow> pointer" where
  "stack_markTop s stack = unat (load64 (mem s) stack)"

definition stack_markIndex :: "GC_state \<Rightarrow> pointer \<Rightarrow> nat" where
  "stack_markIndex s stack = unat (load32 (mem s) (stack + 8))"

definition stack_reserved :: "GC_state \<Rightarrow> pointer \<Rightarrow> nat" where
  "stack_reserved s stack = unat (load64 (mem s) (stack + 16))"

definition stack_used :: "GC_state \<Rightarrow> pointer \<Rightarrow> nat" where
  "stack_used s stack = unat (load64 (mem s) (stack + 24))"

definition sizeofSequenceNoMetaData :: "GC_state \<Rightarrow> nat \<Rightarrow> nat \<Rightarrow> nat \<Rightarrow> nat" where
  "sizeofSequenceNoMetaData s numElements bno npo =
     (let result = wrap (numElements * (bno + npo * OBJPTR_SIZE))
      in alignWithExtra s result GC_SEQUENCE_METADATA_SIZE)"

definition sizeofStackNoMetaData :: "GC_state \<Rightarrow> pointer \<Rightarrow> nat" where
  "sizeofStackNoMetaData s stack = wrap (sizeof_GC_stack + stack_reserved s stack)"

definition sizeofObjectAux :: "GC_state \<Rightarrow> pointer \<Rightarrow> (nat \<times> nat) res" where
  "sizeofObjectAux s p =
     bindE (splitHeader s (getHeader s p)) (\<lambda>t.
       Inr (if tag t = NORMAL_TAG \<or> tag t = WEAK_TAG then
              (GC_NORMAL_METADATA_SIZE, bytesNonObjptrs t + numObjptrs t * OBJPTR_SIZE)
            else if tag t = SEQUENCE_TAG then
              (GC_SEQUENCE_METADATA_SIZE,
               sizeofSequenceNoMetaData s (getSequenceLength s p) (bytesNonObjptrs t) (numObjptrs t))
            else (GC_STACK_METADATA_SIZE, sizeofStackNoMetaData s p)))"

definition sizeofObject :: "GC_state \<Rightarrow> pointer \<Rightarrow> nat res" where
  "sizeofObject s p =
     bindE (sizeofObjectAux s p) (\<lambda>(metaDataBytes, objectBytes). Inr (wrap (metaDataBytes + objectBytes)))"

definition sizeofObjectNoMetaData :: "GC_state \<Rightarrow> pointer \<Rightarrow> nat res" where
  "sizeofObjectNoMetaData s p =
     bindE (sizeofObjectAux s p) (\<lambda>(metaDataBytes, objectBytes). Inr objectBytes)"

section \<open>Frames\<close>

definition getFrameIndexFromReturnAddress :: "GC_state \<Rightarrow> 64 word \<Rightarrow> nat" where
  "getFrameIndexFromReturnAddress s ra = returnAddressToFrameIndex s ra"

definition getFrameInfoFromFrameIndex :: "GC_state \<Rightarrow> nat \<Rightarrow> GC_frameInfo res" where
  "getFrameInfoFromFrameIndex s frameIndex =
     (if frameIndex < length (frameInfos s) then Inr (frameInfos s ! frameIndex) else Inl Undefined)"

definition getFrameInfoFromReturnAddress :: "GC_state \<Rightarrow> 64 word \<Rightarrow> GC_frameInfo res" where
  "getFrameInfoFromReturnAddress s ra =
     (let frameIndex = getFrameIndexFromReturnAddress s ra in getFrameInfoFromFrameIndex s frameIndex)"

section \<open>Header facts\<close>

text \<open>
  The fields of a header occupy disjoint bits: bit 0 is the valid bit, the type index
  lies in bits 1 to 19, the counter of the mark-compact collector in bits 20 to 30 and
  the mark in bit 31.
\<close>

lemma type_index_mask: "TYPE_INDEX_MASK = push_bit 1 (mask 19)"
  by (simp add: mask_eq_exp_minus_1)

lemma counter_mask: "COUNTER_MASK = push_bit 20 (mask 11)"
  by (simp add: mask_eq_exp_minus_1)

lemma mark_mask: "MARK_MASK = push_bit 31 1"
  by simp

lemma drop_type_index: "drop_bit 1 (h AND TYPE_INDEX_MASK) = take_bit 19 (drop_bit 1 h)"
proof -
  have "drop_bit 1 TYPE_INDEX_MASK = mask 19" by (simp add: mask_eq_exp_minus_1)
  then show ?thesis by (simp only: drop_bit_and take_bit_eq_mask)
qed

lemma typeIndexOfHeader_alt: "typeIndexOfHeader h = unat (take_bit 19 (drop_bit 1 h))"
  by (simp only: typeIndexOfHeader_def drop_type_index)

lemma typeIndex_build:
  assumes "unat t < 2 ^ 19"
  shows "typeIndexOfHeader (buildHeaderFromTypeIndex t) = unat t"
proof -
  have t: "take_bit 19 t = t"
    using assms by (intro word_unat_eq_iff [THEN iffD2])
      (simp add: unsigned_take_bit_eq take_bit_nat_eq_self)
  have "take_bit 19 (drop_bit 1 (buildHeaderFromTypeIndex t)) = ucast (take_bit 19 t)"
    unfolding buildHeaderFromTypeIndex_def
    by (rule bit_word_eqI) (simp only: bit_simps bit_unsigned_iff comp_apply, auto)
  also have "unat \<dots> = unat t"
    by (simp add: t unsigned_ucast_eq take_bit_nat_eq_self unat_lt_32 [THEN order.strict_trans])
  finally show ?thesis by (simp only: typeIndexOfHeader_alt)
qed

lemma build_valid: "buildHeaderFromTypeIndex t AND GC_VALID_HEADER_MASK = 1"
  by (rule bit_word_eqI) (auto simp: buildHeaderFromTypeIndex_def bit_simps)

text \<open>The mark bit and the counter bits do not touch the type index.\<close>

lemma typeIndex_masked:
  assumes "\<And>n. 1 \<le> n \<Longrightarrow> n < 20 \<Longrightarrow> bit h n = bit h' n"
  shows "typeIndexOfHeader h = typeIndexOfHeader h'"
proof -
  have "take_bit 19 (drop_bit 1 h) = take_bit 19 (drop_bit 1 h')"
    by (rule bit_word_eqI) (auto simp: bit_simps assms)
  then show ?thesis by (simp only: typeIndexOfHeader_alt)
qed

lemma mark_bit: "bit MARK_MASK n \<longleftrightarrow> n = 31"
  unfolding mark_mask by (simp only: bit_push_bit_iff bit_1_iff) auto

lemma counter_bit: "bit COUNTER_MASK n \<longleftrightarrow> 20 \<le> n \<and> n < 31"
  unfolding counter_mask by (simp only: bit_push_bit_iff bit_mask_iff) auto

lemma type_index_bit: "bit TYPE_INDEX_MASK n \<longleftrightarrow> 1 \<le> n \<and> n < 20"
  unfolding type_index_mask by (simp only: bit_push_bit_iff bit_mask_iff) auto

lemma not_mask_bits:
  "bit (NOT MARK_MASK) n \<longleftrightarrow> n < 64 \<and> n \<noteq> 31"
  "bit (NOT COUNTER_MASK) n \<longleftrightarrow> n < 64 \<and> \<not> (20 \<le> n \<and> n < 31)"
  by (simp_all only: bit_not_iff mark_bit counter_bit possible_bit_word) simp_all

lemma typeIndex_mark [simp]:
  "typeIndexOfHeader (MARK_MASK OR h) = typeIndexOfHeader h"
  "typeIndexOfHeader (NOT MARK_MASK AND h) = typeIndexOfHeader h"
  by (rule typeIndex_masked, simp only: bit_or_iff bit_and_iff not_mask_bits mark_bit, linarith)+

section \<open>Alignment facts\<close>

text \<open>What \<open>GC_init\<close> asserts of the alignment the compiled program asks for.\<close>

definition alignment_ok :: "GC_state \<Rightarrow> bool" where
  "alignment_ok s \<longleftrightarrow> is_power2 (alignment s) \<and> 4 \<le> alignment s \<and> isAligned 32 (alignment s)"

lemma alignment_ok_power2 [dest]: "alignment_ok s \<Longrightarrow> is_power2 (alignment s)"
  by (simp add: alignment_ok_def)

lemma alignment_ok_le: "alignment_ok s \<Longrightarrow> alignment s \<le> 32"
  by (auto simp: alignment_ok_def isAligned_iff_dvd dest: dvd_imp_le)

lemma alignWithExtra_eq:
  assumes "is_power2 (alignment s)" "bytes + extra + alignment s \<le> SIZE_MAX"
  shows "alignWithExtra s bytes extra = align (bytes + extra) (alignment s) - extra"
    and "extra \<le> align (bytes + extra) (alignment s)"
proof -
  have b: "bytes + extra + (alignment s - 1) < 18446744073709551616" using assms(2) by simp
  note ge = align_ge [OF assms(1) b] and lt = align_less [OF assms(1) b]
  from ge show *: "extra \<le> align (bytes + extra) (alignment s)" by simp
  have "wrap (bytes + extra) = bytes + extra" using assms(2) by simp
  then show "alignWithExtra s bytes extra = align (bytes + extra) (alignment s) - extra"
    unfolding alignWithExtra_def using * lt assms(2) by (simp add: wrap_sub_eq)
qed

lemma alignWithExtra_bounds:
  assumes "is_power2 (alignment s)" "bytes + extra + alignment s \<le> SIZE_MAX"
  shows "bytes \<le> alignWithExtra s bytes extra"
    and "alignWithExtra s bytes extra < bytes + alignment s"
    and "isAligned (extra + alignWithExtra s bytes extra) (alignment s)"
proof -
  have b: "bytes + extra + (alignment s - 1) < 18446744073709551616" using assms(2) by simp
  note facts = align_ge [OF assms(1) b] align_less [OF assms(1) b] align_aligned [OF assms(1) b]
    alignWithExtra_eq [OF assms]
  from facts show "bytes \<le> alignWithExtra s bytes extra"
    "alignWithExtra s bytes extra < bytes + alignment s" by linarith+
  from facts show "isAligned (extra + alignWithExtra s bytes extra) (alignment s)" by simp
qed

lemma alignWithExtra_least:
  assumes "is_power2 (alignment s)" "bytes + extra + alignment s \<le> SIZE_MAX"
    and "bytes \<le> c" "isAligned (extra + c) (alignment s)"
  shows "alignWithExtra s bytes extra \<le> c"
proof -
  have b: "bytes + extra + (alignment s - 1) < 18446744073709551616" using assms(2) by simp
  have "align (bytes + extra) (alignment s) \<le> extra + c"
    using assms by (intro align_least [OF assms(1) b]) auto
  then show ?thesis using alignWithExtra_eq [OF assms(1,2)] by simp
qed

section \<open>The header of an object\<close>

lemma mark_unmark:
  "\<not> bit h 31 \<Longrightarrow> NOT MARK_MASK AND (MARK_MASK OR h) = h"
  by (rule bit_word_eqI) (simp only: bit_or_iff bit_and_iff not_mask_bits mark_bit, auto)

lemma build_unmarked:
  assumes "unat t < 2 ^ 19" shows "\<not> bit (buildHeaderFromTypeIndex t) 31"
proof -
  have t: "take_bit 19 t = t"
    using assms by (intro word_unat_eq_iff [THEN iffD2])
      (simp add: unsigned_take_bit_eq take_bit_nat_eq_self)
  have "\<not> bit (take_bit 19 t) 30" by (simp only: bit_take_bit_iff) simp
  then have "\<not> bit t 30" unfolding t .
  then show ?thesis
    unfolding buildHeaderFromTypeIndex_def
    by (simp only: bit_unsigned_iff bit_or_iff bit_1_iff bit_push_bit_iff, auto)
qed

text \<open>
  A header built from a type index selects that entry of the table of object types,
  carries the valid bit, and still selects the entry while the mark bit is set; clearing
  the mark bit gives the header back.
\<close>

theorem header_roundtrip:
  assumes "unat t < 2 ^ 19" "unat t < length (objectTypes s)"
  shows "splitHeader s (buildHeaderFromTypeIndex t) = Inr (objectTypes s ! unat t)
    \<and> splitHeader s (MARK_MASK OR buildHeaderFromTypeIndex t) = Inr (objectTypes s ! unat t)
    \<and> NOT MARK_MASK AND (MARK_MASK OR buildHeaderFromTypeIndex t) = buildHeaderFromTypeIndex t
    \<and> buildHeaderFromTypeIndex t AND GC_VALID_HEADER_MASK = 1"
  using assms typeIndex_build [OF assms(1)] mark_unmark [OF build_unmarked [OF assms(1)]]
    build_valid [of t] typeIndex_mark(1) [of "buildHeaderFromTypeIndex t"]
  by (simp add: splitHeader_def Let_def)

theorem header_roundtrip_witness:
  "splitHeader (state0\<lparr>objectTypes := [\<lparr>tag = NORMAL_TAG, hasIdentity = False,
       bytesNonObjptrs = 0, numObjptrs = 2\<rparr>]\<rparr>) (buildHeaderFromTypeIndex 0)
   = Inr \<lparr>tag = NORMAL_TAG, hasIdentity = False, bytesNonObjptrs = 0, numObjptrs = 2\<rparr>"
  using header_roundtrip [of 0 "state0\<lparr>objectTypes := [\<lparr>tag = NORMAL_TAG, hasIdentity = False,
       bytesNonObjptrs = 0, numObjptrs = 2\<rparr>]\<rparr>"]
  by simp

end
