(* ===== verification/Stack.thy ===== *)
theory Stack
  imports Objects
begin

text \<open>
  Stacks (\<open>stack.c\<close>), the thread and weak structures laid over object data
  (\<open>thread.c\<close>, \<open>weak.c\<close>), and the current thread and stack (\<open>current.c\<close>). The sizing
  functions compute in \<open>double\<close>; a conversion to \<open>size_t\<close> is of a value below
  \<open>2 ^ 64\<close>, as the command line only accepts the ratios the lemmas assume.
\<close>

section \<open>Writing the structure \<open>GC_stack\<close>\<close>

definition set_stack_markTop :: "pointer \<Rightarrow> pointer \<Rightarrow> GC_state \<Rightarrow> GC_state" where
  "set_stack_markTop stack v s = write64 stack (word_of_nat v) s"

definition set_stack_markIndex :: "pointer \<Rightarrow> nat \<Rightarrow> GC_state \<Rightarrow> GC_state" where
  "set_stack_markIndex stack v s = write32 (stack + 8) (word_of_nat v) s"

definition set_stack_reserved :: "pointer \<Rightarrow> nat \<Rightarrow> GC_state \<Rightarrow> GC_state" where
  "set_stack_reserved stack v s = write64 (stack + 16) (word_of_nat v) s"

definition set_stack_used :: "pointer \<Rightarrow> nat \<Rightarrow> GC_state \<Rightarrow> GC_state" where
  "set_stack_used stack v s = write64 (stack + 24) (word_of_nat v) s"

section \<open>Extent of a stack\<close>

definition isStackEmpty :: "GC_state \<Rightarrow> pointer \<Rightarrow> bool" where
  "isStackEmpty s stack \<longleftrightarrow> 0 = stack_used s stack"

definition isStackReservedAligned :: "GC_state \<Rightarrow> nat \<Rightarrow> bool" where
  "isStackReservedAligned s reserved \<longleftrightarrow>
     isAligned (GC_STACK_METADATA_SIZE + sizeof_GC_stack + reserved) (alignment s)"

text \<open>\<open>maxFrameSize\<close> is a \<open>uint32_t\<close>, so the product wraps at \<open>2 ^ 32\<close>.\<close>

definition sizeofStackSlop :: "GC_state \<Rightarrow> nat" where
  "sizeofStackSlop s = 2 * maxFrameSize s mod 4294967296"

definition getStackBottom :: "GC_state \<Rightarrow> pointer \<Rightarrow> pointer" where
  "getStackBottom s stack = stack + sizeof_GC_stack"

definition getStackTop :: "GC_state \<Rightarrow> pointer \<Rightarrow> pointer" where
  "getStackTop s stack = getStackBottom s stack + stack_used s stack"

definition getStackLimitPlusSlop :: "GC_state \<Rightarrow> pointer \<Rightarrow> pointer" where
  "getStackLimitPlusSlop s stack = getStackBottom s stack + stack_reserved s stack"

definition getStackLimit :: "GC_state \<Rightarrow> pointer \<Rightarrow> pointer" where
  "getStackLimit s stack = getStackLimitPlusSlop s stack - sizeofStackSlop s"

definition getCachedStackTopFrameIndex :: "GC_state \<Rightarrow> nat" where
  "getCachedStackTopFrameIndex s =
     getFrameIndexFromReturnAddress s (load64 (mem s) (GC_state.stackTop s - GC_RETURNADDRESS_SIZE))"

definition getStackTopFrameIndex :: "GC_state \<Rightarrow> pointer \<Rightarrow> nat" where
  "getStackTopFrameIndex s stack =
     getFrameIndexFromReturnAddress s (load64 (mem s) (getStackTop s stack - GC_RETURNADDRESS_SIZE))"

definition getStackTopFrameInfo :: "GC_state \<Rightarrow> pointer \<Rightarrow> GC_frameInfo res" where
  "getStackTopFrameInfo s stack = getFrameInfoFromFrameIndex s (getStackTopFrameIndex s stack)"

definition getStackTopFrameSize :: "GC_state \<Rightarrow> pointer \<Rightarrow> nat res" where
  "getStackTopFrameSize s stack =
     bindE (getStackTopFrameInfo s stack) (\<lambda>frameInfo. Inr (frame_size frameInfo))"

section \<open>Sizing\<close>

abbreviation (input) RESERVED_MAX :: nat where "RESERVED_MAX \<equiv> 4611686018427387903"

definition alignStackReserved :: "GC_state \<Rightarrow> nat \<Rightarrow> nat" where
  "alignStackReserved s reserved =
     alignWithExtra s reserved (GC_STACK_METADATA_SIZE + sizeof_GC_stack)"

definition sizeofStackWithMetaData :: "GC_state \<Rightarrow> nat \<Rightarrow> nat" where
  "sizeofStackWithMetaData s reserved = wrap (GC_STACK_METADATA_SIZE + sizeof_GC_stack + reserved)"

definition sizeofStackInitialReserved :: "GC_state \<Rightarrow> nat" where
  "sizeofStackInitialReserved s = alignStackReserved s (sizeofStackSlop s)"

definition sizeofStackMinimumReserved :: "GC_state \<Rightarrow> pointer \<Rightarrow> nat res" where
  "sizeofStackMinimumReserved s stack =
     bindE (getStackTopFrameSize s stack) (\<lambda>topFrameSize.
       Inr (alignStackReserved s
              (wrap_sub (wrap (stack_used s stack + sizeofStackSlop s)) topFrameSize)))"

definition clampReserved :: "double \<Rightarrow> nat" where
  "clampReserved d = (if d > dbl_of_size RESERVED_MAX then RESERVED_MAX else size_of_dbl d)"

definition sizeofStackGrowReserved :: "GC_state \<Rightarrow> pointer \<Rightarrow> nat res" where
  "sizeofStackGrowReserved s stack =
     (let reservedD = dbl_of_size (stack_reserved s stack);
          reservedGrowD = dbl (stackCurrentGrow (ratios (controls s)) * reservedD);
          reservedGrow = clampReserved reservedGrowD
      in bindE (sizeofStackMinimumReserved s stack) (\<lambda>reservedMin.
           Inr (alignStackReserved s (max reservedGrow reservedMin))))"

definition sizeofStackShrinkReserved :: "GC_state \<Rightarrow> pointer \<Rightarrow> bool \<Rightarrow> nat res" where
  "sizeofStackShrinkReserved s stack current =
     (let usedD = dbl_of_size (stack_used s stack);
          reserved = stack_reserved s stack;
          reservedD = dbl_of_size reserved;
          rs = ratios (controls s)
      in bindE
           (if current then
              (let reservedMax = clampReserved (dbl (stackCurrentMaxReserved rs * usedD));
                   reservedPermit = clampReserved (dbl (stackCurrentPermitReserved rs * usedD));
                   reservedShrink = (if reserved \<le> reservedPermit then reserved
                                     else size_of_dbl (dbl (stackCurrentShrink rs * reservedD)))
               in bindE (sizeofStackMinimumReserved s stack) (\<lambda>reservedMin.
                    Inr (reservedMax, reservedShrink, reservedMin)))
            else
              (let reservedMax = clampReserved (dbl (stackMaxReserved rs * usedD));
                   reservedShrink = size_of_dbl (dbl (stackShrink rs * reservedD));
                   reservedMin = stack_used s stack
               in Inr (reservedMax, reservedShrink, reservedMin)))
           (\<lambda>(reservedMax, reservedShrink, reservedMin).
              let reservedNew = alignStackReserved s (max (min reservedMax reservedShrink) reservedMin)
              in Inr (min reserved reservedNew)))"

definition copyStack :: "GC_state \<Rightarrow> pointer \<Rightarrow> pointer \<Rightarrow> GC_state res" where
  "copyStack s from to =
     (let fromBottom = getStackBottom s from;
          toBottom = getStackBottom s to;
          s' = set_stack_used to (stack_used s from) s
      in bindE (GC_memcpy (mem s') fromBottom toBottom (stack_used s' from)) (\<lambda>m.
           Inr (s'\<lparr>mem := m\<rparr>)))"

section \<open>Threads\<close>

abbreviation (input) sizeof_GC_thread :: nat where "sizeof_GC_thread \<equiv> 24"
abbreviation (input) BOGUS_EXN_STACK :: "64 word" where "BOGUS_EXN_STACK \<equiv> - 1"

definition thread_bytesNeeded :: "GC_state \<Rightarrow> pointer \<Rightarrow> nat" where
  "thread_bytesNeeded s thread = unat (load64 (mem s) thread)"

definition thread_exnStack :: "GC_state \<Rightarrow> pointer \<Rightarrow> 64 word" where
  "thread_exnStack s thread = load64 (mem s) (thread + 8)"

definition thread_stack :: "GC_state \<Rightarrow> pointer \<Rightarrow> objptr" where
  "thread_stack s thread = load64 (mem s) (thread + 16)"

definition set_thread_bytesNeeded :: "pointer \<Rightarrow> nat \<Rightarrow> GC_state \<Rightarrow> GC_state" where
  "set_thread_bytesNeeded thread v s = write64 thread (word_of_nat v) s"

definition set_thread_exnStack :: "pointer \<Rightarrow> 64 word \<Rightarrow> GC_state \<Rightarrow> GC_state" where
  "set_thread_exnStack thread v s = write64 (thread + 8) v s"

definition set_thread_stack :: "pointer \<Rightarrow> objptr \<Rightarrow> GC_state \<Rightarrow> GC_state" where
  "set_thread_stack thread v s = write64 (thread + 16) v s"

definition sizeofThread :: "GC_state \<Rightarrow> nat" where
  "sizeofThread s = align (GC_NORMAL_METADATA_SIZE + sizeof_GC_thread) (alignment s)"

definition offsetofThread :: "GC_state \<Rightarrow> nat" where
  "offsetofThread s = sizeofThread s - (GC_NORMAL_METADATA_SIZE + sizeof_GC_thread)"

section \<open>Weak pointers\<close>

abbreviation (input) sizeof_GC_weak :: nat where "sizeof_GC_weak \<equiv> 16"

definition weak_link :: "GC_state \<Rightarrow> pointer \<Rightarrow> pointer" where
  "weak_link s weak = unat (load64 (mem s) weak)"

definition weak_objptr :: "GC_state \<Rightarrow> pointer \<Rightarrow> objptr" where
  "weak_objptr s weak = load64 (mem s) (weak + 8)"

definition set_weak_link :: "pointer \<Rightarrow> pointer \<Rightarrow> GC_state \<Rightarrow> GC_state" where
  "set_weak_link weak v s = write64 weak (word_of_nat v) s"

definition set_weak_objptr :: "pointer \<Rightarrow> objptr \<Rightarrow> GC_state \<Rightarrow> GC_state" where
  "set_weak_objptr weak v s = write64 (weak + 8) v s"

definition sizeofWeak :: "GC_state \<Rightarrow> nat" where
  "sizeofWeak s = align (GC_NORMAL_METADATA_SIZE + sizeof_GC_weak) (alignment s)"

definition offsetofWeak :: "GC_state \<Rightarrow> nat" where
  "offsetofWeak s = sizeofWeak s - (GC_NORMAL_METADATA_SIZE + sizeof_GC_weak)"

definition GC_weakCanGet :: "GC_state \<Rightarrow> pointer \<Rightarrow> bool" where
  "GC_weakCanGet s p \<longleftrightarrow> GC_WEAK_GONE_HEADER \<noteq> getHeader s p"

definition GC_weakGet :: "GC_state \<Rightarrow> pointer \<Rightarrow> pointer" where
  "GC_weakGet s p =
     (let weak = p + offsetofWeak s in objptrToPointer (weak_objptr s weak) (heapStart (heap s)))"

section \<open>The current thread and stack\<close>

definition getThreadCurrentObjptr :: "GC_state \<Rightarrow> objptr" where
  "getThreadCurrentObjptr s = currentThread s"

definition getThreadCurrent :: "GC_state \<Rightarrow> pointer" where
  "getThreadCurrent s =
     objptrToPointer (getThreadCurrentObjptr s) (heapStart (heap s)) + offsetofThread s"

definition getStackCurrentObjptr :: "GC_state \<Rightarrow> objptr" where
  "getStackCurrentObjptr s = thread_stack s (getThreadCurrent s)"

definition getStackCurrent :: "GC_state \<Rightarrow> pointer" where
  "getStackCurrent s = objptrToPointer (getStackCurrentObjptr s) (heapStart (heap s))"

section \<open>Facts on the sizing functions\<close>

lemma sizeofStackSlop_less: "sizeofStackSlop s < 4294967296"
  by (simp add: sizeofStackSlop_def)

lemma size_of_dbl_le: "x \<le> of_nat n \<Longrightarrow> size_of_dbl x \<le> n"
  unfolding size_of_dbl_def by (simp add: le_floor_iff nat_le_iff floor_le_iff)

lemma size_of_dbl_ge: "of_nat n \<le> x \<Longrightarrow> n \<le> size_of_dbl x"
  unfolding size_of_dbl_def by (simp add: le_nat_iff le_floor_iff)

lemma dbl_RESERVED_MAX: "dbl_of_size RESERVED_MAX \<le> 4611686018427387904"
proof -
  have "rnd 53 (4611686018427387904 :: rat) = 4611686018427387904"
    by (rule rnd_exact [of _ 1 62]) simp_all
  then show ?thesis
    unfolding dbl_of_size_def using rnd_mono [of "of_nat RESERVED_MAX" 4611686018427387904 53] by simp
qed

lemma clampReserved_le: "clampReserved d \<le> 4611686018427387904"
  using dbl_RESERVED_MAX by (auto simp: clampReserved_def intro!: size_of_dbl_le)

lemma clampReserved_ge: "n \<le> RESERVED_MAX \<Longrightarrow> of_nat n \<le> d \<Longrightarrow> n \<le> clampReserved d"
  by (auto simp: clampReserved_def intro: size_of_dbl_ge)

lemma dbl_of_size_exact: "n < 9007199254740992 \<Longrightarrow> dbl_of_size n = of_nat n"
  unfolding dbl_of_size_def by (rule rnd_of_nat) simp

lemma stack_align_bounds:
  assumes "is_power2 (alignment s)" "n + 40 + alignment s \<le> SIZE_MAX"
  shows "n \<le> alignStackReserved s n" "alignStackReserved s n < n + alignment s"
    and "isStackReservedAligned s (alignStackReserved s n)"
  using alignWithExtra_bounds [of s n 40] assms
  by (simp_all add: alignStackReserved_def isStackReservedAligned_def)

lemma stack_align_least:
  assumes "is_power2 (alignment s)" "n + 40 + alignment s \<le> SIZE_MAX"
    and "n \<le> c" "isStackReservedAligned s c"
  shows "alignStackReserved s n \<le> c"
  using alignWithExtra_least [of s n 40 c] assms
  by (simp add: alignStackReserved_def isStackReservedAligned_def)

text \<open>
  The bounds of a stack the sizing functions are applied to: \<open>used\<close> and \<open>reserved\<close> are
  within the address space a process can have, and the frame at the tfs fits in the slop.
\<close>

definition stack_sizes_ok :: "GC_state \<Rightarrow> pointer \<Rightarrow> bool" where
  "stack_sizes_ok s stack \<longleftrightarrow> alignment_ok s \<and> stack_used s stack < 4503599627370496
     \<and> stack_reserved s stack < 4503599627370496 \<and> isStackReservedAligned s (stack_reserved s stack)"

lemma stack_sizes_okD:
  assumes "stack_sizes_ok s stack"
  shows "is_power2 (alignment s)" "alignment s \<le> 32"
    and "stack_used s stack < 4503599627370496" "stack_reserved s stack < 4503599627370496"
    and "isStackReservedAligned s (stack_reserved s stack)"
  using assms alignment_ok_le [of s] by (auto simp: stack_sizes_ok_def)

lemma sizeofStackMinimumReserved_bounds:
  assumes "stack_sizes_ok s stack" "getStackTopFrameSize s stack = Inr tfs"
    and "tfs \<le> sizeofStackSlop s" "sizeofStackMinimumReserved s stack = Inr n"
  shows "stack_used s stack + (sizeofStackSlop s - tfs) \<le> n"
    and "n < stack_used s stack + (sizeofStackSlop s - tfs) + alignment s"
    and "isStackReservedAligned s n"
proof -
  note ok = stack_sizes_okD [OF assms(1)] and slop = sizeofStackSlop_less [of s]
  have "wrap_sub (wrap (stack_used s stack + sizeofStackSlop s)) tfs =
        stack_used s stack + (sizeofStackSlop s - tfs)"
    using ok slop assms(3) by (simp add: wrap_sub_eq)
  then have n: "n = alignStackReserved s (stack_used s stack + (sizeofStackSlop s - tfs))"
    using assms(2,4) by (simp add: sizeofStackMinimumReserved_def)
  have "stack_used s stack + (sizeofStackSlop s - tfs) + 40 + alignment s \<le> SIZE_MAX"
    using ok slop by linarith
  from stack_align_bounds [OF ok(1) this]
  show "stack_used s stack + (sizeofStackSlop s - tfs) \<le> n"
    "n < stack_used s stack + (sizeofStackSlop s - tfs) + alignment s"
    "isStackReservedAligned s n"
    unfolding n by auto
qed

text \<open>The new size of a stack that must grow.\<close>

lemma stack_grow_bounds:
  assumes ok: "stack_sizes_ok s stack"
    and tfs: "getStackTopFrameSize s stack = Inr tfs" "tfs \<le> sizeofStackSlop s"
    and r: "sizeofStackGrowReserved s stack = Inr r"
    and k: "of_nat k \<le> stackCurrentGrow (ratios (controls s))"
      "k * stack_reserved s stack < 9007199254740992"
  shows "stack_used s stack + (sizeofStackSlop s - tfs) \<le> r"
    and "k * stack_reserved s stack \<le> r"
    and "isStackReservedAligned s r"
proof -
  note b = stack_sizes_okD [OF ok]
  obtain n where n: "sizeofStackMinimumReserved s stack = Inr n"
    using r by (auto simp: sizeofStackGrowReserved_def Let_def)
  note mn = sizeofStackMinimumReserved_bounds [OF ok tfs n]
  define g where "g = clampReserved (dbl (stackCurrentGrow (ratios (controls s))
    * dbl_of_size (stack_reserved s stack)))"
  have req: "r = alignStackReserved s (max g n)"
    using r n by (simp add: sizeofStackGrowReserved_def Let_def g_def)
  have "g \<le> 4611686018427387904" unfolding g_def by (rule clampReserved_le)
  then have "max g n + 40 + alignment s \<le> SIZE_MAX"
    using mn(2) b sizeofStackSlop_less [of s] by linarith
  note al = stack_align_bounds [OF b(1) this, folded req]
  show "stack_used s stack + (sizeofStackSlop s - tfs) \<le> r" using mn(1) al(1) by linarith
  show "isStackReservedAligned s r" by (rule al(3))
  have "of_nat (k * stack_reserved s stack)
        \<le> stackCurrentGrow (ratios (controls s)) * dbl_of_size (stack_reserved s stack)"
    using k(1) b(4) by (simp add: dbl_of_size_exact mult_right_mono)
  then have "of_nat (k * stack_reserved s stack)
        \<le> dbl (stackCurrentGrow (ratios (controls s)) * dbl_of_size (stack_reserved s stack))"
    using k(2) by (intro rnd_ge_nat) auto
  then have "k * stack_reserved s stack \<le> g"
    unfolding g_def using k(2) by (intro clampReserved_ge) auto
  with al(1) show "k * stack_reserved s stack \<le> r" by linarith
qed

text \<open>
  The size proposed for a paused stack before the final minimum. The code asserts that
  it does not exceed the size the stack has.
\<close>

definition pausedReserved :: "GC_state \<Rightarrow> pointer \<Rightarrow> nat" where
  "pausedReserved s stack =
     alignStackReserved s
       (max (min (clampReserved (dbl (stackMaxReserved (ratios (controls s))
                    * dbl_of_size (stack_used s stack))))
                 (size_of_dbl (dbl (stackShrink (ratios (controls s))
                    * dbl_of_size (stack_reserved s stack)))))
            (stack_used s stack))"

lemma shrink_paused:
  "sizeofStackShrinkReserved s stack False = Inr (min (stack_reserved s stack) (pausedReserved s stack))"
  by (simp add: sizeofStackShrinkReserved_def pausedReserved_def Let_def)

lemma pausedReserved_bounds:
  assumes ok: "stack_sizes_ok s stack" and used: "stack_used s stack \<le> stack_reserved s stack"
    and ratio: "0 \<le> stackShrink (ratios (controls s))" "stackShrink (ratios (controls s)) \<le> 1"
  shows "stack_used s stack \<le> pausedReserved s stack"
    and "pausedReserved s stack \<le> stack_reserved s stack"
    and "isStackReservedAligned s (pausedReserved s stack)"
proof -
  note b = stack_sizes_okD [OF ok]
  define h where "h = size_of_dbl (dbl (stackShrink (ratios (controls s))
    * dbl_of_size (stack_reserved s stack)))"
  define g where "g = clampReserved (dbl (stackMaxReserved (ratios (controls s))
    * dbl_of_size (stack_used s stack)))"
  have eq: "pausedReserved s stack = alignStackReserved s (max (min g h) (stack_used s stack))"
    by (simp add: pausedReserved_def g_def h_def)
  have "stackShrink (ratios (controls s)) * dbl_of_size (stack_reserved s stack)
        \<le> of_nat (stack_reserved s stack)"
    using ratio b(4) by (simp add: dbl_of_size_exact mult_left_le_one_le)
  then have "dbl (stackShrink (ratios (controls s)) * dbl_of_size (stack_reserved s stack))
        \<le> of_nat (stack_reserved s stack)"
    using ratio b(4) by (intro rnd_le_nat) (auto simp: dbl_of_size_exact)
  then have "h \<le> stack_reserved s stack" unfolding h_def by (rule size_of_dbl_le)
  then have le: "max (min g h) (stack_used s stack) \<le> stack_reserved s stack" using used by simp
  have fits: "max (min g h) (stack_used s stack) + 40 + alignment s \<le> SIZE_MAX"
    using le b by linarith
  note al = stack_align_bounds [OF b(1) fits, folded eq]
  show "stack_used s stack \<le> pausedReserved s stack" using al(1) by linarith
  show "isStackReservedAligned s (pausedReserved s stack)" by (rule al(3))
  show "pausedReserved s stack \<le> stack_reserved s stack"
    unfolding eq by (rule stack_align_least [OF b(1) fits le b(5)])
qed

lemma min_aligned:
  "isStackReservedAligned s a \<Longrightarrow> isStackReservedAligned s b \<Longrightarrow> isStackReservedAligned s (min a b)"
  by (simp add: min_def)

text \<open>Shrinking the stack in use keeps what is used and never grows it.\<close>

lemma shrink_current_bounds:
  assumes ok: "stack_sizes_ok s stack" and used: "stack_used s stack \<le> stack_reserved s stack"
    and top: "getStackTopFrameSize s stack = Inr tfs" "tfs \<le> sizeofStackSlop s"
    and ratio: "0 \<le> stackCurrentShrink (ratios (controls s))" "stackCurrentShrink (ratios (controls s)) \<le> 1"
    and r: "sizeofStackShrinkReserved s stack True = Inr r"
  shows "r \<le> stack_reserved s stack" "stack_used s stack \<le> r" "isStackReservedAligned s r"
proof -
  note b = stack_sizes_okD [OF ok]
  obtain n where n: "sizeofStackMinimumReserved s stack = Inr n"
    using r by (auto simp: sizeofStackShrinkReserved_def Let_def)
  note mn = sizeofStackMinimumReserved_bounds [OF ok top n]
  obtain g h where req: "r = min (stack_reserved s stack) (alignStackReserved s (max (min g h) n))"
    and g: "g \<le> 4611686018427387904"
    using r n clampReserved_le by (auto simp: sizeofStackShrinkReserved_def Let_def)
  have fits: "max (min g h) n + 40 + alignment s \<le> SIZE_MAX"
    using g mn(2) b sizeofStackSlop_less [of s] by linarith
  note al = stack_align_bounds [OF b(1) fits]
  show "r \<le> stack_reserved s stack" by (simp add: req)
  show "stack_used s stack \<le> r" using req al(1) mn(1) used by linarith
  show "isStackReservedAligned s r" unfolding req by (rule min_aligned [OF b(5) al(3)])
qed

section \<open>Copying a stack\<close>

text \<open>
  \<open>copyStack\<close> writes the field \<open>used\<close> of the target and the used bytes above its
  bottom, and nothing else, when the target has room for them.
\<close>

lemma copyStack_spec:
  assumes r: "copyStack s from to = Inr s'"
    and sep: "from + 32 + stack_used s from \<le> to \<or> to + 32 + stack_used s from \<le> from"
  shows "stack_used s' to = stack_used s from"
    and "\<And>b. b < stack_used s from \<Longrightarrow>
           mem s' (getStackBottom s to + b) = mem s (getStackBottom s from + b)"
    and "\<And>a. (a < to + 24 \<or> to + 32 + stack_used s from \<le> a) \<Longrightarrow> mem s' a = mem s a"
proof -
  let ?n = "stack_used s from"
  let ?m = "store64 (mem s) (to + 24) (word_of_nat ?n)"
  have n: "?n < 18446744073709551616" by (simp add: stack_used_def unat_lt_64)
  have same: "stack_used (set_stack_used to ?n s) from = ?n"
    using sep by (cases "?n = 0")
      (auto simp: stack_used_def set_stack_used_def load64_store64_disjoint)
  have s': "s' = (set_stack_used to ?n s)\<lparr>mem := copy_block ?m (from + 32) (to + 32) ?n\<rparr>"
    using r same unfolding copyStack_def Let_def
    by (auto simp: set_stack_used_def getStackBottom_def dest!: GC_memcpy_Inr)
  show "stack_used s' to = ?n"
    using n by (simp add: s' stack_used_def mem_simps unat_of_nat_small)
  show "mem s' a = mem s a" if "a < to + 24 \<or> to + 32 + ?n \<le> a" for a
    using that by (auto simp: s' copy_block_def store64_other)
  show "mem s' (getStackBottom s to + b) = mem s (getStackBottom s from + b)" if "b < ?n" for b
    using that sep by (auto simp: s' getStackBottom_def copy_block_def store64_other)
qed

section \<open>Layout of threads and weak pointers\<close>

lemma sizeofThread_eq [layout_simps]:
  assumes "alignment_ok s" shows "sizeofThread s = 32" "offsetofThread s = 0"
proof -
  have "isAligned 32 (alignment s)" "is_power2 (alignment s)" using assms by (simp_all add: alignment_ok_def)
  then have "align 32 (alignment s) = 32"
    using alignment_ok_le [OF assms] by (intro align_id) auto
  then show "sizeofThread s = 32" "offsetofThread s = 0"
    by (simp_all add: sizeofThread_def offsetofThread_def)
qed

lemma thread_fields [mem_simps]:
  "thread_bytesNeeded (set_thread_bytesNeeded t n s) t = n mod 18446744073709551616"
  "thread_exnStack (set_thread_exnStack t e s) t = e"
  "thread_stack (set_thread_stack t op s) t = op"
  by (simp_all add: thread_bytesNeeded_def set_thread_bytesNeeded_def thread_exnStack_def
      set_thread_exnStack_def thread_stack_def set_thread_stack_def unat_of_nat)

section \<open>What the sizing guarantees\<close>

text \<open>A stack of 1000 reserved bytes, 200 of them used, to try the properties on.\<close>

definition stack_example :: GC_state where
  "stack_example = state0\<lparr>alignment := 8, maxFrameSize := 256,
     frameInfos := [\<lparr>frame_kind = CONT_FRAME, offsets = [], frame_size = 48, sourceSeqIndex = 0\<rparr>],
     controls := GC_controls0\<lparr>ratios := GC_ratios0\<lparr>stackCurrentGrow := 2, stackShrink := 1 / 2\<rparr>\<rparr>,
     mem := store64 (store64 (\<lambda>_. 0) 4112 1000) 4120 200\<rparr>"

lemma stack_example_ok:
  "stack_sizes_ok stack_example 4096" "getStackTopFrameSize stack_example 4096 = Inr 48"
  "sizeofStackSlop stack_example = 512" "stack_used stack_example 4096 = 200"
  "stack_reserved stack_example 4096 = 1000"
proof -
  have u: "stack_used stack_example 4096 = 200" "stack_reserved stack_example 4096 = 1000"
    by (simp_all add: stack_example_def stack_used_def stack_reserved_def mem_simps)
  then show "stack_used stack_example 4096 = 200" "stack_reserved stack_example 4096 = 1000" .
  show "sizeofStackSlop stack_example = 512"
    by (simp add: stack_example_def sizeofStackSlop_def)
  show "getStackTopFrameSize stack_example 4096 = Inr 48"
    by (simp add: stack_example_def getStackTopFrameSize_def getStackTopFrameInfo_def
        getStackTopFrameIndex_def getFrameIndexFromReturnAddress_def getFrameInfoFromFrameIndex_def state0_def)
  have "alignment stack_example = 8" by (simp add: stack_example_def)
  then show "stack_sizes_ok stack_example 4096"
    by (simp add: stack_sizes_ok_def u alignment_ok_def is_power2_numeral isAligned_def
        isStackReservedAligned_def)
qed



text \<open>
  Shrinking a paused stack keeps every used byte and never asks for more than the
  stack has: the assertion the code makes before it takes the minimum with the old size
  always holds for a shrink ratio of at most 1.
\<close>

theorem sizeofStackShrinkReserved_paused:
  assumes "stack_sizes_ok s stack" "stack_used s stack \<le> stack_reserved s stack"
    and "0 \<le> stackShrink (ratios (controls s))" "stackShrink (ratios (controls s)) \<le> 1"
  shows "sizeofStackShrinkReserved s stack False = Inr (pausedReserved s stack)
    \<and> stack_used s stack \<le> pausedReserved s stack
    \<and> pausedReserved s stack \<le> stack_reserved s stack
    \<and> isStackReservedAligned s (pausedReserved s stack)"
  using pausedReserved_bounds [OF assms] by (simp add: shrink_paused min_def)

theorem sizeofStackShrinkReserved_paused_witness:
  "200 \<le> pausedReserved stack_example 4096 \<and> pausedReserved stack_example 4096 \<le> 1000"
proof -
  have "0 \<le> stackShrink (ratios (controls stack_example))"
    "stackShrink (ratios (controls stack_example)) \<le> 1"
    by (simp_all add: stack_example_def)
  then show ?thesis
    using sizeofStackShrinkReserved_paused [OF stack_example_ok(1)] by (simp add: stack_example_ok)
qed

end
