(* ===== verification/HeapPredicates.thy ===== *)
theory HeapPredicates
  imports Stack
begin

text \<open>
  Where a pointer points: the old generation, the nursery and the static heaps
  (\<open>heap_predicates.c\<close>, \<open>static-heaps.c\<close>), the region buffer's companions are in
  \<open>Regions\<close>. A word that does not look like a pointer is inside every space.
\<close>

definition isPointerInOldGen :: "GC_state \<Rightarrow> pointer \<Rightarrow> bool" where
  "isPointerInOldGen s p \<longleftrightarrow> \<not> isPointer p
     \<or> (heapStart (heap s) \<le> p \<and> p \<le> heapStart (heap s) + oldGenSize (heap s))"

definition isPointerInNursery :: "GC_state \<Rightarrow> pointer \<Rightarrow> bool" where
  "isPointerInNursery s p \<longleftrightarrow> \<not> isPointer p \<or> (nursery (heap s) \<le> p \<and> p \<le> frontier s)"

definition isObjptrInOldGen :: "GC_state \<Rightarrow> objptr \<Rightarrow> bool" where
  "isObjptrInOldGen s op \<longleftrightarrow>
     (if \<not> isObjptr op then True
      else isPointerInOldGen s (objptrToPointer op (heapStart (heap s))))"

definition isObjptrInNursery :: "GC_state \<Rightarrow> objptr \<Rightarrow> bool" where
  "isObjptrInNursery s op \<longleftrightarrow>
     (if \<not> isObjptr op then True
      else isPointerInNursery s (objptrToPointer op (heapStart (heap s))))"

definition isPointerInFromSpace :: "GC_state \<Rightarrow> pointer \<Rightarrow> bool" where
  "isPointerInFromSpace s p \<longleftrightarrow> isPointerInOldGen s p \<or> isPointerInNursery s p"

definition isObjptrInFromSpace :: "GC_state \<Rightarrow> objptr \<Rightarrow> bool" where
  "isObjptrInFromSpace s op \<longleftrightarrow> isObjptrInOldGen s op \<or> isObjptrInNursery s op"

definition isPointerInHeap :: "GC_state \<Rightarrow> pointer \<Rightarrow> bool" where
  "isPointerInHeap s p \<longleftrightarrow> isPointerInFromSpace s p"

definition isObjptrInHeap :: "GC_state \<Rightarrow> objptr \<Rightarrow> bool" where
  "isObjptrInHeap s op \<longleftrightarrow> isObjptrInFromSpace s op"

definition hasHeapBytesFree :: "GC_state \<Rightarrow> nat \<Rightarrow> nat \<Rightarrow> bool" where
  "hasHeapBytesFree s oldGen nurseryBytes \<longleftrightarrow>
     (let total = wrap (oldGenSize (heap s) + oldGen
                    + (if canMinor s then 2 else 1) * wrap_sub (limitPlusSlop s) (nursery (heap s)))
      in total \<le> heapSize (heap s) \<and> nurseryBytes \<le> wrap_sub (limitPlusSlop s) (frontier s))"

definition isHeapInit :: "GC_heap \<Rightarrow> bool" where
  "isHeapInit h \<longleftrightarrow> 0 = heapSize h"

section \<open>Static heaps\<close>

definition isPointerInImmutableStaticHeap :: "GC_state \<Rightarrow> pointer \<Rightarrow> bool" where
  "isPointerInImmutableStaticHeap s p \<longleftrightarrow> \<not> isPointer p
     \<or> (staticStart (immutableHeap (staticHeaps s)) \<le> p
         \<and> p \<le> staticStart (immutableHeap (staticHeaps s)) + staticSize (immutableHeap (staticHeaps s)))"

definition isObjptrInImmutableStaticHeap :: "GC_state \<Rightarrow> objptr \<Rightarrow> bool" where
  "isObjptrInImmutableStaticHeap s op \<longleftrightarrow>
     (if \<not> isObjptr op then True
      else isPointerInImmutableStaticHeap s (objptrToPointer op (heapStart (heap s))))"

definition isPointerInMutableStaticHeap :: "GC_state \<Rightarrow> pointer \<Rightarrow> bool" where
  "isPointerInMutableStaticHeap s p \<longleftrightarrow> \<not> isPointer p
     \<or> (staticStart (mutableHeap (staticHeaps s)) \<le> p
         \<and> p \<le> staticStart (mutableHeap (staticHeaps s)) + staticSize (mutableHeap (staticHeaps s)))"

definition isObjptrInMutableStaticHeap :: "GC_state \<Rightarrow> objptr \<Rightarrow> bool" where
  "isObjptrInMutableStaticHeap s op \<longleftrightarrow>
     (if \<not> isObjptr op then True
      else isPointerInMutableStaticHeap s (objptrToPointer op (heapStart (heap s))))"

definition isPointerInRootStaticHeap :: "GC_state \<Rightarrow> pointer \<Rightarrow> bool" where
  "isPointerInRootStaticHeap s p \<longleftrightarrow> \<not> isPointer p
     \<or> (staticStart (rootHeap (staticHeaps s)) \<le> p
         \<and> p \<le> staticStart (rootHeap (staticHeaps s)) + staticSize (rootHeap (staticHeaps s)))"

definition isObjptrInRootStaticHeap :: "GC_state \<Rightarrow> objptr \<Rightarrow> bool" where
  "isObjptrInRootStaticHeap s op \<longleftrightarrow>
     (if \<not> isObjptr op then True
      else isPointerInRootStaticHeap s (objptrToPointer op (heapStart (heap s))))"

definition isPointerInImmutableMutableOrRootStaticHeap :: "GC_state \<Rightarrow> pointer \<Rightarrow> bool" where
  "isPointerInImmutableMutableOrRootStaticHeap s p \<longleftrightarrow>
     isPointerInImmutableStaticHeap s p \<or> isPointerInMutableStaticHeap s p
       \<or> isPointerInRootStaticHeap s p"

definition isObjptrInImmutableMutableOrRootStaticHeap :: "GC_state \<Rightarrow> objptr \<Rightarrow> bool" where
  "isObjptrInImmutableMutableOrRootStaticHeap s op \<longleftrightarrow>
     isObjptrInImmutableStaticHeap s op \<or> isObjptrInMutableStaticHeap s op
       \<or> isObjptrInRootStaticHeap s op"

section \<open>Free space\<close>

text \<open>
  What \<open>hasHeapBytesFree\<close> decides when the heap pointers are in order: the old
  generation can grow by \<open>oldGen\<close> bytes and still leave room for copying the
  nursery, and the nursery has \<open>nurseryBytes\<close> bytes left.
\<close>

lemma hasHeapBytesFree_iff:
  assumes "nursery (heap s) \<le> frontier s" "frontier s \<le> limitPlusSlop s"
    and "limitPlusSlop s < 9223372036854775808"
    and "oldGenSize (heap s) + oldGen
           + (if canMinor s then 2 else 1) * (limitPlusSlop s - nursery (heap s)) \<le> SIZE_MAX"
  shows "hasHeapBytesFree s oldGen n \<longleftrightarrow>
    oldGenSize (heap s) + oldGen
      + (if canMinor s then 2 else 1) * (limitPlusSlop s - nursery (heap s)) \<le> heapSize (heap s)
    \<and> frontier s + n \<le> limitPlusSlop s"
proof -
  have "wrap_sub (limitPlusSlop s) (nursery (heap s)) = limitPlusSlop s - nursery (heap s)"
    "wrap_sub (limitPlusSlop s) (frontier s) = limitPlusSlop s - frontier s"
    using assms by (simp_all add: wrap_sub_eq)
  then show ?thesis
    using assms by (auto simp: hasHeapBytesFree_def Let_def)
qed

end
