(* ===== verification/Foreach.thy ===== *)
theory Foreach
  imports HeapPredicates
begin

text \<open>
  Traversals (\<open>foreach.c\<close>): the closures applied to every object pointer of an object,
  a range of objects, the static root heap, the region buffer or the globals, and to
  every frame of the current stack (\<open>call-stack.c\<close>).

  A closure is a function on a pair of the collector state and the environment. It
  may raise the end of the range that is traversed (\<open>forward\<close> does), so that end is a
  function of the pair.
\<close>

type_synonym 'e foreachState = "GC_state \<times> 'e"
type_synonym 'e foreachObjptrFun = "'e foreachState \<Rightarrow> pointer \<Rightarrow> 'e foreachState res"

section \<open>Object pointers\<close>

definition callIfIsObjptr :: "'e foreachObjptrFun \<Rightarrow> 'e foreachObjptrFun" where
  "callIfIsObjptr f st opp = (if isObjptr (load64 (mem (fst st)) opp) then f st opp else Inr st)"

text \<open>\<open>for (; p < last; p += OBJPTR_SIZE)\<close>, as the addresses it goes through.\<close>

function objptrSteps :: "pointer \<Rightarrow> pointer \<Rightarrow> pointer list" where
  "objptrSteps p lastp = (if p < lastp then p # objptrSteps (p + OBJPTR_SIZE) lastp else [])"
  by pat_completeness auto
termination by (relation "measure (\<lambda>(p, lastp). lastp - p)") auto

declare objptrSteps.simps [simp del]

text \<open>
  The loop over the elements of a sequence that mixes pointers and other data: the
  addresses of the pointers and the final value of \<open>p\<close>.
\<close>

function elementSteps :: "nat \<Rightarrow> nat \<Rightarrow> pointer \<Rightarrow> pointer \<Rightarrow> pointer list" where
  "elementSteps bno bytesObjptrs p lastp =
     (if p < lastp \<and> 0 < bno then
        (let q = p + bno; next = q + bytesObjptrs
         in objptrSteps q next @ elementSteps bno bytesObjptrs next lastp)
      else [])"
  by pat_completeness auto
termination by (relation "measure (\<lambda>(_, _, p, lastp). lastp - p)") auto

declare elementSteps.simps [simp del]

text \<open>
  The walk down a stack, from the frame at the top. A frame of size 0 makes the loop
  run forever.
\<close>

function foreachObjptrInFrames ::
  "'e foreachObjptrFun \<Rightarrow> pointer \<Rightarrow> pointer \<Rightarrow> 'e foreachState \<Rightarrow> 'e foreachState res" where
  "foreachObjptrInFrames f bottom topp st =
     (if topp > bottom then
        (let s = fst st;
             returnAddress = load64 (mem s) (topp - GC_RETURNADDRESS_SIZE)
         in case getFrameInfoFromReturnAddress s returnAddress of
              Inl e \<Rightarrow> Inl e
            | Inr frameInfo \<Rightarrow>
                if frame_size frameInfo = 0 then Inl OutOfFuel
                else
                  (let topp' = topp - frame_size frameInfo
                   in bindE (foldE (callIfIsObjptr f) (map (\<lambda>off. topp' + off) (offsets frameInfo)) st)
                        (foreachObjptrInFrames f bottom topp')))
      else Inr st)"
  by pat_completeness auto
termination by (relation "measure (\<lambda>(_, bottom, topp, _). topp)") (auto split: sum.splits)

declare foreachObjptrInFrames.simps [simp del]

definition foreachObjptrInObject ::
  "'e foreachState \<Rightarrow> pointer \<Rightarrow> 'e foreachObjptrFun \<Rightarrow> bool \<Rightarrow> ('e foreachState \<times> pointer) res" where
  "foreachObjptrInObject st p f skipWeaks =
     (let s = fst st; header = getHeader s p
      in bindE (splitHeader s header) (\<lambda>t.
         if tag t = NORMAL_TAG then
           (let p = p + bytesNonObjptrs t; pmax = p + numObjptrs t * OBJPTR_SIZE
            in bindE (foldE (callIfIsObjptr f) (objptrSteps p pmax) st) (\<lambda>st.
                 Inr (st, p + OBJPTR_SIZE * length (objptrSteps p pmax))))
         else if tag t = WEAK_TAG then
           (let p = p + bytesNonObjptrs t
            in if 1 = numObjptrs t then
                 bindE (if \<not> skipWeaks then callIfIsObjptr f st p else Inr st) (\<lambda>st.
                   Inr (st, p + OBJPTR_SIZE))
               else Inr (st, p))
         else if tag t = SEQUENCE_TAG then
           (let numElements = getSequenceLength s p;
                bytesPerElement = bytesNonObjptrs t + numObjptrs t * OBJPTR_SIZE;
                dataBytes = wrap (numElements * bytesPerElement);
                lastp = p + dataBytes
            in bindE (if 0 = numObjptrs t then Inr st
                      else if 0 = bytesNonObjptrs t then
                        foldE (callIfIsObjptr f) (objptrSteps p lastp) st
                      else
                        foldE (callIfIsObjptr f)
                          (elementSteps (bytesNonObjptrs t) (numObjptrs t * OBJPTR_SIZE) p lastp) st)
                 (\<lambda>st. Inr (st, p + alignWithExtra s dataBytes GC_SEQUENCE_METADATA_SIZE)))
         else
           (let stack = p; bottom = getStackBottom s stack; topp = getStackTop s stack
            in bindE (foreachObjptrInFrames f bottom topp st) (\<lambda>st.
                 Inr (st, p + (sizeof_GC_stack + stack_reserved (fst st) stack))))))"

text \<open>
  The two nested loops over a range. One unit of fuel pays for an object or for a
  fresh read of the end.
\<close>

fun foreachObjptrInRangeLoop ::
  "nat \<Rightarrow> 'e foreachState \<Rightarrow> pointer \<Rightarrow> pointer \<Rightarrow> ('e foreachState \<Rightarrow> pointer) \<Rightarrow> 'e foreachObjptrFun
   \<Rightarrow> bool \<Rightarrow> ('e foreachState \<times> pointer) res" where
  "foreachObjptrInRangeLoop 0 st front b back f skipWeaks = Inl OutOfFuel"
| "foreachObjptrInRangeLoop (Suc n) st front b back f skipWeaks =
     (if front < b then
        (let p = advanceToObjectData (fst st) front
         in bindE (foreachObjptrInObject st p f skipWeaks) (\<lambda>(st, front).
              foreachObjptrInRangeLoop n st front b back f skipWeaks))
      else
        (let b = back st
         in if front < b then foreachObjptrInRangeLoop n st front b back f skipWeaks
            else Inr (st, front)))"

definition foreachObjptrInRange ::
  "nat \<Rightarrow> 'e foreachState \<Rightarrow> pointer \<Rightarrow> ('e foreachState \<Rightarrow> pointer) \<Rightarrow> 'e foreachObjptrFun \<Rightarrow> bool
   \<Rightarrow> ('e foreachState \<times> pointer) res" where
  "foreachObjptrInRange n st front back f skipWeaks =
     (let b = back st
      in if front < b then foreachObjptrInRangeLoop n st front b back f skipWeaks
         else Inr (st, front))"

text \<open>Each object takes at least its header, so the size of the range is enough fuel.\<close>

definition foreachObjptrInStaticHeap ::
  "'e foreachState \<Rightarrow> GC_staticHeap \<Rightarrow> 'e foreachObjptrFun \<Rightarrow> bool \<Rightarrow> 'e foreachState res" where
  "foreachObjptrInStaticHeap st staticHeap f skipWeaks =
     (let front = alignFrontier (fst st) (staticStart staticHeap);
          back = staticStart staticHeap + staticSize staticHeap
      in bindE (foreachObjptrInRange (back - front + 1) st front (\<lambda>_. back) f skipWeaks)
           (\<lambda>(st, _). Inr st))"

definition foreachObjptrInRegionBuffer ::
  "'e foreachState \<Rightarrow> 'e foreachObjptrFun \<Rightarrow> bool \<Rightarrow> 'e foreachState res" where
  "foreachObjptrInRegionBuffer st f skipWeaks =
     (let front = alignFrontier (fst st) (regionBuffer (fst st));
          back = regionTop (fst st)
      in bindE (foreachObjptrInRange (back - front + 1) st front (\<lambda>_. back) f skipWeaks)
           (\<lambda>(st, _). Inr st))"

definition foreachGlobalObjptr ::
  "'e foreachState \<Rightarrow> 'e foreachObjptrFun \<Rightarrow> 'e foreachState res" where
  "foreachGlobalObjptr st f =
     bindE (foldE (callIfIsObjptr f)
              (map (\<lambda>i. globals (fst st) + i * OBJPTR_SIZE) [0..<globalsLength (fst st)]) st) (\<lambda>st.
     bindE (foreachObjptrInStaticHeap st (rootHeap (staticHeaps (fst st))) f True) (\<lambda>st.
     bindE (foreachObjptrInRegionBuffer st f True) (\<lambda>st.
     bindE (callIfIsObjptr f st (callFromCHandlerThreadp (fst st))) (\<lambda>st.
     bindE (callIfIsObjptr f st (currentThreadp (fst st))) (\<lambda>st.
     bindE (callIfIsObjptr f st (savedThreadp (fst st))) (\<lambda>st.
     callIfIsObjptr f st (signalHandlerThreadp (fst st))))))))"

section \<open>Frames of the current stack\<close>

type_synonym 'e foreachStackFrameFun =
  "'e foreachState \<Rightarrow> nat \<Rightarrow> GC_frameInfo \<Rightarrow> pointer \<Rightarrow> 'e foreachState res"

function foreachStackFrameLoop ::
  "'e foreachStackFrameFun \<Rightarrow> pointer \<Rightarrow> pointer \<Rightarrow> 'e foreachState \<Rightarrow> 'e foreachState res" where
  "foreachStackFrameLoop f bottom topp st =
     (if topp > bottom then
        (let s = fst st;
             returnAddress = load64 (mem s) (topp - GC_RETURNADDRESS_SIZE);
             frameIndex = getFrameIndexFromReturnAddress s returnAddress
         in if \<not> frameIndex < length (frameInfos s) then Inl (Die ''foreachStackFrame'')
            else
              (let frameInfo = frameInfos s ! frameIndex
               in if frame_size frameInfo = 0 then Inl OutOfFuel
                  else
                    (let topp' = topp - frame_size frameInfo
                     in bindE (f st frameIndex frameInfo topp') (foreachStackFrameLoop f bottom topp'))))
      else Inr st)"
  by pat_completeness auto
termination by (relation "measure (\<lambda>(_, bottom, topp, _). topp)") auto

declare foreachStackFrameLoop.simps [simp del]

definition foreachStackFrame ::
  "'e foreachState \<Rightarrow> 'e foreachStackFrameFun \<Rightarrow> 'e foreachState res" where
  "foreachStackFrame st f =
     (let s = fst st; bottom = getStackBottom s (getStackCurrent s); topp = GC_state.stackTop s
      in foreachStackFrameLoop f bottom topp st)"

definition numStackFramesAux :: "nat foreachStackFrameFun" where
  "numStackFramesAux st frameIndex frameInfo frameTop =
     (case st of (s, numStackFrames) \<Rightarrow> Inr (s, (numStackFrames + 1) mod 4294967296))"

definition GC_numStackFrames :: "GC_state \<Rightarrow> nat res" where
  "GC_numStackFrames s =
     bindE (foreachStackFrame (s, 0) numStackFramesAux) (\<lambda>(_, numStackFrames). Inr numStackFrames)"

text \<open>The environment of the closure is the structure \<open>GC_callStackState\<close>.\<close>

record GC_callStackState =
  cs_index :: nat
  cs_frameIndices :: pointer

definition callStackAux :: "GC_callStackState foreachStackFrameFun" where
  "callStackAux st frameIndex frameInfo frameTop =
     (case st of (s, callStackState) \<Rightarrow>
        Inr (write32 (cs_frameIndices callStackState + 4 * cs_index callStackState)
               (word_of_nat frameIndex) s,
             callStackState\<lparr>cs_index := (cs_index callStackState + 1) mod 4294967296\<rparr>))"

definition GC_callStack :: "GC_state \<Rightarrow> pointer \<Rightarrow> GC_state res" where
  "GC_callStack s p =
     bindE (foreachStackFrame (s, \<lparr>cs_index = 0, cs_frameIndices = p\<rparr>) callStackAux)
       (\<lambda>(s, _). Inr s)"

definition GC_frameIndexSourceSeq :: "GC_state \<Rightarrow> nat \<Rightarrow> nat list res" where
  "GC_frameIndexSourceSeq s frameIndex =
     (if frameIndex < length (frameInfos s) then
        (let i = sourceSeqIndex (frameInfos s ! frameIndex)
         in if i < length (sourceSeqs (sourceMaps s)) then Inr (sourceSeqs (sourceMaps s) ! i)
            else Inl Undefined)
      else Inl Undefined)"

section \<open>The addresses visited\<close>

lemma objptrSteps_add:
  "objptrSteps p (p + n * 8) = map (\<lambda>i. p + i * 8) [0..<n]"
proof (induction n arbitrary: p)
  case (Suc n)
  have "objptrSteps p (p + Suc n * 8) = p # objptrSteps (p + 8) (p + 8 + n * 8)"
    by (subst objptrSteps.simps) (simp add: add.assoc)
  also have "\<dots> = p # map (\<lambda>i. p + Suc i * 8) [0..<n]"
    by (simp add: Suc.IH)
  also have "\<dots> = map (\<lambda>i. p + i * 8) [0..<Suc n]"
    unfolding upt_0_Suc by simp
  finally show ?case .
qed (simp add: objptrSteps.simps)

text \<open>The object pointers of a sequence, element by element.\<close>

definition sequenceObjptrs :: "nat \<Rightarrow> nat \<Rightarrow> pointer \<Rightarrow> nat \<Rightarrow> pointer list" where
  "sequenceObjptrs bno npo a n =
     concat (map (\<lambda>i. map (\<lambda>j. a + i * (bno + npo * 8) + bno + j * 8) [0..<npo]) [0..<n])"

lemma sequenceObjptrs_Suc:
  "sequenceObjptrs bno npo a (Suc n) =
     map (\<lambda>j. a + bno + j * 8) [0..<npo] @ sequenceObjptrs bno npo (a + bno + npo * 8) n"
  unfolding sequenceObjptrs_def upt_0_Suc by (simp add: comp_def algebra_simps)

lemma elementSteps_eq:
  assumes "0 < bno"
  shows "elementSteps bno (npo * 8) a (a + n * (bno + npo * 8)) = sequenceObjptrs bno npo a n"
proof (induction n arbitrary: a)
  case (Suc n)
  have "elementSteps bno (npo * 8) a (a + Suc n * (bno + npo * 8)) =
        objptrSteps (a + bno) (a + bno + npo * 8)
        @ elementSteps bno (npo * 8) (a + bno + npo * 8) (a + bno + npo * 8 + n * (bno + npo * 8))"
    using assms by (subst elementSteps.simps) (simp add: algebra_simps Let_def)
  then show ?case by (simp add: Suc.IH objptrSteps_add sequenceObjptrs_Suc)
qed (simp add: elementSteps.simps sequenceObjptrs_def)

lemma objptrSteps_sequence: "objptrSteps a (a + n * (npo * 8)) = sequenceObjptrs 0 npo a n"
proof (induction n arbitrary: a)
  case (Suc n)
  have "objptrSteps a (a + Suc n * (npo * 8)) = map (\<lambda>i. a + i * 8) [0..<npo + n * npo]"
    using objptrSteps_add [of a "npo + n * npo"] by (simp add: algebra_simps)
  also have "\<dots> = map (\<lambda>i. a + i * 8) [0..<npo] @ map (\<lambda>i. (a + npo * 8) + i * 8) [0..<n * npo]"
    unfolding upt_0_add by (simp add: comp_def algebra_simps)
  also have "\<dots> = map (\<lambda>i. a + i * 8) [0..<npo] @ objptrSteps (a + npo * 8) (a + npo * 8 + n * (npo * 8))"
    using objptrSteps_add [of "a + npo * 8" "n * npo"] by (simp add: algebra_simps)
  finally show ?case by (simp add: Suc.IH sequenceObjptrs_Suc)
qed (simp add: objptrSteps.simps sequenceObjptrs_def)

lemma set_sequenceObjptrs:
  "x \<in> set (sequenceObjptrs bno npo a n) \<longleftrightarrow>
     (\<exists>i<n. \<exists>j<npo. x = a + i * (bno + npo * 8) + bno + j * 8)"
  by (fastforce simp: sequenceObjptrs_def)

lemma sequenceObjptrs_none [simp]: "sequenceObjptrs bno 0 a n = []"
  by (induction n) (simp_all add: sequenceObjptrs_def)

lemma sequence_visit:
  assumes t: "splitHeader (fst st) (getHeader (fst st) a) = Inr t" "tag t = SEQUENCE_TAG"
    and fits: "getSequenceLength (fst st) a * (bytesNonObjptrs t + numObjptrs t * 8) \<le> SIZE_MAX"
  shows "foreachObjptrInObject st a f skipWeaks =
    bindE (foldE (callIfIsObjptr f)
             (sequenceObjptrs (bytesNonObjptrs t) (numObjptrs t) a (getSequenceLength (fst st) a)) st)
      (\<lambda>st'. Inr (st', a + sizeofSequenceNoMetaData (fst st) (getSequenceLength (fst st) a)
                     (bytesNonObjptrs t) (numObjptrs t)))"
proof -
  let ?n = "getSequenceLength (fst st) a"
  have w: "wrap (?n * (bytesNonObjptrs t + numObjptrs t * 8)) = ?n * (bytesNonObjptrs t + numObjptrs t * 8)"
    using fits by simp
  consider "numObjptrs t = 0" | "numObjptrs t \<noteq> 0" "bytesNonObjptrs t = 0"
    | "numObjptrs t \<noteq> 0" "0 < bytesNonObjptrs t" by auto
  then show ?thesis
  proof cases
    case 1
    then show ?thesis using t
      by (simp add: foreachObjptrInObject_def Let_def sizeofSequenceNoMetaData_def)
  next
    case 2
    then show ?thesis using t w objptrSteps_sequence [of a ?n "numObjptrs t"]
      by (simp add: foreachObjptrInObject_def Let_def sizeofSequenceNoMetaData_def)
  next
    case 3
    then show ?thesis using t w elementSteps_eq [OF 3(2), of "numObjptrs t" a ?n]
      by (simp add: foreachObjptrInObject_def Let_def sizeofSequenceNoMetaData_def)
  qed
qed

text \<open>
  The traversal ends where the object does: it returns the address after the
  object that \<open>sizeofObjectNoMetaData\<close> computes, provided the closure leaves the size of
  a stack alone.
\<close>

lemma foreachObjptrInObject_end:
  assumes r: "foreachObjptrInObject st p f skipWeaks = Inr (st', q)"
    and t: "splitHeader (fst st) (getHeader (fst st) p) = Inr t"
    and weak: "tag t = WEAK_TAG \<Longrightarrow> numObjptrs t \<le> 1"
    and stack: "tag t = STACK_TAG \<Longrightarrow> stack_reserved (fst st') p = stack_reserved (fst st) p
                  \<and> 32 + stack_reserved (fst st) p \<le> SIZE_MAX"
    and n: "sizeofObjectNoMetaData (fst st) p = Inr n"
  shows "q = p + n"
proof (cases "tag t")
  case NORMAL_TAG
  then have "q = p + bytesNonObjptrs t
    + 8 * length (objptrSteps (p + bytesNonObjptrs t) (p + bytesNonObjptrs t + numObjptrs t * 8))"
    using r t by (auto simp: foreachObjptrInObject_def Let_def)
  moreover have "n = bytesNonObjptrs t + numObjptrs t * 8"
    using n t NORMAL_TAG by (simp add: sizeofObjectNoMetaData_def sizeofObjectAux_def)
  ultimately show ?thesis by (simp add: objptrSteps_add)
next
  case SEQUENCE_TAG
  then have "q = p + sizeofSequenceNoMetaData (fst st) (getSequenceLength (fst st) p)
      (bytesNonObjptrs t) (numObjptrs t)"
    using r t by (auto simp: foreachObjptrInObject_def Let_def sizeofSequenceNoMetaData_def)
  then show ?thesis
    using n t SEQUENCE_TAG by (simp add: sizeofObjectNoMetaData_def sizeofObjectAux_def)
next
  case STACK_TAG
  then have "q = p + (32 + stack_reserved (fst st') p)"
    using r t by (auto simp: foreachObjptrInObject_def Let_def)
  then show ?thesis
    using n t STACK_TAG stack
    by (simp add: sizeofObjectNoMetaData_def sizeofObjectAux_def sizeofStackNoMetaData_def)
next
  case WEAK_TAG
  then have "q = p + bytesNonObjptrs t + (if numObjptrs t = 1 then 8 else 0)"
    using r t by (auto simp: foreachObjptrInObject_def Let_def split: if_splits)
  then show ?thesis
    using n t WEAK_TAG weak by (auto simp: sizeofObjectNoMetaData_def sizeofObjectAux_def le_Suc_eq)
qed

section \<open>Fuel of the range loops\<close>

lemma foreachObjptrInObject_ge:
  "foreachObjptrInObject st p f w = Inr (st', q) \<Longrightarrow> p \<le> q"
  by (auto simp: foreachObjptrInObject_def Let_def split: if_splits)

text \<open>With a fixed end, the bytes of the range are enough fuel.\<close>

lemma foreachObjptrInRangeLoop_fuel:
  assumes "b - front < n" "\<And>st p. f st p \<noteq> Inl OutOfFuel"
    and "\<And>st p. foreachObjptrInObject st p f w \<noteq> Inl OutOfFuel"
  shows "foreachObjptrInRangeLoop n st front b (\<lambda>_. b) f w \<noteq> Inl OutOfFuel"
  using assms(1)
proof (induction n arbitrary: st front)
  case (Suc n)
  show ?case
  proof (cases "front < b")
    case True
    show ?thesis
    proof (cases "foreachObjptrInObject st (advanceToObjectData (fst st) front) f w")
      case (Inl e)
      with True assms(3) [of st "advanceToObjectData (fst st) front"] show ?thesis by simp
    next
      case (Inr r)
      obtain st' q where r: "r = (st', q)" by (cases r)
      have "front + 8 \<le> advanceToObjectData (fst st) front"
        by (simp add: advanceToObjectData_def)
      with foreachObjptrInObject_ge Inr r have "front + 8 \<le> q" by (meson order.trans)
      with Suc.prems True have "b - q < n" by linarith
      from Suc.IH [OF this] show ?thesis using True Inr r by simp
    qed
  qed simp
qed simp

section \<open>The frames of a stack\<close>

text \<open>
  \<open>frames s bottom is topp\<close>: the bytes from \<open>bottom\<close> up to \<open>topp\<close> are the frames with the
  indices \<open>is\<close>, the frame at the top first.
\<close>

inductive frames :: "GC_state \<Rightarrow> pointer \<Rightarrow> nat list \<Rightarrow> pointer \<Rightarrow> bool" for s bottom where
  frames_Nil: "frames s bottom [] bottom"
| frames_Cons: "frames s bottom is topp \<Longrightarrow> i < length (frameInfos s) \<Longrightarrow>
    8 \<le> frame_size (frameInfos s ! i) \<Longrightarrow>
    getFrameIndexFromReturnAddress s
      (load64 (mem s) (topp + frame_size (frameInfos s ! i) - GC_RETURNADDRESS_SIZE)) = i \<Longrightarrow>
    frames s bottom (i # is) (topp + frame_size (frameInfos s ! i))"

inductive_simps frames_Nil_iff: "frames s bottom [] topp"
inductive_simps frames_Cons_iff: "frames s bottom (i # is) topp"

lemma frames_bottom_le: "frames s bottom is topp \<Longrightarrow> bottom \<le> topp"
  by (induction rule: frames.induct) auto

text \<open>Frames only depend on the bytes of the stack and the tables.\<close>

lemma frames_cong:
  assumes "frames s bottom is topp"
    and "frameInfos s' = frameInfos s" "returnAddressToFrameIndex s' = returnAddressToFrameIndex s"
    and "\<And>b. bottom \<le> b \<Longrightarrow> b < topp \<Longrightarrow> mem s' b = mem s b"
  shows "frames s' bottom is topp"
  using assms(1,4)
proof (induction rule: frames.induct)
  case frames_Nil
  show ?case by (rule frames.frames_Nil)
next
  case (frames_Cons "is" topp i)
  have "bottom \<le> topp" by (rule frames_bottom_le [OF frames_Cons.hyps(1)])
  then have "load64 (mem s') (topp + frame_size (frameInfos s ! i) - 8)
      = load64 (mem s) (topp + frame_size (frameInfos s ! i) - 8)"
    using frames_Cons.hyps by (intro load64_cong frames_Cons.prems) auto
  moreover have "frames s' bottom is topp" using frames_Cons by simp
  ultimately have "frames s' bottom (i # is) (topp + frame_size (frameInfos s' ! i))"
    using frames_Cons.hyps assms(2,3)
    by (intro frames.frames_Cons) (auto simp: getFrameIndexFromReturnAddress_def)
  then show ?case by (simp add: assms(2))
qed

text \<open>One step of the walk.\<close>

lemma frameLoop_step:
  assumes "frames (fst st) bottom (i # is) topp"
  shows "foreachStackFrameLoop f bottom topp st =
    bindE (f st i (frameInfos (fst st) ! i) (topp - frame_size (frameInfos (fst st) ! i)))
      (foreachStackFrameLoop f bottom (topp - frame_size (frameInfos (fst st) ! i)))"
    and "frames (fst st) bottom is (topp - frame_size (frameInfos (fst st) ! i))"
proof -
  from assms obtain t where t: "topp = t + frame_size (frameInfos (fst st) ! i)"
    "frames (fst st) bottom is t" "i < length (frameInfos (fst st))"
    "8 \<le> frame_size (frameInfos (fst st) ! i)"
    "getFrameIndexFromReturnAddress (fst st) (load64 (mem (fst st)) (topp - 8)) = i"
    by (auto simp: frames_Cons_iff)
  then show "frames (fst st) bottom is (topp - frame_size (frameInfos (fst st) ! i))" by simp
  have "bottom < topp" using t frames_bottom_le [OF t(2)] by linarith
  then show "foreachStackFrameLoop f bottom topp st =
    bindE (f st i (frameInfos (fst st) ! i) (topp - frame_size (frameInfos (fst st) ! i)))
      (foreachStackFrameLoop f bottom (topp - frame_size (frameInfos (fst st) ! i)))"
    using t by (subst foreachStackFrameLoop.simps) (simp add: Let_def)
qed

lemma frameLoop_Nil:
  "frames (fst st) bottom [] topp \<Longrightarrow> foreachStackFrameLoop f bottom topp st = Inr st"
  by (subst foreachStackFrameLoop.simps) (simp add: frames_Nil_iff)

lemma numStackFramesAux_apply:
  "numStackFramesAux (s, n) i fi p = Inr (s, (n + 1) mod 4294967296)"
  by (simp add: numStackFramesAux_def)

lemma numStackFrames_small:
  assumes "frames s bottom is topp" "n < 4294967296"
  shows "foreachStackFrameLoop numStackFramesAux bottom topp (s, n)
           = Inr (s, (n + length is) mod 4294967296)"
  using assms
proof (induction "is" arbitrary: topp n)
  case Nil
  then show ?case using frameLoop_Nil [of "(s, n)"] by simp
next
  case (Cons i "is")
  have step: "frames (fst (s, n)) bottom (i # is) topp" using Cons.prems by simp
  show ?case
    using frameLoop_step(1) [OF step, of numStackFramesAux] Cons.IH frameLoop_step(2) [OF step]
    by (simp add: numStackFramesAux_apply mod_simps)
qed

text \<open>The call stack: the k-th entry written is the index of the k-th frame from the top.\<close>

lemma callStackAux_apply:
  "callStackAux (s, cs) i fi tp =
     Inr (write32 (cs_frameIndices cs + 4 * cs_index cs) (word_of_nat i) s,
          cs\<lparr>cs_index := (cs_index cs + 1) mod 4294967296\<rparr>)"
  by (simp add: callStackAux_def)

lemma load32_store32_disjoint [mem_simps]:
  "b + 4 \<le> a \<or> a + 4 \<le> b \<Longrightarrow> load32 (store32 m a v) b = load32 m b"
  by (simp only: load32_def store32_def load_le_store_disjoint)

lemma callStack_loop:
  assumes "frames s bottom is topp" "j + length is < 4294967296"
    and "a + 4 * (j + length is) \<le> bottom \<or> topp \<le> a + 4 * j"
  shows "\<exists>s' cs'. foreachStackFrameLoop callStackAux bottom topp
           (s, \<lparr>cs_index = j, cs_frameIndices = a\<rparr>) = Inr (s', cs')
         \<and> (\<forall>k<length is. load32 (mem s') (a + 4 * (j + k)) = word_of_nat (is ! k))
         \<and> (\<forall>b. b + 4 \<le> a + 4 * j \<longrightarrow> load32 (mem s') b = load32 (mem s) b)"
  using assms
proof (induction "is" arbitrary: s topp j)
  case Nil
  then show ?case using frameLoop_Nil [of "(s, \<lparr>cs_index = j, cs_frameIndices = a\<rparr>)"] by simp
next
  case (Cons i "is")
  let ?st = "(s, \<lparr>cs_index = j, cs_frameIndices = a\<rparr>)"
  let ?s = "write32 (a + 4 * j) (word_of_nat i) s"
  let ?t = "topp - frame_size (frameInfos s ! i)"
  have step: "frames (fst ?st) bottom (i # is) topp" using Cons.prems by simp
  have le: "bottom \<le> ?t" using frames_bottom_le [OF frameLoop_step(2) [OF step]] by simp
  have "frames ?s bottom is ?t"
  proof (rule frames_cong)
    show "frames s bottom is ?t" using frameLoop_step(2) [OF step] by simp
    show "mem ?s b = mem s b" if "bottom \<le> b" "b < ?t" for b
    proof -
      have "b < a + 4 * j \<or> a + 4 * j + 4 \<le> b" using that Cons.prems(3) by auto
      then show ?thesis by (simp only: write32_mem store32_def store_le_other)
    qed
  qed (simp_all add: write32_def)
  moreover have "j + 1 + length is < 4294967296"
    "a + 4 * (j + 1 + length is) \<le> bottom \<or> ?t \<le> a + 4 * (j + 1)"
    using Cons.prems(2,3) by auto
  ultimately obtain s' cs' where r: "foreachStackFrameLoop callStackAux bottom ?t
      (?s, \<lparr>cs_index = j + 1, cs_frameIndices = a\<rparr>) = Inr (s', cs')"
    "\<forall>k<length is. load32 (mem s') (a + 4 * (j + 1 + k)) = word_of_nat (is ! k)"
    "\<forall>b. b + 4 \<le> a + 4 * (j + 1) \<longrightarrow> load32 (mem s') b = load32 (mem ?s) b"
    using Cons.IH [of ?s ?t "j + 1"] by blast
  have first: "load32 (mem s') (a + 4 * j) = word_of_nat i" using r(3) by simp
  have "load32 (mem s') (a + 4 * (j + k)) = word_of_nat ((i # is) ! k)" if "k < length (i # is)" for k
    using that first r(2) by (cases k) simp_all
  moreover have "load32 (mem s') b = load32 (mem s) b" if "b + 4 \<le> a + 4 * j" for b
    using that r(3) by (simp add: load32_store32_disjoint)
  moreover have "foreachStackFrameLoop callStackAux bottom topp ?st = Inr (s', cs')"
    using frameLoop_step(1) [OF step, of callStackAux] r(1) Cons.prems(2)
    by (simp add: callStackAux_apply)
  ultimately show ?case by blast
qed

section \<open>What the traversals guarantee\<close>

text \<open>A sequence of three elements of 8 plain bytes and two pointers, at address 4096.\<close>

definition foreach_example :: GC_state where
  "foreach_example = state0\<lparr>alignment := 8,
     objectTypes := [\<lparr>tag = SEQUENCE_TAG, hasIdentity = True, bytesNonObjptrs = 8, numObjptrs = 2\<rparr>],
     mem := store64 (store64 (\<lambda>_. 0) 4088 1) 4080 3\<rparr>"

lemma foreach_example_type:
  "splitHeader foreach_example (getHeader foreach_example 4096) =
     Inr \<lparr>tag = SEQUENCE_TAG, hasIdentity = True, bytesNonObjptrs = 8, numObjptrs = 2\<rparr>"
  "getSequenceLength foreach_example 4096 = 3"
  by (simp_all add: foreach_example_def getHeader_def getHeaderp_def splitHeader_def
      typeIndexOfHeader_def getSequenceLength_def getSequenceLengthp_def mem_simps)

text \<open>
  C19: The traversal of a sequence applies the closure to the object pointers of every
  element in order, exactly the slots \<open>indexSequenceAtObjptrIndex\<close> names, whatever the mix
  of pointers and plain bytes, and returns the end that \<open>sizeofSequenceNoMetaData\<close> gives.
\<close>

theorem foreachObjptrInObject_sequence:
  assumes "splitHeader (fst st) (getHeader (fst st) a) = Inr t" "tag t = SEQUENCE_TAG"
    and "getSequenceLength (fst st) a * (bytesNonObjptrs t + numObjptrs t * 8) \<le> SIZE_MAX"
  shows "\<exists>slots. foreachObjptrInObject st a f skipWeaks =
      bindE (foldE (callIfIsObjptr f) slots st) (\<lambda>st'. Inr (st', a +
        sizeofSequenceNoMetaData (fst st) (getSequenceLength (fst st) a) (bytesNonObjptrs t) (numObjptrs t)))
    \<and> map Inr slots = concat (map (\<lambda>i. map (\<lambda>j. indexSequenceAtObjptrIndex (fst st) a i j)
                         [0..<numObjptrs t]) [0..<getSequenceLength (fst st) a])"
proof (intro exI conjI)
  show "foreachObjptrInObject st a f skipWeaks =
    bindE (foldE (callIfIsObjptr f)
      (sequenceObjptrs (bytesNonObjptrs t) (numObjptrs t) a (getSequenceLength (fst st) a)) st)
      (\<lambda>st'. Inr (st', a +
        sizeofSequenceNoMetaData (fst st) (getSequenceLength (fst st) a) (bytesNonObjptrs t) (numObjptrs t)))"
    by (rule sequence_visit [OF assms])
  show "map Inr (sequenceObjptrs (bytesNonObjptrs t) (numObjptrs t) a (getSequenceLength (fst st) a)) =
    concat (map (\<lambda>i. map (\<lambda>j. indexSequenceAtObjptrIndex (fst st) a i j) [0..<numObjptrs t])
      [0..<getSequenceLength (fst st) a])"
    using assms(1) by (simp add: sequenceObjptrs_def map_concat comp_def indexSequenceAtObjptrIndex_def)
qed

definition collectSlots :: "pointer list foreachObjptrFun" where
  "collectSlots st p = (case st of (s, l) \<Rightarrow> Inr (s, l @ [p]))"

theorem foreachObjptrInObject_sequence_witness:
  "\<exists>slots. foreachObjptrInObject (foreach_example, []) 4096 collectSlots False =
      bindE (foldE (callIfIsObjptr collectSlots) slots (foreach_example, [])) (\<lambda>st'. Inr (st', 4096 +
        sizeofSequenceNoMetaData foreach_example 3 8 2))"
  using foreachObjptrInObject_sequence [of "(foreach_example, [])" 4096 _ collectSlots False]
  by (auto simp: foreach_example_type)

text \<open>A current stack with two frames of 16 bytes and index 0, at address 4096.\<close>

definition frames_example :: GC_state where
  "frames_example = state0\<lparr>alignment := 8, currentThreadp := 256, GC_state.stackTop := 4160,
     frameInfos := [\<lparr>frame_kind = CONT_FRAME, offsets = [], frame_size = 16, sourceSeqIndex = 0\<rparr>],
     mem := store64 (store64 (\<lambda>_. 0) 256 1024) 1040 4096\<rparr>"

lemma frames_example_ok:
  "getStackCurrent frames_example = 4096" "frames frames_example 4128 [0, 0] 4160"
proof -
  have al: "alignment_ok frames_example"
    by (simp add: frames_example_def alignment_ok_def is_power2_numeral isAligned_def)
  have "offsetofThread frames_example = 0" by (rule sizeofThread_eq(2) [OF al])
  then show "getStackCurrent frames_example = 4096"
    by (simp add: getStackCurrent_def getStackCurrentObjptr_def getThreadCurrent_def
        getThreadCurrentObjptr_def thread_stack_def currentThread_def)
       (simp add: frames_example_def mem_simps)
  have fi: "frame_size (frameInfos frames_example ! 0) = 16" "0 < length (frameInfos frames_example)"
    "\<And>ra. getFrameIndexFromReturnAddress frames_example ra = 0"
    by (simp_all add: frames_example_def getFrameIndexFromReturnAddress_def state0_def)
  have "frames frames_example 4128 [0] (4128 + 16)"
    using frames.frames_Cons [OF frames.frames_Nil, of 0 frames_example 4128] fi by simp
  from frames.frames_Cons [OF this, of 0] fi show "frames frames_example 4128 [0, 0] 4160" by simp
qed

text \<open>
  C27: On a current stack made of frames, \<open>GC_numStackFrames\<close> counts them, and
  \<open>GC_callStack\<close> fills an array of that many words, outside the stack, with their indices
  from the top down.
\<close>

theorem callStack_spec:
  assumes "frames s (getStackBottom s (getStackCurrent s)) is (GC_state.stackTop s)"
    and "length is < 4294967296"
    and "a + 4 * length is \<le> getStackBottom s (getStackCurrent s) \<or> GC_state.stackTop s \<le> a"
  shows "GC_numStackFrames s = Inr (length is)
    \<and> (\<exists>s'. GC_callStack s a = Inr s'
        \<and> (\<forall>k<length is. load32 (mem s') (a + 4 * k) = word_of_nat (is ! k)))"
proof
  show "GC_numStackFrames s = Inr (length is)"
    using numStackFrames_small [OF assms(1), of 0] assms(2)
    by (simp add: GC_numStackFrames_def foreachStackFrame_def Let_def)
  show "\<exists>s'. GC_callStack s a = Inr s'
        \<and> (\<forall>k<length is. load32 (mem s') (a + 4 * k) = word_of_nat (is ! k))"
    using callStack_loop [OF assms(1), of 0 a] assms(2,3)
    by (auto simp: GC_callStack_def foreachStackFrame_def Let_def)
qed

theorem callStack_spec_witness:
  "GC_numStackFrames frames_example = Inr 2
   \<and> (\<exists>s'. GC_callStack frames_example 8192 = Inr s' \<and> load32 (mem s') 8196 = 0)"
proof -
  have top: "GC_state.stackTop frames_example = 4160" by (simp add: frames_example_def)
  show ?thesis
    using callStack_spec [of frames_example "[0, 0]" 8192]
    by (auto simp: frames_example_ok getStackBottom_def top dest: spec [of _ 1])
qed

end
