(* ===== verification/Regions.thy ===== *)
theory Regions
  imports Foreach
begin

text \<open>
  Nested regions (\<open>regions.c\<close>): a buffer with a top that the compiled program moves up
  to allocate, and a base. Opening a region stores the base below the new one; closing
  it restores both. The interface is stated as a locale: whatever the program does
  between an open and its close, the state below comes back.
\<close>

definition GC_regionPush :: "GC_state \<Rightarrow> GC_state" where
  "GC_regionPush s =
     (let oldBase = regionBase s;
          oldTop = regionTop s;
          s = write64 oldTop (word_of_nat oldBase) s;
          newBase = oldTop + 8
      in s\<lparr>regionBase := newBase, regionTop := newBase\<rparr>)"

definition GC_regionPop :: "GC_state \<Rightarrow> GC_state" where
  "GC_regionPop s =
     (if regionTop s = regionBuffer s then s
      else if regionBase s = regionBuffer s then s\<lparr>regionTop := regionBuffer s\<rparr>
      else
        (let currTop = regionTop s;
             currBase = regionBase s;
             newTop = currBase - 8;
             oldBase = unat (load64 (mem s) newTop);
             s = (if currTop > newTop then
                    (let poppedBytes = currTop - newTop
                     in cumul_upd (\<lambda>c. c\<lparr>bytesStackAllocated := bytesStackAllocated c + poppedBytes\<rparr>) s)
                  else s);
             liveBytes = wrap_sub currTop (regionBuffer s);
             s = (if liveBytes > maxRegionBytesLive (cumulativeStatistics s) then
                    cumul_upd (\<lambda>c. c\<lparr>maxRegionBytesLive := liveBytes\<rparr>) s
                  else s)
         in s\<lparr>regionTop := newTop, regionBase := oldBase\<rparr>))"

lemma GC_regionPop_fields [state_simps]:
  "regionTop (GC_regionPop s) =
     (if regionTop s = regionBuffer s \<or> regionBase s = regionBuffer s then regionBuffer s
      else regionBase s - 8)"
  "regionBase (GC_regionPop s) =
     (if regionTop s = regionBuffer s \<or> regionBase s = regionBuffer s then regionBase s
      else unat (load64 (mem s) (regionBase s - 8)))"
  "regionBuffer (GC_regionPop s) = regionBuffer s"
  "mem (GC_regionPop s) = mem s"
  by (simp_all add: GC_regionPop_def Let_def cumul_upd_def)

lemma GC_regionPush_fields [state_simps]:
  "regionTop (GC_regionPush s) = regionTop s + 8"
  "regionBase (GC_regionPush s) = regionTop s + 8"
  "regionBuffer (GC_regionPush s) = regionBuffer s"
  "mem (GC_regionPush s) = store64 (mem s) (regionTop s) (word_of_nat (regionBase s))"
  by (simp_all add: GC_regionPush_def Let_def write64_def)

section \<open>Nested use of an open and a close operation\<close>

text \<open>
  \<open>nested open close work room s t\<close>: a client gets from \<open>s\<close> to \<open>t\<close> by work and by opens
  that it closes again.
\<close>

inductive nested ::
  "('s \<Rightarrow> 's) \<Rightarrow> ('s \<Rightarrow> 's) \<Rightarrow> ('s \<Rightarrow> 's \<Rightarrow> bool) \<Rightarrow> ('s \<Rightarrow> bool) \<Rightarrow> 's \<Rightarrow> 's \<Rightarrow> bool"
  for opn cls work room where
  nested_refl: "nested opn cls work room s s"
| nested_work: "nested opn cls work room s t \<Longrightarrow> work t u \<Longrightarrow> nested opn cls work room s u"
| nested_open: "nested opn cls work room s t \<Longrightarrow> room t \<Longrightarrow> nested opn cls work room (opn t) u \<Longrightarrow>
    nested opn cls work room s (cls u)"

locale nesting =
  fixes opn cls :: "'s \<Rightarrow> 's" and work :: "'s \<Rightarrow> 's \<Rightarrow> bool" and room inv :: "'s \<Rightarrow> bool"
    and keeps restores :: "'s \<Rightarrow> 's \<Rightarrow> bool"
  assumes keeps_refl: "inv s \<Longrightarrow> keeps s s"
    and keeps_trans: "keeps s t \<Longrightarrow> keeps t u \<Longrightarrow> keeps s u"
    and keeps_inv: "inv s \<Longrightarrow> keeps s t \<Longrightarrow> inv t"
    and work_keeps: "inv s \<Longrightarrow> work s t \<Longrightarrow> keeps s t"
    and opn_inv: "inv s \<Longrightarrow> room s \<Longrightarrow> inv (opn s)"
    and cls_restores: "inv s \<Longrightarrow> room s \<Longrightarrow> keeps (opn s) t \<Longrightarrow> restores s (cls t)"
    and restores_keeps: "inv s \<Longrightarrow> restores s t \<Longrightarrow> keeps s t"
begin

lemma nested_keeps:
  assumes "nested opn cls work room s t" "inv s"
  shows "keeps s t"
  using assms
proof (induction rule: nested.induct)
  case (nested_refl s)
  then show ?case by (rule keeps_refl)
next
  case (nested_work s t u)
  then show ?case by (meson keeps_inv keeps_trans work_keeps)
next
  case (nested_open s t u)
  then have "keeps s t" "inv t" using keeps_inv by auto
  moreover from \<open>inv t\<close> nested_open have "keeps (opn t) u" by (simp add: opn_inv)
  ultimately show ?case using nested_open.hyps(2) by (meson cls_restores restores_keeps keeps_trans)
qed

lemma nested_open_close:
  "inv s \<Longrightarrow> room s \<Longrightarrow> nested opn cls work room (opn s) t \<Longrightarrow> restores s (cls t)"
  by (rule cls_restores) (auto intro: nested_keeps opn_inv)

end

section \<open>The chain of saved bases\<close>

text \<open>
  The bases of the open regions, innermost first: each is preceded by a word that
  holds the next one, and the outermost is the start of the buffer.
\<close>

inductive region_chain :: "mem \<Rightarrow> pointer \<Rightarrow> pointer \<Rightarrow> pointer list \<Rightarrow> bool" for m buf where
  chain_outer: "region_chain m buf buf [buf]"
| chain_inner: "region_chain m buf b bs \<Longrightarrow> b + 8 \<le> b' \<Longrightarrow> b < 18446744073709551616 \<Longrightarrow>
    load64 m (b' - 8) = word_of_nat b \<Longrightarrow> region_chain m buf b' (b' # bs)"

inductive_cases region_chain_cases: "region_chain m buf b bs"

lemma region_chain_ge: "region_chain m buf b bs \<Longrightarrow> buf \<le> b"
  by (induction rule: region_chain.induct) auto

lemma region_chain_cong:
  assumes "region_chain m buf b bs" "\<And>a. a < b \<Longrightarrow> m' a = m a"
  shows "region_chain m' buf b bs"
  using assms
proof (induction rule: region_chain.induct)
  case chain_outer
  show ?case by (rule region_chain.chain_outer)
next
  case (chain_inner b bs b')
  have "load64 m' (b' - 8) = load64 m (b' - 8)"
    using chain_inner.hyps by (intro load64_cong chain_inner.prems) auto
  then show ?case using chain_inner by (intro region_chain.chain_inner) auto
qed

definition region_inv :: "GC_state \<Rightarrow> bool" where
  "region_inv s \<longleftrightarrow> (\<exists>bs. region_chain (mem s) (regionBuffer s) (regionBase s) bs)
     \<and> regionBase s \<le> regionTop s"

text \<open>The word a push stores must not lie across the end of the address space.\<close>

definition region_room :: "GC_state \<Rightarrow> bool" where
  "region_room s \<longleftrightarrow> regionTop s + 8 < 18446744073709551616"

text \<open>What the compiled program does: it writes into the open region and moves its top.\<close>

definition region_work :: "GC_state \<Rightarrow> GC_state \<Rightarrow> bool" where
  "region_work s t \<longleftrightarrow> regionBase t = regionBase s \<and> regionBuffer t = regionBuffer s
     \<and> regionBase s \<le> regionTop t \<and> (\<forall>a<regionBase s. mem t a = mem s a)"

definition region_restores :: "GC_state \<Rightarrow> GC_state \<Rightarrow> bool" where
  "region_restores s t \<longleftrightarrow> regionBase t = regionBase s \<and> regionBuffer t = regionBuffer s
     \<and> regionTop t = regionTop s \<and> (\<forall>a<regionTop s. mem t a = mem s a)"

lemma region_push_inv:
  assumes "region_inv s" "region_room s" shows "region_inv (GC_regionPush s)"
proof -
  obtain bs where ch: "region_chain (mem s) (regionBuffer s) (regionBase s) bs"
    and le: "regionBase s \<le> regionTop s"
    using assms(1) by (auto simp: region_inv_def)
  let ?m = "store64 (mem s) (regionTop s) (word_of_nat (regionBase s))"
  have "region_chain ?m (regionBuffer s) (regionBase s) bs"
    using ch le by (rule_tac region_chain_cong) (auto simp: store64_other)
  then have "region_chain ?m (regionBuffer s) (regionTop s + 8) ((regionTop s + 8) # bs)"
    by (rule region_chain.chain_inner) (use le assms(2) in \<open>auto simp: region_room_def\<close>)
  then show ?thesis by (auto simp: region_inv_def state_simps)
qed

lemma region_pop_restores:
  assumes "region_inv s" "region_room s" "region_work (GC_regionPush s) t"
  shows "region_restores s (GC_regionPop t)"
proof -
  let ?m = "store64 (mem s) (regionTop s) (word_of_nat (regionBase s))"
  have base: "regionBase t = regionTop s + 8" "regionBuffer t = regionBuffer s"
      "regionTop s + 8 \<le> regionTop t" and below: "\<And>a. a < regionTop s + 8 \<Longrightarrow> mem t a = ?m a"
    using assms(3) by (auto simp: region_work_def state_simps)
  obtain bs where "region_chain (mem s) (regionBuffer s) (regionBase s) bs"
    and le: "regionBase s \<le> regionTop s"
    using assms(1) by (auto simp: region_inv_def)
  then have buf: "regionBuffer s \<le> regionBase s" by (rule_tac region_chain_ge)
  have "load64 (mem t) (regionTop s) = load64 ?m (regionTop s)"
    by (rule load64_cong) (simp add: below)
  then have saved: "unat (load64 (mem t) (regionTop s)) = regionBase s"
    using le assms(2) by (simp add: unat_of_nat_small region_room_def)
  have "mem t a = mem s a" if "a < regionTop s" for a
    using below [of a] that by (simp add: store64_other)
  then show ?thesis
    using base buf le saved by (auto simp: region_restores_def state_simps)
qed

lemma region_pop_inv:
  assumes "region_inv s" shows "region_inv (GC_regionPop s)"
proof -
  obtain bs where ch: "region_chain (mem s) (regionBuffer s) (regionBase s) bs"
    and le: "regionBase s \<le> regionTop s"
    using assms by (auto simp: region_inv_def)
  from ch show ?thesis
  proof (rule region_chain_cases)
    assume "regionBase s = regionBuffer s"
    then show ?thesis using le
      by (auto simp: state_simps region_inv_def intro: region_chain.chain_outer)
  next
    fix b bs'
    assume c: "region_chain (mem s) (regionBuffer s) b bs'" "b + 8 \<le> regionBase s"
      "b < 18446744073709551616" "load64 (mem s) (regionBase s - 8) = word_of_nat b"
    have buf: "regionBuffer s \<le> b" by (rule region_chain_ge [OF c(1)])
    have "unat (load64 (mem s) (regionBase s - 8)) = b" using c by (simp add: unat_of_nat_small)
    then show ?thesis using c le buf
      by (auto simp: state_simps region_inv_def)
  qed
qed

interpretation region: nesting GC_regionPush GC_regionPop region_work region_room region_inv
  region_work region_restores
proof unfold_locales
  show "region_inv s \<Longrightarrow> region_work s s" for s
    by (simp add: region_work_def region_inv_def)
  show "region_work s t \<Longrightarrow> region_work t u \<Longrightarrow> region_work s u" for s t u
    by (simp add: region_work_def)
  show "region_inv s \<Longrightarrow> region_work s t \<Longrightarrow> region_inv t" for s t
    using region_chain_cong [of "mem s" "regionBuffer s" "regionBase s" _ "mem t"]
    by (auto simp: region_work_def region_inv_def)
  show "region_inv s \<Longrightarrow> region_work s t \<Longrightarrow> region_work s t" for s t .
  show "region_inv s \<Longrightarrow> region_room s \<Longrightarrow> region_inv (GC_regionPush s)" for s
    by (rule region_push_inv)
  show "region_inv s \<Longrightarrow> region_room s \<Longrightarrow> region_work (GC_regionPush s) t
      \<Longrightarrow> region_restores s (GC_regionPop t)" for s t
    by (rule region_pop_restores)
  show "region_inv s \<Longrightarrow> region_restores s t \<Longrightarrow> region_work s t" for s t
    by (auto simp: region_restores_def region_work_def region_inv_def)
qed

section \<open>What regions guarantee\<close>

text \<open>
  C14: Whatever a program does between opening a region and closing it, including opening
  and closing further regions, as long as it writes only into the open region: closing
  gives back the base, the top, and every byte below the top.
\<close>

theorem region_nesting:
  assumes "region_inv s" "region_room s"
    and "nested GC_regionPush GC_regionPop region_work region_room (GC_regionPush s) t"
  shows "regionBase (GC_regionPop t) = regionBase s \<and> regionTop (GC_regionPop t) = regionTop s
    \<and> (\<forall>a<regionTop s. mem (GC_regionPop t) a = mem s a) \<and> region_inv (GC_regionPop t)"
  using region.nested_open_close [OF assms] region.restores_keeps [OF assms(1)]
    region.keeps_inv [OF assms(1)]
  by (auto simp: region_restores_def)

definition region_example :: GC_state where
  "region_example = state0\<lparr>regionBuffer := 8192, regionBase := 8192, regionTop := 8256\<rparr>"

theorem region_nesting_witness:
  "regionTop (GC_regionPop (GC_regionPop (GC_regionPush (GC_regionPush region_example)))) = 8256"
proof -
  have inv: "region_inv region_example" "region_room region_example"
    by (auto simp: region_example_def region_inv_def region_room_def intro: region_chain.chain_outer)
  have "region_room (GC_regionPush region_example)"
    by (simp add: region_room_def state_simps) (simp add: region_example_def)
  then have "nested GC_regionPush GC_regionPop region_work region_room (GC_regionPush region_example)
      (GC_regionPop (GC_regionPush (GC_regionPush region_example)))"
    by (rule nested.nested_open [OF nested.nested_refl _ nested.nested_refl])
  from region_nesting [OF inv this] show ?thesis by (simp add: region_example_def)
qed



end
