(* ===== verification/ObjectRange.thy ===== *)
theory ObjectRange
  imports Regions
begin

text \<open>
  Contiguous ranges of well-formed objects, as the collector walks them: the relation
  \<open>objects\<close> lists the addresses at which the objects of a range begin. It depends on the
  bytes of the range only, and the traversals of \<open>foreach.c\<close> step along it.
\<close>

text \<open>
  An object of \<open>n\<close> bytes begins at \<open>a\<close>: a sequence begins with its counter word, which is
  0, every other object with its header.
\<close>

definition object_at :: "GC_state \<Rightarrow> pointer \<Rightarrow> nat \<Rightarrow> bool" where
  "object_at s a n \<longleftrightarrow>
     (let p = advanceToObjectData s a
      in sizeofObject s p = Inr n \<and>
         (case splitHeader s (getHeader s p) of
            Inl _ \<Rightarrow> False
          | Inr t \<Rightarrow> if tag t = SEQUENCE_TAG then p = a + 24 \<and> 24 \<le> n
                     else p = a + 8 \<and> (if tag t = STACK_TAG then 40 \<le> n else 8 \<le> n)))"

inductive objects :: "GC_state \<Rightarrow> pointer \<Rightarrow> pointer list \<Rightarrow> pointer \<Rightarrow> bool" for s where
  objects_Nil: "objects s a [] a"
| objects_Cons: "object_at s a n \<Longrightarrow> objects s (a + n) xs b \<Longrightarrow> objects s a (a # xs) b"

inductive_simps objects_Nil_iff [simp]: "objects s a [] b"
inductive_cases objects_ConsE: "objects s a (x # xs) b"

lemma object_at_size:
  "object_at s a n \<Longrightarrow> sizeofObject s (advanceToObjectData s a) = Inr n \<and> 8 \<le> n"
  by (auto simp: object_at_def Let_def split: sum.splits if_splits)

lemma object_at_unique: "object_at s a n \<Longrightarrow> object_at s a m \<Longrightarrow> n = m"
  by (auto simp: object_at_def Let_def)

lemma objects_le: "objects s a xs b \<Longrightarrow> a \<le> b"
  by (induction rule: objects.induct) auto

lemma objects_nonempty: "objects s a xs b \<Longrightarrow> a < b \<longleftrightarrow> xs \<noteq> []"
proof (induction rule: objects.induct)
  case (objects_Cons a n xs b)
  then show ?case using object_at_size [of s a n] objects_le [of s "a + n" xs b] by auto
qed simp

lemma objects_starts: "objects s a xs b \<Longrightarrow> x \<in> set xs \<Longrightarrow> a \<le> x \<and> x < b"
proof (induction rule: objects.induct)
  case (objects_Cons a n xs b)
  then show ?case using object_at_size [of s a n] objects_le [of s "a + n" xs b] by auto
qed simp

lemma objects_hd: "objects s a (x # xs) b \<Longrightarrow> x = a"
  by (auto elim: objects_ConsE)

lemma objects_append:
  "objects s a xs b \<Longrightarrow> objects s b ys c \<Longrightarrow> objects s a (xs @ ys) c"
  by (induction rule: objects.induct) (auto intro: objects.objects_Cons)

text \<open>Two walks from the same address agree as far as the shorter one goes.\<close>

lemma objects_split:
  assumes "objects s a xs b" "objects s a ys c" "b \<le> c"
  shows "\<exists>zs. ys = xs @ zs \<and> objects s b zs c"
  using assms
proof (induction arbitrary: ys rule: objects.induct)
  case (objects_Cons a n xs b)
  have "a < c" using objects_Cons.hyps object_at_size [of s a n] objects_le [of s "a + n" xs b]
      objects_Cons.prems(2) by auto
  then obtain y zs where ys: "ys = y # zs"
    using objects_nonempty [OF objects_Cons.prems(1)] by (cases ys) auto
  with objects_Cons.prems(1) obtain m where m: "y = a" "object_at s a m" "objects s (a + m) zs c"
    by (auto elim: objects_ConsE)
  with object_at_unique [OF objects_Cons.hyps(1)] have "m = n" by blast
  then show ?case using objects_Cons.IH [of zs] m objects_Cons.prems(2) ys by auto
qed auto

section \<open>Objects depend on their bytes\<close>

lemma splitHeader_cong: "objectTypes s' = objectTypes s \<Longrightarrow> splitHeader s' h = splitHeader s h"
  by (simp add: splitHeader_def Let_def)

lemma alignWithExtra_cong: "alignment s' = alignment s \<Longrightarrow> alignWithExtra s' b e = alignWithExtra s b e"
  by (simp add: alignWithExtra_def)

text \<open>\<open>same_tables s s'\<close>: the constants of the compiled program are the same.\<close>

definition same_tables :: "GC_state \<Rightarrow> GC_state \<Rightarrow> bool" where
  "same_tables s s' \<longleftrightarrow> objectTypes s' = objectTypes s \<and> alignment s' = alignment s
     \<and> frameInfos s' = frameInfos s \<and> returnAddressToFrameIndex s' = returnAddressToFrameIndex s
     \<and> maxFrameSize s' = maxFrameSize s"

lemma same_tables_refl [simp]: "same_tables s s"
  by (simp add: same_tables_def)

lemma same_tables_trans [trans]: "same_tables s t \<Longrightarrow> same_tables t u \<Longrightarrow> same_tables s u"
  by (simp add: same_tables_def)

lemma same_tables_sym: "same_tables s t \<Longrightarrow> same_tables t s"
  by (simp add: same_tables_def)

lemma object_at_cong:
  assumes at: "object_at s a n" and tabs: "same_tables s s'"
    and m: "\<And>b. a \<le> b \<Longrightarrow> b < a + n \<Longrightarrow> mem s' b = mem s b"
  shows "object_at s' a n" "advanceToObjectData s' a = advanceToObjectData s a"
    "getHeader s' (advanceToObjectData s a) = getHeader s (advanceToObjectData s a)"
proof -
  define p where "p = advanceToObjectData s a"
  obtain t where t: "splitHeader s (getHeader s p) = Inr t" and size: "sizeofObject s p = Inr n"
    and lay: "if tag t = SEQUENCE_TAG then p = a + 24 \<and> 24 \<le> n
              else p = a + 8 \<and> (if tag t = STACK_TAG then 40 \<le> n else 8 \<le> n)"
    using at by (auto simp: object_at_def Let_def p_def split: sum.splits)
  have ld: "load64 (mem s') b = load64 (mem s) b" if "a \<le> b" "b + 8 \<le> a + n" for b
    using that by (intro load64_cong m) auto
  have n8: "8 \<le> n" using lay by (auto split: if_splits)
  have adv: "advanceToObjectData s' a = p"
    using ld [of a] n8 by (simp add: advanceToObjectData_def p_def)
  then show "advanceToObjectData s' a = advanceToObjectData s a" by (simp add: p_def)
  have hd: "getHeader s' p = getHeader s p"
    unfolding getHeader_def getHeaderp_def using lay by (intro ld) (auto split: if_splits)
  then show "getHeader s' (advanceToObjectData s a) = getHeader s (advanceToObjectData s a)"
    by (simp add: p_def)
  have tp: "splitHeader s' h = splitHeader s h" for h
    using tabs by (intro splitHeader_cong) (simp add: same_tables_def)
  have len: "tag t = SEQUENCE_TAG \<Longrightarrow> getSequenceLength s' p = getSequenceLength s p"
    unfolding getSequenceLength_def getSequenceLengthp_def using lay by (simp add: ld)
  have st: "tag t = STACK_TAG \<Longrightarrow> stack_reserved s' p = stack_reserved s p"
    unfolding stack_reserved_def using lay by (simp add: ld)
  have seq: "sizeofSequenceNoMetaData s' x y z = sizeofSequenceNoMetaData s x y z" for x y z
    using tabs by (simp add: sizeofSequenceNoMetaData_def alignWithExtra_def same_tables_def)
  have "sizeofObjectAux s' p = sizeofObjectAux s p"
    using t len st by (cases "tag t") (simp_all add: sizeofObjectAux_def hd tp seq sizeofStackNoMetaData_def)
  then have "sizeofObject s' p = Inr n" using size by (simp add: sizeofObject_def)
  then show "object_at s' a n"
    using t lay by (simp add: object_at_def Let_def adv hd tp)
qed

lemma objects_cong:
  assumes "objects s a xs b" "same_tables s s'" "\<And>c. a \<le> c \<Longrightarrow> c < b \<Longrightarrow> mem s' c = mem s c"
  shows "objects s' a xs b"
  using assms(1,3)
proof (induction rule: objects.induct)
  case (objects_Nil a)
  show ?case by (rule objects.objects_Nil)
next
  case (objects_Cons a n xs b)
  have "a + n \<le> b" by (rule objects_le [OF objects_Cons.hyps(2)])
  then have "object_at s' a n"
    by (intro object_at_cong(1) [OF objects_Cons.hyps(1) assms(2)] objects_Cons.prems) auto
  moreover have "objects s' (a + n) xs b" using objects_Cons by auto
  ultimately show ?case by (rule objects.objects_Cons)
qed

section \<open>Invariants of traversals\<close>

text \<open>One frame of the walk down a stack.\<close>

lemma foreachObjptrInFrames_Inr:
  assumes "foreachObjptrInFrames f bottom topp st = Inr st'"
  obtains "topp \<le> bottom" "st' = st"
  | fi st1 where "bottom < topp" "0 < frame_size fi"
      "getFrameInfoFromReturnAddress (fst st) (load64 (mem (fst st)) (topp - 8)) = Inr fi"
      "foldE (callIfIsObjptr f) (map (\<lambda>off. topp - frame_size fi + off) (offsets fi)) st = Inr st1"
      "foreachObjptrInFrames f bottom (topp - frame_size fi) st1 = Inr st'"
  using assms
  by (subst (asm) foreachObjptrInFrames.simps)
    (auto simp: Let_def bindE_Inr_iff split: if_splits sum.splits)

text \<open>
  The contract between a traversal and its closure: a property of the pair of state and
  environment that the closure preserves is preserved by every traversal.
\<close>

locale foreach_invariant =
  fixes f :: "'e foreachObjptrFun" and I :: "'e foreachState \<Rightarrow> bool"
  assumes f_inv: "I st \<Longrightarrow> f st opp = Inr st' \<Longrightarrow> I st'"
begin

lemma callIfIsObjptr_inv: "callIfIsObjptr f st opp = Inr st' \<Longrightarrow> I st \<Longrightarrow> I st'"
  by (auto simp: callIfIsObjptr_def intro: f_inv split: if_splits)

lemma foldE_inv: "foldE (callIfIsObjptr f) xs st = Inr st' \<Longrightarrow> I st \<Longrightarrow> I st'"
  by (rule foldE_invariant) (auto intro: callIfIsObjptr_inv)

lemma frames_inv: "foreachObjptrInFrames f bottom topp st = Inr st' \<Longrightarrow> I st \<Longrightarrow> I st'"
proof (induction topp arbitrary: st rule: less_induct)
  case (less topp)
  from less.prems(1) show ?case
  proof (rule foreachObjptrInFrames_Inr)
    fix fi st1
    assume "bottom < topp" "0 < frame_size fi"
      and "foldE (callIfIsObjptr f) (map (\<lambda>off. topp - frame_size fi + off) (offsets fi)) st = Inr st1"
      and "foreachObjptrInFrames f bottom (topp - frame_size fi) st1 = Inr st'"
    then show ?thesis using less.IH [of "topp - frame_size fi" st1] foldE_inv less.prems(2) by simp
  qed (use less.prems in auto)
qed

lemma object_inv: "foreachObjptrInObject st p f w = Inr (st', q) \<Longrightarrow> I st \<Longrightarrow> I st'"
  by (auto simp: foreachObjptrInObject_def Let_def split: if_splits
      intro: foldE_inv frames_inv callIfIsObjptr_inv)

lemma rangeLoop_inv:
  "foreachObjptrInRangeLoop n st front b back f w = Inr (st', q) \<Longrightarrow> I st \<Longrightarrow> I st'"
proof (induction n arbitrary: st front b)
  case (Suc n)
  then show ?case
    by (auto simp: Let_def split: if_splits prod.splits dest!: object_inv)
qed simp

lemma range_inv: "foreachObjptrInRange n st front back f w = Inr (st', q) \<Longrightarrow> I st \<Longrightarrow> I st'"
  by (auto simp: foreachObjptrInRange_def Let_def split: if_splits intro: rangeLoop_inv)

lemma staticHeap_inv: "foreachObjptrInStaticHeap st h f w = Inr st' \<Longrightarrow> I st \<Longrightarrow> I st'"
  by (auto simp: foreachObjptrInStaticHeap_def Let_def intro: range_inv)

lemma regionBuffer_inv: "foreachObjptrInRegionBuffer st f w = Inr st' \<Longrightarrow> I st \<Longrightarrow> I st'"
  by (auto simp: foreachObjptrInRegionBuffer_def Let_def intro: range_inv)

lemma global_inv: "foreachGlobalObjptr st f = Inr st' \<Longrightarrow> I st \<Longrightarrow> I st'"
  by (auto simp: foreachGlobalObjptr_def
      dest!: foldE_inv staticHeap_inv regionBuffer_inv callIfIsObjptr_inv)

end

end
