(* ===== verification/Generational.thy ===== *)
theory Generational
  imports ObjectRange
begin

text \<open>
  The card map and the cross map (\<open>generational.c\<close>). The card map has a byte for each
  card of 256 bytes of the heap, set when a pointer in the card may point into the
  nursery. The cross map has, for each card, the scaled offset of the last object
  boundary in the card. Both lie in memory behind the heap.
\<close>

abbreviation (input) CARD_SIZE_LOG2 :: nat where "CARD_SIZE_LOG2 \<equiv> 8"
abbreviation (input) CARD_SIZE :: nat where "CARD_SIZE \<equiv> 256"
abbreviation (input) CARD_MAP_ELEM_SIZE :: nat where "CARD_MAP_ELEM_SIZE \<equiv> 1"
abbreviation (input) CROSS_MAP_ELEM_SIZE :: nat where "CROSS_MAP_ELEM_SIZE \<equiv> 1"
abbreviation (input) CROSS_MAP_EMPTY :: byte where "CROSS_MAP_EMPTY \<equiv> 255"
abbreviation (input) CROSS_MAP_OFFSET_SCALE :: nat where "CROSS_MAP_OFFSET_SCALE \<equiv> 4"

section \<open>Indices and card marking\<close>

definition sizeToCardMapIndex :: "nat \<Rightarrow> nat" where
  "sizeToCardMapIndex z = drop_bit CARD_SIZE_LOG2 z"

definition cardMapIndexToSize :: "nat \<Rightarrow> nat" where
  "cardMapIndexToSize i = wrap (push_bit CARD_SIZE_LOG2 i)"

definition pointerToCardMapIndexAbsolute :: "pointer \<Rightarrow> nat" where
  "pointerToCardMapIndexAbsolute p = drop_bit CARD_SIZE_LOG2 p"

text \<open>The biased base may have wrapped below 0; adding the index wraps back.\<close>

definition pointerToCardMapAddr :: "GC_state \<Rightarrow> pointer \<Rightarrow> pointer" where
  "pointerToCardMapAddr s p =
     wrap (cardMapAbsolute (generationalMaps s) + pointerToCardMapIndexAbsolute p)"

definition sizeToCrossMapIndex :: "nat \<Rightarrow> nat" where
  "sizeToCrossMapIndex z = drop_bit CARD_SIZE_LOG2 z"

definition isCardMarked :: "GC_state \<Rightarrow> pointer \<Rightarrow> bool" where
  "isCardMarked s p \<longleftrightarrow> mem s (pointerToCardMapAddr s p) \<noteq> 0"

definition markCard :: "pointer \<Rightarrow> GC_state \<Rightarrow> GC_state" where
  "markCard p s =
     (if mutatorMarksCards s then s\<lparr>mem := (mem s)(pointerToCardMapAddr s p := 1)\<rparr> else s)"

definition markIntergenerationalPointer :: "pointer \<Rightarrow> GC_state \<Rightarrow> GC_state" where
  "markIntergenerationalPointer pp s =
     (if mutatorMarksCards s \<and> isPointerInOldGen s pp
         \<and> isPointerInNursery s (unat (load64 (mem s) pp))
      then markCard pp s else s)"

definition markIntergenerationalObjptr :: "pointer \<Rightarrow> GC_state \<Rightarrow> GC_state" where
  "markIntergenerationalObjptr opp s =
     (if mutatorMarksCards s \<and> isPointerInOldGen s opp \<and> isObjptrInNursery s (load64 (mem s) opp)
      then markCard opp s else s)"

definition setCardMapAbsolute :: "GC_state \<Rightarrow> GC_state" where
  "setCardMapAbsolute s =
     (if \<not> mutatorMarksCards s then s
      else maps_upd (\<lambda>g. g\<lparr>cardMapAbsolute :=
             wrap_sub (cardMap g) (pointerToCardMapIndexAbsolute (heapStart (heap s)))\<rparr>) s)"

definition getCrossMapCardStart :: "GC_state \<Rightarrow> pointer \<Rightarrow> pointer" where
  "getCrossMapCardStart s p =
     (if p = heapStart (heap s) then heapStart (heap s) else (p - 1) - (p - 1) mod CARD_SIZE)"

section \<open>Sizes of the maps\<close>

definition sizeofCardMap :: "GC_state \<Rightarrow> nat \<Rightarrow> nat" where
  "sizeofCardMap s hsize =
     (if \<not> mutatorMarksCards s then 0
      else align (sizeToCardMapIndex hsize * CARD_MAP_ELEM_SIZE) (pageSize (sysvals s)))"

definition lenofCardMap :: "GC_state \<Rightarrow> nat \<Rightarrow> nat" where
  "lenofCardMap s cardMapSize = cardMapSize div CARD_MAP_ELEM_SIZE"

definition sizeofCrossMap :: "GC_state \<Rightarrow> nat \<Rightarrow> nat" where
  "sizeofCrossMap s hsize =
     (if \<not> mutatorMarksCards s then 0
      else align (sizeToCrossMapIndex hsize * CROSS_MAP_ELEM_SIZE) (pageSize (sysvals s)))"

definition lenofCrossMap :: "GC_state \<Rightarrow> nat \<Rightarrow> nat" where
  "lenofCrossMap s crossMapSize = crossMapSize div CROSS_MAP_ELEM_SIZE"

definition clearCardMap :: "GC_state \<Rightarrow> GC_state" where
  "clearCardMap s = s\<lparr>mem := fill_block (mem s) (cardMap (generationalMaps s))
     (cardMapLength (generationalMaps s) * CARD_MAP_ELEM_SIZE) 0\<rparr>"

definition clearCrossMap :: "GC_state \<Rightarrow> GC_state" where
  "clearCrossMap s =
     (let s = maps_upd (\<lambda>g. g\<lparr>crossMapValidSize := 0\<rparr>) s
      in s\<lparr>mem := fill_block (mem s) (crossMap (generationalMaps s))
             (crossMapLength (generationalMaps s) * CROSS_MAP_ELEM_SIZE) CROSS_MAP_EMPTY\<rparr>)"

definition clearCardMapAndCrossMap :: "GC_state \<Rightarrow> GC_state" where
  "clearCardMapAndCrossMap s = clearCrossMap (clearCardMap s)"

definition sizeofCardMapAndCrossMap :: "GC_state \<Rightarrow> nat \<Rightarrow> nat" where
  "sizeofCardMapAndCrossMap s hsize = wrap (sizeofCardMap s hsize + sizeofCrossMap s hsize)"

text \<open>The loop that raises the first estimate; each turn adds a page.\<close>

fun invertSizeofLoop :: "nat \<Rightarrow> GC_state \<Rightarrow> nat \<Rightarrow> nat \<Rightarrow> nat \<Rightarrow> nat res" where
  "invertSizeofLoop 0 s heapWithMapsSize hsize nextHeapSize = Inl OutOfFuel"
| "invertSizeofLoop (Suc n) s heapWithMapsSize hsize nextHeapSize =
     (if heapWithMapsSize \<ge> sizeofCardMapAndCrossMap s nextHeapSize
         \<and> heapWithMapsSize - sizeofCardMapAndCrossMap s nextHeapSize \<ge> nextHeapSize
      then invertSizeofLoop n s heapWithMapsSize nextHeapSize
             (wrap (nextHeapSize + pageSize (sysvals s)))
      else Inr hsize)"

definition minHeapSizeEstimate :: "GC_state \<Rightarrow> nat \<Rightarrow> nat" where
  "minHeapSizeEstimate s heapWithMapsSize =
     (let page = pageSize (sysvals s)
      in if heapWithMapsSize \<le> 3 * page then 0
         else
           (let minHeapSizeD =
                  dbl (dbl (dbl (256 / 258) * dbl_of_size (heapWithMapsSize - 3 * page))
                       - dbl (dbl (2 / 258) * dbl_of_size page))
            in alignDown (size_of_dbl minHeapSizeD) page))"

definition invertSizeofCardMapAndCrossMap :: "GC_state \<Rightarrow> nat \<Rightarrow> nat res" where
  "invertSizeofCardMapAndCrossMap s heapWithMapsSize =
     (if \<not> mutatorMarksCards s then Inr heapWithMapsSize
      else
        (let hsize = minHeapSizeEstimate s heapWithMapsSize
         in invertSizeofLoop (heapWithMapsSize + 2) s heapWithMapsSize hsize
              (wrap (hsize + pageSize (sysvals s)))))"

definition setCardMapAndCrossMap :: "GC_state \<Rightarrow> GC_state" where
  "setCardMapAndCrossMap s =
     (if \<not> mutatorMarksCards s then
        maps_upd (\<lambda>g. g\<lparr>cardMapLength := 0, cardMap := 0, cardMapAbsolute := 0,
                      crossMapLength := 0, crossMap := 0\<rparr>) s
      else
        (let cardMapSize = sizeofCardMap s (heapSize (heap s));
             s = maps_upd (\<lambda>g. g\<lparr>cardMapLength := lenofCardMap s cardMapSize\<rparr>) s;
             crossMapSize = sizeofCrossMap s (heapSize (heap s));
             s = maps_upd (\<lambda>g. g\<lparr>crossMapLength := lenofCrossMap s crossMapSize\<rparr>) s;
             s = maps_upd (\<lambda>g. g\<lparr>cardMap := heapStart (heap s) + heapSize (heap s)\<rparr>) s;
             s = maps_upd (\<lambda>g. g\<lparr>crossMap := heapStart (heap s) + heapSize (heap s) + cardMapSize\<rparr>) s
         in clearCardMapAndCrossMap (setCardMapAbsolute s)))"

section \<open>The cross map\<close>

text \<open>
  \<open>isCrossMapOk\<close> is the slow, direct computation the runtime compares the incremental
  one with; the map it allocates is a function here.
\<close>

fun isCrossMapOkLoop ::
  "nat \<Rightarrow> GC_state \<Rightarrow> pointer \<Rightarrow> pointer \<Rightarrow> (nat \<Rightarrow> byte) \<Rightarrow> (nat \<times> (nat \<Rightarrow> byte)) res" where
  "isCrossMapOkLoop 0 s front back xm = Inl OutOfFuel"
| "isCrossMapOkLoop (Suc n) s front back xm =
     (let cardStart = getCrossMapCardStart s front;
          cardIndex = sizeToCardMapIndex (cardStart - heapStart (heap s));
          xm = xm(cardIndex := word_of_nat ((front - cardStart) div CROSS_MAP_OFFSET_SCALE))
      in if front < back then
           bindE (sizeofObject s (advanceToObjectData s front)) (\<lambda>size.
             isCrossMapOkLoop n s (front + size) back xm)
         else Inr (cardIndex, xm))"

definition isCrossMapOk :: "GC_state \<Rightarrow> bool res" where
  "isCrossMapOk s =
     (let back = heapStart (heap s) + oldGenSize (heap s);
          front = alignFrontier s (heapStart (heap s))
      in bindE (isCrossMapOkLoop (back - front + 1) s front back (\<lambda>_. CROSS_MAP_EMPTY))
           (\<lambda>(cardIndex, xm).
              Inr (list_all (\<lambda>i. xm i = mem s (crossMap (generationalMaps s) + i)) [0..<cardIndex])))"

fun updateCrossMapLoop :: "nat \<Rightarrow> GC_state \<Rightarrow> nat \<Rightarrow> pointer \<Rightarrow> pointer \<Rightarrow> pointer \<Rightarrow> GC_state res" where
  "updateCrossMapLoop 0 s cardIndex cardStart objectStart oldGenEnd = Inl OutOfFuel"
| "updateCrossMapLoop (Suc n) s cardIndex cardStart objectStart oldGenEnd =
     (let cardEnd = cardStart + CARD_SIZE;
          xmap = crossMap (generationalMaps s)
      in bindE (sizeofObject s (advanceToObjectData s objectStart)) (\<lambda>size.
         let nextObject = objectStart + size;
             (s, cardIndex, cardStart) =
               (if nextObject > cardEnd then
                  (let offset = (objectStart - cardStart) div CROSS_MAP_OFFSET_SCALE;
                       s = s\<lparr>mem := (mem s)(xmap + cardIndex := word_of_nat offset)\<rparr>;
                       cardIndex = sizeToCardMapIndex (nextObject - heapStart (heap s) - 1);
                       cardStart = heapStart (heap s) + cardMapIndexToSize cardIndex
                   in (s, cardIndex, cardStart))
                else (s, cardIndex, cardStart));
             objectStart = nextObject
         in if objectStart < oldGenEnd then
              updateCrossMapLoop n s cardIndex cardStart objectStart oldGenEnd
            else
              (let s = s\<lparr>mem := (mem s)(xmap + cardIndex :=
                     word_of_nat ((oldGenEnd - cardStart) mod 256 div CROSS_MAP_OFFSET_SCALE))\<rparr>
               in Inr (maps_upd (\<lambda>g. g\<lparr>crossMapValidSize := oldGenSize (heap s)\<rparr>) s))))"

definition updateCrossMap :: "GC_state \<Rightarrow> GC_state res" where
  "updateCrossMap s =
     (if crossMapValidSize (generationalMaps s) = oldGenSize (heap s) then Inr s
      else
        (let oldGenEnd = heapStart (heap s) + oldGenSize (heap s);
             objectStart = heapStart (heap s) + crossMapValidSize (generationalMaps s);
             (cardIndex, objectStart) =
               (if objectStart = heapStart (heap s) then (0, alignFrontier s objectStart)
                else (sizeToCardMapIndex (objectStart - heapStart (heap s) - 1), objectStart));
             cardStart = heapStart (heap s) + cardMapIndexToSize cardIndex
         in updateCrossMapLoop (oldGenEnd - objectStart + 1) s cardIndex cardStart objectStart oldGenEnd))"

section \<open>Facts on card marking\<close>

lemma sizeToCardMapIndex_eq: "sizeToCardMapIndex z = z div 256"
  by (simp add: sizeToCardMapIndex_def drop_bit_eq_div)

lemma sizeToCrossMapIndex_eq: "sizeToCrossMapIndex z = z div 256"
  by (simp add: sizeToCrossMapIndex_def drop_bit_eq_div)

lemma pointerToCardMapIndexAbsolute_eq: "pointerToCardMapIndexAbsolute p = p div 256"
  by (simp add: pointerToCardMapIndexAbsolute_def drop_bit_eq_div)

lemma cardMapIndexToSize_eq: "i < 72057594037927936 \<Longrightarrow> cardMapIndexToSize i = 256 * i"
  by (simp add: cardMapIndexToSize_def push_bit_eq_mult wrap_def)

text \<open>
  The biased base: whether or not \<open>cardMap - (start >> 8)\<close> wraps below 0, adding the
  index of a pointer into the heap gives the byte of its card.
\<close>

definition biased :: "GC_state \<Rightarrow> bool" where
  "biased s \<longleftrightarrow> cardMapAbsolute (generationalMaps s) =
     wrap_sub (cardMap (generationalMaps s)) (heapStart (heap s) div 256)"

lemma wrap_sub_add:
  assumes "b \<le> c" "a + (c - b) < 18446744073709551616" "b < 18446744073709551616"
  shows "wrap (wrap_sub a b + c) = a + (c - b)"
proof -
  have eq: "a + (18446744073709551616 - b) + c = a + (c - b) + 18446744073709551616"
    using assms by linarith
  have "wrap (wrap_sub a b + c) = (a + (18446744073709551616 - b) + c) mod 18446744073709551616"
    by (simp only: wrap_sub_def wrap_def mod_add_left_eq)
  also have "\<dots> = (a + (c - b) + 18446744073709551616) mod 18446744073709551616"
    by (simp only: eq)
  also have "\<dots> = a + (c - b)" using assms(2) by simp
  finally show ?thesis .
qed

lemma cardMapAddr_eq:
  assumes "biased s" "heapStart (heap s) \<le> p" "heapStart (heap s) < 18446744073709551616"
    and "cardMap (generationalMaps s) + (p div 256 - heapStart (heap s) div 256) < 18446744073709551616"
  shows "pointerToCardMapAddr s p = cardMap (generationalMaps s) + (p div 256 - heapStart (heap s) div 256)"
  using assms unfolding pointerToCardMapAddr_def biased_def pointerToCardMapIndexAbsolute_eq
  by (simp add: wrap_sub_add div_le_mono)

lemma setCardMapAndCrossMap_fields:
  assumes "mutatorMarksCards s"
  shows "biased (setCardMapAndCrossMap s)"
    and "cardMap (generationalMaps (setCardMapAndCrossMap s)) = heapStart (heap s) + heapSize (heap s)"
    and "crossMap (generationalMaps (setCardMapAndCrossMap s)) =
           heapStart (heap s) + heapSize (heap s) + sizeofCardMap s (heapSize (heap s))"
    and "cardMapLength (generationalMaps (setCardMapAndCrossMap s)) = sizeofCardMap s (heapSize (heap s))"
    and "crossMapLength (generationalMaps (setCardMapAndCrossMap s)) = sizeofCrossMap s (heapSize (heap s))"
    and "crossMapValidSize (generationalMaps (setCardMapAndCrossMap s)) = 0"
    and "heap (setCardMapAndCrossMap s) = heap s"
    and "mutatorMarksCards (setCardMapAndCrossMap s)"
  using assms
  by (simp_all add: setCardMapAndCrossMap_def Let_def maps_upd_def setCardMapAbsolute_def
      clearCardMapAndCrossMap_def clearCardMap_def clearCrossMap_def biased_def lenofCardMap_def
      lenofCrossMap_def sizeofCardMap_def sizeofCrossMap_def pointerToCardMapIndexAbsolute_eq)

text \<open>The bytes a pair of maps takes: two cards maps of a byte per card, in whole pages.\<close>

lemma sizeofMaps_eq:
  assumes "mutatorMarksCards s" "is_power2 (pageSize (sysvals s))"
    and "h < 4611686018427387904" "pageSize (sysvals s) \<le> 4294967296"
  shows "sizeofCardMap s h = align (h div 256) (pageSize (sysvals s))"
    and "sizeofCardMapAndCrossMap s h = 2 * align (h div 256) (pageSize (sysvals s))"
    and "h div 256 \<le> align (h div 256) (pageSize (sysvals s))"
    and "align (h div 256) (pageSize (sysvals s)) < h div 256 + pageSize (sysvals s)"
proof -
  have b: "h div 256 + (pageSize (sysvals s) - 1) < 18446744073709551616"
    using assms(3,4) by linarith
  show "sizeofCardMap s h = align (h div 256) (pageSize (sysvals s))"
    using assms by (simp add: sizeofCardMap_def sizeToCardMapIndex_eq)
  show ge: "h div 256 \<le> align (h div 256) (pageSize (sysvals s))"
    by (rule align_ge [OF assms(2) b])
  show lt: "align (h div 256) (pageSize (sysvals s)) < h div 256 + pageSize (sysvals s)"
    by (rule align_less [OF assms(2) b])
  have "2 * align (h div 256) (pageSize (sysvals s)) < 18446744073709551616"
    using lt assms(3,4) by linarith
  then show "sizeofCardMapAndCrossMap s h = 2 * align (h div 256) (pageSize (sysvals s))"
    using assms by (simp add: sizeofCardMapAndCrossMap_def sizeofCardMap_def sizeofCrossMap_def
        sizeToCardMapIndex_eq sizeToCrossMapIndex_eq mult_2)
qed

text \<open>A pointer into the heap has its card's byte inside the card map.\<close>

lemma cardMapAddr_in_map:
  assumes m: "mutatorMarksCards s" and page: "is_power2 (pageSize (sysvals s))" "pageSize (sysvals s) \<le> 4294967296"
    and heap: "heapStart (heap s) mod 256 = 0" "heapStart (heap s) + 2 * heapSize (heap s) < 4611686018427387904"
    and p: "heapStart (heap s) \<le> p" "p < heapStart (heap s) + heapSize (heap s)"
    and size: "heapSize (heap s) mod 256 = 0"
    and t: "t = setCardMapAndCrossMap s"
  shows "pointerToCardMapAddr t p =
           heapStart (heap s) + heapSize (heap s) + (p - heapStart (heap s)) div 256"
    and "(p - heapStart (heap s)) div 256 < cardMapLength (generationalMaps t)"
proof -
  note f = setCardMapAndCrossMap_fields [OF m, folded t]
  obtain k where k: "heapStart (heap s) = 256 * k" using heap(1) by auto
  obtain d where d: "p = heapStart (heap s) + d" using p(1) le_Suc_ex by blast
  have split: "p div 256 - heapStart (heap s) div 256 = (p - heapStart (heap s)) div 256"
    by (simp add: k d)
  have lt: "(p - heapStart (heap s)) div 256 < heapSize (heap s) div 256"
  proof -
    obtain n where n: "heapSize (heap s) = n * 256" using size by (metis mod_0_imp_dvd dvd_def mult.commute)
    then have "p - heapStart (heap s) < n * 256" using p by linarith
    then show ?thesis by (simp add: n less_mult_imp_div_less)
  qed
  have "heapSize (heap s) div 256 \<le> heapSize (heap s)" by simp
  then show "pointerToCardMapAddr t p =
           heapStart (heap s) + heapSize (heap s) + (p - heapStart (heap s)) div 256"
    using f p heap lt split by (subst cardMapAddr_eq) auto
  show "(p - heapStart (heap s)) div 256 < cardMapLength (generationalMaps t)"
    using f(4) lt sizeofMaps_eq(1,3) [OF m page(1) _ page(2), of "heapSize (heap s)"] heap(2) by simp
qed

lemma markCard_iff:
  assumes "biased s" "mutatorMarksCards s" "heapStart (heap s) < 18446744073709551616"
    and "heapStart (heap s) \<le> p" "heapStart (heap s) \<le> q"
    and "cardMap (generationalMaps s) + (p div 256 - heapStart (heap s) div 256) < 18446744073709551616"
    and "cardMap (generationalMaps s) + (q div 256 - heapStart (heap s) div 256) < 18446744073709551616"
  shows "isCardMarked (markCard p s) q \<longleftrightarrow> isCardMarked s q \<or> p div 256 = q div 256"
proof -
  have "pointerToCardMapAddr (markCard p s) q = pointerToCardMapAddr s q"
    by (simp add: markCard_def pointerToCardMapAddr_def)
  moreover have "pointerToCardMapAddr s p = pointerToCardMapAddr s q \<longleftrightarrow> p div 256 = q div 256"
    using assms by (auto simp: cardMapAddr_eq div_le_mono eq_diff_iff)
  ultimately show ?thesis using assms(2)
    by (auto simp: isCardMarked_def markCard_def)
qed

section \<open>The inverse of the size of the maps\<close>

text \<open>The estimate never exceeds the exact solution by more than two bytes.\<close>

lemma dbl_le: "0 \<le> x \<Longrightarrow> x \<le> y \<Longrightarrow> dbl x \<le> y + y / 2 ^ 53"
proof -
  assume a: "0 \<le> x" "x \<le> y"
  show ?thesis
  proof (cases "x = 0")
    case False
    then have "\<bar>dbl x - x\<bar> \<le> x / 2 ^ 53" using a by (intro rnd_error) simp
    then have "dbl x \<le> x + x / 2 ^ 53" by linarith
    also have "x / 2 ^ 53 \<le> y / 2 ^ 53" using a by (simp add: divide_right_mono)
    finally show ?thesis using a by simp
  qed (use a in simp)
qed

lemma minHeapSizeEstimate_le:
  assumes page: "is_power2 (pageSize (sysvals s))" and h: "hwm < 4503599627370496"
    and gt: "3 * pageSize (sysvals s) < hwm"
  shows "258 * minHeapSizeEstimate s hwm \<le> 256 * (hwm - 3 * pageSize (sysvals s)) + 516"
    and "isAligned (minHeapSizeEstimate s hwm) (pageSize (sysvals s))"
proof -
  let ?P = "pageSize (sysvals s)"
  define d :: rat where "d = of_nat (hwm - 3 * ?P)"
  define x where "x = dbl (dbl (256 / 258) * dbl_of_size (hwm - 3 * ?P))"
  define y where "y = dbl (dbl (2 / 258) * dbl_of_size ?P)"
  have d: "0 \<le> d" "d \<le> 4503599627370496"
    unfolding d_def using h by (simp_all add: of_nat_le_iff [where 'a = rat and n = 4503599627370496, simplified])
  have dd: "dbl_of_size (hwm - 3 * ?P) = d" unfolding d_def using h by (intro dbl_of_size_exact) simp
  have c: "0 \<le> dbl (256 / 258)" "dbl (256 / 258) \<le> 256 / 258 + (256 / 258) / 2 ^ 53"
    by (intro rnd_nonneg, simp, intro dbl_le, simp_all)
  have "dbl (256 / 258) * d \<le> (256 / 258 + (256 / 258) / 2 ^ 53) * d"
    using c d by (intro mult_right_mono) auto
  also have "\<dots> \<le> 256 / 258 * d + 1 / 2"
    using d by (simp add: field_simps)
  finally have "x \<le> (256 / 258 * d + 1 / 2) + (256 / 258 * d + 1 / 2) / 2 ^ 53"
    unfolding x_def dd using c d by (intro dbl_le) auto
  also have "\<dots> \<le> 256 / 258 * d + 5 / 4"
    using d by (simp add: field_simps)
  finally have x: "x \<le> 256 / 258 * d + 5 / 4" .
  have y: "0 \<le> y" unfolding y_def dbl_of_size_def by (intro rnd_nonneg mult_nonneg_nonneg) simp_all
  have r: "dbl (x - y) \<le> 256 / 258 * d + 2"
  proof (cases "0 \<le> x - y")
    case True
    then have "dbl (x - y) \<le> (256 / 258 * d + 5 / 4) + (256 / 258 * d + 5 / 4) / 2 ^ 53"
      using x y by (intro dbl_le) auto
    also have "\<dots> \<le> 256 / 258 * d + 2" using d by (simp add: field_simps)
    finally show ?thesis .
  next
    case False
    then have "dbl (x - y) \<le> 0" by (intro rnd_nonpos) simp
    then show ?thesis using d by simp
  qed
  define n where "n = size_of_dbl (dbl (x - y))"
  have "of_nat n \<le> 256 / 258 * d + 2"
    unfolding n_def size_of_dbl_def using r d by (cases "0 \<le> \<lfloor>dbl (x - y)\<rfloor>") (auto, linarith)
  then have "of_nat (258 * n) \<le> (of_nat (256 * (hwm - 3 * ?P) + 516) :: rat)"
    unfolding d_def by (simp add: field_simps)
  then have n: "258 * n \<le> 256 * (hwm - 3 * ?P) + 516" by (simp only: of_nat_le_iff)
  have e: "minHeapSizeEstimate s hwm = alignDown n ?P"
    using gt by (simp add: minHeapSizeEstimate_def Let_def n_def x_def y_def)
  have b: "n < 18446744073709551616" using n h by linarith
  show "isAligned (minHeapSizeEstimate s hwm) ?P"
    unfolding e by (rule alignDown_aligned [OF page b])
  show "258 * minHeapSizeEstimate s hwm \<le> 256 * (hwm - 3 * ?P) + 516"
    unfolding e using alignDown_le [OF page b] n by linarith
qed

lemma invertSizeofLoop_spec:
  assumes m: "mutatorMarksCards s" and page: "is_power2 (pageSize (sysvals s))" "pageSize (sysvals s) \<le> 4294967296"
    and H: "hwm < 4503599627370496"
    and h: "h + sizeofCardMapAndCrossMap s h \<le> hwm" "isAligned h (pageSize (sysvals s))"
    and n: "hwm - h < n"
  shows "\<exists>r. invertSizeofLoop n s hwm h (h + pageSize (sysvals s)) = Inr r
    \<and> r + sizeofCardMapAndCrossMap s r \<le> hwm
    \<and> hwm < (r + pageSize (sysvals s)) + sizeofCardMapAndCrossMap s (r + pageSize (sysvals s))
    \<and> isAligned r (pageSize (sysvals s))"
  using h n
proof (induction n arbitrary: h)
  case (Suc n)
  let ?P = "pageSize (sysvals s)" and ?f = "sizeofCardMapAndCrossMap s"
  have P: "0 < ?P" by (rule is_power2_pos [OF page(1)])
  show ?case
  proof (cases "?f (h + ?P) \<le> hwm \<and> h + ?P \<le> hwm - ?f (h + ?P)")
    case True
    then have le: "h + ?P + ?f (h + ?P) \<le> hwm" by linarith
    moreover have "hwm - (h + ?P) < n" using Suc.prems P le by linarith
    moreover have "isAligned (h + ?P) ?P" using Suc.prems(2) by (intro isAligned_add) auto
    ultimately have "\<exists>r. invertSizeofLoop n s hwm (h + ?P) (h + ?P + ?P) = Inr r
      \<and> r + ?f r \<le> hwm \<and> hwm < (r + ?P) + ?f (r + ?P) \<and> isAligned r ?P"
      by (intro Suc.IH)
    moreover have "wrap (h + ?P + ?P) = h + ?P + ?P" using le H page(2) by simp
    ultimately show ?thesis using True by simp
  next
    case False
    then have "invertSizeofLoop (Suc n) s hwm h (h + ?P) = Inr h" by auto
    then show ?thesis using False Suc.prems by auto
  qed
qed simp

lemma minHeapSizeEstimate_fits:
  assumes m: "mutatorMarksCards s" and page: "is_power2 (pageSize (sysvals s))" "pageSize (sysvals s) \<le> 4294967296"
    and H: "hwm < 4503599627370496"
  shows "minHeapSizeEstimate s hwm + sizeofCardMapAndCrossMap s (minHeapSizeEstimate s hwm) \<le> hwm"
    and "isAligned (minHeapSizeEstimate s hwm) (pageSize (sysvals s))"
proof -
  let ?P = "pageSize (sysvals s)" and ?h = "minHeapSizeEstimate s hwm"
  have P: "0 < ?P" by (rule is_power2_pos [OF page(1)])
  have "?h + sizeofCardMapAndCrossMap s ?h \<le> hwm \<and> isAligned ?h ?P"
  proof (cases "hwm \<le> 3 * ?P")
    case True
    then have h: "?h = 0" by (simp add: minHeapSizeEstimate_def Let_def)
    have "align 0 ?P = 0" using P page by (intro align_id) auto
    then show ?thesis using sizeofMaps_eq(2) [OF m page(1) _ page(2), of 0] by (simp add: h)
  next
    case False
    then have est: "258 * ?h \<le> 256 * (hwm - 3 * ?P) + 516" and al: "isAligned ?h ?P"
      using minHeapSizeEstimate_le [OF page(1) H] by auto
    have lt: "?h < 4611686018427387904" using est H by linarith
    note f = sizeofMaps_eq [OF m page(1) lt page(2)]
    have "align (?h div 256) ?P + 1 \<le> ?h div 256 + ?P" "256 * (?h div 256) \<le> ?h"
      using f(4) by simp_all
    moreover obtain d where d: "hwm = d + 3 * ?P" "258 * ?h \<le> 256 * d + 516"
      using est False by (metis add.commute le_add_diff_inverse nat_le_linear)
    moreover have "1 \<le> ?P" using P by simp
    ultimately have "256 * (?h + 2 * align (?h div 256) ?P) \<le> 256 * hwm"
      unfolding d(1) distrib_left by linarith
    then show ?thesis using f(2) al by simp
  qed
  then show "?h + sizeofCardMapAndCrossMap s ?h \<le> hwm" "isAligned ?h ?P" by auto
qed

lemma invertSizeof_total:
  assumes m: "mutatorMarksCards s" and page: "is_power2 (pageSize (sysvals s))" "pageSize (sysvals s) \<le> 4294967296"
    and H: "hwm < 4503599627370496"
  shows "\<exists>r. invertSizeofCardMapAndCrossMap s hwm = Inr r
    \<and> r + sizeofCardMapAndCrossMap s r \<le> hwm
    \<and> hwm < (r + pageSize (sysvals s)) + sizeofCardMapAndCrossMap s (r + pageSize (sysvals s))
    \<and> isAligned r (pageSize (sysvals s))"
proof -
  let ?h = "minHeapSizeEstimate s hwm"
  note fits = minHeapSizeEstimate_fits [OF assms]
  have w: "wrap (?h + pageSize (sysvals s)) = ?h + pageSize (sysvals s)"
    using fits(1) H page(2) by simp
  have "invertSizeofCardMapAndCrossMap s hwm =
      invertSizeofLoop (hwm + 2) s hwm ?h (?h + pageSize (sysvals s))"
    unfolding invertSizeofCardMapAndCrossMap_def Let_def w using m by (simp only: simp_thms if_False)
  moreover have "hwm - ?h < hwm + 2" by simp
  ultimately show ?thesis
    using invertSizeofLoop_spec [OF assms fits, of "hwm + 2"] by (simp only:)
qed

section \<open>The cross map computes the last boundary of every card\<close>

text \<open>
  The card an object boundary \<open>b\<close> belongs to (a boundary at the start of a card belongs
  to the card before), and its entry.
\<close>

definition xslot :: "pointer \<Rightarrow> pointer \<Rightarrow> nat" where
  "xslot start b = (b - start - 1) div 256"

definition xentry :: "pointer \<Rightarrow> pointer \<Rightarrow> byte" where
  "xentry start b = word_of_nat ((b - (start + 256 * xslot start b)) div 4)"

definition xfold :: "pointer \<Rightarrow> (nat \<Rightarrow> byte) \<Rightarrow> pointer list \<Rightarrow> nat \<Rightarrow> byte" where
  "xfold start xm bs = foldl (\<lambda>xm b. xm(xslot start b := xentry start b)) xm bs"

lemma xfold_simps [simp]:
  "xfold start xm [] = xm"
  "xfold start xm (b # bs) = xfold start (xm(xslot start b := xentry start b)) bs"
  by (simp_all add: xfold_def)

lemma xfold_append: "xfold start xm (bs @ cs) = xfold start (xfold start xm bs) cs"
  by (simp add: xfold_def)

lemma xfold_cong:
  "(\<And>j. j \<noteq> i \<Longrightarrow> xm j = xm' j) \<Longrightarrow> i \<in> xslot start ` set bs \<or> xm i = xm' i \<Longrightarrow>
   xfold start xm bs = xfold start xm' bs"
proof (induction bs arbitrary: xm xm')
  case (Cons b bs)
  show ?case unfolding xfold_simps
    by (rule Cons.IH) (use Cons.prems in auto)
next
  case Nil
  then have "xm j = xm' j" for j by (cases "j = i") auto
  then show ?case by auto
qed

lemma xfold_other: "j \<notin> xslot start ` set bs \<Longrightarrow> xfold start xm bs j = xm j"
  by (induction bs arbitrary: xm) auto

lemma xslot_mono: "b \<le> c \<Longrightarrow> xslot start b \<le> xslot start c"
  by (simp add: xslot_def div_le_mono diff_le_mono)

lemma xslot_bounds:
  assumes "start < b"
  shows "start + 256 * xslot start b < b" "b \<le> start + 256 * xslot start b + 256"
proof -
  have "256 * ((b - start - 1) div 256) \<le> b - start - 1" by simp
  with assms show "start + 256 * xslot start b < b" unfolding xslot_def by linarith
  have "b - start - 1 < 256 * ((b - start - 1) div 256) + 256"
    using mod_less_divisor [of 256 "b - start - 1"] mult_div_mod_eq [of 256 "b - start - 1"] by linarith
  with assms show "b \<le> start + 256 * xslot start b + 256" unfolding xslot_def by linarith
qed

lemma getCrossMapCardStart_eq:
  assumes "heapStart (heap s) mod 256 = 0" "heapStart (heap s) \<le> p"
  shows "getCrossMapCardStart s p = heapStart (heap s) + 256 * xslot (heapStart (heap s)) p"
    and "sizeToCardMapIndex (getCrossMapCardStart s p - heapStart (heap s)) = xslot (heapStart (heap s)) p"
proof -
  obtain k where k: "heapStart (heap s) = 256 * k" using assms(1) by auto
  have "p - 1 - (p - 1) mod 256 = 256 * k + 256 * ((p - 256 * k - 1) div 256)" if ne: "p \<noteq> 256 * k"
  proof -
    obtain e where e: "p = 256 * k + e" using assms(2) k le_Suc_ex by auto
    then obtain d where d: "p = 256 * k + Suc d" using ne by (cases e) auto
    have "(p - 1) div 256 = k + d div 256" by (simp add: d)
    then show ?thesis unfolding minus_mod_eq_mult_div by (simp add: d)
  qed
  then show *: "getCrossMapCardStart s p = heapStart (heap s) + 256 * xslot (heapStart (heap s)) p"
    by (auto simp: getCrossMapCardStart_def xslot_def k)
  show "sizeToCardMapIndex (getCrossMapCardStart s p - heapStart (heap s)) = xslot (heapStart (heap s)) p"
    unfolding * by (simp add: sizeToCardMapIndex_eq)
qed

lemma isCrossMapOkLoop_eq:
  assumes "objects s a xs b" "heapStart (heap s) mod 256 = 0" "heapStart (heap s) \<le> a" "b - a < n"
  shows "isCrossMapOkLoop n s a b xm =
    Inr (xslot (heapStart (heap s)) b, xfold (heapStart (heap s)) xm (xs @ [b]))"
  using assms
proof (induction arbitrary: n xm rule: objects.induct)
  case (objects_Nil a)
  then obtain n' where "n = Suc n'" by (cases n) auto
  then show ?case
    by (simp add: getCrossMapCardStart_eq [OF objects_Nil.prems(1,2)] xentry_def Let_def
        sizeToCardMapIndex_eq fun_upd_def)
next
  case (objects_Cons a k xs b)
  then obtain n' where n: "n = Suc n'" by (cases n) auto
  note size = object_at_size [OF objects_Cons.hyps(1)] and le = objects_le [OF objects_Cons.hyps(2)]
  have "isCrossMapOkLoop n' s (a + k) b (xm(xslot (heapStart (heap s)) a := xentry (heapStart (heap s)) a))
    = Inr (xslot (heapStart (heap s)) b,
        xfold (heapStart (heap s)) (xm(xslot (heapStart (heap s)) a := xentry (heapStart (heap s)) a)) (xs @ [b]))"
    using objects_Cons.prems size le n by (intro objects_Cons.IH) auto
  moreover have "a < b" using size le by linarith
  ultimately show ?case using size
    by (simp add: n getCrossMapCardStart_eq [OF objects_Cons.prems(1,2)] xentry_def Let_def
        sizeToCardMapIndex_eq fun_upd_def)
qed

text \<open>
  One turn of the incremental loop: the entry is only written when the next boundary
  lies in another card, yet the map ends up as if every boundary had been entered.
\<close>

abbreviation (input) xmap_of :: "GC_state \<Rightarrow> nat \<Rightarrow> byte" where
  "xmap_of s \<equiv> \<lambda>j. mem s (crossMap (generationalMaps s) + j)"

definition done_state :: "GC_state \<Rightarrow> mem \<Rightarrow> GC_state" where
  "done_state s m = maps_upd (\<lambda>g. g\<lparr>crossMapValidSize := oldGenSize (heap s)\<rparr>) (s\<lparr>mem := m\<rparr>)"

lemma updateCrossMapLoop_last:
  assumes at: "object_at s a k" and b: "b = a + k"
    and start: "heapStart (heap s) \<le> a" "b - heapStart (heap s) < 4611686018427387904"
    and slot: "\<not> heapStart (heap s) + 256 * xslot (heapStart (heap s)) a + 256 < b \<Longrightarrow> xslot (heapStart (heap s)) b = xslot (heapStart (heap s)) a"
  shows "\<exists>m. updateCrossMapLoop (Suc n) s (xslot (heapStart (heap s)) a)
           (heapStart (heap s) + 256 * xslot (heapStart (heap s)) a) a b = Inr (done_state s m)
    \<and> (\<forall>j<xslot (heapStart (heap s)) b. m (crossMap (generationalMaps s) + j)
         = xfold (heapStart (heap s)) (xmap_of s) [a] j)
    \<and> (\<forall>j>xslot (heapStart (heap s)) b. m (crossMap (generationalMaps s) + j) = xmap_of s j)
    \<and> (\<forall>c<crossMap (generationalMaps s). m c = mem s c)"
proof -
  let ?st = "heapStart (heap s)" and ?cm = "crossMap (generationalMaps s)"
  note size = object_at_size [OF at]
  have sl: "sizeToCardMapIndex (b - ?st - 1) = xslot ?st b"
    by (simp add: sizeToCardMapIndex_eq xslot_def)
  show ?thesis
  proof (cases "?st + 256 * xslot ?st a + 256 < b")
    case True
    have "xslot ?st a \<le> xslot ?st b" using b by (intro xslot_mono) simp
    then show ?thesis
      using True size b sl by (auto simp: Let_def done_state_def maps_upd_def xentry_def)
  next
    case False
    then show ?thesis
      using slot size b sl by (auto simp: Let_def done_state_def maps_upd_def)
  qed
qed

definition xwrite :: "pointer \<Rightarrow> pointer \<Rightarrow> GC_state \<Rightarrow> GC_state" where
  "xwrite a c s =
     (if heapStart (heap s) + 256 * xslot (heapStart (heap s)) a + 256 < c
      then s\<lparr>mem := (mem s)(crossMap (generationalMaps s) + xslot (heapStart (heap s)) a
             := xentry (heapStart (heap s)) a)\<rparr>
      else s)"

lemma xwrite_fields [simp]:
  "heap (xwrite a c s) = heap s" "generationalMaps (xwrite a c s) = generationalMaps s"
  "same_tables s (xwrite a c s)"
  by (simp_all add: xwrite_def same_tables_def)

lemma xwrite_done: "done_state (xwrite a c s) m = done_state s m"
  by (simp add: xwrite_def done_state_def maps_upd_def)

lemma xwrite_other: "b < crossMap (generationalMaps s) \<Longrightarrow> mem (xwrite a c s) b = mem s b"
  by (simp add: xwrite_def)

lemma xslot_same_card:
  assumes "start \<le> a" "a < c" "\<not> start + 256 * xslot start a + 256 < c"
  shows "xslot start c = xslot start a"
proof (rule antisym)
  show "xslot start a \<le> xslot start c" using assms by (intro xslot_mono) simp
  have "start + 256 * xslot start c < start + 256 * xslot start a + 256"
    using xslot_bounds(1) [of start c] assms by linarith
  then show "xslot start c \<le> xslot start a" by simp
qed

lemma updateCrossMapLoop_step:
  assumes at: "object_at s a k" and less: "a + k < b"
    and start: "heapStart (heap s) \<le> a" "b - heapStart (heap s) < 4611686018427387904"
  shows "updateCrossMapLoop (Suc n) s (xslot (heapStart (heap s)) a)
           (heapStart (heap s) + 256 * xslot (heapStart (heap s)) a) a b =
         updateCrossMapLoop n (xwrite a (a + k) s) (xslot (heapStart (heap s)) (a + k))
           (heapStart (heap s) + 256 * xslot (heapStart (heap s)) (a + k)) (a + k) b"
proof -
  let ?st = "heapStart (heap s)"
  note size = object_at_size [OF at]
  have sl: "sizeToCardMapIndex (a + k - Suc ?st) = xslot ?st (a + k)"
    by (simp add: sizeToCardMapIndex_eq xslot_def)
  have "xslot ?st (a + k) \<le> xslot ?st b" using less by (intro xslot_mono) simp
  also have "\<dots> < 72057594037927936" unfolding xslot_def using start(2) by linarith
  finally have ix: "cardMapIndexToSize (xslot ?st (a + k)) = 256 * xslot ?st (a + k)"
    by (rule cardMapIndexToSize_eq)
  show ?thesis
  proof (cases "?st + 256 * xslot ?st a + 256 < a + k")
    case True
    then show ?thesis using size less by (simp add: Let_def sl ix xwrite_def xentry_def)
  next
    case False
    then have "xslot ?st (a + k) = xslot ?st a"
      using size start(1) by (intro xslot_same_card) auto
    then show ?thesis using False size less by (simp add: Let_def xwrite_def)
  qed
qed

lemma updateCrossMapLoop_spec:
  assumes "objects s a xs b" "xs \<noteq> []" "heapStart (heap s) \<le> a"
    and "b - heapStart (heap s) < 4611686018427387904" "b \<le> crossMap (generationalMaps s)" "b - a < n"
  shows "\<exists>m. updateCrossMapLoop n s (xslot (heapStart (heap s)) a)
           (heapStart (heap s) + 256 * xslot (heapStart (heap s)) a) a b = Inr (done_state s m)
    \<and> (\<forall>j<xslot (heapStart (heap s)) b. m (crossMap (generationalMaps s) + j)
         = xfold (heapStart (heap s)) (xmap_of s) xs j)
    \<and> (\<forall>j>xslot (heapStart (heap s)) b. m (crossMap (generationalMaps s) + j) = xmap_of s j)
    \<and> (\<forall>c<crossMap (generationalMaps s). m c = mem s c)"
  using assms
proof (induction xs arbitrary: s a n)
  case (Cons x xs)
  let ?st = "heapStart (heap s)" and ?cm = "crossMap (generationalMaps s)"
  obtain k where at: "object_at s a k" and rest: "objects s (a + k) xs b" and x: "x = a"
    using Cons.prems(1) by (auto elim: objects_ConsE)
  obtain n' where n: "n = Suc n'" using Cons.prems(6) by (cases n) auto
  note size = object_at_size [OF at]
  show ?case
  proof (cases "xs = []")
    case True
    then have b: "b = a + k" using rest by simp
    have "\<not> ?st + 256 * xslot ?st a + 256 < b \<Longrightarrow> xslot ?st b = xslot ?st a"
      using size b Cons.prems(3) by (intro xslot_same_card) auto
    then show ?thesis
      using updateCrossMapLoop_last [OF at b Cons.prems(3,4)] True x n by simp
  next
    case False
    then have less: "a + k < b" using objects_nonempty [OF rest] by simp
    let ?s = "xwrite a (a + k) s"
    have "objects ?s (a + k) xs b"
      using Cons.prems(5) by (intro objects_cong [OF rest]) (auto simp: xwrite_other)
    moreover have "heapStart (heap ?s) \<le> a + k" "b - heapStart (heap ?s) < 4611686018427387904"
      "b \<le> crossMap (generationalMaps ?s)" "b - (a + k) < n'"
      using Cons.prems(3-6) n size less by auto
    ultimately obtain m where m: "updateCrossMapLoop n' ?s (xslot ?st (a + k))
           (?st + 256 * xslot ?st (a + k)) (a + k) b = Inr (done_state ?s m)"
        "\<forall>j<xslot ?st b. m (?cm + j) = xfold ?st (xmap_of ?s) xs j"
        "\<forall>j>xslot ?st b. m (?cm + j) = xmap_of ?s j" "\<forall>c<?cm. m c = mem ?s c"
      using Cons.IH [of ?s "a + k" n'] False by (auto simp only: xwrite_fields)
    have slots: "xslot ?st a \<le> xslot ?st (a + k)" "xslot ?st (a + k) \<le> xslot ?st b"
      using less by (auto intro: xslot_mono)
    obtain ys where ys: "xs = (a + k) # ys" using False rest objects_hd by (cases xs) auto
    have "xfold ?st (xmap_of ?s) xs = xfold ?st ((xmap_of s)(xslot ?st a := xentry ?st a)) xs"
    proof (cases "?st + 256 * xslot ?st a + 256 < a + k")
      case True
      then show ?thesis by (intro arg_cong [where f = "\<lambda>f. xfold ?st f xs"]) (auto simp: xwrite_def)
    next
      case f: False
      then have "xslot ?st (a + k) = xslot ?st a"
        using size Cons.prems(3) by (intro xslot_same_card) auto
      with f show ?thesis
        by (intro xfold_cong [of "xslot ?st a"]) (auto simp: xwrite_def ys)
    qed
    then have "\<forall>j<xslot ?st b. m (?cm + j) = xfold ?st (xmap_of s) (x # xs) j"
      using m(2) x by simp
    moreover have "\<forall>j>xslot ?st b. m (?cm + j) = xmap_of s j"
      using m(3) slots by (auto simp: xwrite_def)
    moreover have "\<forall>c<?cm. m c = mem s c" using m(4) by (simp add: xwrite_other)
    ultimately show ?thesis
      using m(1) updateCrossMapLoop_step [OF at less Cons.prems(3,4), of n']
      by (auto simp: n xwrite_done)
  qed
qed simp

text \<open>
  The cross map is right up to \<open>crossMapValidSize\<close>: the entries of all cards but the one
  that holds the last boundary are those of the direct computation. The entry of that
  last card is never relied on: it is rewritten when the map is extended.
\<close>

definition crossMap_valid :: "GC_state \<Rightarrow> bool" where
  "crossMap_valid s \<longleftrightarrow>
     (let start = heapStart (heap s); v = crossMapValidSize (generationalMaps s);
          front = alignFrontier s start
      in start mod 256 = 0 \<and> v \<le> oldGenSize (heap s) \<and> start \<le> front \<and> front \<le> start + 256
         \<and> start + oldGenSize (heap s) \<le> crossMap (generationalMaps s)
         \<and> oldGenSize (heap s) < 4611686018427387904
         \<and> (if v = 0 then \<forall>j<crossMapLength (generationalMaps s). xmap_of s j = 255
            else \<exists>xs. objects s front xs (start + v)
              \<and> (\<forall>j<crossMapLength (generationalMaps s). j \<noteq> xslot start (start + v) \<longrightarrow>
                    xmap_of s j = xfold start (\<lambda>_. 255) xs j)))"

lemma xslot_front: "start \<le> b \<Longrightarrow> b \<le> start + 256 \<Longrightarrow> xslot start b = 0"
  by (simp add: xslot_def)

lemma xslots_le:
  assumes "objects s a xs b" shows "xslot start ` set xs \<subseteq> {..xslot start b}"
  using objects_starts [OF assms] by (force intro: xslot_mono less_imp_le)

lemma xfold_agree:
  assumes "j < n" "\<And>i. i < n \<Longrightarrow> f i = g i"
  shows "xfold start f bs j = xfold start g bs j"
  using assms(2)
proof (induction bs arbitrary: f g)
  case (Cons x bs)
  show ?case unfolding xfold_simps by (rule Cons.IH) (use Cons.prems in auto)
qed (use assms in auto)

lemma updateCrossMap_main:
  assumes valid: "crossMap_valid s"
    and objs: "objects s (alignFrontier s (heapStart (heap s))) ys (heapStart (heap s) + oldGenSize (heap s))"
    and ne: "crossMapValidSize (generationalMaps s) \<noteq> oldGenSize (heap s)"
    and ys: "ys \<noteq> []"
    and len: "xslot (heapStart (heap s)) (heapStart (heap s) + oldGenSize (heap s)) < crossMapLength (generationalMaps s)"
  shows "\<exists>m. updateCrossMap s = Inr (done_state s m)
    \<and> (\<forall>c<crossMap (generationalMaps s). m c = mem s c)
    \<and> (\<forall>j<crossMapLength (generationalMaps s).
         j \<noteq> xslot (heapStart (heap s)) (heapStart (heap s) + oldGenSize (heap s)) \<longrightarrow>
         m (crossMap (generationalMaps s) + j) = xfold (heapStart (heap s)) (\<lambda>_. 255) ys j)"
proof -
  let ?st = "heapStart (heap s)" and ?v = "crossMapValidSize (generationalMaps s)"
    and ?cm = "crossMap (generationalMaps s)" and ?L = "crossMapLength (generationalMaps s)"
  let ?b = "?st + oldGenSize (heap s)" and ?f = "alignFrontier s ?st"
  have v: "?v \<le> oldGenSize (heap s)" "?st \<le> ?f" "?f \<le> ?st + 256" "?b \<le> ?cm"
      "oldGenSize (heap s) < 4611686018427387904"
    and map0: "?v = 0 \<Longrightarrow> \<forall>j<?L. xmap_of s j = 255"
    and mapv: "?v \<noteq> 0 \<Longrightarrow> \<exists>xs. objects s ?f xs (?st + ?v)
       \<and> (\<forall>j<?L. j \<noteq> xslot ?st (?st + ?v) \<longrightarrow> xmap_of s j = xfold ?st (\<lambda>_. 255) xs j)"
    using valid by (auto simp: crossMap_valid_def Let_def)
  define a where "a = (if ?v = 0 then ?f else ?st + ?v)"
  obtain xs zs where split: "ys = xs @ zs" "objects s a zs ?b" "zs \<noteq> []"
    and old: "\<forall>j<?L. j \<noteq> xslot ?st a \<longrightarrow> xmap_of s j = xfold ?st (\<lambda>_. 255) xs j"
  proof (cases "?v = 0")
    case True
    then show ?thesis using that [of "[]" ys] objs ys map0 by (simp add: a_def)
  next
    case False
    then obtain xs where xs: "objects s ?f xs (?st + ?v)"
      "\<forall>j<?L. j \<noteq> xslot ?st (?st + ?v) \<longrightarrow> xmap_of s j = xfold ?st (\<lambda>_. 255) xs j"
      using mapv by auto
    from objects_split [OF xs(1) objs] v obtain zs where "ys = xs @ zs" "objects s (?st + ?v) zs ?b"
      by auto
    with objects_nonempty [of s "?st + ?v" zs ?b] that xs(2) v(1) ne False show ?thesis
      by (auto simp: a_def)
  qed
  have a: "?st \<le> a" using v by (simp add: a_def)
  have ab: "a < ?b" using objects_nonempty [OF split(2)] split(3) by simp
  have upd: "updateCrossMap s = updateCrossMapLoop (?b - a + 1) s (xslot ?st a) (?st + 256 * xslot ?st a) a ?b"
  proof -
    define idx where "idx = (if ?v = 0 then 0 else sizeToCardMapIndex (?st + ?v - ?st - 1))"
    have idx: "idx = xslot ?st a"
      using xslot_front [OF v(2,3)] by (simp add: idx_def a_def sizeToCardMapIndex_eq xslot_def)
    have "xslot ?st a \<le> xslot ?st ?b" using ab by (intro xslot_mono) simp
    also have "\<dots> < 72057594037927936" unfolding xslot_def using v(5) by simp
    finally have cs: "cardMapIndexToSize (xslot ?st a) = 256 * xslot ?st a"
      by (rule cardMapIndexToSize_eq)
    have "updateCrossMap s = updateCrossMapLoop (?b - a + 1) s idx (?st + cardMapIndexToSize idx) a ?b"
      using ne by (cases "?v = 0")
        (simp_all add: updateCrossMap_def Let_def a_def idx_def del: updateCrossMapLoop.simps)
    then show ?thesis by (simp only: idx cs)
  qed
  obtain m where m: "updateCrossMapLoop (?b - a + 1) s (xslot ?st a) (?st + 256 * xslot ?st a) a ?b
      = Inr (done_state s m)"
    "\<forall>j<xslot ?st ?b. m (?cm + j) = xfold ?st (xmap_of s) zs j"
    "\<forall>j>xslot ?st ?b. m (?cm + j) = xmap_of s j" "\<forall>c<?cm. m c = mem s c"
    using updateCrossMapLoop_spec [OF split(2,3) a _ v(4), of "?b - a + 1"] v(5) by auto
  have "m (?cm + j) = xfold ?st (\<lambda>_. 255) ys j" if j: "j < ?L" "j \<noteq> xslot ?st ?b" for j
  proof (cases "j < xslot ?st ?b")
    case True
    obtain z where z: "zs = a # z" using split(2,3) objects_hd by (cases zs) auto
    define xm where "xm = (\<lambda>j. if j < ?L then xmap_of s j else xfold ?st (\<lambda>_. 255) xs j)"
    have "xfold ?st (xmap_of s) zs j = xfold ?st xm zs j"
      by (rule xfold_agree [OF j(1)]) (simp add: xm_def)
    also have "xfold ?st xm zs = xfold ?st (xfold ?st (\<lambda>_. 255) xs) zs"
    proof (rule xfold_cong [of "xslot ?st a"])
      show "xm i = xfold ?st (\<lambda>_. 255) xs i" if "i \<noteq> xslot ?st a" for i
      proof (cases "i < ?L")
        case True
        then have "xmap_of s i = xfold ?st (\<lambda>_. 255) xs i" using old that by blast
        then show ?thesis by (simp only: xm_def True if_True)
      next
        case False
        then show ?thesis by (simp only: xm_def if_False)
      qed
      show "xslot ?st a \<in> xslot ?st ` set zs
          \<or> xm (xslot ?st a) = xfold ?st (\<lambda>_. 255) xs (xslot ?st a)"
        by (simp add: z)
    qed
    finally show ?thesis using m(2) True by (simp add: split(1) xfold_append)
  next
    case False
    with j have gt: "xslot ?st ?b < j" by simp
    moreover have "xslot ?st a \<le> xslot ?st ?b" using ab by (intro xslot_mono) simp
    ultimately have "xmap_of s j = xfold ?st (\<lambda>_. 255) xs j" using old j by auto
    moreover have "j \<notin> xslot ?st ` set zs" using xslots_le [OF split(2), of ?st] gt by auto
    ultimately show ?thesis using m(3) gt by (simp add: split(1) xfold_append xfold_other)
  qed
  moreover have "updateCrossMap s = Inr (done_state s m)" using upd m(1) by (simp only:)
  ultimately show ?thesis using m(4) by blast
qed

lemma done_state_fields [simp]:
  "heap (done_state s m) = heap s" "mem (done_state s m) = m"
  "crossMap (generationalMaps (done_state s m)) = crossMap (generationalMaps s)"
  "crossMapLength (generationalMaps (done_state s m)) = crossMapLength (generationalMaps s)"
  "crossMapValidSize (generationalMaps (done_state s m)) = oldGenSize (heap s)"
  "alignFrontier (done_state s m) p = alignFrontier s p" "same_tables s (done_state s m)"
  by (simp_all add: done_state_def maps_upd_def alignFrontier_def alignWithExtra_def same_tables_def)

text \<open>With a valid map of the whole old generation, the direct computation agrees.\<close>

lemma crossMap_valid_ok:
  assumes valid: "crossMap_valid s" and all: "crossMapValidSize (generationalMaps s) = oldGenSize (heap s)"
    and len: "xslot (heapStart (heap s)) (heapStart (heap s) + oldGenSize (heap s)) < crossMapLength (generationalMaps s)"
  shows "isCrossMapOk s = Inr True"
proof -
  let ?st = "heapStart (heap s)" and ?cm = "crossMap (generationalMaps s)"
  let ?b = "?st + oldGenSize (heap s)" and ?f = "alignFrontier s ?st"
  have v: "?st mod 256 = 0" "?st \<le> ?f" "?f \<le> ?st + 256"
    using valid by (auto simp: crossMap_valid_def Let_def)
  show ?thesis
  proof (cases "oldGenSize (heap s) = 0")
    case True
    then have "isCrossMapOkLoop (?b - ?f + 1) s ?f ?b xm =
        Inr (xslot ?st ?f, xm(xslot ?st ?f := xentry ?st ?f))" for xm
      using v by (simp add: getCrossMapCardStart_eq [OF v(1,2)] Let_def xentry_def sizeToCardMapIndex_eq
          fun_upd_def)
    then show ?thesis
      using xslot_front [OF v(2,3)] by (simp add: isCrossMapOk_def Let_def)
  next
    case False
    then obtain xs where xs: "objects s ?f xs ?b"
      "\<forall>j<crossMapLength (generationalMaps s). j \<noteq> xslot ?st ?b \<longrightarrow>
         mem s (?cm + j) = xfold ?st (\<lambda>_. 255) xs j"
      using valid all by (auto simp: crossMap_valid_def Let_def)
    have "isCrossMapOkLoop (?b - ?f + 1) s ?f ?b (\<lambda>_. 255) =
        Inr (xslot ?st ?b, xfold ?st (\<lambda>_. 255) (xs @ [?b]))"
      using xs(1) v by (intro isCrossMapOkLoop_eq) auto
    moreover have "xfold ?st (\<lambda>_. 255) (xs @ [?b]) j = mem s (?cm + j)" if "j < xslot ?st ?b" for j
      using that xs(2) len by (simp add: xfold_append)
    ultimately show ?thesis
      by (simp add: isCrossMapOk_def Let_def list_all_iff del: isCrossMapOkLoop.simps)
  qed
qed

lemma updateCrossMap_valid:
  assumes valid: "crossMap_valid s"
    and objs: "objects s (alignFrontier s (heapStart (heap s))) ys (heapStart (heap s) + oldGenSize (heap s))"
    and ys: "ys \<noteq> []"
    and len: "xslot (heapStart (heap s)) (heapStart (heap s) + oldGenSize (heap s)) < crossMapLength (generationalMaps s)"
  shows "\<exists>s'. updateCrossMap s = Inr s' \<and> crossMap_valid s'
    \<and> crossMapValidSize (generationalMaps s') = oldGenSize (heap s) \<and> heap s' = heap s
    \<and> (\<forall>c<crossMap (generationalMaps s). mem s' c = mem s c) \<and> isCrossMapOk s' = Inr True"
proof (cases "crossMapValidSize (generationalMaps s) = oldGenSize (heap s)")
  case True
  then show ?thesis
    using valid crossMap_valid_ok [OF valid True len] by (simp add: updateCrossMap_def)
next
  case False
  let ?st = "heapStart (heap s)" and ?cm = "crossMap (generationalMaps s)"
  obtain m where m: "updateCrossMap s = Inr (done_state s m)" "\<forall>c<?cm. m c = mem s c"
    "\<forall>j<crossMapLength (generationalMaps s). j \<noteq> xslot ?st (?st + oldGenSize (heap s)) \<longrightarrow>
         m (?cm + j) = xfold ?st (\<lambda>_. 255) ys j"
    using updateCrossMap_main [OF valid objs False ys len] by auto
  have v: "?st + oldGenSize (heap s) \<le> ?cm" "?st \<le> alignFrontier s ?st"
    using valid by (auto simp: crossMap_valid_def Let_def)
  have "objects (done_state s m) (alignFrontier s ?st) ys (?st + oldGenSize (heap s))"
    by (rule objects_cong [OF objs]) (use m(2) v in auto)
  moreover have "oldGenSize (heap s) \<noteq> 0"
    using objects_nonempty [OF objs] ys v by auto
  ultimately have "crossMap_valid (done_state s m)"
    using valid m(3) by (auto simp: crossMap_valid_def Let_def)
  then show ?thesis
    using m crossMap_valid_ok [of "done_state s m"] len by auto
qed

section \<open>What the maps guarantee\<close>

text \<open>
  C25: \<open>invertSizeofCardMapAndCrossMap\<close> always returns, and what it returns is the largest
  number of pages for the heap such that heap and maps fit into the given space, as the
  comment in the source specifies: one page more would not fit.
\<close>

theorem invertSizeof_spec:
  assumes "mutatorMarksCards s" "is_power2 (pageSize (sysvals s))" "pageSize (sysvals s) \<le> 4294967296"
    and "hwm < 4503599627370496"
  shows "\<exists>r. invertSizeofCardMapAndCrossMap s hwm = Inr r
    \<and> r + sizeofCardMapAndCrossMap s r \<le> hwm
    \<and> hwm < (r + pageSize (sysvals s)) + sizeofCardMapAndCrossMap s (r + pageSize (sysvals s))
    \<and> isAligned r (pageSize (sysvals s))"
  by (rule invertSizeof_total [OF assms])

definition maps_example :: GC_state where
  "maps_example = state0\<lparr>mutatorMarksCards := True, alignment := 8,
     sysvals := GC_sysvals0\<lparr>pageSize := 4096\<rparr>,
     heap := GC_heap0\<lparr>heapStart := 4096, heapSize := 65536, oldGenSize := 16\<rparr>,
     objectTypes := [\<lparr>tag = NORMAL_TAG, hasIdentity = True, bytesNonObjptrs = 8, numObjptrs = 0\<rparr>],
     generationalMaps := GC_generationalMaps0\<lparr>crossMap := 81920, crossMapLength := 256\<rparr>,
     mem := store64 (fill_block (\<lambda>_. 0) 81920 256 255) 4096 1\<rparr>"

theorem invertSizeof_witness:
  "\<exists>r. invertSizeofCardMapAndCrossMap maps_example 1048576 = Inr r
    \<and> r + sizeofCardMapAndCrossMap maps_example r \<le> 1048576"
proof -
  have "mutatorMarksCards maps_example" "pageSize (sysvals maps_example) = 4096"
    by (simp_all add: maps_example_def)
  then show ?thesis
    using invertSizeof_spec [of maps_example 1048576] by (auto simp: is_power2_numeral)
qed

text \<open>
  C26: After \<open>setCardMapAndCrossMap\<close>, marking the card of a pointer into the heap marks the
  cards of exactly the pointers in the same 256 bytes, and the byte written is the one of
  that card inside the card map behind the heap, even if the biased base
  \<open>cardMap - (start >> 8)\<close> has wrapped below 0.
\<close>

theorem markCard_spec:
  assumes "mutatorMarksCards s" "is_power2 (pageSize (sysvals s))" "pageSize (sysvals s) \<le> 4294967296"
    and "heapStart (heap s) mod 256 = 0" "heapSize (heap s) mod 256 = 0"
    and "heapStart (heap s) + 2 * heapSize (heap s) < 4611686018427387904"
    and "heapStart (heap s) \<le> p" "p < heapStart (heap s) + heapSize (heap s)"
    and "heapStart (heap s) \<le> q" "q < heapStart (heap s) + heapSize (heap s)"
    and "t = setCardMapAndCrossMap s"
  shows "pointerToCardMapAddr t p = heapStart (heap s) + heapSize (heap s) + (p - heapStart (heap s)) div 256
    \<and> (p - heapStart (heap s)) div 256 < cardMapLength (generationalMaps t)
    \<and> (isCardMarked (markCard p t) q \<longleftrightarrow> isCardMarked t q \<or> p div 256 = q div 256)"
proof -
  note f = setCardMapAndCrossMap_fields [OF assms(1), folded assms(11)]
  have b: "cardMap (generationalMaps t) + (x div 256 - heapStart (heap t) div 256) < 18446744073709551616"
    if "x < heapStart (heap s) + heapSize (heap s)" for x
  proof -
    have "x div 256 \<le> x" by simp
    then show ?thesis using that assms(6) f(2) by linarith
  qed
  have st: "heapStart (heap t) < 18446744073709551616" "heapStart (heap t) \<le> p" "heapStart (heap t) \<le> q"
    using f(7) assms(6-10) by simp_all
  show ?thesis
    using cardMapAddr_in_map [OF assms(1-4) assms(6-8) assms(5,11)]
      markCard_iff [OF f(1,8) st b b] assms(8,10) by simp
qed

theorem markCard_spec_witness:
  "isCardMarked (markCard 4100 (setCardMapAndCrossMap maps_example)) 4300"
proof -
  have e: "mutatorMarksCards maps_example" "pageSize (sysvals maps_example) = 4096"
    "heapStart (heap maps_example) = 4096" "heapSize (heap maps_example) = 65536"
    by (simp_all add: maps_example_def)
  then show ?thesis
    using markCard_spec [of maps_example 4100 4300] by (simp add: is_power2_numeral)
qed

text \<open>
  C4: The incremental \<open>updateCrossMap\<close> computes what the direct \<open>isCrossMapOk\<close> computes: from
  a map that is valid up to some object boundary of the old generation, it returns with a
  map valid for the whole old generation, passes the check, and writes nothing below the
  cross map.
\<close>

theorem updateCrossMap_spec:
  assumes "crossMap_valid s"
    and "objects s (alignFrontier s (heapStart (heap s))) ys (heapStart (heap s) + oldGenSize (heap s))"
    and "ys \<noteq> []"
    and "(oldGenSize (heap s) - 1) div 256 < crossMapLength (generationalMaps s)"
  shows "\<exists>s'. updateCrossMap s = Inr s' \<and> crossMap_valid s' \<and> isCrossMapOk s' = Inr True
    \<and> crossMapValidSize (generationalMaps s') = oldGenSize (heap s)
    \<and> (\<forall>c<crossMap (generationalMaps s). mem s' c = mem s c)"
  using updateCrossMap_valid [OF assms(1-3)] assms(4) by (auto simp: xslot_def)

lemma maps_example_ok:
  "alignFrontier maps_example 4096 = 4096" "objects maps_example 4096 [4096] 4112"
  "crossMap_valid maps_example"
proof -
  have al: "align 4104 8 = 4104" by (rule align_id) (simp_all add: is_power2_numeral isAligned_def)
  then show front: "alignFrontier maps_example 4096 = 4096"
    by (simp add: maps_example_def alignFrontier_def alignWithExtra_def wrap_sub_def)
  have "object_at maps_example 4096 16"
    by (simp add: maps_example_def object_at_def Let_def advanceToObjectData_def getHeader_def
        getHeaderp_def splitHeader_def typeIndexOfHeader_def sizeofObject_def sizeofObjectAux_def mem_simps)
  from objects.objects_Cons [OF this, of "[]" 4112] show "objects maps_example 4096 [4096] 4112" by simp
  have "mem maps_example (81920 + j) = 255" if "j < 256" for j
    using that by (simp add: maps_example_def store64_other fill_block_def)
  then show "crossMap_valid maps_example"
    using front by (simp add: crossMap_valid_def Let_def) (simp add: maps_example_def GC_generationalMaps0_def)
qed

theorem updateCrossMap_witness:
  "\<exists>s'. updateCrossMap maps_example = Inr s' \<and> isCrossMapOk s' = Inr True"
proof -
  have e: "heapStart (heap maps_example) = 4096" "oldGenSize (heap maps_example) = 16"
    "crossMapLength (generationalMaps maps_example) = 256"
    by (simp_all add: maps_example_def)
  show ?thesis
    using updateCrossMap_spec [OF maps_example_ok(3), of "[4096]"] maps_example_ok(1,2)
    by (auto simp: e)
qed

end
