(* ===== verification/HashCons.thy ===== *)
theory HashCons
  imports Generational
begin

text \<open>
  Hash-consing (\<open>hash-cons.c\<close>): a hash table with open addressing and double hashing of
  the objects without identity that a marking has met, and the replacement of an object
  by an equal one of the table. The elements of the table are a field of its record; the
  bytes they take in the free part of the heap are not written in the memory of the model.
\<close>

section \<open>The table\<close>

abbreviation (input) sizeof_GC_objectHashElement :: nat where "sizeof_GC_objectHashElement \<equiv> 16"

definition null_element :: GC_objectHashElement where
  "null_element = \<lparr>elem_hash = 0, elem_object = 0\<rparr>"

definition GC_malloc :: "OS \<Rightarrow> GC_state \<Rightarrow> nat \<Rightarrow> GC_state \<times> bool" where
  "GC_malloc os s bytes = (s\<lparr>osCalls := osCalls s + 1\<rparr>, os_malloc os (osCalls s) bytes)"

definition malloc_safe :: "OS \<Rightarrow> GC_state \<Rightarrow> nat \<Rightarrow> GC_state res" where
  "malloc_safe os s bytes =
     (case GC_malloc os s bytes of
        (s, True) \<Rightarrow> Inr s
      | (s, False) \<Rightarrow> Inl (Die ''Out of memory: unable to allocate''))"

text \<open>The loop to the largest power of two that fits; the length is a \<open>uint32_t\<close>.\<close>

fun lengthMaxLoop :: "nat \<Rightarrow> nat \<Rightarrow> nat \<Rightarrow> nat \<Rightarrow> (nat \<times> nat) res" where
  "lengthMaxLoop 0 limitLength lengthMax lengthMaxLog2 = Inl OutOfFuel"
| "lengthMaxLoop (Suc n) limitLength lengthMax lengthMaxLog2 =
     (if lengthMax \<le> limitLength then
        lengthMaxLoop n limitLength (2 * lengthMax mod 4294967296) (lengthMaxLog2 + 1)
      else Inr (lengthMax, lengthMaxLog2))"

text \<open>The space the elements may take.\<close>

definition hashTableRegion :: "GC_state \<Rightarrow> pointer \<times> pointer" where
  "hashTableRegion s =
     (if \<not> isHeapInit (secondaryHeap s) then
        (heapStart (secondaryHeap s), heapStart (secondaryHeap s) + heapSize (secondaryHeap s))
      else if amInGC s \<or> \<not> canMinor s then (frontier s, limitPlusSlop s)
      else (heapStart (heap s) + oldGenSize (heap s), nursery (heap s)))"

definition allocHashTable :: "OS \<Rightarrow> GC_state \<Rightarrow> (GC_state \<times> GC_objectHashTable) res" where
  "allocHashTable os s =
     bindE (malloc_safe os s 32) (\<lambda>s.
       let (regionStart, regionEnd) = hashTableRegion s;
           lengthMax = wrap_sub regionEnd regionStart div sizeof_GC_objectHashElement mod 4294967296
       in if lengthMax < 64 then
            bindE (malloc_safe os s (64 * sizeof_GC_objectHashElement)) (\<lambda>s.
              Inr (s, \<lparr>elements = replicate 64 null_element, elementsIsInHeap = False,
                       elementsLengthCur = 0, elementsLengthMax = 64, elementsLengthMaxLog2 = 6,
                       mayInsert = True\<rparr>))
          else
            bindE (lengthMaxLoop 33 lengthMax 64 6) (\<lambda>(len, log2).
              Inr (s, \<lparr>elements = replicate (len div 2) null_element, elementsIsInHeap = True,
                       elementsLengthCur = 0, elementsLengthMax = len div 2,
                       elementsLengthMaxLog2 = log2 - 1, mayInsert = True\<rparr>)))"

section \<open>Insertion\<close>

text \<open>Knuth's multiplier, \<open>floor ((sqrt 5 - 1) / 2 * 2 ^ 32)\<close>.\<close>

abbreviation (input) hash_mult :: nat where "hash_mult \<equiv> 2654435769"

definition firstSlot :: "GC_objectHashTable \<Rightarrow> 32 word \<Rightarrow> nat" where
  "firstSlot t hash = wrap (hash_mult * unat hash) mod 4294967296 div 2 ^ (32 - elementsLengthMaxLog2 t)"

definition probeOf :: "nat \<Rightarrow> nat" where
  "probeOf slot = (if slot mod 2 = 1 then slot else (slot + 4294967295) mod 4294967296)"

definition nextSlot :: "GC_objectHashTable \<Rightarrow> nat \<Rightarrow> nat \<Rightarrow> nat" where
  "nextSlot t probe slot = (slot + probe) mod 4294967296 mod elementsLengthMax t"

text \<open>The comparison of two objects: headers, words up to \<open>maxp\<close>, and sequence lengths.\<close>

definition sameObject :: "GC_state \<Rightarrow> pointer \<Rightarrow> pointer \<Rightarrow> pointer \<Rightarrow> bool res" where
  "sameObject s object other maxp =
     (let header = getHeader s object
      in if header \<noteq> getHeader s other then Inr False
         else if \<not> list_all (\<lambda>i. load32 (mem s) (object + 4 * i) = load32 (mem s) (other + 4 * i))
                     [0..<(maxp - object + 3) div 4] then Inr False
         else bindE (splitHeader s header) (\<lambda>t.
                Inr (\<not> (tag t = SEQUENCE_TAG \<and> getSequenceLength s object \<noteq> getSequenceLength s other))))"

text \<open>The probing; a table of \<open>2 ^ p\<close> slots with an empty one ends it after at most \<open>2 ^ p\<close> probes.\<close>

fun insertLoop ::
  "nat \<Rightarrow> GC_state \<Rightarrow> GC_objectHashTable \<Rightarrow> 32 word \<Rightarrow> pointer \<Rightarrow> pointer \<Rightarrow> bool \<Rightarrow> nat \<Rightarrow> nat
   \<Rightarrow> (GC_objectHashTable \<times> pointer) res" where
  "insertLoop 0 s t hash object maxp mightBeThere probe slot = Inl OutOfFuel"
| "insertLoop (Suc n) s t hash object maxp mightBeThere probe slot =
     (let e = elements t ! slot;
          lookNext = insertLoop n s t hash object maxp mightBeThere probe (nextSlot t probe slot)
      in if elem_object e = 0 then
           (if \<not> mayInsert t then Inr (t, object)
            else Inr (t\<lparr>elements := (elements t)[slot := \<lparr>elem_hash = hash, elem_object = object\<rparr>],
                       elementsLengthCur := (elementsLengthCur t + 1) mod 4294967296\<rparr>, object))
         else if hash \<noteq> elem_hash e then lookNext
         else if \<not> mightBeThere then lookNext
         else if object = elem_object e then Inr (t, elem_object e)
         else
           bindE (sameObject s object (elem_object e) maxp) (\<lambda>same.
             if same then Inr (t, elem_object e) else lookNext))"

definition insertHashTableElem ::
  "GC_state \<Rightarrow> GC_objectHashTable \<Rightarrow> 32 word \<Rightarrow> pointer \<Rightarrow> pointer \<Rightarrow> bool
   \<Rightarrow> (GC_objectHashTable \<times> pointer) res" where
  "insertHashTableElem s t hash object maxp mightBeThere =
     (let slot = firstSlot t hash; probe = probeOf slot
      in insertLoop (elementsLengthMax t) s t hash object maxp mightBeThere probe slot)"

definition growHashTableMaybe :: "OS \<Rightarrow> GC_state \<Rightarrow> GC_objectHashTable \<Rightarrow> (GC_state \<times> GC_objectHashTable) res" where
  "growHashTableMaybe os s t =
     (if \<not> mayInsert t \<or> elementsLengthCur t * 2 mod 4294967296 \<le> elementsLengthMax t then Inr (s, t)
      else
        (let oldElements = elements t;
             newElementsLengthMax = elementsLengthMax t * 2 mod 4294967296;
             (s, ok) = GC_malloc os s (newElementsLengthMax * sizeof_GC_objectHashElement)
         in if \<not> ok then Inr (s, t\<lparr>mayInsert := False\<rparr>)
            else
              (let t = t\<lparr>elements := replicate newElementsLengthMax null_element,
                         elementsLengthMax := newElementsLengthMax,
                         elementsLengthMaxLog2 := elementsLengthMaxLog2 t + 1\<rparr>
               in bindE (foldE (\<lambda>t oldElement.
                           if elem_object oldElement = 0 then Inr t
                           else bindE (insertHashTableElem s t (elem_hash oldElement)
                                         (elem_object oldElement) 0 False) (\<lambda>(t, _). Inr t))
                         oldElements t) (\<lambda>t. Inr (s, t\<lparr>elementsIsInHeap := False\<rparr>)))))"

section \<open>Sharing\<close>

text \<open>The hash of the header and the 32-bit words of an object.\<close>

definition hashObject :: "GC_state \<Rightarrow> pointer \<Rightarrow> pointer \<Rightarrow> 32 word" where
  "hashObject s object maxp =
     fold (\<lambda>i hash. hash * 31 + load32 (mem s) (object + 4 * i))
       [0..<(maxp - object + 3) div 4] (ucast (getHeader s object))"

definition objectMax :: "GC_state \<Rightarrow> GC_objectType \<Rightarrow> pointer \<Rightarrow> pointer" where
  "objectMax s t object =
     object + (if tag t = SEQUENCE_TAG then
                 sizeofSequenceNoMetaData s (getSequenceLength s object) (bytesNonObjptrs t) (numObjptrs t)
               else bytesNonObjptrs t + numObjptrs t * OBJPTR_SIZE)"

definition hashConsPointer :: "OS \<Rightarrow> GC_state \<Rightarrow> pointer \<Rightarrow> bool \<Rightarrow> (GC_state \<times> pointer) res" where
  "hashConsPointer os s object countBytesHashConsed =
     bindE (splitHeader s (getHeader s object)) (\<lambda>t.
       if hasIdentity t then Inr (s, object)
       else
         (let maxp = objectMax s t object;
              hash = hashObject s object maxp
          in bindE (insertHashTableElem s (objectHashTable s) hash object maxp True) (\<lambda>(table, res).
             bindE (growHashTableMaybe os s table) (\<lambda>(s, table).
               let s = s\<lparr>objectHashTable := table\<rparr>;
                   amount = (maxp - object) + (if tag t = SEQUENCE_TAG then GC_SEQUENCE_METADATA_SIZE
                                               else GC_NORMAL_METADATA_SIZE);
                   s = (if countBytesHashConsed \<and> res \<noteq> object
                        then lastMajor_upd (\<lambda>m. m\<lparr>lm_bytesHashConsed := lm_bytesHashConsed m + amount\<rparr>) s
                        else s)
               in Inr (s, res)))))"

definition shareObjptr :: "OS \<Rightarrow> GC_state \<Rightarrow> pointer \<Rightarrow> GC_state res" where
  "shareObjptr os s opp =
     (let p = objptrToPointer (load64 (mem s) opp) (heapStart (heap s))
      in bindE (hashConsPointer os s p False) (\<lambda>(s, p).
           let s = write64 opp (pointerToObjptr p (heapStart (heap s))) s
           in Inr (markIntergenerationalObjptr opp s)))"

section \<open>The probe sequence\<close>

text \<open>A table of \<open>2 ^ p\<close> slots, for the \<open>p\<close> its record holds.\<close>

definition table_shape :: "GC_objectHashTable \<Rightarrow> bool" where
  "table_shape t \<longleftrightarrow> elementsLengthMax t = 2 ^ elementsLengthMaxLog2 t
     \<and> length (elements t) = elementsLengthMax t
     \<and> 1 \<le> elementsLengthMaxLog2 t \<and> elementsLengthMaxLog2 t \<le> 31"

lemma table_shapeD:
  assumes "table_shape t"
  shows "0 < elementsLengthMax t" "length (elements t) = elementsLengthMax t"
    "elementsLengthMax t dvd 4294967296" "elementsLengthMax t < 4294967296"
proof -
  let ?p = "elementsLengthMaxLog2 t"
  have p: "elementsLengthMax t = 2 ^ ?p" "?p \<le> 31" using assms by (auto simp: table_shape_def)
  then show "0 < elementsLengthMax t" "length (elements t) = elementsLengthMax t"
    using assms by (auto simp: table_shape_def)
  have "(2::nat) ^ ?p dvd 2 ^ 32" using p(2) by (intro le_imp_power_dvd) simp
  then show "elementsLengthMax t dvd 4294967296" using p(1) by simp
  have "(2::nat) ^ ?p \<le> 2 ^ 31" using p(2) by (intro power_increasing) auto
  then show "elementsLengthMax t < 4294967296" using p(1) by simp
qed

lemma firstSlot_less:
  assumes "table_shape t" shows "firstSlot t h < elementsLengthMax t"
proof -
  let ?p = "elementsLengthMaxLog2 t"
  have p: "elementsLengthMax t = 2 ^ ?p" "?p \<le> 31" using assms by (auto simp: table_shape_def)
  have "(4294967296 :: nat) = 2 ^ ?p * 2 ^ (32 - ?p)"
    using p(2) by (simp flip: power_add)
  then have "wrap (hash_mult * unat h) mod 4294967296 < 2 ^ ?p * 2 ^ (32 - ?p)"
    by (metis mod_less_divisor zero_less_numeral)
  then show ?thesis unfolding firstSlot_def p(1) by (rule less_mult_imp_div_less)
qed

lemma probeOf_odd: "slot < 4294967296 \<Longrightarrow> odd (probeOf slot)"
proof (cases "slot mod 2 = 1")
  case False
  then have "even slot" by presburger
  moreover have "(4294967296 :: nat) = 2 * 2147483648" by simp
  ultimately show ?thesis
    unfolding probeOf_def using False by (simp add: odd_iff_mod_2_eq_one mod_mod_cancel) presburger
qed (simp add: probeOf_def odd_iff_mod_2_eq_one)

text \<open>The \<open>i\<close>-th slot that is looked at; the wrap-around of the 32-bit sum does not show.\<close>

fun probeSlot :: "GC_objectHashTable \<Rightarrow> 32 word \<Rightarrow> nat \<Rightarrow> nat" where
  "probeSlot t h 0 = firstSlot t h"
| "probeSlot t h (Suc i) = nextSlot t (probeOf (firstSlot t h)) (probeSlot t h i)"

lemma probeSlot_eq:
  assumes "table_shape t"
  shows "probeSlot t h i = (firstSlot t h + i * probeOf (firstSlot t h)) mod elementsLengthMax t"
proof (induction i)
  case 0
  then show ?case using firstSlot_less [OF assms] by simp
next
  case (Suc i)
  then show ?case using table_shapeD(3) [OF assms]
    by (simp add: nextSlot_def mod_mod_cancel mod_simps algebra_simps)
qed

lemma probeSlot_less: "table_shape t \<Longrightarrow> probeSlot t h i < elementsLengthMax t"
  using table_shapeD(1) by (simp add: probeSlot_eq)

text \<open>An odd step visits every slot of a table of \<open>2 ^ p\<close> slots.\<close>

lemma probeSlot_onto:
  assumes "table_shape t" "j < elementsLengthMax t"
  shows "\<exists>i<elementsLengthMax t. probeSlot t h i = j"
proof -
  let ?n = "elementsLengthMax t" and ?s = "firstSlot t h" and ?q = "probeOf (firstSlot t h)"
  have "?s < 4294967296" using firstSlot_less [OF assms(1)] table_shapeD(4) [OF assms(1)] by (rule order.strict_trans)
  then have odd: "odd ?q" by (rule probeOf_odd)
  then have cop: "coprime ?n ?q" using assms(1) by (simp add: table_shape_def)
  have inj: "inj_on (probeSlot t h) {..<?n}"
  proof (rule linorder_inj_onI)
    fix x y assume xy: "x < y" "x \<in> {..<?n}" "y \<in> {..<?n}"
    show "probeSlot t h x \<noteq> probeSlot t h y"
    proof
      assume "probeSlot t h x = probeSlot t h y"
      then have "(?s + y * ?q) mod ?n = (?s + x * ?q) mod ?n"
        by (simp only: probeSlot_eq [OF assms(1)])
      moreover have "?s + x * ?q \<le> ?s + y * ?q" using xy(1) by simp
      ultimately have "?n dvd (?s + y * ?q) - (?s + x * ?q)" using mod_eq_dvd_iff_nat by blast
      then have "?n dvd (y - x) * ?q" by (simp add: diff_mult_distrib)
      then have "?n dvd y - x" using cop by (simp add: coprime_dvd_mult_left_iff)
      then show False using xy by (auto dest: dvd_imp_le)
    qed
  qed auto
  have "probeSlot t h ` {..<?n} = {..<?n}"
  proof (rule card_subset_eq)
    show "probeSlot t h ` {..<?n} \<subseteq> {..<?n}" using probeSlot_less [OF assms(1)] by auto
    show "card (probeSlot t h ` {..<?n}) = card {..<?n}" by (rule card_image [OF inj])
  qed simp
  then show ?thesis using assms(2) by (metis imageE lessThan_iff)
qed

section \<open>The table as a set of entries\<close>

definition occupied :: "GC_objectHashElement \<Rightarrow> bool" where
  "occupied e \<longleftrightarrow> elem_object e \<noteq> 0"

definition table_set :: "GC_objectHashTable \<Rightarrow> (32 word \<times> pointer) set" where
  "table_set t = (\<lambda>e. (elem_hash e, elem_object e)) ` {e \<in> set (elements t). occupied e}"

definition occupancy :: "GC_objectHashTable \<Rightarrow> nat" where
  "occupancy t = length (filter occupied (elements t))"

text \<open>Every entry is found by its probe sequence before an empty slot.\<close>

definition table_ok :: "GC_objectHashTable \<Rightarrow> bool" where
  "table_ok t \<longleftrightarrow> table_shape t \<and>
     (\<forall>j<elementsLengthMax t. occupied (elements t ! j) \<longrightarrow>
        (\<exists>i<elementsLengthMax t. probeSlot t (elem_hash (elements t ! j)) i = j
           \<and> (\<forall>k<i. occupied (elements t ! probeSlot t (elem_hash (elements t ! j)) k))))"

lemma table_okD: "table_ok t \<Longrightarrow> table_shape t"
  by (simp add: table_ok_def)

text \<open>The entry a lookup stops at with success.\<close>

definition hit :: "GC_state \<Rightarrow> 32 word \<Rightarrow> pointer \<Rightarrow> pointer \<Rightarrow> bool \<Rightarrow> GC_objectHashElement \<Rightarrow> bool" where
  "hit s h object maxp b e \<longleftrightarrow> occupied e \<and> b \<and> elem_hash e = h
     \<and> (object = elem_object e \<or> sameObject s object (elem_object e) maxp = Inr True)"

definition header_ok :: "GC_state \<Rightarrow> pointer \<Rightarrow> bool" where
  "header_ok s object \<longleftrightarrow> (case splitHeader s (getHeader s object) of Inl _ \<Rightarrow> False | Inr _ \<Rightarrow> True)"

lemma sameObject_total: "header_ok s object \<Longrightarrow> \<exists>b. sameObject s object other maxp = Inr b"
  by (auto simp: sameObject_def Let_def header_ok_def split: sum.splits)

definition inserted :: "GC_objectHashTable \<Rightarrow> 32 word \<Rightarrow> pointer \<Rightarrow> nat \<Rightarrow> GC_objectHashTable" where
  "inserted t h object j =
     (if mayInsert t then t\<lparr>elements := (elements t)[j := \<lparr>elem_hash = h, elem_object = object\<rparr>],
                            elementsLengthCur := (elementsLengthCur t + 1) mod 4294967296\<rparr>
      else t)"

text \<open>The loop runs to the first slot that is empty or a hit.\<close>

lemma insertLoop_stop:
  assumes "b \<Longrightarrow> header_ok s object"
    and "\<And>k. i \<le> k \<Longrightarrow> k < m \<Longrightarrow> occupied (elements t ! probeSlot t h k)
            \<and> \<not> hit s h object maxp b (elements t ! probeSlot t h k)"
    and "\<not> occupied (elements t ! probeSlot t h m) \<or> hit s h object maxp b (elements t ! probeSlot t h m)"
    and "i \<le> m" "m < n + i"
  shows "insertLoop n s t h object maxp b (probeOf (firstSlot t h)) (probeSlot t h i) =
    Inr (if occupied (elements t ! probeSlot t h m) then (t, elem_object (elements t ! probeSlot t h m))
         else (inserted t h object (probeSlot t h m), object))"
  using assms(2,4,5)
proof (induction n arbitrary: i)
  case (Suc n)
  let ?e = "elements t ! probeSlot t h i" and ?q = "probeOf (firstSlot t h)"
  obtain c where c: "b \<Longrightarrow> sameObject s object (elem_object ?e) maxp = Inr c"
    using sameObject_total [OF assms(1)] by blast
  show ?case
  proof (cases "i = m")
    case True
    then show ?thesis
    proof (cases "occupied ?e")
      case occ: True
      then have "hit s h object maxp b ?e" using assms(3) True by simp
      then show ?thesis using occ True c by (auto simp: Let_def hit_def occupied_def)
    next
      case False
      then show ?thesis using True by (simp add: Let_def occupied_def inserted_def)
    qed
  next
    case False
    with Suc.prems(2) have im: "Suc i \<le> m" by simp
    have e: "occupied ?e" "\<not> hit s h object maxp b ?e" using Suc.prems(1) [of i] im by auto
    have "insertLoop (Suc n) s t h object maxp b ?q (probeSlot t h i)
        = insertLoop n s t h object maxp b ?q (probeSlot t h (Suc i))"
      using e c by (auto simp: Let_def hit_def occupied_def)
    then show ?thesis
      using Suc.IH [of "Suc i"] Suc.prems im by auto
  qed
qed simp

lemma stop_exists:
  assumes "table_ok t" "j < elementsLengthMax t" "\<not> occupied (elements t ! j)"
  obtains m where "m < elementsLengthMax t"
    "\<And>k. k < m \<Longrightarrow> occupied (elements t ! probeSlot t h k) \<and> \<not> hit s h object maxp b (elements t ! probeSlot t h k)"
    "\<not> occupied (elements t ! probeSlot t h m) \<or> hit s h object maxp b (elements t ! probeSlot t h m)"
proof -
  define stop where "stop k \<longleftrightarrow> \<not> occupied (elements t ! probeSlot t h k)
    \<or> hit s h object maxp b (elements t ! probeSlot t h k)" for k
  define m where "m = (LEAST k. stop k)"
  obtain i where i: "i < elementsLengthMax t" "probeSlot t h i = j"
    using probeSlot_onto [OF table_okD [OF assms(1)] assms(2)] by blast
  then have st: "stop i" using assms(3) by (simp add: stop_def)
  have m: "stop m" unfolding m_def using st by (rule LeastI [where P = stop])
  have "m \<le> i" unfolding m_def using st by (rule Least_le [where P = stop])
  with i(1) have lt: "m < elementsLengthMax t" by simp
  have before: "\<not> stop k" if "k < m" for k using not_less_Least [where P = stop] that unfolding m_def .
  show ?thesis
  proof (rule that [OF lt])
    show "occupied (elements t ! probeSlot t h k) \<and> \<not> hit s h object maxp b (elements t ! probeSlot t h k)"
      if "k < m" for k using before [OF that] by (simp add: stop_def)
    show "\<not> occupied (elements t ! probeSlot t h m) \<or> hit s h object maxp b (elements t ! probeSlot t h m)"
      using m by (simp add: stop_def)
  qed
qed

lemma probeSlot_inserted [simp]: "probeSlot (inserted t h object j) g i = probeSlot t g i"
  by (induction i) (simp_all add: inserted_def firstSlot_def nextSlot_def)

lemma inserted_simps [simp]:
  "elementsLengthMax (inserted t h object j) = elementsLengthMax t"
  "elementsLengthMaxLog2 (inserted t h object j) = elementsLengthMaxLog2 t"
  "mayInsert (inserted t h object j) = mayInsert t"
  "table_shape (inserted t h object j) = table_shape t"
  by (simp_all add: inserted_def table_shape_def)

lemma filter_update:
  "j < length xs \<Longrightarrow> \<not> P (xs ! j) \<Longrightarrow> P x \<Longrightarrow> length (filter P (xs[j := x])) = length (filter P xs) + 1"
proof (induction xs arbitrary: j)
  case (Cons y ys)
  then show ?case by (cases j) auto
qed simp

lemma inserted_ok:
  assumes ok: "table_ok t" and m: "m < elementsLengthMax t" and o: "object \<noteq> 0"
    and path: "\<And>k. k < m \<Longrightarrow> occupied (elements t ! probeSlot t h k)"
    and empty: "\<not> occupied (elements t ! probeSlot t h m)"
  defines "j \<equiv> probeSlot t h m"
  shows "table_ok (inserted t h object j)"
    "mayInsert t \<Longrightarrow> table_set (inserted t h object j) = insert (h, object) (table_set t)"
    "mayInsert t \<Longrightarrow> occupancy (inserted t h object j) = occupancy t + 1"
proof -
  note sh = table_shapeD [OF table_okD [OF ok]]
  have j: "j < length (elements t)" unfolding j_def using probeSlot_less [OF table_okD [OF ok]] sh(2) by simp
  let ?x = "\<lparr>elem_hash = h, elem_object = object\<rparr>"
  have ox: "occupied ?x" using o by (simp add: occupied_def)
  show "table_ok (inserted t h object j)"
  proof (cases "mayInsert t")
    case False
    then show ?thesis using ok by (simp add: inserted_def)
  next
    case True
    let ?t = "inserted t h object j"
    have el: "elements ?t = (elements t)[j := ?x]" using True by (simp add: inserted_def)
    have keep: "occupied (elements t ! k) \<Longrightarrow> occupied (elements ?t ! k)" for k
      using ox j by (cases "k = j") (simp_all add: el)
    have "\<exists>i<elementsLengthMax t. probeSlot t (elem_hash (elements ?t ! k)) i = k
           \<and> (\<forall>l<i. occupied (elements ?t ! probeSlot t (elem_hash (elements ?t ! k)) l))"
      if k: "k < elementsLengthMax t" "occupied (elements ?t ! k)" for k
    proof (cases "k = j")
      case True
      then have "elem_hash (elements ?t ! k) = h" using j by (simp add: el)
      then show ?thesis using m path keep True unfolding j_def by auto
    next
      case False
      then have "elements ?t ! k = elements t ! k" by (simp add: el)
      then show ?thesis using ok k keep unfolding table_ok_def by fastforce
    qed
    then show ?thesis using table_okD [OF ok] by (simp add: table_ok_def)
  qed
  assume may: "mayInsert t"
  have el: "elements (inserted t h object j) = (elements t)[j := ?x]" using may by (simp add: inserted_def)
  show "occupancy (inserted t h object j) = occupancy t + 1"
    unfolding occupancy_def el by (rule filter_update [where P = occupied, OF j empty [folded j_def] ox])
  have "{e \<in> set ((elements t)[j := ?x]). occupied e} = insert ?x {e \<in> set (elements t). occupied e}"
  proof (rule set_eqI)
    fix e
    have "e \<in> set ((elements t)[j := ?x]) \<longleftrightarrow> e = ?x \<or> (\<exists>k<length (elements t). k \<noteq> j \<and> elements t ! k = e)"
      using j by (auto simp: in_set_conv_nth nth_list_update)
    moreover have "occupied e \<Longrightarrow> (\<exists>k<length (elements t). k \<noteq> j \<and> elements t ! k = e) \<longleftrightarrow> e \<in> set (elements t)"
      using empty by (auto simp: in_set_conv_nth j_def)
    ultimately show "e \<in> {e \<in> set ((elements t)[j := ?x]). occupied e} \<longleftrightarrow> e \<in> insert ?x {e \<in> set (elements t). occupied e}"
      using ox by auto
  qed
  then show "table_set (inserted t h object j) = insert (h, object) (table_set t)"
    by (simp add: table_set_def el)
qed

lemma insertHashTableElem_spec:
  assumes ok: "table_ok t" and hd: "b \<Longrightarrow> header_ok s object" and o: "object \<noteq> 0"
    and room: "occupancy t < elementsLengthMax t"
  shows "\<exists>t' r. insertHashTableElem s t h object maxp b = Inr (t', r) \<and> table_ok t'
    \<and> elementsLengthMaxLog2 t' = elementsLengthMaxLog2 t \<and> elementsLengthMax t' = elementsLengthMax t
    \<and> mayInsert t' = mayInsert t
    \<and> (if \<exists>e\<in>set (elements t). hit s h object maxp b e
       then t' = t \<and> (\<exists>e\<in>set (elements t). hit s h object maxp b e \<and> r = elem_object e)
       else r = object \<and> (if mayInsert t then table_set t' = insert (h, object) (table_set t)
                             \<and> occupancy t' = occupancy t + 1
                             \<and> elementsLengthCur t' = (elementsLengthCur t + 1) mod 4294967296 else t' = t))"
proof -
  note sh = table_shapeD [OF table_okD [OF ok]]
  have "\<exists>j<length (elements t). \<not> occupied (elements t ! j)"
  proof (rule ccontr)
    assume "\<not> ?thesis"
    then have "filter occupied (elements t) = elements t" by (auto simp: filter_id_conv in_set_conv_nth)
    then show False using room sh(2) by (simp add: occupancy_def)
  qed
  then obtain j where j: "j < elementsLengthMax t" "\<not> occupied (elements t ! j)" using sh(2) by auto
  obtain m where m: "m < elementsLengthMax t"
    "\<And>k. k < m \<Longrightarrow> occupied (elements t ! probeSlot t h k) \<and> \<not> hit s h object maxp b (elements t ! probeSlot t h k)"
    "\<not> occupied (elements t ! probeSlot t h m) \<or> hit s h object maxp b (elements t ! probeSlot t h m)"
    using stop_exists [OF ok j] by metis
  let ?e = "elements t ! probeSlot t h m"
  have run: "insertHashTableElem s t h object maxp b =
      Inr (if occupied ?e then (t, elem_object ?e) else (inserted t h object (probeSlot t h m), object))"
    unfolding insertHashTableElem_def Let_def
    using insertLoop_stop [OF hd m(2,3), of 0 "elementsLengthMax t"] m(1) by simp
  show ?thesis
  proof (cases "occupied ?e")
    case True
    then have "hit s h object maxp b ?e" using m(3) by simp
    moreover have "?e \<in> set (elements t)" using probeSlot_less [OF table_okD [OF ok]] sh(2) by simp
    ultimately have "\<exists>e\<in>set (elements t). hit s h object maxp b e \<and> elem_object ?e = elem_object e"
      "\<exists>e\<in>set (elements t). hit s h object maxp b e" by blast+
    then show ?thesis using run True ok by simp
  next
    case False
    have none: "\<not> hit s h object maxp b e" if e: "e \<in> set (elements t)" for e
    proof
      assume hit: "hit s h object maxp b e"
      obtain k where k: "k < elementsLengthMax t" "elements t ! k = e" using e sh(2) by (auto simp: in_set_conv_nth)
      have "occupied (elements t ! k)" "elem_hash e = h" using hit k(2) by (auto simp: hit_def)
      then obtain i where i: "probeSlot t h i = k" "\<And>l. l < i \<Longrightarrow> occupied (elements t ! probeSlot t h l)"
        using ok k unfolding table_ok_def by metis
      have "i < m \<Longrightarrow> False" using m(2) [of i] i(1) k(2) hit by simp
      moreover have "m < i \<Longrightarrow> False" using i(2) [of m] False by simp
      moreover have "m = i \<Longrightarrow> False" using False i(1) k(2) hit by (simp add: hit_def)
      ultimately show False by (metis linorder_neqE_nat)
    qed
    note ins = inserted_ok [OF ok m(1) o _ False]
    have "occupied (elements t ! probeSlot t h k)" if "k < m" for k using m(2) that by blast
    note ins = ins [OF this]
    show ?thesis
      using run False ins none by (auto simp: inserted_def)
  qed
qed


section \<open>Growth\<close>

definition empty_table :: "nat \<Rightarrow> bool \<Rightarrow> nat \<Rightarrow> GC_objectHashTable" where
  "empty_table log2 inHeap cur = \<lparr>elements = replicate (2 ^ log2) null_element, elementsIsInHeap = inHeap,
     elementsLengthCur = cur, elementsLengthMax = 2 ^ log2, elementsLengthMaxLog2 = log2, mayInsert = True\<rparr>"

lemma empty_table_ok:
  assumes "1 \<le> log2" "log2 \<le> 31"
  shows "table_ok (empty_table log2 inHeap cur)" "table_set (empty_table log2 inHeap cur) = {}"
    "occupancy (empty_table log2 inHeap cur) = 0"
  using assms
  by (auto simp: table_ok_def table_shape_def empty_table_def occupied_def null_element_def table_set_def
      occupancy_def filter_empty_conv)

definition entries :: "GC_objectHashElement list \<Rightarrow> (32 word \<times> pointer) set" where
  "entries es = (\<lambda>e. (elem_hash e, elem_object e)) ` {e \<in> set es. occupied e}"

lemma table_set_entries: "table_set t = entries (elements t)"
  by (simp add: table_set_def entries_def)

lemma entries_simps [simp]:
  "entries [] = {}"
  "entries (e # es) = (if occupied e then insert (elem_hash e, elem_object e) (entries es) else entries es)"
  by (auto simp: entries_def)

abbreviation (input) reinsert :: "GC_state \<Rightarrow> GC_objectHashTable \<Rightarrow> GC_objectHashElement \<Rightarrow> GC_objectHashTable res" where
  "reinsert s \<equiv> (\<lambda>t oldElement. if elem_object oldElement = 0 then Inr t
     else bindE (insertHashTableElem s t (elem_hash oldElement) (elem_object oldElement) 0 False) (\<lambda>(t, _). Inr t))"

lemma reinsert_spec:
  assumes "table_ok t" "mayInsert t" "occupancy t + length (filter occupied es) < elementsLengthMax t"
    and "elementsLengthCur t < 4294967296"
  shows "\<exists>t'. foldE (reinsert s) es t = Inr t' \<and> table_ok t' \<and> mayInsert t'
    \<and> table_set t' = table_set t \<union> entries es \<and> elementsLengthMax t' = elementsLengthMax t
    \<and> elementsLengthMaxLog2 t' = elementsLengthMaxLog2 t
    \<and> occupancy t' = occupancy t + length (filter occupied es)
    \<and> elementsLengthCur t' = (elementsLengthCur t + length (filter occupied es)) mod 4294967296"
  using assms
proof (induction es arbitrary: t)
  case (Cons e es)
  show ?case
  proof (cases "occupied e")
    case False
    then have "reinsert s t e = Inr t" by (simp add: occupied_def)
    then show ?thesis using Cons.IH [OF Cons.prems(1,2)] Cons.prems(3,4) False by simp
  next
    case True
    have "occupancy t < elementsLengthMax t" using Cons.prems(3) by simp
    then obtain t1 where t1: "insertHashTableElem s t (elem_hash e) (elem_object e) 0 False = Inr (t1, elem_object e)"
      "table_ok t1" "mayInsert t1" "elementsLengthMax t1 = elementsLengthMax t"
      "elementsLengthMaxLog2 t1 = elementsLengthMaxLog2 t"
      "table_set t1 = insert (elem_hash e, elem_object e) (table_set t)" "occupancy t1 = occupancy t + 1"
      "elementsLengthCur t1 = (elementsLengthCur t + 1) mod 4294967296"
      using insertHashTableElem_spec [OF Cons.prems(1), of False s "elem_object e" "elem_hash e" 0]
        True Cons.prems(2) by (auto simp: hit_def occupied_def)
    have "occupancy t1 + length (filter occupied es) < elementsLengthMax t1"
      using Cons.prems(3) True t1(4,7) by simp
    then obtain t' where "foldE (reinsert s) es t1 = Inr t'" "table_ok t'" "mayInsert t'"
      "table_set t' = table_set t1 \<union> entries es" "elementsLengthMax t' = elementsLengthMax t1"
      "elementsLengthMaxLog2 t' = elementsLengthMaxLog2 t1"
      "occupancy t' = occupancy t1 + length (filter occupied es)"
      "elementsLengthCur t' = (elementsLengthCur t1 + length (filter occupied es)) mod 4294967296"
      using Cons.IH [OF t1(2,3)] t1(8) by force
    moreover have "reinsert s t e = Inr t1" using True t1(1) by (simp add: occupied_def)
    ultimately show ?thesis
      using True t1(4-8) by (intro exI [of _ t']) (simp add: mod_simps)
  qed
qed (simp add: entries_def)

text \<open>
  The invariant of a table in use: it is well formed, and while it may grow it is at most
  half full, and the count of its elements is at least their number.
\<close>

definition table_inv :: "GC_objectHashTable \<Rightarrow> bool" where
  "table_inv t \<longleftrightarrow> table_ok t \<and> 2 \<le> elementsLengthMaxLog2 t \<and> occupancy t < elementsLengthMax t
     \<and> (mayInsert t \<longrightarrow> 2 * occupancy t \<le> elementsLengthMax t \<and> occupancy t \<le> elementsLengthCur t
          \<and> elementsLengthCur t \<le> elementsLengthMax t)"

definition only_calls :: "GC_state \<Rightarrow> GC_state \<Rightarrow> bool" where
  "only_calls s s' \<longleftrightarrow> (\<exists>n. s' = s\<lparr>osCalls := n\<rparr>)"

lemma only_calls_refl [simp]: "only_calls s s"
  unfolding only_calls_def by (rule exI [of _ "osCalls s"]) simp

lemma empty_table_inv: "2 \<le> log2 \<Longrightarrow> log2 \<le> 31 \<Longrightarrow> table_inv (empty_table log2 inHeap 0)"
  using empty_table_ok [of log2 inHeap 0] by (simp add: table_inv_def) (simp add: empty_table_def)

lemma pow4: "2 \<le> p \<Longrightarrow> (4::nat) \<le> 2 ^ p"
  using power_increasing [of 2 p "2::nat"] by simp

lemma table_ok_cong:
  assumes "elements t' = elements t" "elementsLengthMax t' = elementsLengthMax t"
    "elementsLengthMaxLog2 t' = elementsLengthMaxLog2 t"
  shows "table_ok t' = table_ok t"
proof -
  have "probeSlot t' h i = probeSlot t h i" for h i
    by (induction i) (simp_all add: firstSlot_def nextSlot_def assms)
  then show ?thesis by (simp add: table_ok_def table_shape_def assms)
qed

lemma table_inv_shape:
  assumes "table_inv t"
  shows "4 \<le> elementsLengthMax t" "elementsLengthMax t = 2 ^ elementsLengthMaxLog2 t"
    "length (elements t) = elementsLengthMax t"
  using assms pow4 [of "elementsLengthMaxLog2 t"] by (auto simp: table_inv_def table_ok_def table_shape_def)

text \<open>Growing rebuilds the table; the count goes up by the number of elements moved.\<close>

lemma growHashTable_grows:
  assumes ok: "table_ok t" and log2: "elementsLengthMaxLog2 t < 31" and may: "mayInsert t"
    and need: "elementsLengthMax t < elementsLengthCur t * 2" and b: "elementsLengthCur t < 2147483648"
    and occ: "occupancy t \<le> elementsLengthMax t"
  shows "growHashTableMaybe os s t = Inr (s\<lparr>osCalls := osCalls s + 1\<rparr>, t\<lparr>mayInsert := False\<rparr>)
    \<or> (\<exists>t'. growHashTableMaybe os s t = Inr (s\<lparr>osCalls := osCalls s + 1\<rparr>, t') \<and> table_ok t' \<and> mayInsert t'
        \<and> table_set t' = table_set t \<and> occupancy t' = occupancy t
        \<and> elementsLengthMax t' = 2 * elementsLengthMax t
        \<and> elementsLengthMaxLog2 t' = elementsLengthMaxLog2 t + 1
        \<and> elementsLengthCur t' = (elementsLengthCur t + occupancy t) mod 4294967296)"
proof -
  let ?p = "elementsLengthMaxLog2 t"
  have p: "elementsLengthMax t = 2 ^ ?p" "1 \<le> ?p" using ok by (auto simp: table_ok_def table_shape_def)
  have "(2::nat) ^ ?p \<le> 2 ^ 30" using log2 by (intro power_increasing) auto
  then have w: "elementsLengthMax t * 2 mod 4294967296 = 2 ^ (?p + 1)" using p(1) by simp
  have cw: "\<not> elementsLengthCur t * 2 mod 4294967296 \<le> elementsLengthMax t" using need b by simp
  define n where "n = t\<lparr>elements := replicate (2 ^ (?p + 1)) null_element,
                         elementsLengthMax := 2 ^ (?p + 1), elementsLengthMaxLog2 := ?p + 1\<rparr>"
  have n: "n = empty_table (?p + 1) (elementsIsInHeap t) (elementsLengthCur t)"
    using may by (simp add: n_def empty_table_def)
  note et = empty_table_ok [of "?p + 1" "elementsIsInHeap t" "elementsLengthCur t", folded n]
  have "occupancy n + length (filter occupied (elements t)) < elementsLengthMax n"
  proof -
    have "(0::nat) < 2 ^ ?p" by simp
    moreover have "occupancy n = 0" "elementsLengthMax n = 2 * 2 ^ ?p" using et(3) log2 by (simp_all add: n_def)
    ultimately show ?thesis using occ p(1) unfolding occupancy_def by linarith
  qed
  moreover have "mayInsert n" using may by (simp add: n_def)
  moreover have "table_ok n" using et(1) log2 by simp
  ultimately obtain t' where t': "foldE (reinsert (s\<lparr>osCalls := osCalls s + 1\<rparr>)) (elements t) n = Inr t'"
    "table_ok t'" "mayInsert t'" "table_set t' = table_set n \<union> entries (elements t)"
    "elementsLengthMax t' = elementsLengthMax n" "elementsLengthMaxLog2 t' = elementsLengthMaxLog2 n"
    "occupancy t' = occupancy n + length (filter occupied (elements t))"
    "elementsLengthCur t' = (elementsLengthCur n + length (filter occupied (elements t))) mod 4294967296"
    using reinsert_spec [of n "elements t" "s\<lparr>osCalls := osCalls s + 1\<rparr>"] b by (force simp: n_def)
  let ?t = "t'\<lparr>elementsIsInHeap := False\<rparr>"
  have "table_ok ?t" using t'(2) table_ok_cong [of ?t t'] by simp
  moreover have "table_set ?t = table_set t" "occupancy ?t = occupancy t"
    using t'(4,7) et(2,3) log2 p(2) by (simp_all add: table_set_entries occupancy_def)
  moreover have "growHashTableMaybe os s t =
      (if os_malloc os (osCalls s) (2 ^ (?p + 1) * 16) then Inr (s\<lparr>osCalls := osCalls s + 1\<rparr>, ?t)
       else Inr (s\<lparr>osCalls := osCalls s + 1\<rparr>, t\<lparr>mayInsert := False\<rparr>))"
    by (simp only: growHashTableMaybe_def GC_malloc_def Let_def prod.case cw may w n_def [symmetric] t'(1)
        bindE_simps simp_thms if_False if_True) (simp only: if_cancel split: if_split, blast)
  ultimately show ?thesis
    using t'(3,5,6,8) p by (auto simp: n_def occupancy_def)
qed

lemma growHashTableMaybe_spec:
  assumes ok: "table_ok t" "2 \<le> elementsLengthMaxLog2 t" "elementsLengthMaxLog2 t < 31"
    and occ: "occupancy t < elementsLengthMax t"
    and may: "mayInsert t \<Longrightarrow> 2 * occupancy t \<le> elementsLengthMax t + 2 \<and> occupancy t \<le> elementsLengthCur t
          \<and> elementsLengthCur t \<le> elementsLengthMax t + 1"
  shows "\<exists>s' t'. growHashTableMaybe os s t = Inr (s', t') \<and> table_inv t' \<and> table_set t' = table_set t
    \<and> only_calls s s'"
proof -
  let ?n = "elementsLengthMax t"
  have p: "?n = 2 ^ elementsLengthMaxLog2 t" using ok(1) by (auto simp: table_ok_def table_shape_def)
  have "(2::nat) ^ elementsLengthMaxLog2 t \<le> 2 ^ 30" using ok(3) by (intro power_increasing) auto
  then have b: "4 \<le> ?n" "?n \<le> 1073741824" using p pow4 [OF ok(2)] by auto
  show ?thesis
  proof (cases "mayInsert t \<and> ?n < elementsLengthCur t * 2")
    case True
    note m = may [OF conjunct1 [OF True]]
    let ?s = "s\<lparr>osCalls := osCalls s + 1\<rparr>"
    have calls: "only_calls s ?s" by (auto simp: only_calls_def)
    consider (no) "growHashTableMaybe os s t = Inr (?s, t\<lparr>mayInsert := False\<rparr>)"
      | (yes) t' where "growHashTableMaybe os s t = Inr (?s, t')" "table_ok t'" "mayInsert t'"
          "table_set t' = table_set t" "occupancy t' = occupancy t" "elementsLengthMax t' = 2 * ?n"
          "elementsLengthMaxLog2 t' = elementsLengthMaxLog2 t + 1"
          "elementsLengthCur t' = (elementsLengthCur t + occupancy t) mod 4294967296"
      using growHashTable_grows [OF ok(1,3), of os s] True m b occ by force
    then show ?thesis
    proof cases
      case no
      let ?t = "t\<lparr>mayInsert := False\<rparr>"
      have "table_ok ?t" using ok(1) table_ok_cong [of ?t t] by simp
      then have "table_inv ?t" using ok(2) occ by (simp add: table_inv_def occupancy_def)
      then show ?thesis using no calls by (auto simp: table_set_def)
    next
      case yes
      have "elementsLengthCur t' = elementsLengthCur t + occupancy t" using yes(8) m b occ by simp
      then have "table_inv t'" using yes m b occ ok by (simp add: table_inv_def)
      then show ?thesis using yes calls by auto
    qed
  next
    case False
    then have "growHashTableMaybe os s t = Inr (s, t)"
      using may b by (auto simp: growHashTableMaybe_def)
    moreover have "table_inv t" using ok occ may False by (auto simp: table_inv_def)
    ultimately show ?thesis by auto
  qed
qed

section \<open>Equality of objects\<close>

text \<open>
  What the comparison compares, as one value: the header, the length of a sequence, and
  the 32-bit words of the data.
\<close>

definition objectWords :: "GC_state \<Rightarrow> GC_objectType \<Rightarrow> pointer \<Rightarrow> nat" where
  "objectWords s t object = (objectMax s t object - object + 3) div 4"

definition objectKey :: "GC_state \<Rightarrow> pointer \<Rightarrow> (64 word \<times> nat \<times> 32 word list) option" where
  "objectKey s object =
     (case splitHeader s (getHeader s object) of
        Inl _ \<Rightarrow> None
      | Inr t \<Rightarrow> Some (getHeader s object,
          if tag t = SEQUENCE_TAG then getSequenceLength s object else 0,
          map (\<lambda>i. load32 (mem s) (object + 4 * i)) [0..<objectWords s t object]))"

definition consable :: "GC_state \<Rightarrow> pointer \<Rightarrow> bool" where
  "consable s object \<longleftrightarrow> object \<noteq> 0 \<and>
     (case splitHeader s (getHeader s object) of Inl _ \<Rightarrow> False | Inr t \<Rightarrow> \<not> hasIdentity t)"

lemma sameObject_iff_key:
  assumes t: "splitHeader s (getHeader s a) = Inr t"
  shows "sameObject s a b (objectMax s t a) = Inr True \<longleftrightarrow> objectKey s a = objectKey s b"
proof -
  have w: "objectWords s t b = objectWords s t a"
    if "tag t = SEQUENCE_TAG \<Longrightarrow> getSequenceLength s b = getSequenceLength s a"
    using that by (simp add: objectWords_def objectMax_def)
  have words: "list_all (\<lambda>i. load32 (mem s) (a + 4 * i) = load32 (mem s) (b + 4 * i)) [0..<n]
    \<longleftrightarrow> map (\<lambda>i. load32 (mem s) (a + 4 * i)) [0..<n] = map (\<lambda>i. load32 (mem s) (b + 4 * i)) [0..<n]" for n
    by (simp add: list_all_iff)
  show ?thesis
  proof (cases "getHeader s a = getHeader s b")
    case False
    then show ?thesis by (auto simp: sameObject_def objectKey_def t Let_def split: sum.splits)
  next
    case True
    then have tb: "splitHeader s (getHeader s b) = Inr t" using t by simp
    show ?thesis
      using True w unfolding sameObject_def objectKey_def Let_def t tb words objectWords_def [symmetric]
      by (auto simp: t tb)
  qed
qed

lemma hashObject_key:
  assumes "splitHeader s (getHeader s a) = Inr t" "splitHeader s (getHeader s b) = Inr u"
    and "objectKey s a = objectKey s b"
  shows "hashObject s a (objectMax s t a) = hashObject s b (objectMax s u b)"
proof -
  let ?f = "\<lambda>x. map (\<lambda>i. load32 (mem s) (x + 4 * i))"
  have k: "getHeader s a = getHeader s b" "?f a [0..<objectWords s t a] = ?f b [0..<objectWords s u b]"
    using assms by (auto simp: objectKey_def)
  have "hashObject s x (objectMax s v x) =
      fold (\<lambda>w hash. hash * 31 + w) (?f x [0..<objectWords s v x]) (ucast (getHeader s x))" for x v
    by (simp add: hashObject_def objectWords_def fold_map comp_def)
  then show ?thesis using k by simp
qed

section \<open>Hash-consing gives canonical objects\<close>

text \<open>
  The interface of a table of representatives: \<open>cons t a t' r\<close> says that consing the
  object \<open>a\<close> with the table \<open>t\<close> gives the table \<open>t'\<close> and the object \<open>r\<close>. A hit returns an
  equal object of the table, a miss returns the object itself and may add it.
\<close>

locale consing =
  fixes tinv :: "'t \<Rightarrow> bool" and contents :: "'t \<Rightarrow> 'o set" and key :: "'o \<Rightarrow> 'k"
    and cons :: "'t \<Rightarrow> 'o \<Rightarrow> 't \<Rightarrow> 'o \<Rightarrow> bool"
  assumes cons_inv: "tinv t \<Longrightarrow> cons t a t' r \<Longrightarrow> tinv t'"
    and cons_hit: "tinv t \<Longrightarrow> cons t a t' r \<Longrightarrow> b \<in> contents t \<Longrightarrow> key b = key a \<Longrightarrow>
          contents t' = contents t \<and> r \<in> contents t \<and> key r = key a"
    and cons_miss: "tinv t \<Longrightarrow> cons t a t' r \<Longrightarrow> \<forall>b\<in>contents t. key b \<noteq> key a \<Longrightarrow>
          r = a \<and> (contents t' = contents t \<or> contents t' = insert a (contents t))"
begin

text \<open>Tables with one representative of each key, and sequences of consings.\<close>

definition canonical :: "'t \<Rightarrow> bool" where
  "canonical t \<longleftrightarrow> tinv t \<and> inj_on key (contents t)"

inductive consed :: "'t \<Rightarrow> ('o \<times> 'o) list \<Rightarrow> 't \<Rightarrow> bool" where
  consed_Nil: "consed t [] t"
| consed_Cons: "cons t a t' r \<Longrightarrow> consed t' ars u \<Longrightarrow> consed t ((a, r) # ars) u"

inductive_cases consed_ConsE: "consed t (x # xs) u"

lemma cons_same_key: "tinv t \<Longrightarrow> cons t a t' r \<Longrightarrow> key r = key a"
  using cons_hit cons_miss by metis

lemma cons_canonical:
  assumes "canonical t" "cons t a t' r" shows "canonical t'"
proof -
  have t: "tinv t" "inj_on key (contents t)" using assms(1) by (auto simp: canonical_def)
  have "inj_on key (contents t')"
  proof (cases "\<exists>b\<in>contents t. key b = key a")
    case True
    then have "contents t' = contents t" using cons_hit [OF t(1) assms(2)] by blast
    then show ?thesis using t(2) by simp
  next
    case False
    then have "contents t' = contents t \<or> contents t' = insert a (contents t)"
      using cons_miss [OF t(1) assms(2)] by blast
    then show ?thesis using t(2) False by (auto simp: inj_on_def) metis+
  qed
  then show ?thesis using cons_inv [OF t(1) assms(2)] by (simp add: canonical_def)
qed

lemma cons_mono: "tinv t \<Longrightarrow> cons t a t' r \<Longrightarrow> contents t \<subseteq> contents t'"
  using cons_hit cons_miss by (metis order.refl subset_insertI)

lemma consed_canonical: "consed t ars u \<Longrightarrow> canonical t \<Longrightarrow> canonical u \<and> contents t \<subseteq> contents u"
proof (induction rule: consed.induct)
  case (consed_Cons t a t' r ars u)
  then show ?case using cons_canonical [of t a t' r] cons_mono [of t a t' r]
    by (auto simp: canonical_def)
qed simp

text \<open>Once a representative is in the table, every equal object is replaced by it.\<close>

lemma canonical_representative:
  assumes "canonical t" "cons t a t1 r" "r \<in> contents t1" "consed t1 ars t2" "cons t2 b t3 q" "key a = key b"
  shows "q = r"
proof -
  have t1: "canonical t1" by (rule cons_canonical [OF assms(1,2)])
  have t2: "canonical t2" "r \<in> contents t2" using consed_canonical [OF assms(4) t1] assms(3) by auto
  have kr: "key r = key b" using cons_same_key [of t a t1 r] assms(1,2,6) by (simp add: canonical_def)
  have "q \<in> contents t2 \<and> key q = key b"
    using cons_hit [of t2 b t3 q r] assms(5) t2 kr by (simp add: canonical_def)
  moreover have "inj_on key (contents t2)" using t2(1) by (simp add: canonical_def)
  ultimately show ?thesis using t2(2) kr inj_onD [of key "contents t2" q r] by simp
qed

end

section \<open>The hash table is such a table\<close>

definition objectHash :: "GC_state \<Rightarrow> pointer \<Rightarrow> 32 word" where
  "objectHash s object =
     (case splitHeader s (getHeader s object) of
        Inl _ \<Rightarrow> 0 | Inr t \<Rightarrow> hashObject s object (objectMax s t object))"

lemma objectHash_key:
  "consable s a \<Longrightarrow> consable s b \<Longrightarrow> objectKey s a = objectKey s b \<Longrightarrow> objectHash s a = objectHash s b"
proof -
  assume a: "consable s a" "consable s b" "objectKey s a = objectKey s b"
  obtain t u where tu: "splitHeader s (getHeader s a) = Inr t" "splitHeader s (getHeader s b) = Inr u"
    using a by (auto simp: consable_def split: sum.splits)
  show ?thesis using hashObject_key [OF tu a(3)] by (simp add: objectHash_def tu)
qed

text \<open>The table holds objects of the heap with their hashes.\<close>

definition table_of :: "GC_state \<Rightarrow> GC_objectHashTable \<Rightarrow> bool" where
  "table_of s t \<longleftrightarrow> table_inv t \<and> (\<forall>(h, a)\<in>table_set t. consable s a \<and> h = objectHash s a)"

definition table_objects :: "GC_objectHashTable \<Rightarrow> pointer set" where
  "table_objects t = snd ` table_set t"

lemma table_set_elem: "e \<in> set (elements t) \<Longrightarrow> occupied e \<Longrightarrow> (elem_hash e, elem_object e) \<in> table_set t"
  by (auto simp: table_set_def)

lemma hit_key:
  assumes "table_of s t" "consable s a" "splitHeader s (getHeader s a) = Inr ty" "e \<in> set (elements t)"
  shows "hit s (objectHash s a) a (objectMax s ty a) True e
    \<longleftrightarrow> occupied e \<and> objectKey s (elem_object e) = objectKey s a"
proof (cases "occupied e")
  case True
  then have "(elem_hash e, elem_object e) \<in> table_set t" using assms(4) by (rule table_set_elem [rotated])
  then have "consable s (elem_object e)" "elem_hash e = objectHash s (elem_object e)"
    using assms(1) by (auto simp: table_of_def)
  then have "objectKey s (elem_object e) = objectKey s a \<Longrightarrow> elem_hash e = objectHash s a"
    using objectHash_key [OF _ assms(2)] by metis
  then show ?thesis
    using sameObject_iff_key [OF assms(3), of "elem_object e"] unfolding hit_def by (metis True)
qed (simp add: hit_def)

text \<open>Consing an object: the table after it, with the object found or added.\<close>

lemma hashConsPointer_spec:
  assumes tab: "table_of s (objectHashTable s)" and a: "consable s a"
    and log2: "elementsLengthMaxLog2 (objectHashTable s) < 31"
  shows "\<exists>s' r. hashConsPointer os s a c = Inr (s', r) \<and> mem s' = mem s \<and> table_of s (objectHashTable s')
    \<and> (if \<exists>b\<in>table_objects (objectHashTable s). objectKey s b = objectKey s a
       then table_set (objectHashTable s') = table_set (objectHashTable s)
         \<and> r \<in> table_objects (objectHashTable s) \<and> objectKey s r = objectKey s a
       else r = a \<and> table_set (objectHashTable s') =
              (if mayInsert (objectHashTable s) then insert (objectHash s a, a) (table_set (objectHashTable s))
               else table_set (objectHashTable s)))"
proof -
  let ?t = "objectHashTable s"
  obtain ty where ty: "splitHeader s (getHeader s a) = Inr ty" "\<not> hasIdentity ty" "a \<noteq> 0"
    using a by (auto simp: consable_def split: sum.splits)
  have inv: "table_inv ?t" using tab by (simp add: table_of_def)
  then have ok: "table_ok ?t" "occupancy ?t < elementsLengthMax ?t" by (auto simp: table_inv_def)
  have hd: "header_ok s a" using ty(1) by (simp add: header_ok_def)
  let ?h = "objectHash s a" and ?m = "objectMax s ty a"
  have h: "hashObject s a ?m = ?h" by (simp add: objectHash_def ty)
  obtain t1 r where t1: "insertHashTableElem s ?t ?h a ?m True = Inr (t1, r)" "table_ok t1"
    "elementsLengthMaxLog2 t1 = elementsLengthMaxLog2 ?t" "elementsLengthMax t1 = elementsLengthMax ?t"
    "mayInsert t1 = mayInsert ?t"
    "if \<exists>e\<in>set (elements ?t). hit s ?h a ?m True e
     then t1 = ?t \<and> (\<exists>e\<in>set (elements ?t). hit s ?h a ?m True e \<and> r = elem_object e)
     else r = a \<and> (if mayInsert ?t then table_set t1 = insert (?h, a) (table_set ?t)
                             \<and> occupancy t1 = occupancy ?t + 1
                             \<and> elementsLengthCur t1 = (elementsLengthCur ?t + 1) mod 4294967296 else t1 = ?t)"
    using insertHashTableElem_spec [OF ok(1) hd ty(3) ok(2)] by blast
  have found: "(\<exists>e\<in>set (elements ?t). hit s ?h a ?m True e) \<longleftrightarrow>
      (\<exists>b\<in>table_objects ?t. objectKey s b = objectKey s a)"
    using hit_key [OF tab a ty(1)] by (auto simp: table_objects_def table_set_def)
  have grow: "occupancy t1 < elementsLengthMax t1
    \<and> (mayInsert t1 \<longrightarrow> 2 * occupancy t1 \<le> elementsLengthMax t1 + 2 \<and> occupancy t1 \<le> elementsLengthCur t1
          \<and> elementsLengthCur t1 \<le> elementsLengthMax t1 + 1)"
  proof -
    have b: "elementsLengthMax ?t < 4294967296 - 1"
    proof -
      have "(2::nat) ^ elementsLengthMaxLog2 ?t \<le> 2 ^ 30" using log2 by (intro power_increasing) auto
      then show ?thesis using table_inv_shape(2) [OF inv] by simp
    qed
    show ?thesis
      using t1(4,5,6) inv b table_inv_shape(1) [OF inv] ok(2)
      by (auto simp: table_inv_def split: if_splits)
  qed
  have "2 \<le> elementsLengthMaxLog2 t1" "elementsLengthMaxLog2 t1 < 31" using t1(3) log2 inv by (auto simp: table_inv_def)
  then obtain s2 t2 where t2: "growHashTableMaybe os s t1 = Inr (s2, t2)" "table_inv t2" "table_set t2 = table_set t1"
    "only_calls s s2"
    using growHashTableMaybe_spec [OF t1(2)] grow by blast
  obtain s' where run: "hashConsPointer os s a c = Inr (s', r)" "mem s' = mem s2" "objectHashTable s' = t2"
    using t1(1) t2(1) ty by (auto simp: hashConsPointer_def Let_def h lastMajor_upd_def)
  have m: "mem s2 = mem s" using t2(4) by (auto simp: only_calls_def)
  have "table_of s t2"
    using t2(2,3) t1(6) tab a by (auto simp: table_of_def split: if_splits)
  moreover have "r \<in> table_objects ?t \<and> objectKey s r = objectKey s a"
    if "\<exists>b\<in>table_objects ?t. objectKey s b = objectKey s a"
  proof -
    have ex: "\<exists>e\<in>set (elements ?t). hit s ?h a ?m True e" using that found by blast
    obtain e where "e \<in> set (elements ?t)" "hit s ?h a ?m True e" "r = elem_object e"
      using t1(6) unfolding if_P [OF ex] by blast
    moreover from this have "occupied e" "objectKey s (elem_object e) = objectKey s a"
      using hit_key [OF tab a ty(1)] by blast+
    ultimately show ?thesis using table_set_elem by (force simp: table_objects_def)
  qed
  ultimately show ?thesis
    using run m t2(3) t1(6) found by auto
qed

text \<open>A call of \<open>hashConsPointer\<close> in a phase in which the objects do not change.\<close>

definition consCall ::
  "GC_state \<Rightarrow> GC_objectHashTable \<Rightarrow> pointer \<Rightarrow> GC_objectHashTable \<Rightarrow> pointer \<Rightarrow> bool" where
  "consCall s t a t' r \<longleftrightarrow> consable s a \<and> elementsLengthMaxLog2 t < 31 \<and>
     (\<exists>os c n m s'. hashConsPointer os (s\<lparr>objectHashTable := t, osCalls := n, lastMajorStatistics := m\<rparr>) a c
        = Inr (s', r) \<and> objectHashTable s' = t')"

lemma consing_cong:
  fixes s :: GC_state and t :: GC_objectHashTable and n :: nat and m :: GC_lastMajorStatistics
  defines "u \<equiv> s\<lparr>objectHashTable := t, osCalls := n, lastMajorStatistics := m\<rparr>"
  shows "objectKey u = objectKey s" "objectHash u = objectHash s" "consable u = consable s"
    "table_of u = table_of s"
proof -
  have f: "objectTypes u = objectTypes s" "alignment u = alignment s" "mem u = mem s" by (simp_all add: u_def)
  have l: "getSequenceLength u = getSequenceLength s" "getHeader u = getHeader s" "splitHeader u = splitHeader s"
    "mem u = mem s" "sizeofSequenceNoMetaData u = sizeofSequenceNoMetaData s"
    by (simp_all add: fun_eq_iff getSequenceLength_def getHeader_def splitHeader_def Let_def
        sizeofSequenceNoMetaData_def alignWithExtra_def f)
  then have mx: "objectMax u = objectMax s" by (simp add: fun_eq_iff objectMax_def)
  then have ow: "objectWords u = objectWords s" and ho: "hashObject u = hashObject s"
    by (simp_all only: fun_eq_iff objectWords_def hashObject_def l simp_thms)
  show "objectKey u = objectKey s" "objectHash u = objectHash s"
    unfolding fun_eq_iff objectKey_def objectHash_def l mx ow ho by simp_all
  moreover show "consable u = consable s" by (simp add: fun_eq_iff consable_def l)
  ultimately show "table_of u = table_of s" by (simp add: fun_eq_iff table_of_def)
qed

lemma consCall_spec:
  assumes "table_of s t" "consCall s t a t' r"
  shows "table_of s t' \<and>
    (if \<exists>b\<in>table_objects t. objectKey s b = objectKey s a
     then table_objects t' = table_objects t \<and> r \<in> table_objects t \<and> objectKey s r = objectKey s a
     else r = a \<and> table_objects t' = (if mayInsert t then insert a (table_objects t) else table_objects t))"
proof -
  obtain os c n m s' where c: "consable s a" "elementsLengthMaxLog2 t < 31"
    "hashConsPointer os (s\<lparr>objectHashTable := t, osCalls := n, lastMajorStatistics := m\<rparr>) a c = Inr (s', r)"
    "objectHashTable s' = t'" using assms(2) by (auto simp: consCall_def)
  let ?u = "s\<lparr>objectHashTable := t, osCalls := n, lastMajorStatistics := m\<rparr>"
  note cg = consing_cong [where s = s and t = t and n = n and m = m]
  have tu: "table_of ?u (objectHashTable ?u)" "consable ?u a" "elementsLengthMaxLog2 (objectHashTable ?u) < 31"
    using assms(1) c by (simp_all add: cg)
  have ot: "objectHashTable ?u = t" by simp
  note spec = hashConsPointer_spec [OF tu, of os c, unfolded cg ot]
  have "table_of s t' \<and>
    (if \<exists>b\<in>table_objects t. objectKey s b = objectKey s a
     then table_set t' = table_set t \<and> r \<in> table_objects t \<and> objectKey s r = objectKey s a
     else r = a \<and> table_set t' = (if mayInsert t then insert (objectHash s a, a) (table_set t) else table_set t))"
  proof -
    obtain s2 r2 where "hashConsPointer os ?u a c = Inr (s2, r2)" "table_of s (objectHashTable s2)"
      "if \<exists>b\<in>table_objects t. objectKey s b = objectKey s a
       then table_set (objectHashTable s2) = table_set t \<and> r2 \<in> table_objects t \<and> objectKey s r2 = objectKey s a
       else r2 = a \<and> table_set (objectHashTable s2) =
         (if mayInsert t then insert (objectHash s a, a) (table_set t) else table_set t)"
      using spec by blast
    moreover from this have "s2 = s'" "r2 = r" using c(3) by simp_all
    ultimately show ?thesis using c(4) by (simp only: simp_thms)
  qed
  then show ?thesis by (auto simp: table_objects_def split: if_splits)
qed

interpretation cons: consing "table_of s" table_objects "objectKey s" "consCall s" for s
proof unfold_locales
  fix t a t' r
  assume t: "table_of s t" "consCall s t a t' r"
  note spec = consCall_spec [OF this]
  show "table_of s t'" using spec by simp
  show "table_objects t' = table_objects t \<and> r \<in> table_objects t \<and> objectKey s r = objectKey s a"
    if "b \<in> table_objects t" "objectKey s b = objectKey s a" for b
  proof -
    have "\<exists>b\<in>table_objects t. objectKey s b = objectKey s a" using that by blast
    then show ?thesis using spec by simp
  qed
  show "r = a \<and> (table_objects t' = table_objects t \<or> table_objects t' = insert a (table_objects t))"
    if "\<forall>b\<in>table_objects t. objectKey s b \<noteq> objectKey s a"
  proof -
    have "\<not> (\<exists>b\<in>table_objects t. objectKey s b = objectKey s a)" using that by blast
    then show ?thesis using spec by (simp split: if_splits)
  qed
qed

lemma empty_canonical:
  assumes "2 \<le> log2" "log2 \<le> 31"
  shows "cons.canonical s (empty_table log2 inHeap 0)"
  using empty_table_inv [OF assms] empty_table_ok(2) [of log2 inHeap 0] assms
  by (simp add: cons.canonical_def table_of_def table_objects_def)

text \<open>
  C3: Hash-consing gives canonical objects: starting from an empty table, if consing an
  object puts its representative in the table, then after any number of further consings
  every equal object is replaced by that same representative; equal means the same header,
  length and words.
\<close>

theorem hashCons_canonical:
  assumes "2 \<le> log2" "log2 \<le> 31"
    and "cons.consed s (empty_table log2 inHeap 0) ars t"
    and "consCall s t a t1 r" "r \<in> table_objects t1"
    and "cons.consed s t1 ars' t2" "consCall s t2 b t3 q" "objectKey s a = objectKey s b"
  shows "q = r \<and> objectKey s r = objectKey s a"
proof -
  have "cons.canonical s t"
    using cons.consed_canonical [OF assms(3) empty_canonical [OF assms(1,2)]] by blast
  then show ?thesis
    using cons.canonical_representative [OF _ assms(4-8)] cons.cons_same_key [OF _ assms(4)]
    by (simp add: cons.canonical_def)
qed

section \<open>Allocation of a table\<close>

text \<open>The loop for the length: it ends for fewer than \<open>2 ^ 31\<close> elements, and only then.\<close>

lemma lengthMaxLoop_ends:
  assumes "L < 2147483648" "2 ^ k \<le> 2 * L" "n + k = 39" "6 \<le> k"
  shows "\<exists>j. lengthMaxLoop n L (2 ^ k) k = Inr (2 ^ j, j) \<and> k \<le> j \<and> j \<le> 31 \<and> 2 ^ j \<le> 2 * L \<and> L < 2 ^ j"
  using assms
proof (induction n arbitrary: k)
  case 0
  have "(2::nat) ^ 39 = 2 ^ k" using 0 by simp
  then show ?case using 0 by simp
next
  case (Suc n)
  have k31: "k \<le> 31"
  proof (rule ccontr)
    assume "\<not> k \<le> 31"
    then have "(2::nat) ^ 32 \<le> 2 ^ k" by (intro power_increasing) auto
    then show False using Suc.prems by simp
  qed
  show ?case
  proof (cases "2 ^ k \<le> L")
    case False
    then show ?thesis using Suc.prems k31 by (intro exI [of _ k]) simp
  next
    case True
    have k: "k < 31"
    proof (rule ccontr)
      assume "\<not> k < 31"
      then have "k = 31" using k31 by simp
      then show False using True Suc.prems(1) by simp
    qed
    then have "(2::nat) ^ Suc k \<le> 2 ^ 31" by (intro power_increasing) auto
    then have m: "2 * 2 ^ k mod 4294967296 = (2::nat) ^ Suc k" by simp
    obtain j where j: "lengthMaxLoop n L (2 ^ Suc k) (Suc k) = Inr (2 ^ j, j)" "Suc k \<le> j" "j \<le> 31"
      "2 ^ j \<le> 2 * L" "L < 2 ^ j"
      using Suc.IH [of "Suc k"] Suc.prems True by auto
    have "lengthMaxLoop (Suc n) L (2 ^ k) k = lengthMaxLoop n L (2 ^ Suc k) (Suc k)"
      using True m by simp
    then show ?thesis using j by (intro exI [of _ j]) simp
  qed
qed

lemma lengthMaxLoop_diverges:
  assumes "2147483648 \<le> L" "k \<le> 32"
  shows "lengthMaxLoop n L (2 ^ k mod 4294967296) j = Inl OutOfFuel"
  using assms
proof (induction n arbitrary: k j)
  case (Suc n)
  show ?case
  proof (cases "k = 32")
    case True
    then show ?thesis using Suc.IH [of 32] Suc.prems(1) by simp
  next
    case False
    then have k: "k \<le> 31" using Suc.prems by simp
    then have "(2::nat) ^ k \<le> 2 ^ 31" by (intro power_increasing) auto
    then have "(2::nat) ^ k mod 4294967296 \<le> L" using Suc.prems(1) by simp
    moreover have "2 * (2 ^ k mod 4294967296) mod 4294967296 = (2::nat) ^ Suc k mod 4294967296"
      by (simp add: mod_simps)
    moreover have "lengthMaxLoop n L (2 ^ Suc k mod 4294967296) (j + 1) = Inl OutOfFuel"
      using Suc.IH [of "Suc k"] Suc.prems(1) k by simp
    ultimately show ?thesis by simp
  qed
qed simp

text \<open>The number of elements that fit in the region of the table.\<close>

definition regionElements :: "GC_state \<Rightarrow> nat" where
  "regionElements s = (case hashTableRegion s of (regionStart, regionEnd) \<Rightarrow>
     wrap_sub regionEnd regionStart div sizeof_GC_objectHashElement mod 4294967296)"

lemma hashTableRegion_calls [simp]: "hashTableRegion (s\<lparr>osCalls := n\<rparr>) = hashTableRegion s"
  by (simp add: hashTableRegion_def)

text \<open>
  Allocation of the table of hash-consing: when fewer than \<open>2 ^ 31\<close> elements fit
  in the free part of the heap, and \<open>malloc\<close> succeeds, the table is empty, in its invariant,
  of a power of two of at least 32 elements, the largest one that fits when it is in the heap.
\<close>

theorem allocHashTable_empty:
  assumes "regionElements s < 2147483648" "\<And>n. os_malloc os n 32" "\<And>n. os_malloc os n 1024"
  shows "\<exists>s' log2. allocHashTable os s = Inr (s', empty_table log2 (64 \<le> regionElements s) 0)
    \<and> only_calls s s' \<and> table_inv (empty_table log2 (64 \<le> regionElements s) 0) \<and> 6 \<le> log2
    \<and> (64 \<le> regionElements s \<longrightarrow> 2 ^ log2 \<le> regionElements s \<and> regionElements s < 2 ^ (log2 + 1))"
proof -
  let ?L = "regionElements s"
  obtain a b where ab: "hashTableRegion s = (a, b)" by fastforce
  have L: "wrap_sub b a div sizeof_GC_objectHashElement mod 4294967296 = ?L"
    by (simp add: regionElements_def ab)
  show ?thesis
  proof (cases "?L < 64")
    case True
    have "allocHashTable os s = Inr (s\<lparr>osCalls := osCalls s + 2\<rparr>, empty_table 6 (64 \<le> ?L) 0)"
      using assms(2,3) True
      by (simp add: allocHashTable_def malloc_safe_def GC_malloc_def ab L empty_table_def)
    moreover have "only_calls s (s\<lparr>osCalls := osCalls s + 2\<rparr>)" by (auto simp: only_calls_def)
    moreover have "table_inv (empty_table 6 (64 \<le> ?L) 0)" by (rule empty_table_inv) simp_all
    ultimately show ?thesis using True by (intro exI [of _ "s\<lparr>osCalls := osCalls s + 2\<rparr>"] exI [of _ 6]) simp
  next
    case False
    obtain j where j: "lengthMaxLoop 33 ?L (2 ^ 6) 6 = Inr (2 ^ j, j)" "6 \<le> j" "j \<le> 31"
      "2 ^ j \<le> 2 * ?L" "?L < 2 ^ j"
      using lengthMaxLoop_ends [OF assms(1), of 6 33] False by auto
    have "j \<noteq> 6" using j(5) False by auto
    then obtain i where i: "j = Suc i" "6 \<le> i" using j(2) by (cases j) auto
    have "allocHashTable os s = Inr (s\<lparr>osCalls := osCalls s + 1\<rparr>, empty_table i (64 \<le> ?L) 0)"
      using assms(2) False j(1)
      by (simp add: allocHashTable_def malloc_safe_def GC_malloc_def ab L empty_table_def i(1))
    moreover have "only_calls s (s\<lparr>osCalls := osCalls s + 1\<rparr>)" by (auto simp: only_calls_def)
    moreover have "table_inv (empty_table i (64 \<le> ?L) 0)" using i j(3) by (intro empty_table_inv) simp_all
    ultimately show ?thesis using i(2) j(4,5) i(1)
      by (intro exI [of _ "s\<lparr>osCalls := osCalls s + 1\<rparr>"] exI [of _ i]) simp
  qed
qed

text \<open>An operating system whose \<open>malloc\<close> succeeds, and a free secondary heap of a page.\<close>

definition malloc_os :: OS where
  "malloc_os = \<lparr>os_mmapAnon = \<lambda>_ _ _. None, os_mremap = \<lambda>_ _ _ _. None, os_getrusage = \<lambda>_. rusage0,
     os_malloc = \<lambda>_ _. True\<rparr>"

definition consExample :: GC_state where
  "consExample = state0\<lparr>secondaryHeap := GC_heap0\<lparr>heapStart := 65536, heapSize := 4096\<rparr>\<rparr>"

theorem allocHashTable_witness:
  "regionElements consExample = 256 \<and>
   (\<exists>s' log2. allocHashTable malloc_os consExample = Inr (s', empty_table log2 True 0) \<and> 2 ^ log2 \<le> (256::nat)
      \<and> 256 < (2::nat) ^ (log2 + 1))"
proof -
  have r: "regionElements consExample = 256"
    by (simp add: regionElements_def hashTableRegion_def consExample_def isHeapInit_def zero_defs wrap_sub_def)
  show ?thesis
    using allocHashTable_empty [of consExample malloc_os] by (fastforce simp: r malloc_os_def)
qed



text \<open>
  C12: Insertion refines a lookup in a set: in a well-formed table with a free slot it ends
  after at most as many probes as there are slots, it returns an equal object of the table
  exactly when there is one, and otherwise adds the object, if the table takes insertions,
  and nothing else; the table stays well formed.
\<close>

theorem insertHashTableElem_refines:
  assumes "table_ok t" "header_ok s object" "object \<noteq> 0" "occupancy t < elementsLengthMax t"
  shows "\<exists>t' r. insertHashTableElem s t h object maxp b = Inr (t', r) \<and> table_ok t'
    \<and> (if \<exists>e\<in>set (elements t). hit s h object maxp b e
       then t' = t \<and> (\<exists>e\<in>set (elements t). hit s h object maxp b e \<and> r = elem_object e)
       else r = object \<and> (if mayInsert t then table_set t' = insert (h, object) (table_set t)
                             \<and> occupancy t' = occupancy t + 1 else t' = t))"
  using insertHashTableElem_spec [OF assms, of h maxp b] by (auto split: if_splits)

text \<open>Two equal objects of 8 bytes, at 16 and at 64, in a memory of zeros.\<close>

definition twins :: GC_state where
  "twins = state0\<lparr>objectTypes := [\<lparr>tag = NORMAL_TAG, hasIdentity = False, bytesNonObjptrs = 8, numObjptrs = 0\<rparr>]\<rparr>"

lemma load_le_zero: "load_le (\<lambda>_. 0) a n = 0"
  by (induction n arbitrary: a) simp_all

lemma twins_header:
  "getHeader twins a = 0" "load32 (mem twins) a = 0"
  "splitHeader twins 0 = Inr \<lparr>tag = NORMAL_TAG, hasIdentity = False, bytesNonObjptrs = 8, numObjptrs = 0\<rparr>"
  by (simp_all add: twins_def splitHeader_def getHeader_def zero_defs typeIndexOfHeader_def load32_def load_le_zero)

lemma twins_key: "objectKey twins a = Some (0, 0, [0, 0])"
  by (simp add: objectKey_def twins_header objectWords_def objectMax_def upt_rec)

lemma twins_update:
  "getHeader (twins\<lparr>objectHashTable := t, osCalls := n, lastMajorStatistics := m\<rparr>) a = 0"
  "splitHeader (twins\<lparr>objectHashTable := t, osCalls := n, lastMajorStatistics := m\<rparr>) 0 =
    Inr \<lparr>tag = NORMAL_TAG, hasIdentity = False, bytesNonObjptrs = 8, numObjptrs = 0\<rparr>"
  "load32 (mem (twins\<lparr>objectHashTable := t, osCalls := n, lastMajorStatistics := m\<rparr>)) a = 0"
  by (simp_all add: twins_def splitHeader_def getHeader_def zero_defs typeIndexOfHeader_def load32_def load_le_zero)

theorem insertHashTableElem_witness:
  "table_set (empty_table 2 True 0) = {} \<and>
   (\<exists>t'. insertHashTableElem twins (empty_table 2 True 0) 0 16 24 True = Inr (t', 16) \<and> table_set t' = {(0, 16)})"
proof -
  let ?t = "empty_table 2 True 0"
  note e = empty_table_ok [of 2 True 0]
  have no: "\<not> hit s h object maxp b e" if "e \<in> set (elements ?t)" for s h object maxp b e
    using that by (simp add: empty_table_def hit_def occupied_def null_element_def)
  have "header_ok twins 16" by (simp add: header_ok_def twins_header)
  then show ?thesis
    using insertHashTableElem_refines [of ?t twins 16 0 24 True] e no by (auto simp: empty_table_def)
qed

lemma twins_cons:
  "consCall twins (empty_table 2 True 0) 16 
     ((empty_table 2 True 0)\<lparr>elements := [\<lparr>elem_hash = 0, elem_object = 16\<rparr>, null_element, null_element, null_element],
      elementsLengthCur := 1\<rparr>) 16"
proof -
  let ?t = "empty_table 2 True 0"
  let ?u = "twins\<lparr>objectHashTable := ?t, osCalls := 0, lastMajorStatistics := GC_lastMajorStatistics0\<rparr>"
  have "hashObject ?u 16 24 = 0" "objectMax ?u \<lparr>tag = NORMAL_TAG, hasIdentity = False, bytesNonObjptrs = 8, numObjptrs = 0\<rparr> 16 = 24"
    by (simp_all add: hashObject_def objectMax_def twins_update twins_header(2) upt_rec)
  moreover have "insertHashTableElem ?u ?t 0 16 24 True = Inr (?t\<lparr>elements := [\<lparr>elem_hash = 0, elem_object = 16\<rparr>, null_element, null_element, null_element],
      elementsLengthCur := 1\<rparr>, 16)"
  proof -
    have r4: "replicate 4 x = [x, x, x, x]" for x :: GC_objectHashElement by (simp add: numeral_nat)
    have "elementsLengthMax ?t = Suc 3" by (simp add: empty_table_def)
    then show ?thesis unfolding insertHashTableElem_def Let_def
      by (simp only: insertLoop.simps Let_def)
        (simp add: firstSlot_def empty_table_def null_element_def r4)
  qed
  ultimately have "\<exists>s'. hashConsPointer malloc_os ?u 16 False = Inr (s', 16) \<and> objectHashTable s' = (?t\<lparr>elements := [\<lparr>elem_hash = 0, elem_object = 16\<rparr>, null_element, null_element, null_element],
      elementsLengthCur := 1\<rparr>)"
    by (simp add: hashConsPointer_def twins_update growHashTableMaybe_def) (simp add: empty_table_def)
  then show ?thesis
    unfolding consCall_def by (intro conjI exI [of _ malloc_os] exI [of _ False] exI [of _ 0]
        exI [of _ GC_lastMajorStatistics0]) (simp_all add: consable_def twins_header empty_table_def)
qed

theorem hashCons_canonical_witness:
  "\<exists>t t1 q t3. consCall twins t 16 t1 16 \<and> consCall twins t1 64 t3 q \<and> q = 16"
proof -
  let ?t = "empty_table 2 True 0"
  let ?t1 = "(empty_table 2 True 0)\<lparr>elements := [\<lparr>elem_hash = 0, elem_object = 16\<rparr>, null_element, null_element, null_element],
      elementsLengthCur := 1\<rparr>"
  let ?u = "twins\<lparr>objectHashTable := ?t1, osCalls := 0, lastMajorStatistics := GC_lastMajorStatistics0\<rparr>"
  have c: "consable twins 64" by (simp add: consable_def twins_header)
  have tab: "table_of twins ?t" using empty_canonical [of 2 twins True] by (simp add: cons.canonical_def)
  have tab1: "table_of twins ?t1" using consCall_spec [OF tab twins_cons] by blast
  have "table_of ?u ?t1" "consable ?u 64" using tab1 c by (simp_all only: consing_cong)
  then obtain s' q where s': "hashConsPointer malloc_os ?u 64 False = Inr (s', q)"
    using hashConsPointer_spec [of ?u 64 malloc_os False] by (auto simp: empty_table_def)
  then have b: "consCall twins ?t1 64 (objectHashTable s') q"
    unfolding consCall_def by (intro conjI exI [of _ malloc_os] exI [of _ False] exI [of _ 0]
        exI [of _ GC_lastMajorStatistics0] exI [of _ s']) (simp_all add: c empty_table_def)
  have "(16::nat) \<in> table_objects ?t1"
    by (force simp: table_objects_def table_set_def occupied_def null_element_def)
  then have "q = 16"
    using hashCons_canonical [of 2 twins True "[]" ?t, OF _ _ cons.consed_Nil twins_cons _ cons.consed_Nil b]
    by (simp add: twins_key)
  then show ?thesis using twins_cons b by blast
qed

end
