(* ===== verification/DfsMark.thy ===== *)
theory DfsMark
  imports HashCons Foreach
begin

text \<open>
  Depth-first marking by pointer reversal (\<open>dfs-mark.c\<close>): the goto machine of \<open>dfsMark\<close>
  with one definition for the code of each label, on a record of the local variables. The
  object on top of the mark stack is linked through the pointer slot that is being
  followed; the index of that slot is kept in the counter bits of the header (with the
  sequence counter for sequences, in two fields of the stack for stacks).
\<close>

section \<open>The marking machine\<close>

datatype GC_markMode = MARK_MODE | UNMARK_MODE

record GC_markState =
  mode :: GC_markMode
  shouldHashCons :: bool
  shouldLinkWeaks :: bool
  ms_size :: nat

definition isPointerMarked :: "GC_state \<Rightarrow> pointer \<Rightarrow> bool" where
  "isPointerMarked s p \<longleftrightarrow> MARK_MASK AND getHeader s p \<noteq> 0"

definition isPointerMarkedByMode :: "GC_state \<Rightarrow> pointer \<Rightarrow> GC_markMode \<Rightarrow> bool" where
  "isPointerMarkedByMode s p m \<longleftrightarrow>
     (case m of MARK_MODE \<Rightarrow> isPointerMarked s p | UNMARK_MODE \<Rightarrow> \<not> isPointerMarked s p)"

text \<open>The labels of \<open>dfsMark\<close> and its local variables.\<close>

datatype dfsLabel =
    MarkNext | Mark | NormalDone | MarkInNormal | MarkNextInNormal
  | SequenceDone | MarkSequenceElt | MarkInSequence | MarkNextInSequence
  | MarkInStack | MarkInFrame | Ret | Return

record dfsLocals =
  l_size :: nat
  cur :: pointer
  prev :: pointer
  nxt :: pointer
  todo :: pointer
  headerp :: pointer
  header :: "64 word"
  objType :: GC_objectType
  objptrIndex :: nat
  nextHeaderp :: pointer
  nextHeader :: "64 word"
  sequenceIndex :: nat
  frameTop :: pointer
  frameInfo :: GC_frameInfo

type_synonym dfsConfig = "dfsLabel \<times> GC_state \<times> dfsLocals"

definition markOf :: "GC_markState \<Rightarrow> 64 word" where
  "markOf ms = (if mode ms = MARK_MODE then MARK_MASK else 0)"

text \<open>The header with the counter set; \<open>objptrIndex << COUNTER_SHIFT\<close> is a 32-bit shift.\<close>

definition setCounter :: "64 word \<Rightarrow> nat \<Rightarrow> 64 word" where
  "setCounter h i = (h AND NOT COUNTER_MASK) OR ucast (push_bit COUNTER_SHIFT (word_of_nat i :: 32 word))"

definition getCounter :: "64 word \<Rightarrow> nat" where
  "getCounter h = unat (drop_bit COUNTER_SHIFT (h AND COUNTER_MASK))"

definition dfs_markNext :: "GC_state \<Rightarrow> dfsLocals \<Rightarrow> dfsConfig" where
  "dfs_markNext s l =
     (Mark, storeObjptrFromPointer s (todo l) (prev l) (heapStart (heap s)),
      l\<lparr>headerp := nextHeaderp l, header := nextHeader l, prev := cur l, cur := nxt l\<rparr>)"

definition dfs_linkWeak :: "GC_markState \<Rightarrow> pointer \<Rightarrow> GC_state \<Rightarrow> GC_state" where
  "dfs_linkWeak ms w s =
     (if shouldLinkWeaks ms \<and> isObjptr (weak_objptr s w) \<and> isObjptrInHeap s (weak_objptr s w)
      then (set_weak_link w (weaks s) s)\<lparr>weaks := w\<rparr>
      else s)"

definition dfs_mark :: "GC_markState \<Rightarrow> GC_state \<Rightarrow> dfsLocals \<Rightarrow> dfsConfig res" where
  "dfs_mark ms s l =
     (let l = l\<lparr>header := header l XOR MARK_MASK\<rparr>;
          s = write64 (headerp l) (header l) s
      in bindE (splitHeader s (header l)) (\<lambda>t.
         let l = l\<lparr>objType := t\<rparr>
         in if tag t = NORMAL_TAG then
              (let l = l\<lparr>l_size := wrap (l_size l + GC_NORMAL_METADATA_SIZE + bytesNonObjptrs t
                                          + numObjptrs t * OBJPTR_SIZE)\<rparr>
               in if 0 = numObjptrs t then Inr (NormalDone, s, l)
                  else Inr (MarkInNormal, s, l\<lparr>todo := cur l + bytesNonObjptrs t, objptrIndex := 0\<rparr>))
            else if tag t = WEAK_TAG then
              Inr (Ret, dfs_linkWeak ms (cur l + offsetofWeak s) s, l)
            else if tag t = SEQUENCE_TAG then
              (let l = l\<lparr>l_size := wrap (l_size l + GC_SEQUENCE_METADATA_SIZE
                          + sizeofSequenceNoMetaData s (getSequenceLength s (cur l)) (bytesNonObjptrs t) (numObjptrs t))\<rparr>
               in if 0 = numObjptrs t \<or> 0 = getSequenceLength s (cur l) then Inr (SequenceDone, s, l)
                  else Inr (MarkSequenceElt, s, l\<lparr>sequenceIndex := 0, todo := cur l\<rparr>))
            else
              Inr (MarkInStack, s,
                   l\<lparr>l_size := wrap (l_size l + GC_STACK_METADATA_SIZE + sizeof_GC_stack + stack_reserved s (cur l)),
                     frameTop := getStackTop s (cur l)\<rparr>)))"

text \<open>\<open>normalDone\<close> and \<open>sequenceDone\<close>.\<close>

definition dfs_done :: "OS \<Rightarrow> GC_markState \<Rightarrow> GC_state \<Rightarrow> dfsLocals \<Rightarrow> dfsConfig res" where
  "dfs_done os ms s l =
     (if shouldHashCons ms then
        bindE (hashConsPointer os s (cur l) True) (\<lambda>(s, p). Inr (Ret, s, l\<lparr>cur := p\<rparr>))
      else Inr (Ret, s, l))"

text \<open>The pointer in the slot \<open>todo\<close> is not followed: not a pointer, not in the heap, or marked.\<close>

definition dfs_follow :: "GC_state \<Rightarrow> dfsLocals \<Rightarrow> bool" where
  "dfs_follow s l \<longleftrightarrow> isPointer (nxt l) \<and> isPointerInHeap s (nxt l)"

definition dfs_markInNormal :: "OS \<Rightarrow> GC_markState \<Rightarrow> GC_state \<Rightarrow> dfsLocals \<Rightarrow> dfsConfig res" where
  "dfs_markInNormal os ms s l =
     (let l = l\<lparr>nxt := fetchObjptrToPointer s (todo l) (heapStart (heap s))\<rparr>
      in if \<not> dfs_follow s l then Inr (MarkNextInNormal, s, l)
         else
           (let l = l\<lparr>nextHeaderp := getHeaderp (nxt l), nextHeader := getHeader s (nxt l)\<rparr>
            in if markOf ms = nextHeader l AND MARK_MASK then
                 (if shouldHashCons ms then
                    bindE (shareObjptr os s (todo l)) (\<lambda>s. Inr (MarkNextInNormal, s, l))
                  else Inr (MarkNextInNormal, s, l))
               else Inr (MarkNext, write64 (headerp l) (setCounter (header l) (objptrIndex l)) s, l)))"

definition dfs_markNextInNormal :: "GC_state \<Rightarrow> dfsLocals \<Rightarrow> dfsConfig" where
  "dfs_markNextInNormal s l =
     (let l = l\<lparr>objptrIndex := (objptrIndex l + 1) mod 4294967296\<rparr>
      in if objptrIndex l = numObjptrs (objType l) then
           (NormalDone, write64 (headerp l) (header l AND NOT COUNTER_MASK) s, l)
         else (MarkInNormal, s, l\<lparr>todo := todo l + OBJPTR_SIZE\<rparr>))"

definition dfs_markSequenceElt :: "GC_state \<Rightarrow> dfsLocals \<Rightarrow> dfsConfig" where
  "dfs_markSequenceElt s l =
     (MarkInSequence, s, l\<lparr>objptrIndex := 0, todo := todo l + bytesNonObjptrs (objType l)\<rparr>)"

definition dfs_markInSequence :: "OS \<Rightarrow> GC_markState \<Rightarrow> GC_state \<Rightarrow> dfsLocals \<Rightarrow> dfsConfig res" where
  "dfs_markInSequence os ms s l =
     (let l = l\<lparr>nxt := fetchObjptrToPointer s (todo l) (heapStart (heap s))\<rparr>
      in if \<not> dfs_follow s l then Inr (MarkNextInSequence, s, l)
         else
           (let l = l\<lparr>nextHeaderp := getHeaderp (nxt l), nextHeader := getHeader s (nxt l)\<rparr>
            in if markOf ms = nextHeader l AND MARK_MASK then
                 (if shouldHashCons ms then
                    bindE (shareObjptr os s (todo l)) (\<lambda>s. Inr (MarkNextInSequence, s, l))
                  else Inr (MarkNextInSequence, s, l))
               else
                 (let s = write64 (getSequenceCounterp (cur l)) (word_of_nat (sequenceIndex l)) s
                  in Inr (MarkNext, write64 (headerp l) (setCounter (header l) (objptrIndex l)) s, l))))"

definition dfs_markNextInSequence :: "GC_state \<Rightarrow> dfsLocals \<Rightarrow> dfsConfig" where
  "dfs_markNextInSequence s l =
     (let l = l\<lparr>todo := todo l + OBJPTR_SIZE, objptrIndex := (objptrIndex l + 1) mod 4294967296\<rparr>
      in if objptrIndex l < numObjptrs (objType l) then (MarkInSequence, s, l)
         else
           (let l = l\<lparr>sequenceIndex := wrap (sequenceIndex l + 1)\<rparr>
            in if sequenceIndex l < getSequenceLength s (cur l) then (MarkSequenceElt, s, l)
               else
                 (let s = write64 (getSequenceCounterp (cur l)) 0 s
                  in (SequenceDone, write64 (headerp l) (header l AND NOT COUNTER_MASK) s, l))))"

definition dfs_markInStack :: "GC_state \<Rightarrow> dfsLocals \<Rightarrow> dfsConfig res" where
  "dfs_markInStack s l =
     (if frameTop l = getStackBottom s (cur l) then Inr (Ret, s, l)
      else
        bindE (getFrameInfoFromReturnAddress s (load64 (mem s) (frameTop l - GC_RETURNADDRESS_SIZE))) (\<lambda>fi.
          Inr (MarkInFrame, set_stack_markTop (cur l) (frameTop l) s,
               l\<lparr>objptrIndex := 0, frameInfo := fi\<rparr>)))"

definition dfs_markInFrame :: "OS \<Rightarrow> GC_markState \<Rightarrow> GC_state \<Rightarrow> dfsLocals \<Rightarrow> dfsConfig res" where
  "dfs_markInFrame os ms s l =
     (let fi = frameInfo l
      in if objptrIndex l = length (offsets fi) then
           Inr (MarkInStack, s, l\<lparr>frameTop := frameTop l - frame_size fi\<rparr>)
         else
           (let todo' = frameTop l - frame_size fi + offsets fi ! objptrIndex l;
                l = l\<lparr>todo := todo', nxt := fetchObjptrToPointer s todo' (heapStart (heap s))\<rparr>
            in if \<not> dfs_follow s l then
                 Inr (MarkInFrame, s, l\<lparr>objptrIndex := (objptrIndex l + 1) mod 4294967296\<rparr>)
               else
                 (let l = l\<lparr>nextHeaderp := getHeaderp (nxt l), nextHeader := getHeader s (nxt l)\<rparr>
                  in if markOf ms = nextHeader l AND MARK_MASK then
                       (let l = l\<lparr>objptrIndex := (objptrIndex l + 1) mod 4294967296\<rparr>
                        in if shouldHashCons ms then
                             bindE (shareObjptr os s (todo l)) (\<lambda>s. Inr (MarkInFrame, s, l))
                           else Inr (MarkInFrame, s, l))
                     else Inr (MarkNext, set_stack_markIndex (cur l) (objptrIndex l) s, l))))"

text \<open>
  Back in the object on top of the mark stack: the slot gets the pointer that was followed,
  and its old contents, the rest of the mark stack, become \<open>prev\<close>.
\<close>

definition dfs_restore :: "GC_markState \<Rightarrow> pointer \<Rightarrow> pointer \<Rightarrow> GC_state \<times> dfsLocals \<Rightarrow> GC_state \<times> dfsLocals" where
  "dfs_restore ms slot p = (\<lambda>(s, l).
     (let l = l\<lparr>todo := slot, prev := fetchObjptrToPointer s slot (heapStart (heap s))\<rparr>;
          s = storeObjptrFromPointer s slot p (heapStart (heap s))
      in (if shouldHashCons ms then markIntergenerationalPointer slot s else s, l)))"

definition dfs_ret :: "GC_markState \<Rightarrow> GC_state \<Rightarrow> dfsLocals \<Rightarrow> dfsConfig res" where
  "dfs_ret ms s l =
     (if prev l = 0 then Inr (Return, s, l)
      else
        (let l = l\<lparr>nxt := cur l, cur := prev l\<rparr>;
             l = l\<lparr>headerp := getHeaderp (cur l), header := getHeader s (cur l)\<rparr>
         in bindE (splitHeader s (header l)) (\<lambda>t.
            let l = l\<lparr>objType := t\<rparr>
            in if tag t = NORMAL_TAG then
                 (let i = getCounter (header l)
                  in Inr (MarkNextInNormal,
                          dfs_restore ms (cur l + bytesNonObjptrs t + i * OBJPTR_SIZE) (nxt l)
                            (s, l\<lparr>objptrIndex := i\<rparr>)))
               else if tag t = SEQUENCE_TAG then
                 (let i = getCounter (header l); k = getSequenceCounter s (cur l)
                  in Inr (MarkNextInSequence,
                          dfs_restore ms
                            (cur l + k * (bytesNonObjptrs t + numObjptrs t * OBJPTR_SIZE)
                             + (bytesNonObjptrs t + i * OBJPTR_SIZE)) (nxt l)
                            (s, l\<lparr>objptrIndex := i, sequenceIndex := k\<rparr>)))
               else
                 (let i = stack_markIndex s (cur l); topp = stack_markTop s (cur l)
                  in bindE (getFrameInfoFromReturnAddress s (load64 (mem s) (topp - GC_RETURNADDRESS_SIZE))) (\<lambda>fi.
                     if \<not> i < length (offsets fi) then Inl Undefined
                     else
                       (let (s, l) = dfs_restore ms (topp - frame_size fi + offsets fi ! i) (nxt l)
                                       (s, l\<lparr>frameTop := topp, frameInfo := fi\<rparr>)
                        in Inr (MarkInFrame, s, l\<lparr>objptrIndex := (i + 1) mod 4294967296\<rparr>)))))))"

fun dfsStep :: "OS \<Rightarrow> GC_markState \<Rightarrow> dfsConfig \<Rightarrow> dfsConfig res" where
  "dfsStep os ms (MarkNext, s, l) = Inr (dfs_markNext s l)"
| "dfsStep os ms (Mark, s, l) = dfs_mark ms s l"
| "dfsStep os ms (NormalDone, s, l) = dfs_done os ms s l"
| "dfsStep os ms (MarkInNormal, s, l) = dfs_markInNormal os ms s l"
| "dfsStep os ms (MarkNextInNormal, s, l) = Inr (dfs_markNextInNormal s l)"
| "dfsStep os ms (SequenceDone, s, l) = dfs_done os ms s l"
| "dfsStep os ms (MarkSequenceElt, s, l) = Inr (dfs_markSequenceElt s l)"
| "dfsStep os ms (MarkInSequence, s, l) = dfs_markInSequence os ms s l"
| "dfsStep os ms (MarkNextInSequence, s, l) = Inr (dfs_markNextInSequence s l)"
| "dfsStep os ms (MarkInStack, s, l) = dfs_markInStack s l"
| "dfsStep os ms (MarkInFrame, s, l) = dfs_markInFrame os ms s l"
| "dfsStep os ms (Ret, s, l) = dfs_ret ms s l"
| "dfsStep os ms (Return, s, l) = Inr (Return, s, l)"

fun dfsRun :: "nat \<Rightarrow> OS \<Rightarrow> GC_markState \<Rightarrow> dfsConfig \<Rightarrow> (GC_state \<times> nat) res" where
  "dfsRun 0 os ms c = Inl OutOfFuel"
| "dfsRun (Suc n) os ms c =
     (if fst c = Return then Inr (fst (snd c), l_size (snd (snd c)))
      else bindE (dfsStep os ms c) (dfsRun n os ms))"

definition dfsStart :: "GC_state \<Rightarrow> pointer \<Rightarrow> dfsConfig" where
  "dfsStart s rootp =
     (Mark, s, \<lparr>l_size = 0, cur = rootp, prev = 0, nxt = 0, todo = 0, headerp = getHeaderp rootp,
        header = getHeader s rootp, objType = \<lparr>tag = NORMAL_TAG, hasIdentity = False, bytesNonObjptrs = 0, numObjptrs = 0\<rparr>,
        objptrIndex = 0, nextHeaderp = 0, nextHeader = 0, sequenceIndex = 0, frameTop = 0,
        frameInfo = \<lparr>frame_kind = CONT_FRAME, offsets = [], frame_size = 0, sourceSeqIndex = 0\<rparr>\<rparr>)"

text \<open>
  Fuel: an object costs at most four steps and a pointer slot at most five, and the objects
  of the heap take at least 8 bytes for each.
\<close>

definition dfsFuel :: "GC_state \<Rightarrow> nat" where
  "dfsFuel s = 16 * (heapSize (heap s) + 1)"

definition dfsMark :: "OS \<Rightarrow> GC_state \<Rightarrow> pointer \<Rightarrow> GC_markState \<Rightarrow> (GC_state \<times> GC_markState) res" where
  "dfsMark os s rootp markState =
     (if \<not> isPointerInHeap s rootp then Inr (s, markState)
      else if isPointerMarkedByMode s rootp (mode markState) then Inr (s, markState)
      else
        bindE (dfsRun (dfsFuel s) os markState (dfsStart s rootp)) (\<lambda>(s, size).
          Inr (s, markState\<lparr>ms_size := wrap (ms_size markState + size)\<rparr>)))"

definition dfsMarkObjptr :: "OS \<Rightarrow> GC_markState foreachObjptrFun" where
  "dfsMarkObjptr os st opp =
     (case st of (s, markState) \<Rightarrow>
        dfsMark os s (objptrToPointer (load64 (mem s) opp) (heapStart (heap s))) markState)"

end
