(* ===== verification/Heap.thy ===== *)
theory Heap
  imports Generational
begin

text \<open>
  Heap sizing and resizing (\<open>heap.c\<close>) and the translation of pointers when a heap has
  moved (\<open>translate.c\<close>), for a platform with \<open>mremap\<close> and partial release (Linux on
  amd64: 48 address bits). A heap structure is passed by value and returned updated.
  The answers of \<open>mmap\<close> and \<open>mremap\<close> come from the record \<open>OS\<close>; fresh anonymous memory is
  zero and \<open>mremap\<close> keeps the bytes both sizes have.
\<close>

section \<open>Operating system calls\<close>

definition GC_mmapAnon :: "OS \<Rightarrow> GC_state \<Rightarrow> pointer \<Rightarrow> nat \<Rightarrow> GC_state \<times> pointer option" where
  "GC_mmapAnon os s p len =
     (let r = os_mmapAnon os (osCalls s) p len;
          s = s\<lparr>osCalls := osCalls s + 1\<rparr>
      in case r of None \<Rightarrow> (s, None)
         | Some start \<Rightarrow> (s\<lparr>mem := fill_block (mem s) start len 0\<rparr>, Some start))"

definition GC_mremap :: "OS \<Rightarrow> GC_state \<Rightarrow> pointer \<Rightarrow> nat \<Rightarrow> nat \<Rightarrow> GC_state \<times> pointer option" where
  "GC_mremap os s base oldLength newLength =
     (let r = os_mremap os (osCalls s) base oldLength newLength;
          s = s\<lparr>osCalls := osCalls s + 1\<rparr>
      in case r of None \<Rightarrow> (s, None)
         | Some start \<Rightarrow>
             (s\<lparr>mem := copy_block (mem s) base start (min oldLength newLength)\<rparr>, Some start))"

section \<open>The desired size\<close>

definition initHeap :: "GC_heap \<Rightarrow> GC_heap" where
  "initHeap h = h\<lparr>nursery := 0, oldGenSize := 0, heapSize := 0, heapStart := 0, withMapsSize := 0\<rparr>"

text \<open>
  \<open>ratio >= x\<close> for the quotient \<open>ratio = (double)ram / (double)live\<close>: a quotient by 0 is
  infinite, or not a number when both are 0, and then no comparison holds.
\<close>

definition ratio_ge :: "nat \<Rightarrow> nat \<Rightarrow> double \<Rightarrow> bool" where
  "ratio_ge ramBytes live x \<longleftrightarrow>
     (if live = 0 then 0 < ramBytes else dbl (dbl_of_size ramBytes / dbl_of_size live) \<ge> x)"

definition desiredWithMaps :: "GC_state \<Rightarrow> nat \<Rightarrow> nat \<Rightarrow> nat \<Rightarrow> nat" where
  "desiredWithMaps s liveWithMapsSize currentWithMapsSize syslimWithMapsSize =
     (let rs = ratios (controls s); ramBytes = ram (sysvals s); page = pageSize (sysvals s);
          liveF = flt_of_size liveWithMapsSize
      in if ratio_ge ramBytes liveWithMapsSize (flt (live_ratio rs + grow_ratio rs)) then
           (let res = size_of_dbl (flt (liveF * live_ratio rs))
            in if dbl (1 / 2 * dbl_of_size currentWithMapsSize) \<le> dbl_of_size res
                  \<and> dbl_of_size res \<le> dbl (dbl (11 / 10) * dbl_of_size currentWithMapsSize)
               then currentWithMapsSize
               else align res page)
         else if grow_ratio rs \<ge> copy_ratio rs
                 \<and> ratio_ge ramBytes liveWithMapsSize (dbl (2 * copy_ratio rs)) then
           alignDown (ramBytes div 2) page
         else if ratio_ge ramBytes liveWithMapsSize (flt (copy_ratio rs + grow_ratio rs)) then
           (let res = wrap_sub ramBytes (size_of_dbl (flt (grow_ratio rs * liveF)))
            in if dbl_of_size currentWithMapsSize \<le> dbl_of_size res
                  \<and> dbl_of_size res \<le> dbl (dbl (11 / 10) * dbl_of_size currentWithMapsSize)
               then currentWithMapsSize
               else align res page)
         else if ratio_ge ramBytes liveWithMapsSize (markCompact rs) then ramBytes
         else
           (let resD = dbl (dbl_of_size liveWithMapsSize * markCompact rs)
            in if resD > dbl_of_size syslimWithMapsSize then syslimWithMapsSize
               else align (size_of_dbl resD) page))"

text \<open>The limits \<open>fixed-heap\<close> and \<open>max-heap\<close> of the command line.\<close>

definition limitWithMaps :: "GC_state \<Rightarrow> nat \<Rightarrow> nat \<Rightarrow> nat res" where
  "limitWithMaps s resWithMapsSize liveWithMapsSize =
     (if fixedHeap (controls s) > 0 then
        (let res = (if resWithMapsSize > fixedHeap (controls s) div 2 then fixedHeap (controls s)
                    else fixedHeap (controls s) div 2)
         in if res < liveWithMapsSize then Inl (Die ''Out of memory with fixed heap size'') else Inr res)
      else if maxHeap (controls s) > 0 then
        (let res = (if resWithMapsSize > maxHeap (controls s) then maxHeap (controls s)
                    else resWithMapsSize)
         in if res < liveWithMapsSize then Inl (Die ''Out of memory with max heap size'') else Inr res)
      else Inr resWithMapsSize)"

definition sizeofHeapDesired :: "GC_state \<Rightarrow> nat \<Rightarrow> nat \<Rightarrow> nat res" where
  "sizeofHeapDesired s liveSize currentSize =
     (let page = pageSize (sysvals s);
          syslimWithMapsSize = alignDown SIZE_MAX page
      in bindE (invertSizeofCardMapAndCrossMap s syslimWithMapsSize) (\<lambda>syslimSize.
         let liveSize = align liveSize page
         in if syslimSize < liveSize then Inl (Die ''Out of memory with system-limit heap size'')
            else
              (let liveWithMapsSize = wrap (liveSize + sizeofCardMapAndCrossMap s liveSize);
                   currentWithMapsSize = wrap (currentSize + sizeofCardMapAndCrossMap s currentSize);
                   resWithMapsSize =
                     desiredWithMaps s liveWithMapsSize currentWithMapsSize syslimWithMapsSize
               in bindE (limitWithMaps s resWithMapsSize liveWithMapsSize)
                    (invertSizeofCardMapAndCrossMap s))))"

section \<open>Releasing and shrinking\<close>

definition releaseHeap :: "GC_heap \<Rightarrow> GC_heap" where
  "releaseHeap h = (if 0 = heapStart h then h else initHeap h)"

definition shrinkHeap :: "GC_state \<Rightarrow> GC_heap \<Rightarrow> nat \<Rightarrow> GC_heap" where
  "shrinkHeap s h keepSize =
     (if 0 = keepSize then releaseHeap h
      else
        (let keepSize = align keepSize (pageSize (sysvals s))
         in if keepSize < heapSize h then
              (let keepWithMapsSize = wrap (keepSize + sizeofCardMapAndCrossMap s keepSize)
               in h\<lparr>heapSize := keepSize, withMapsSize := keepWithMapsSize\<rparr>)
            else h))"

section \<open>Creating a heap\<close>

abbreviation (input) ADDRESS_BITS :: nat where "ADDRESS_BITS \<equiv> 48"
abbreviation (input) addressCount :: nat where "addressCount \<equiv> 32"

text \<open>The scan of address hints, alternately from below and from above, 0 last.\<close>

fun createHeapScan :: "OS \<Rightarrow> GC_state \<Rightarrow> nat \<Rightarrow> nat list \<Rightarrow> GC_state \<times> pointer option" where
  "createHeapScan os s newWithMapsSize [] = (s, None)"
| "createHeapScan os s newWithMapsSize (i # is) =
     (let addressStep = 2 ^ (ADDRESS_BITS - 5);
          addressHigh = 2 ^ ADDRESS_BITS;
          address = i * addressStep;
          address = (if addressScanDir s then addressHigh - address else address);
          address = (if i = addressCount then 0 else address);
          (s, newStart) = GC_mmapAnon os s address newWithMapsSize
      in case newStart of
           Some start \<Rightarrow> (s\<lparr>addressScanDir := \<not> addressScanDir s\<rparr>, Some start)
         | None \<Rightarrow> createHeapScan os s newWithMapsSize is)"

definition noteHeapSize :: "GC_heap \<Rightarrow> GC_state \<Rightarrow> GC_state" where
  "noteHeapSize h s =
     (if heapSize h > maxHeapSize (cumulativeStatistics s)
      then cumul_upd (\<lambda>c. c\<lparr>maxHeapSize := heapSize h\<rparr>) s else s)"

text \<open>The next size of the biased search between \<open>lowSize\<close> and \<open>highSize\<close>.\<close>

definition nextHeapSize :: "GC_state \<Rightarrow> nat \<Rightarrow> nat \<Rightarrow> nat \<Rightarrow> nat" where
  "nextHeapSize s factor lowSize highSize =
     align (wrap ((factor - 1) * (highSize div factor) + lowSize div factor)) (pageSize (sysvals s))"

fun createHeapLoop ::
  "nat \<Rightarrow> OS \<Rightarrow> GC_state \<Rightarrow> GC_heap \<Rightarrow> nat \<Rightarrow> nat \<Rightarrow> nat \<Rightarrow> nat \<Rightarrow> nat
   \<Rightarrow> (GC_state \<times> GC_heap \<times> bool) res" where
  "createHeapLoop 0 os s h lowSize highSize newSize factor loopCount = Inl OutOfFuel"
| "createHeapLoop (Suc n) os s h lowSize highSize newSize factor loopCount =
     (if lowSize \<le> highSize then
        (let newWithMapsSize = wrap (newSize + sizeofCardMapAndCrossMap s newSize);
             (s, newStart) = createHeapScan os s newWithMapsSize [1..<addressCount + 1]
         in case newStart of
              Some start \<Rightarrow>
                (let h = h\<lparr>heapStart := start, heapSize := newSize, withMapsSize := newWithMapsSize\<rparr>
                 in Inr (noteHeapSize h s, h, True))
            | None \<Rightarrow>
                (let highSize = wrap_sub newSize (pageSize (sysvals s));
                     newSize = nextHeapSize s factor lowSize highSize;
                     maxFactor = pageSize (sysvals s);
                     (factor, loopCount) =
                       (if factor < maxFactor then
                          (let loopCount = (loopCount + 1) mod 4294967296
                           in (if loopCount mod 64 = 0 then wrap (factor + factor) else factor, loopCount))
                        else (factor, loopCount))
                 in createHeapLoop n os s h lowSize highSize newSize factor loopCount))
      else Inr (s, h, False))"

text \<open>Each round lowers the upper end by a page, so \<open>desiredSize\<close> bounds the rounds.\<close>

definition createHeap ::
  "OS \<Rightarrow> GC_state \<Rightarrow> GC_heap \<Rightarrow> nat \<Rightarrow> nat \<Rightarrow> (GC_state \<times> GC_heap \<times> bool) res" where
  "createHeap os s h desiredSize minSize =
     (let desiredSize = (if desiredSize < minSize then minSize else desiredSize);
          minSize = align minSize (pageSize (sysvals s));
          desiredSize = align desiredSize (pageSize (sysvals s))
      in createHeapLoop (desiredSize + 2) os s h minSize desiredSize desiredSize 16 0)"

definition createHeapSecondary :: "OS \<Rightarrow> GC_state \<Rightarrow> nat \<Rightarrow> (GC_state \<times> bool) res" where
  "createHeapSecondary os s desiredSize =
     (let desiredWithMapsSize = wrap (desiredSize + sizeofCardMapAndCrossMap s desiredSize);
          total = wrap (withMapsSize (heap s) + desiredWithMapsSize)
      in if (fixedHeap (controls s) > 0 \<and> total > fixedHeap (controls s))
            \<or> (maxHeap (controls s) > 0 \<and> total > maxHeap (controls s))
         then Inr (s, False)
         else
           (let minSize = align (oldGenSize (heap s)) (pageSize (sysvals s));
                minWithMapsSize = wrap (minSize + sizeofCardMapAndCrossMap s minSize)
            in if minWithMapsSize > SIZE_MAX - withMapsSize (heap s) then Inr (s, False)
               else
                 bindE (createHeap os s (secondaryHeap s) desiredSize (oldGenSize (heap s)))
                   (\<lambda>(s, h, ok). Inr (s\<lparr>secondaryHeap := h\<rparr>, ok))))"

section \<open>Remapping a heap\<close>

fun remapHeapLoop ::
  "nat \<Rightarrow> OS \<Rightarrow> GC_state \<Rightarrow> GC_heap \<Rightarrow> nat \<Rightarrow> nat \<Rightarrow> nat \<Rightarrow> bool
   \<Rightarrow> (GC_state \<times> GC_heap \<times> bool) res" where
  "remapHeapLoop 0 os s h lowSize highSize newSize result = Inl OutOfFuel"
| "remapHeapLoop (Suc n) os s h lowSize highSize newSize result =
     (if lowSize \<le> highSize then
        (let factor = 16;
             newWithMapsSize = wrap (newSize + sizeofCardMapAndCrossMap s newSize);
             (s, newStart) = GC_mremap os s (heapStart h) (withMapsSize h) newWithMapsSize
         in case newStart of
              Some start \<Rightarrow>
                (let h = h\<lparr>heapStart := start, heapSize := newSize, withMapsSize := newWithMapsSize\<rparr>;
                     s = noteHeapSize h s;
                     lowSize = wrap (newSize + pageSize (sysvals s));
                     newSize = nextHeapSize s factor lowSize highSize
                 in remapHeapLoop n os s h lowSize highSize newSize True)
            | None \<Rightarrow>
                (let highSize = wrap_sub newSize (pageSize (sysvals s));
                     newSize = nextHeapSize s factor lowSize highSize
                 in remapHeapLoop n os s h lowSize highSize newSize result))
      else Inr (s, h, result))"

definition remapHeap ::
  "OS \<Rightarrow> GC_state \<Rightarrow> GC_heap \<Rightarrow> nat \<Rightarrow> nat \<Rightarrow> (GC_state \<times> GC_heap \<times> bool) res" where
  "remapHeap os s h desiredSize minSize =
     (let minSize = align minSize (pageSize (sysvals s));
          desiredSize = align desiredSize (pageSize (sysvals s))
      in remapHeapLoop (desiredSize + 2) os s h minSize desiredSize desiredSize False)"

section \<open>Translating pointers\<close>

record GC_translateState =
  tr_from :: pointer
  tr_to :: pointer
  tr_size :: nat

definition translateFun :: "GC_translateState foreachObjptrFun" where
  "translateFun st opp =
     (case st of (s, tr) \<Rightarrow>
        let from = tr_from tr; to = tr_to tr;
            p = objptrToPointer (load64 (mem s) opp) from
        in if from \<le> p \<and> p \<le> from + tr_size tr
           then Inr (write64 opp (pointerToObjptr ((p - from) + to) to) s, tr)
           else Inr st)"

definition translateHeap :: "GC_state \<Rightarrow> pointer \<Rightarrow> pointer \<Rightarrow> nat \<Rightarrow> GC_state res" where
  "translateHeap s from to bytes =
     (if from = to then Inr s
      else
        bindE (foreachGlobalObjptr (s, \<lparr>tr_from = from, tr_to = to, tr_size = bytes\<rparr>) translateFun)
          (\<lambda>st. let lim = to + bytes
                in bindE (foreachObjptrInRange (bytes + 1) st (alignFrontier (fst st) to) (\<lambda>_. lim)
                            translateFun False)
                     (\<lambda>((s, _), _). Inr s)))"

section \<open>Growing a heap\<close>

abbreviation (input) COPY_CHUNK_SIZE :: nat where "COPY_CHUNK_SIZE \<equiv> 0x2000000"

text \<open>
  The copy from the top down, in chunks, giving the pages of the old heap back as it
  goes; the bytes left bound the number of chunks.
\<close>

function growHeapCopy ::
  "GC_state \<Rightarrow> GC_heap \<Rightarrow> GC_heap \<Rightarrow> pointer \<Rightarrow> pointer \<Rightarrow> nat \<Rightarrow> (GC_state \<times> GC_heap) res" where
  "growHeapCopy s cur new from to remaining =
     (if remaining < COPY_CHUNK_SIZE then
        bindE (GC_memcpy (mem s) (heapStart cur) (heapStart new) remaining) (\<lambda>m.
          Inr (s\<lparr>mem := m\<rparr>, releaseHeap cur))
      else
        (let remaining' = remaining - COPY_CHUNK_SIZE;
             from = from - COPY_CHUNK_SIZE;
             to = to - COPY_CHUNK_SIZE
         in bindE (GC_memcpy (mem s) from to COPY_CHUNK_SIZE) (\<lambda>m.
              growHeapCopy (s\<lparr>mem := m\<rparr>) (shrinkHeap s cur remaining') new from to remaining')))"
  by pat_completeness auto
termination by (relation "measure (\<lambda>(_, _, _, _, _, remaining). remaining)") auto

declare growHeapCopy.simps [simp del]

text \<open>Reading back a heap that was written to disk: the bytes are those of the time of the write.\<close>

definition GC_diskBack_read :: "mem \<Rightarrow> pointer \<Rightarrow> pointer \<Rightarrow> nat \<Rightarrow> GC_state \<Rightarrow> GC_state" where
  "GC_diskBack_read saved origin buf bytes s =
     s\<lparr>mem := (\<lambda>b. if buf \<le> b \<and> b < buf + bytes then saved (origin + (b - buf)) else mem s b)\<rparr>"

definition growHeapDone :: "pointer \<Rightarrow> GC_state \<Rightarrow> GC_state res" where
  "growHeapDone origStart s =
     (if origStart = heapStart (heap s) then Inr s
      else translateHeap s origStart (heapStart (heap s)) (oldGenSize (heap s)))"

text \<open>
  \<open>growHeap\<close> in three parts: what it does with the heap it created, or with the failure to
  create one; the creation after \<open>remapHeap\<close> failed; the whole.
\<close>

definition growHeapPlace ::
  "OS \<Rightarrow> bool \<Rightarrow> pointer \<Rightarrow> nat \<Rightarrow> nat \<Rightarrow> nat \<Rightarrow> GC_state \<times> GC_heap \<times> bool \<Rightarrow> GC_state res" where
  "growHeapPlace os useCurrent origStart liveSize desiredSize minSize made =
     (case made of (s, new, created) \<Rightarrow>
        if created then
          (let from = heapStart (heap s) + liveSize;
               to = heapStart new + liveSize;
               cur = shrinkHeap s (heap s) liveSize
           in bindE (growHeapCopy s cur new from to liveSize) (\<lambda>(s, _).
                growHeapDone origStart (s\<lparr>heap := new\<lparr>oldGenSize := liveSize\<rparr>\<rparr>)))
        else if useCurrent then growHeapDone origStart s
        else if mayPageHeap (controls s) then
          (let saved = mem s; origin = heapStart (heap s)
           in bindE (createHeap os s (releaseHeap (heap s)) desiredSize minSize) (\<lambda>(s, cur, ok).
                if ok then
                  growHeapDone origStart
                    (GC_diskBack_read saved origin (heapStart cur) liveSize
                       (s\<lparr>heap := cur\<lparr>oldGenSize := liveSize\<rparr>\<rparr>))
                else Inl (Die ''Out of memory.  Unable to allocate heap'')))
        else Inl (Die ''Out of memory.  Unable to allocate heap''))"

definition growHeapCreate ::
  "OS \<Rightarrow> GC_state \<Rightarrow> nat \<Rightarrow> nat \<Rightarrow> (GC_state \<times> GC_heap \<times> bool) res" where
  "growHeapCreate os s desiredSize minSize =
     (let minWithMapsSize = wrap (minSize + sizeofCardMapAndCrossMap s minSize)
      in if minWithMapsSize \<le> SIZE_MAX - withMapsSize (heap s)
         then createHeap os s (initHeap GC_heap0) desiredSize minSize
         else Inr (s, initHeap GC_heap0, False))"

definition growHeap :: "OS \<Rightarrow> GC_state \<Rightarrow> nat \<Rightarrow> nat \<Rightarrow> GC_state res" where
  "growHeap os s desiredSize minSize =
     (let useCurrent = (minSize \<le> heapSize (heap s));
          minSize = (if useCurrent then wrap (heapSize (heap s) + pageSize (sysvals s)) else minSize);
          origStart = heapStart (heap s);
          liveSize = oldGenSize (heap s)
      in bindE (remapHeap os s (heap s) desiredSize minSize) (\<lambda>(s, cur, ok).
         if ok then growHeapDone origStart (s\<lparr>heap := cur\<rparr>)
         else
           (let s = s\<lparr>heap := (if \<not> useCurrent then shrinkHeap s cur liveSize else cur)\<rparr>
            in bindE (growHeapCreate os s desiredSize minSize)
                 (growHeapPlace os useCurrent origStart liveSize desiredSize minSize))))"

section \<open>Resizing\<close>

definition resizeHeap :: "OS \<Rightarrow> GC_state \<Rightarrow> nat \<Rightarrow> GC_state res" where
  "resizeHeap os s minSize =
     bindE (sizeofHeapDesired s minSize (heapSize (heap s))) (\<lambda>desiredSize.
       let minSize = align minSize (pageSize (sysvals s))
       in if desiredSize \<le> heapSize (heap s) then
            Inr (s\<lparr>heap := shrinkHeap s (heap s) desiredSize\<rparr>)
          else
            growHeap os (s\<lparr>secondaryHeap := releaseHeap (secondaryHeap s)\<rparr>) desiredSize minSize)"

definition resizeHeapSecondary :: "OS \<Rightarrow> GC_state \<Rightarrow> GC_state res" where
  "resizeHeapSecondary os s =
     (let primarySize = heapSize (heap s);
          primaryWithMapsSize = withMapsSize (heap s);
          secondarySize = heapSize (secondaryHeap s)
      in if 0 = secondarySize then Inr s
         else if wrap (2 * primaryWithMapsSize) > ram (sysvals s) then
           Inr (s\<lparr>secondaryHeap := releaseHeap (secondaryHeap s)\<rparr>)
         else if secondarySize < primarySize then
           bindE (remapHeap os s (secondaryHeap s) primarySize primarySize) (\<lambda>(s, h, ok).
             Inr (s\<lparr>secondaryHeap := (if \<not> ok then releaseHeap h else h)\<rparr>))
         else if secondarySize > primarySize then
           Inr (s\<lparr>secondaryHeap := shrinkHeap s (secondaryHeap s) primarySize\<rparr>)
         else Inr s)"

section \<open>The search for a size\<close>

text \<open>What the search loops need of the page size.\<close>

definition page_ok :: "GC_state \<Rightarrow> bool" where
  "page_ok s \<longleftrightarrow> is_power2 (pageSize (sysvals s)) \<and> 256 \<le> pageSize (sysvals s)
     \<and> pageSize (sysvals s) \<le> 4294967296"

lemma page_okD:
  assumes "page_ok s"
  shows "is_power2 (pageSize (sysvals s))" "256 \<le> pageSize (sysvals s)"
    "pageSize (sysvals s) \<le> 4294967296" "0 < pageSize (sysvals s)"
  using assms by (auto simp: page_ok_def)

text \<open>The fields the sizes of the maps depend on, and the search does not change.\<close>

definition same_config :: "GC_state \<Rightarrow> GC_state \<Rightarrow> bool" where
  "same_config s s' \<longleftrightarrow> sysvals s' = sysvals s \<and> mutatorMarksCards s' = mutatorMarksCards s
     \<and> controls s' = controls s \<and> heap s' = heap s \<and> secondaryHeap s' = secondaryHeap s
     \<and> same_tables s s'"

lemma same_config_refl [simp]: "same_config s s"
  by (simp add: same_config_def)

lemma same_config_trans [trans]: "same_config s t \<Longrightarrow> same_config t u \<Longrightarrow> same_config s u"
  unfolding same_config_def by (metis same_tables_trans)

lemma sizeofMaps_cong:
  "same_config s s' \<Longrightarrow> sizeofCardMapAndCrossMap s' n = sizeofCardMapAndCrossMap s n"
  by (simp add: same_config_def sizeofCardMapAndCrossMap_def sizeofCardMap_def sizeofCrossMap_def)

lemma nextHeapSize_cong: "same_config s s' \<Longrightarrow> nextHeapSize s' f l h = nextHeapSize s f l h"
  by (simp add: same_config_def nextHeapSize_def)

lemma page_ok_cong: "same_config s s' \<Longrightarrow> page_ok s' = page_ok s"
  by (simp add: same_config_def page_ok_def)

lemma mmapAnon_config: "same_config s (fst (GC_mmapAnon os s p len))"
  by (auto simp: GC_mmapAnon_def Let_def same_config_def same_tables_def split: option.splits)

lemma mremap_config: "same_config s (fst (GC_mremap os s b old new))"
  by (auto simp: GC_mremap_def Let_def same_config_def same_tables_def split: option.splits)

lemma noteHeapSize_config: "same_config s (noteHeapSize h s)"
  by (simp add: noteHeapSize_def cumul_upd_def same_config_def same_tables_def)

lemma createHeapScan_config: "createHeapScan os s w is = (s', r) \<Longrightarrow> same_config s s'"
proof (induction "is" arbitrary: s)
  case (Cons i "is")
  obtain s1 q a where q: "GC_mmapAnon os s a w = (s1, q)"
    and r: "(s', r) = (case q of Some start \<Rightarrow> (s1\<lparr>addressScanDir := \<not> addressScanDir s1\<rparr>, Some start)
                       | None \<Rightarrow> createHeapScan os s1 w is)"
    using Cons.prems by (auto simp: Let_def split: prod.splits)
  have c: "same_config s s1" using mmapAnon_config [of s os a w] q by simp
  show ?case
  proof (cases q)
    case None
    then show ?thesis using r Cons.IH [of s1] c same_config_trans by auto
  next
    case (Some x)
    then show ?thesis using r c by (auto simp: same_config_def same_tables_def)
  qed
qed simp

lemma createHeapScan_Some:
  "createHeapScan os s w is = (s', Some start) \<Longrightarrow> \<exists>n a. os_mmapAnon os n a w = Some start"
proof (induction "is" arbitrary: s)
  case (Cons i "is")
  obtain s1 q a where q: "GC_mmapAnon os s a w = (s1, q)"
    and r: "(s', Some start) = (case q of Some start \<Rightarrow> (s1\<lparr>addressScanDir := \<not> addressScanDir s1\<rparr>, Some start)
                       | None \<Rightarrow> createHeapScan os s1 w is)"
    using Cons.prems by (auto simp: Let_def split: prod.splits)
  show ?case
  proof (cases q)
    case None
    then show ?thesis using r Cons.IH [of s1] by simp
  next
    case (Some x)
    then show ?thesis using r q by (auto simp: GC_mmapAnon_def Let_def split: option.splits)
  qed
qed simp

text \<open>The biased mean of two page-aligned sizes stays between them.\<close>

lemma nextHeapSize_between:
  assumes "page_ok s" "isAligned low (pageSize (sysvals s))" "isAligned high (pageSize (sysvals s))"
    and "low \<le> high" "high < 4611686018427387904" "0 < factor" "factor dvd pageSize (sysvals s)"
  shows "low \<le> nextHeapSize s factor low high" "nextHeapSize s factor low high \<le> high"
    and "isAligned (nextHeapSize s factor low high) (pageSize (sysvals s))"
proof -
  let ?P = "pageSize (sysvals s)"
  note page = page_okD [OF assms(1)]
  obtain l where l: "low = factor * l"
    using assms(2,7) unfolding isAligned_iff_dvd by (meson dvdE dvd_trans)
  obtain h where h: "high = factor * h"
    using assms(3,7) unfolding isAligned_iff_dvd by (meson dvdE dvd_trans)
  define m where "m = (factor - 1) * (high div factor) + low div factor"
  have m: "m = (factor - 1) * h + l" using assms(6) by (simp add: m_def l h)
  have lh: "l \<le> h" using assms(4,6) by (simp add: l h)
  have "low \<le> m"
  proof -
    have "factor * l = (factor - 1) * l + l" using assms(6) by (simp add: diff_mult_distrib)
    also have "\<dots> \<le> (factor - 1) * h + l" using lh by simp
    finally show ?thesis by (simp add: m l)
  qed
  moreover have mh: "m \<le> high"
  proof -
    have "(factor - 1) * h + l \<le> (factor - 1) * h + h" using lh by simp
    also have "\<dots> = factor * h" using assms(6) by (simp add: diff_mult_distrib)
    finally show ?thesis by (simp add: m h)
  qed
  moreover have eq: "nextHeapSize s factor low high = align m ?P"
    using mh assms(5) by (simp add: nextHeapSize_def m_def)
  moreover have b: "m + (?P - 1) < 18446744073709551616" using mh assms(5) page(3) by linarith
  ultimately show "low \<le> nextHeapSize s factor low high" "nextHeapSize s factor low high \<le> high"
    "isAligned (nextHeapSize s factor low high) ?P"
    using align_ge [OF page(1) b] align_least [OF page(1) b assms(3)] align_aligned [OF page(1) b] by auto
qed

text \<open>The factor of the search is a power of two that divides the page size.\<close>

definition factor_ok :: "GC_state \<Rightarrow> nat \<Rightarrow> bool" where
  "factor_ok s f \<longleftrightarrow> (\<exists>k. f = 2 ^ k) \<and> f \<le> pageSize (sysvals s)"

lemma factor_ok_dvd: "page_ok s \<Longrightarrow> factor_ok s f \<Longrightarrow> 0 < f \<and> f dvd pageSize (sysvals s)"
  by (auto simp: factor_ok_def page_ok_def is_power2_def intro!: le_imp_power_dvd)

lemma factor_ok_double:
  assumes "page_ok s" "factor_ok s f" "f < pageSize (sysvals s)"
  shows "factor_ok s (wrap (f + f))"
proof -
  obtain k j where k: "f = 2 ^ k" and j: "pageSize (sysvals s) = 2 ^ j"
    using assms(1,2) by (auto simp: factor_ok_def page_ok_def is_power2_def)
  have "Suc k \<le> j" using assms(3) by (simp add: k j)
  then have le: "(2::nat) ^ Suc k \<le> 2 ^ j" by (rule power_increasing) simp
  have "wrap (f + f) = 2 ^ Suc k"
    using le page_okD(3) [OF assms(1)] by (simp add: k j mult_2)
  with le have "wrap (f + f) \<le> 2 ^ j" by (simp only:)
  with \<open>wrap (f + f) = 2 ^ Suc k\<close> show ?thesis unfolding factor_ok_def j by blast
qed

text \<open>A heap of a page-aligned size between two bounds, with room for its maps behind it.\<close>

definition sized_heap :: "GC_state \<Rightarrow> nat \<Rightarrow> nat \<Rightarrow> GC_heap \<Rightarrow> bool" where
  "sized_heap s low high h \<longleftrightarrow> low \<le> heapSize h \<and> heapSize h \<le> high
     \<and> isAligned (heapSize h) (pageSize (sysvals s))
     \<and> withMapsSize h = wrap (heapSize h + sizeofCardMapAndCrossMap s (heapSize h))"

lemma sized_heap_cong: "same_config s s' \<Longrightarrow> sized_heap s' low high h = sized_heap s low high h"
  by (simp add: sized_heap_def sizeofMaps_cong) (simp add: same_config_def)

lemma sized_heap_mono:
  "same_config s s' \<Longrightarrow> sized_heap s' low (new - k) h \<Longrightarrow> new \<le> high \<Longrightarrow> sized_heap s low high h"
  using diff_le_self [of new k] by (auto simp: sized_heap_cong) (auto simp: sized_heap_def)

lemma createHeapLoop_spec:
  assumes "page_ok s" "factor_ok s factor" "isAligned low (pageSize (sysvals s))" "0 < low"
    and "low \<le> high \<Longrightarrow> isAligned high (pageSize (sysvals s)) \<and> low \<le> new \<and> new \<le> high
           \<and> isAligned new (pageSize (sysvals s))"
    and "high < 4611686018427387904" "0 < n \<and> high + 1 < n + low"
  shows "\<exists>s' h' ok. createHeapLoop n os s h low high new factor lc = Inr (s', h', ok)
    \<and> same_config s s'
    \<and> (ok \<longrightarrow> sized_heap s low high h' \<and> oldGenSize h' = oldGenSize h
           \<and> (\<exists>k a. os_mmapAnon os k a (withMapsSize h') = Some (heapStart h')))
    \<and> (\<not> ok \<longrightarrow> h' = h)"
  using assms
proof (induction n arbitrary: s high new factor lc)
  case (Suc n)
  let ?P = "pageSize (sysvals s)"
  show ?case
  proof (cases "low \<le> high")
    case False
    then show ?thesis by (intro exI [of _ s] exI [of _ h] exI [of _ False]) simp
  next
    case True
    obtain s1 r where scan: "createHeapScan os s (wrap (new + sizeofCardMapAndCrossMap s new)) [1..<33] = (s1, r)"
      by (cases "createHeapScan os s (wrap (new + sizeofCardMapAndCrossMap s new)) [1..<33]")
    have cfg: "same_config s s1" by (rule createHeapScan_config [OF scan])
    have sys: "sysvals s1 = sysvals s" using cfg by (simp add: same_config_def)
    have new: "low \<le> new" "new \<le> high" "isAligned new ?P" using Suc.prems(5) True by auto
    show ?thesis
    proof (cases r)
      case (Some start)
      obtain k a where "os_mmapAnon os k a (wrap (new + sizeofCardMapAndCrossMap s new)) = Some start"
        using createHeapScan_Some [OF scan [unfolded Some]] by blast
      moreover have "same_config s (noteHeapSize h s1)" for h
        using cfg noteHeapSize_config same_config_trans by blast
      ultimately show ?thesis using True scan Some new
        by (auto simp: Let_def sized_heap_def simp del: upt.simps upt_rec_numeral)
    next
      case None
      define lc' where "lc' = (if factor < ?P then (lc + 1) mod 4294967296 else lc)"
      define f' where "f' = (if factor < ?P then if lc' mod 64 = 0 then wrap (factor + factor) else factor else factor)"
      note page = page_okD [OF Suc.prems(1)]
      have P1: "?P \<le> low" using Suc.prems(3,4) by (simp add: isAligned_iff_dvd dvd_imp_le)
      have hi: "wrap_sub new ?P = new - ?P" using new P1 Suc.prems(6) by (simp add: wrap_sub_eq)
      have step: "createHeapLoop (Suc n) os s h low high new factor lc =
        createHeapLoop n os s1 h low (new - ?P) (nextHeapSize s factor low (new - ?P)) f' lc'"
        using True scan None hi sys
        by (simp add: Let_def f'_def lc'_def nextHeapSize_cong [OF cfg] del: upt.simps upt_rec_numeral)
      have f': "factor_ok s f'"
        using Suc.prems(1,2) by (auto simp: f'_def intro: factor_ok_double)
      have sub: "isAligned (new - ?P) ?P" using new(3) by (intro isAligned_diff) auto
      have nxt: "low \<le> new - ?P \<Longrightarrow> isAligned (new - ?P) ?P
          \<and> low \<le> nextHeapSize s factor low (new - ?P) \<and> nextHeapSize s factor low (new - ?P) \<le> new - ?P
          \<and> isAligned (nextHeapSize s factor low (new - ?P)) ?P"
        using nextHeapSize_between [OF Suc.prems(1,3) sub] factor_ok_dvd [OF Suc.prems(1,2)] sub
          new(2) Suc.prems(6) by auto
      have c: "pageSize (sysvals s1) = ?P" "page_ok s1" "factor_ok s1 f'"
        using cfg Suc.prems(1) f' by (auto simp: same_config_def page_ok_def factor_ok_def)
      have lt: "0 < n \<and> new - ?P + 1 < n + low" if "low \<le> new - ?P"
        using that new(2) Suc.prems(7) page(2) P1 True by linarith
      show ?thesis
      proof (cases "low \<le> new - ?P")
        case le: True
        have bnd: "new - ?P < 4611686018427387904" using new(2) Suc.prems(6) by linarith
        obtain s' h' ok where r: "createHeapLoop n os s1 h low (new - ?P) (nextHeapSize s factor low (new - ?P)) f' lc'
            = Inr (s', h', ok)" "same_config s1 s'"
          "ok \<Longrightarrow> sized_heap s1 low (new - ?P) h' \<and> oldGenSize h' = oldGenSize h
           \<and> (\<exists>k a. os_mmapAnon os k a (withMapsSize h') = Some (heapStart h'))"
          "\<not> ok \<Longrightarrow> h' = h"
          using Suc.IH [OF c(2,3), of "new - ?P" "nextHeapSize s factor low (new - ?P)" lc', unfolded c(1),
              OF Suc.prems(3,4) nxt bnd lt [OF le]] le by blast
        have "same_config s s'" using cfg r(2) same_config_trans by blast
        then show ?thesis
          using step r(1,4) sized_heap_mono [OF cfg _ new(2)] r(3) by (cases ok) auto
      next
        case lt': False
        have "0 < n" using Suc.prems(7) True by auto
        then obtain n' where n': "n = Suc n'" by (cases n) auto
        then have "createHeapLoop (Suc n) os s h low high new factor lc = Inr (s1, h, False)"
          unfolding step using lt' by simp
        then show ?thesis using cfg by blast
      qed
    qed
  qed
qed simp

lemma withMaps_no_wrap:
  assumes "page_ok s" "n < 4611686018427387904"
  shows "wrap (n + sizeofCardMapAndCrossMap s n) = n + sizeofCardMapAndCrossMap s n"
proof (cases "mutatorMarksCards s")
  case True
  note page = page_okD [OF assms(1)]
  have "n div 256 \<le> n" by simp
  then have "n + sizeofCardMapAndCrossMap s n < 18446744073709551616"
    using sizeofMaps_eq(2,4) [OF True page(1) assms(2) page(3)] page(3) assms(2) by linarith
  then show ?thesis by simp
next
  case False
  then show ?thesis
    using assms(2) by (simp add: sizeofCardMapAndCrossMap_def sizeofCardMap_def sizeofCrossMap_def)
qed

lemma remapHeapLoop_spec:
  assumes "page_ok s" "isAligned low (pageSize (sysvals s))" "0 < low"
    and "low \<le> high \<Longrightarrow> isAligned high (pageSize (sysvals s)) \<and> low \<le> new \<and> new \<le> high
           \<and> isAligned new (pageSize (sysvals s))"
    and "high < 4611686018427387904" "0 < n \<and> high + 1 < n + low"
    and "min0 \<le> low" "high \<le> max0" "keep \<le> min0" "keep \<le> withMapsSize h"
    and "result \<Longrightarrow> sized_heap s min0 max0 h"
  shows "\<exists>s' h' ok. remapHeapLoop n os s h low high new result = Inr (s', h', ok)
    \<and> same_config s s' \<and> (result \<longrightarrow> ok) \<and> (ok \<longrightarrow> sized_heap s min0 max0 h') \<and> (\<not> ok \<longrightarrow> h' = h)
    \<and> oldGenSize h' = oldGenSize h
    \<and> (\<forall>i<keep. mem s' (heapStart h' + i) = mem s (heapStart h + i))"
  using assms
proof (induction n arbitrary: s h low high new result)
  case (Suc n)
  let ?P = "pageSize (sysvals s)" and ?w = "wrap (new + sizeofCardMapAndCrossMap s new)"
  note page = page_okD [OF Suc.prems(1)]
  show ?case
  proof (cases "low \<le> high")
    case False
    then show ?thesis using Suc.prems(11) by simp
  next
    case True
    obtain s1 r where mr: "GC_mremap os s (heapStart h) (withMapsSize h) ?w = (s1, r)"
      by (cases "GC_mremap os s (heapStart h) (withMapsSize h) ?w")
    have cfg: "same_config s s1" using mremap_config [of s os "heapStart h" "withMapsSize h" ?w] mr by simp
    have new: "low \<le> new" "new \<le> high" "isAligned new ?P" and hi: "isAligned high ?P"
      using Suc.prems(4) True by auto
    have bnd: "new < 4611686018427387904" using new(2) Suc.prems(5) by linarith
    have w: "?w = new + sizeofCardMapAndCrossMap s new" by (rule withMaps_no_wrap [OF Suc.prems(1) bnd])
    have fac: "0 < (16::nat)" "16 dvd ?P"
    proof -
      obtain k where k: "?P = 2 ^ k" using page(1) by (auto simp: is_power2_def)
      have "(2::nat) ^ 8 \<le> 2 ^ k" using page(2) by (simp add: k)
      then have "8 \<le> k" by (rule power_le_imp_le_exp [rotated]) simp
      then have "(2::nat) ^ 4 dvd 2 ^ k" by (intro le_imp_power_dvd) simp
      then show "0 < (16::nat)" "16 dvd ?P" by (simp_all add: k)
    qed
    show ?thesis
    proof (cases r)
      case (Some start)
      define h1 where "h1 = h\<lparr>heapStart := start, heapSize := new, withMapsSize := ?w\<rparr>"
      define s2 where "s2 = noteHeapSize h1 s1"
      have cfg2: "same_config s s2" unfolding s2_def using cfg noteHeapSize_config same_config_trans by blast
      then have sys: "sysvals s2 = sysvals s" "sysvals s1 = sysvals s" and pg: "page_ok s2"
        using cfg Suc.prems(1) by (auto simp: same_config_def page_ok_def)
      have lw: "wrap (new + ?P) = new + ?P" using bnd page(3) by simp
      have step: "remapHeapLoop (Suc n) os s h low high new result =
          remapHeapLoop n os s2 h1 (new + ?P) high (nextHeapSize s 16 (new + ?P) high) True"
        using True mr Some lw sys nextHeapSize_cong [OF cfg2]
        by (simp add: Let_def h1_def s2_def)
      have low': "isAligned (new + ?P) ?P" using new(3) by (intro isAligned_add) auto
      have nxt: "new + ?P \<le> high \<Longrightarrow> isAligned high ?P \<and> new + ?P \<le> nextHeapSize s 16 (new + ?P) high
          \<and> nextHeapSize s 16 (new + ?P) high \<le> high \<and> isAligned (nextHeapSize s 16 (new + ?P) high) ?P"
        using nextHeapSize_between [OF Suc.prems(1) low' hi _ Suc.prems(5) fac] hi by blast
      have sz: "sized_heap s2 min0 max0 h1"
        unfolding sized_heap_cong [OF cfg2] using new Suc.prems(7,8) by (simp add: sized_heap_def h1_def)
      have fuel: "0 < n \<and> high + 1 < n + (new + ?P)"
        using Suc.prems(6) new(1,2) page(2) True by linarith
      have kw: "keep \<le> withMapsSize h1" using Suc.prems(7,9) new(1) w by (simp add: h1_def)
      have pos: "0 < new + ?P" "min0 \<le> new + ?P" using page(4) Suc.prems(7) new(1) by linarith+
      obtain s' h' ok where ih: "remapHeapLoop n os s2 h1 (new + ?P) high (nextHeapSize s 16 (new + ?P) high) True
          = Inr (s', h', ok)" "same_config s2 s'" "ok" "sized_heap s2 min0 max0 h'"
          "oldGenSize h' = oldGenSize h1" "\<forall>i<keep. mem s' (heapStart h' + i) = mem s2 (heapStart h1 + i)"
        using Suc.IH [where result = True, OF pg, unfolded sys, OF low' pos(1) nxt Suc.prems(5) fuel pos(2) Suc.prems(8,9) kw sz]
        by blast
      have "mem s2 (start + i) = mem s (heapStart h + i)" if "i < keep" for i
        using that Suc.prems(7,9,10) new(1) w mr Some
        by (auto simp: s2_def noteHeapSize_def cumul_upd_def GC_mremap_def Let_def copy_block_def
            split: option.splits)
      then have "\<forall>i<keep. mem s' (heapStart h' + i) = mem s (heapStart h + i)"
        using ih(6) by (simp add: h1_def)
      moreover have "same_config s s'" using cfg2 ih(2) same_config_trans by blast
      ultimately show ?thesis
        using step ih(1,3,4,5) sized_heap_cong [OF cfg2] by (auto simp: h1_def)
    next
      case None
      have P1: "?P \<le> low" using Suc.prems(2,3) by (simp add: isAligned_iff_dvd dvd_imp_le)
      have sub: "wrap_sub new ?P = new - ?P" using new P1 bnd by (simp add: wrap_sub_eq)
      have sys: "sysvals s1 = sysvals s" and pg: "page_ok s1"
        using cfg Suc.prems(1) by (auto simp: same_config_def page_ok_def)
      have step: "remapHeapLoop (Suc n) os s h low high new result =
          remapHeapLoop n os s1 h low (new - ?P) (nextHeapSize s 16 low (new - ?P)) result"
        using True mr None sub sys nextHeapSize_cong [OF cfg] by (simp add: Let_def)
      have hi': "isAligned (new - ?P) ?P" using new(3) by (intro isAligned_diff) auto
      have nxt: "low \<le> new - ?P \<Longrightarrow> isAligned (new - ?P) ?P \<and> low \<le> nextHeapSize s 16 low (new - ?P)
          \<and> nextHeapSize s 16 low (new - ?P) \<le> new - ?P \<and> isAligned (nextHeapSize s 16 low (new - ?P)) ?P"
        using nextHeapSize_between [OF Suc.prems(1,2) hi' _ _ fac] hi' bnd by auto
      have fuel: "0 < n \<and> new - ?P + 1 < n + low" using Suc.prems(6) new page(2) P1 by linarith
      have m: "new - ?P < 4611686018427387904" "new - ?P \<le> max0" using bnd new(2) Suc.prems(8) by linarith+
      have res: "result \<Longrightarrow> sized_heap s1 min0 max0 h" using Suc.prems(11) sized_heap_cong [OF cfg] by simp
      have mem1: "mem s1 = mem s" using mr None by (auto simp: GC_mremap_def Let_def split: option.splits)
      obtain s' h' ok where "remapHeapLoop n os s1 h low (new - ?P) (nextHeapSize s 16 low (new - ?P)) result
          = Inr (s', h', ok)" "same_config s1 s'" "result \<longrightarrow> ok" "ok \<longrightarrow> sized_heap s1 min0 max0 h'"
          "\<not> ok \<longrightarrow> h' = h" "oldGenSize h' = oldGenSize h"
          "\<forall>i<keep. mem s' (heapStart h' + i) = mem s1 (heapStart h + i)"
        using Suc.IH [where result = result, OF pg, unfolded sys, OF Suc.prems(2,3) nxt m(1) fuel Suc.prems(7)
            m(2) Suc.prems(9,10) res]
        by blast
      then show ?thesis
        using step sized_heap_cong [OF cfg] same_config_trans [OF cfg] mem1 by auto
    qed
  qed
qed simp

section \<open>Copying to a new heap\<close>

lemma shrinkHeap_start: "keepSize \<noteq> 0 \<Longrightarrow> heapStart (shrinkHeap s h keepSize) = heapStart h"
  by (simp add: shrinkHeap_def Let_def)

lemma shrinkHeap_0_start: "heapStart (shrinkHeap s h 0) = 0"
  by (simp add: shrinkHeap_def releaseHeap_def initHeap_def)

text \<open>
  The loop copies every live byte, the top chunks first, changes nothing outside the new
  block, and always ends. When the live bytes are a multiple of the chunk size the old
  heap is already released before the last, empty copy.
\<close>

lemma growHeapCopy_spec:
  assumes "remaining \<noteq> 0 \<Longrightarrow> heapStart cur = old"
    and "remaining = 0 \<Longrightarrow> heapStart cur = 0 \<or> heapStart cur = old"
    and "from = old + remaining" "to = heapStart new + remaining"
    and "old + live \<le> heapStart new \<or> heapStart new + live \<le> old" "remaining \<le> live"
  shows "\<exists>m cur'. growHeapCopy s cur new from to remaining = Inr (s\<lparr>mem := m\<rparr>, cur')
    \<and> (\<forall>i<remaining. m (heapStart new + i) = mem s (old + i))
    \<and> (\<forall>b. b < heapStart new \<or> heapStart new + remaining \<le> b \<longrightarrow> m b = mem s b)"
  using assms
proof (induction remaining arbitrary: s cur "from" to rule: less_induct)
  case (less remaining)
  show ?case
  proof (cases "remaining < COPY_CHUNK_SIZE")
    case True
    have "GC_memcpy (mem s) (heapStart cur) (heapStart new) remaining
      = Inr (copy_block (mem s) (heapStart cur) (heapStart new) remaining)"
      using less.prems by (auto simp: GC_memcpy_def)
    then show ?thesis
      using True less.prems(1,2)
      by (subst growHeapCopy.simps) (auto simp: copy_block_def)
  next
    case False
    let ?r = "remaining - COPY_CHUNK_SIZE"
    let ?m = "copy_block (mem s) (old + ?r) (heapStart new + ?r) COPY_CHUNK_SIZE"
    have ft: "from - COPY_CHUNK_SIZE = old + ?r" "to - COPY_CHUNK_SIZE = heapStart new + ?r"
      using False less.prems(3,4) by auto
    have cp: "GC_memcpy (mem s) (old + ?r) (heapStart new + ?r) COPY_CHUNK_SIZE = Inr ?m"
      using False less.prems(5,6) by (auto simp: GC_memcpy_def)
    have "?r < remaining" using False by simp
    moreover have "?r \<noteq> 0 \<Longrightarrow> heapStart (shrinkHeap s cur ?r) = old"
      using less.prems(1) False by (simp add: shrinkHeap_start)
    moreover have "?r = 0 \<Longrightarrow> heapStart (shrinkHeap s cur ?r) = 0 \<or> heapStart (shrinkHeap s cur ?r) = old"
      by (simp add: shrinkHeap_0_start)
    ultimately obtain m cur' where ih:
      "growHeapCopy (s\<lparr>mem := ?m\<rparr>) (shrinkHeap s cur ?r) new (old + ?r) (heapStart new + ?r) ?r
        = Inr (s\<lparr>mem := ?m, mem := m\<rparr>, cur')"
      "\<forall>i<?r. m (heapStart new + i) = ?m (old + i)"
      "\<forall>b. b < heapStart new \<or> heapStart new + ?r \<le> b \<longrightarrow> m b = ?m b"
      using less.IH [of ?r "shrinkHeap s cur ?r" "old + ?r" "heapStart new + ?r" "s\<lparr>mem := ?m\<rparr>"]
        less.prems(5,6) by auto
    have run: "growHeapCopy s cur new from to remaining = Inr (s\<lparr>mem := m\<rparr>, cur')"
      using False ih(1) cp ft by (subst growHeapCopy.simps) (simp add: Let_def)
    have "m (heapStart new + i) = mem s (old + i)" if "i < remaining" for i
    proof (cases "i < ?r")
      case True
      then have "m (heapStart new + i) = ?m (old + i)" using ih(2) by blast
      also have "\<dots> = mem s (old + i)" using True less.prems(5,6) by (auto simp: copy_block_def)
      finally show ?thesis .
    next
      case f: False
      then have "m (heapStart new + i) = ?m (heapStart new + i)" using ih(3) by simp
      also have "\<dots> = mem s (old + i)" using f that False by (auto simp: copy_block_def)
      finally show ?thesis .
    qed
    moreover have "m b = mem s b" if "b < heapStart new \<or> heapStart new + remaining \<le> b" for b
    proof -
      have "b < heapStart new \<or> heapStart new + ?r \<le> b" using that by auto
      then have "m b = ?m b" using ih(3) by blast
      then show ?thesis using that False by (auto simp: copy_block_def)
    qed
    ultimately show ?thesis using run by blast
  qed
qed

section \<open>Translation changes the memory only\<close>

definition only_mem :: "GC_state \<Rightarrow> GC_state \<Rightarrow> bool" where
  "only_mem s t \<longleftrightarrow> (\<exists>m. t = s\<lparr>mem := m\<rparr>)"

lemma only_mem_refl [simp]: "only_mem s s"
  unfolding only_mem_def by (rule exI [of _ "mem s"]) simp

lemma only_mem_trans: "only_mem s t \<Longrightarrow> only_mem t u \<Longrightarrow> only_mem s u"
  by (auto simp: only_mem_def)

lemma only_mem_write64 [simp]: "only_mem s (write64 a v s)"
  by (auto simp: only_mem_def write64_def)

lemma only_mem_config: "only_mem s t \<Longrightarrow> same_config s t"
  by (auto simp: only_mem_def same_config_def same_tables_def)

interpretation translate: foreach_invariant translateFun "\<lambda>st. only_mem s (fst st) \<and> snd st = tr" for s tr
proof unfold_locales
  fix st st' opp
  assume "only_mem s (fst st) \<and> snd st = tr" "translateFun st opp = Inr st'"
  then show "only_mem s (fst st') \<and> snd st' = tr"
    using only_mem_trans [of s "fst st"] only_mem_write64
    by (auto simp: translateFun_def Let_def split: prod.splits if_splits)
qed

lemma translateHeap_only_mem:
  assumes "translateHeap s from to n = Inr s'" shows "only_mem s s'"
proof (cases "from = to")
  case False
  let ?tr = "\<lparr>tr_from = from, tr_to = to, tr_size = n\<rparr>"
  obtain st t q where st: "foreachGlobalObjptr (s, ?tr) translateFun = Inr st"
    and t: "foreachObjptrInRange (n + 1) st (alignFrontier (fst st) to) (\<lambda>_. to + n) translateFun False
      = Inr ((s', t), q)"
    using assms False by (auto simp: translateHeap_def Let_def)
  have "only_mem s (fst st) \<and> snd st = ?tr" using translate.global_inv [OF st, of s ?tr] by simp
  then show ?thesis using translate.range_inv [OF t, of s ?tr] by simp
qed (use assms in \<open>simp add: translateHeap_def\<close>)

lemma growHeapDone_size: "growHeapDone orig s = Inr s' \<Longrightarrow> heap s' = heap s"
  by (auto simp: growHeapDone_def only_mem_def split: if_splits dest!: translateHeap_only_mem)

section \<open>The desired size is enough\<close>

lemma rnd_bounds:
  assumes "0 \<le> x" shows "x - x / 2 ^ p \<le> rnd p x" "rnd p x \<le> x + x / 2 ^ p"
proof -
  have "\<bar>rnd p x - x\<bar> \<le> x / 2 ^ p"
    using assms rnd_error [of x p] by (cases "x = 0") auto
  then show "x - x / 2 ^ p \<le> rnd p x" "rnd p x \<le> x + x / 2 ^ p" by linarith+
qed

text \<open>
  Ratios the sizing can rely on: not so close to 1 that leaving the heap alone when its
  size is within 10 percent of the wish can undo the margin.
\<close>

definition ratios_ok :: "GC_ratios \<Rightarrow> bool" where
  "ratios_ok rs \<longleftrightarrow> 6 / 5 \<le> live_ratio rs \<and> 6 / 5 \<le> copy_ratio rs
     \<and> 1 \<le> grow_ratio rs \<and> grow_ratio rs \<le> 1024 \<and> live_ratio rs \<le> 1024 \<and> copy_ratio rs \<le> 1024
     \<and> 101 / 100 \<le> markCompact rs \<and> markCompact rs \<le> 1024"

lemma ratio_ge_ram:
  assumes "ratio_ge r l x" "0 < l" "r < 9007199254740992" "l < 9007199254740992" "0 \<le> x"
  shows "x * of_nat l * (1 - 1 / 2 ^ 50) \<le> of_nat r"
proof -
  let ?q = "of_nat r / of_nat l :: rat"
  have "x \<le> dbl ?q"
    using assms by (simp add: ratio_ge_def dbl_of_size_exact)
  also have "\<dots> \<le> ?q + ?q / 2 ^ 53" by (rule rnd_bounds(2)) simp
  finally have "x * of_nat l \<le> (?q + ?q / 2 ^ 53) * of_nat l"
    by (intro mult_right_mono) auto
  also have "\<dots> = of_nat r * (1 + 1 / 2 ^ 53)" using assms(2) by (simp add: field_simps)
  finally have le: "x * of_nat l \<le> of_nat r * (1 + 1 / 2 ^ 53)" .
  have "x * of_nat l * (1 - 1 / 2 ^ 50) \<le> of_nat r * (1 + 1 / 2 ^ 53) * (1 - 1 / 2 ^ 50)"
    by (rule mult_right_mono [OF le]) simp
  also have "\<dots> \<le> of_nat r" by (simp add: field_simps)
  finally show ?thesis .
qed

text \<open>A size the current one is close to: the current one is not much below it.\<close>

lemma keep_current_ge:
  assumes "dbl_of_size res \<le> dbl (dbl (11 / 10) * dbl_of_size cur)"
    and "res < 9007199254740992" "cur < 9007199254740992"
  shows "of_nat res * (9 / 10) \<le> (of_nat cur :: rat)"
proof -
  have c: "0 \<le> dbl (11 / 10)" "dbl (11 / 10) \<le> 11 / 10 + 11 / 10 / 2 ^ 53"
    using rnd_bounds(2) [of "11 / 10" 53] by (simp_all add: rnd_nonneg)
  let ?y = "dbl (11 / 10) * of_nat cur :: rat"
  have "of_nat res \<le> dbl ?y"
    using assms by (simp add: dbl_of_size_exact)
  also have "\<dots> \<le> ?y + ?y / 2 ^ 53" using c by (intro rnd_bounds(2)) simp
  also have "\<dots> \<le> (11 / 10 + 11 / 10 / 2 ^ 53) * of_nat cur * (1 + 1 / 2 ^ 53)"
  proof -
    have "?y * (1 + 1 / 2 ^ 53) \<le> (11 / 10 + 11 / 10 / 2 ^ 53) * of_nat cur * (1 + 1 / 2 ^ 53)"
      using c by (intro mult_right_mono) auto
    then show ?thesis by (simp add: field_simps)
  qed
  finally show ?thesis by (simp add: field_simps)
qed

lemma size_of_dbl_gt: "x - 1 \<le> of_nat (size_of_dbl x)"
  unfolding size_of_dbl_def by (cases "0 \<le> \<lfloor>x\<rfloor>") (simp_all, linarith+)

lemma float_product_ge:
  assumes "0 \<le> c" shows "c * of_nat l * (1 - 1 / 2 ^ 22) \<le> flt (flt_of_size l * c)"
proof -
  let ?x = "of_nat l :: rat"
  have a: "?x * (1 - 1 / 2 ^ 24) \<le> flt ?x" using rnd_bounds(1) [of ?x 24] by (simp add: field_simps)
  have n: "0 \<le> flt ?x" by (simp add: rnd_nonneg)
  have "c * ?x * (1 - 1 / 2 ^ 22) \<le> c * (?x * (1 - 1 / 2 ^ 24)) * (1 - 1 / 2 ^ 24)"
    using assms by (simp add: field_simps mult_left_mono mult_right_mono)
  also have "\<dots> \<le> c * flt ?x * (1 - 1 / 2 ^ 24)"
    using a assms by (intro mult_right_mono mult_left_mono) auto
  also have "\<dots> \<le> flt (flt ?x * c)"
    using rnd_bounds(1) [of "flt ?x * c" 24] n assms by (simp add: field_simps)
  finally show ?thesis by (simp add: flt_of_size_def)
qed

lemma float_product_le:
  assumes "0 \<le> c" shows "flt (c * flt_of_size l) \<le> c * of_nat l * (1 + 1 / 2 ^ 22)"
proof -
  let ?x = "of_nat l :: rat"
  have a: "flt ?x \<le> ?x * (1 + 1 / 2 ^ 24)" using rnd_bounds(2) [of ?x 24] by (simp add: field_simps)
  have n: "0 \<le> flt ?x" by (simp add: rnd_nonneg)
  have "flt (c * flt ?x) \<le> c * flt ?x * (1 + 1 / 2 ^ 24)"
    using rnd_bounds(2) [of "c * flt ?x" 24] n assms by (simp add: field_simps)
  also have "\<dots> \<le> c * (?x * (1 + 1 / 2 ^ 24)) * (1 + 1 / 2 ^ 24)"
    using a assms by (intro mult_right_mono mult_left_mono) auto
  also have "\<dots> \<le> c * ?x * (1 + 1 / 2 ^ 22)"
    using assms by (simp add: field_simps mult_left_mono mult_right_mono)
  finally show ?thesis by (simp add: flt_of_size_def)
qed

lemma align_bounds_page:
  assumes "page_ok s" "n < 9223372036854775808"
  shows "n \<le> align n (pageSize (sysvals s))" "align n (pageSize (sysvals s)) < n + pageSize (sysvals s)"
    "isAligned (align n (pageSize (sysvals s))) (pageSize (sysvals s))"
proof -
  note page = page_okD [OF assms(1)]
  have b: "n + (pageSize (sysvals s) - 1) < 18446744073709551616" using assms(2) page(3) by linarith
  show "n \<le> align n (pageSize (sysvals s))" "align n (pageSize (sysvals s)) < n + pageSize (sysvals s)"
    "isAligned (align n (pageSize (sysvals s))) (pageSize (sysvals s))"
    using align_ge [OF page(1) b] align_less [OF page(1) b] align_aligned [OF page(1) b] by auto
qed

lemma of_nat_leI: "(of_nat m :: rat) \<le> x \<Longrightarrow> x \<le> of_nat n \<Longrightarrow> m \<le> n"
  using order.trans of_nat_le_iff by blast

text \<open>Cheney copying with the wished live ratio.\<close>

lemma desired_live:
  assumes r: "ratios_ok rs" and l: "256 \<le> l" "l < 1099511627776"
    and res: "res = size_of_dbl (flt (flt_of_size l * live_ratio rs))"
  shows "of_nat l * (118 / 100) \<le> (of_nat res :: rat)" "res < 2251799813685248"
proof -
  have L: "6 / 5 \<le> live_ratio rs" "live_ratio rs \<le> 1024" using r by (auto simp: ratios_ok_def)
  have x: "(256 :: rat) \<le> of_nat l" using l(1) by (metis of_nat_le_iff of_nat_numeral)
  have "6 / 5 * of_nat l * (1 - 1 / 2 ^ 22) \<le> live_ratio rs * of_nat l * (1 - 1 / 2 ^ 22)"
    using L by (intro mult_right_mono) auto
  also have "\<dots> \<le> flt (flt_of_size l * live_ratio rs)" using L by (intro float_product_ge) simp
  finally have "6 / 5 * of_nat l * (1 - 1 / 2 ^ 22) - 1 \<le> (of_nat res :: rat)"
    using size_of_dbl_gt [of "flt (flt_of_size l * live_ratio rs)"] by (simp add: res)
  with x show "of_nat l * (118 / 100) \<le> (of_nat res :: rat)" by simp
  have "flt (flt_of_size l * live_ratio rs) \<le> live_ratio rs * of_nat l * (1 + 1 / 2 ^ 22)"
    using float_product_le [of "live_ratio rs" l] L by (simp add: mult.commute)
  also have "\<dots> \<le> 1024 * of_nat l * (1 + 1 / 2 ^ 22)" using L by (intro mult_right_mono) auto
  also have "\<dots> \<le> of_nat (1025 * l)" by simp
  finally have "res \<le> 1025 * l" unfolding res by (rule size_of_dbl_le)
  then show "res < 2251799813685248" using l(2) by linarith
qed

text \<open>Cheney copying fits in memory next to the growth.\<close>

lemma desired_copy:
  assumes r: "ratios_ok rs" and l: "256 \<le> l" "l < 1099511627776" and rm: "rm < 2251799813685248"
    and ge: "ratio_ge rm l (flt (copy_ratio rs + grow_ratio rs))"
    and res: "res = wrap_sub rm (size_of_dbl (flt (grow_ratio rs * flt_of_size l)))"
  shows "of_nat l * (118 / 100) \<le> (of_nat res :: rat)" "res \<le> rm"
proof -
  let ?x = "of_nat l :: rat" and ?C = "copy_ratio rs" and ?G = "grow_ratio rs"
  have C: "6 / 5 \<le> ?C" "?C \<le> 1024" "1 \<le> ?G" "?G \<le> 1024" using r by (auto simp: ratios_ok_def)
  have x: "256 \<le> ?x" using l(1) by (metis of_nat_le_iff of_nat_numeral)
  define k where "k = size_of_dbl (flt (?G * flt_of_size l))"
  have "flt (?G * flt_of_size l) \<le> ?G * ?x * (1 + 1 / 2 ^ 22)"
    using C by (intro float_product_le) simp
  moreover have "of_nat k \<le> flt (?G * flt_of_size l)"
    unfolding k_def size_of_dbl_def using C by (simp add: rnd_nonneg flt_of_size_def)
  ultimately have k: "of_nat k \<le> ?G * ?x * (1 + 1 / 2 ^ 22)" by linarith
  have "(?C + ?G) * (1 - 1 / 2 ^ 24) \<le> flt (?C + ?G)"
    using rnd_bounds(1) [of "?C + ?G" 24] C by (simp add: field_simps)
  then have "(?C + ?G) * (1 - 1 / 2 ^ 24) * ?x * (1 - 1 / 2 ^ 50) \<le> flt (?C + ?G) * ?x * (1 - 1 / 2 ^ 50)"
    by (intro mult_right_mono) auto
  also have "\<dots> \<le> of_nat rm"
    using l rm C by (intro ratio_ge_ram [OF ge]) (auto intro: rnd_nonneg)
  finally have rmge: "(?C + ?G) * (1 - 1 / 2 ^ 24) * ?x * (1 - 1 / 2 ^ 50) \<le> of_nat rm" .
  have "(?C + ?G) * ?x * (1 - 1 / 2 ^ 23) \<le> (?C + ?G) * (1 - 1 / 2 ^ 24) * ?x * (1 - 1 / 2 ^ 50)"
  proof -
    have "0 \<le> (?C + ?G) * ?x" using C x by simp
    then show ?thesis by (simp add: algebra_simps)
  qed
  with rmge have rm1: "(?C + ?G) * ?x * (1 - 1 / 2 ^ 23) \<le> of_nat rm" by linarith
  have Gx: "?G * ?x \<le> 1024 * ?x" and Cx: "6 / 5 * ?x \<le> ?C * ?x" "?C * ?x \<le> 1024 * ?x"
    using C x by (intro mult_right_mono; simp)+
  have "of_nat k + ?x * (118 / 100) \<le> of_nat rm"
  proof -
    define g where "g = ?G * ?x"
    define c where "c = ?C * ?x"
    have "of_nat k \<le> g * (1 + 1 / 4194304)" using k by (simp add: g_def)
    then have "4194304 * of_nat k \<le> 4194305 * g" by simp
    moreover have "(c + g) * (1 - 1 / 8388608) \<le> of_nat rm"
      using rm1 by (simp add: g_def c_def distrib_right)
    then have "8388607 * c + 8388607 * g \<le> 8388608 * of_nat rm" by simp
    moreover have "g \<le> 1024 * ?x" "6 / 5 * ?x \<le> c" "c \<le> 1024 * ?x"
      using Gx Cx by (simp_all only: g_def c_def)
    ultimately show ?thesis using x by linarith
  qed
  moreover from this x have "k \<le> rm"
    by (intro of_nat_leI [of k "of_nat rm"]) auto
  moreover from this have "res = rm - k" unfolding res k_def [symmetric] using rm by (intro wrap_sub_eq) auto
  ultimately show "?x * (118 / 100) \<le> of_nat res" "res \<le> rm" by (auto simp: of_nat_diff)
qed

text \<open>Mark-compact: memory itself, or the required ratio.\<close>

lemma desired_required:
  assumes r: "ratios_ok rs" and l: "256 \<le> l" "l < 1099511627776"
  shows "of_nat l + 1 \<le> dbl (dbl_of_size l * markCompact rs)"
    and "dbl (dbl_of_size l * markCompact rs) \<le> of_nat (1025 * l)"
proof -
  let ?x = "of_nat l :: rat" and ?M = "markCompact rs"
  have M: "101 / 100 \<le> ?M" "?M \<le> 1024" using r by (auto simp: ratios_ok_def)
  have x: "256 \<le> ?x" using l(1) by (metis of_nat_le_iff of_nat_numeral)
  have d: "dbl_of_size l = ?x" using l(2) by (intro dbl_of_size_exact) simp
  have xm: "101 / 100 * ?x \<le> ?x * ?M" "?x * ?M \<le> 1024 * ?x" using M x by auto
  have "?x * ?M * (1 - 1 / 2 ^ 53) \<le> dbl (?x * ?M)"
    using rnd_bounds(1) [of "?x * ?M" 53] M x by (simp add: field_simps)
  moreover have "101 / 100 * ?x * (1 - 1 / 2 ^ 53) \<le> ?x * ?M * (1 - 1 / 2 ^ 53)"
    using xm(1) by (intro mult_right_mono) auto
  moreover have "?x + 1 \<le> 101 / 100 * ?x * (1 - 1 / 2 ^ 53)" using x by simp
  ultimately show "?x + 1 \<le> dbl (dbl_of_size l * ?M)" unfolding d by linarith
  have "dbl (?x * ?M) \<le> ?x * ?M * (1 + 1 / 2 ^ 53)"
    using rnd_bounds(2) [of "?x * ?M" 53] M x by (simp add: field_simps)
  also have "\<dots> \<le> 1024 * ?x * (1 + 1 / 2 ^ 53)" using xm(2) by (intro mult_right_mono) auto
  also have "\<dots> \<le> of_nat (1025 * l)" by simp
  finally show "dbl (dbl_of_size l * ?M) \<le> of_nat (1025 * l)" unfolding d .
qed

text \<open>
  The bounds under which the sizing is exact enough: memory and sizes a machine has, and
  limits of the command line in that range.
\<close>

definition sizes_ok :: "GC_state \<Rightarrow> nat \<Rightarrow> nat \<Rightarrow> bool" where
  "sizes_ok s l cur \<longleftrightarrow> page_ok s \<and> ratios_ok (ratios (controls s)) \<and> l < 1099511627776
     \<and> isAligned l (pageSize (sysvals s)) \<and> 0 < l
     \<and> ram (sysvals s) < 2251799813685248 \<and> cur < 2251799813685248
     \<and> fixedHeap (controls s) < 2251799813685248 \<and> maxHeap (controls s) < 2251799813685248"

lemma desiredWithMaps_bounds:
  assumes ok: "sizes_ok s l cur" and sl: "sl = alignDown SIZE_MAX (pageSize (sysvals s))"
  shows "l \<le> desiredWithMaps s l cur sl" "desiredWithMaps s l cur sl < 4503599627370496"
proof -
  let ?rs = "ratios (controls s)" and ?rm = "ram (sysvals s)" and ?P = "pageSize (sysvals s)"
  have P: "page_ok s" and rs: "ratios_ok ?rs" and l: "l < 1099511627776" "isAligned l ?P" "0 < l"
    and b: "?rm < 2251799813685248" "cur < 2251799813685248"
    using ok by (auto simp: sizes_ok_def)
  note page = page_okD [OF P]
  have "?P \<le> l" using l by (simp add: isAligned_iff_dvd dvd_imp_le)
  with page(2) have l256: "256 \<le> l" by simp
  have keep: "l \<le> cur" if a: "dbl_of_size res \<le> dbl (dbl (11 / 10) * dbl_of_size cur)"
    and c: "of_nat l * (118 / 100) \<le> (of_nat res :: rat)" "res < 9007199254740992" for res
  proof -
    have "of_nat res * (9 / 10) \<le> (of_nat cur :: rat)" by (rule keep_current_ge [OF a c(2)]) (use b in simp)
    with c(1) have "(of_nat l :: rat) \<le> of_nat cur" by linarith
    then show ?thesis by simp
  qed
  have grown: "l \<le> align res ?P" "align res ?P < 4503599627370496"
    if "of_nat l * (118 / 100) \<le> (of_nat res :: rat)" "res < 2251799813685248" for res
  proof -
    have "(of_nat l :: rat) \<le> of_nat res" using that(1) by linarith
    then have "l \<le> res" by simp
    then show "l \<le> align res ?P" "align res ?P < 4503599627370496"
      using align_bounds_page [OF P, of res] that(2) page(3) by linarith+
  qed
  define r1 where "r1 = size_of_dbl (flt (flt_of_size l * live_ratio ?rs))"
  define r3 where "r3 = wrap_sub ?rm (size_of_dbl (flt (grow_ratio ?rs * flt_of_size l)))"
  define r5 where "r5 = dbl (dbl_of_size l * markCompact ?rs)"
  note d1 = desired_live [OF rs l256 l(1) r1_def]
  note d5 = desired_required [OF rs l256 l(1), folded r5_def]
  consider (c1) "ratio_ge ?rm l (flt (live_ratio ?rs + grow_ratio ?rs))"
    | (c2) "\<not> ratio_ge ?rm l (flt (live_ratio ?rs + grow_ratio ?rs))"
        "grow_ratio ?rs \<ge> copy_ratio ?rs" "ratio_ge ?rm l (dbl (2 * copy_ratio ?rs))"
    | (c3) "\<not> ratio_ge ?rm l (flt (live_ratio ?rs + grow_ratio ?rs))"
        "\<not> (grow_ratio ?rs \<ge> copy_ratio ?rs \<and> ratio_ge ?rm l (dbl (2 * copy_ratio ?rs)))"
        "ratio_ge ?rm l (flt (copy_ratio ?rs + grow_ratio ?rs))"
    | (c4) "\<not> ratio_ge ?rm l (flt (live_ratio ?rs + grow_ratio ?rs))"
        "\<not> (grow_ratio ?rs \<ge> copy_ratio ?rs \<and> ratio_ge ?rm l (dbl (2 * copy_ratio ?rs)))"
        "\<not> ratio_ge ?rm l (flt (copy_ratio ?rs + grow_ratio ?rs))" "ratio_ge ?rm l (markCompact ?rs)"
    | (c5) "\<not> ratio_ge ?rm l (flt (live_ratio ?rs + grow_ratio ?rs))"
        "\<not> (grow_ratio ?rs \<ge> copy_ratio ?rs \<and> ratio_ge ?rm l (dbl (2 * copy_ratio ?rs)))"
        "\<not> ratio_ge ?rm l (flt (copy_ratio ?rs + grow_ratio ?rs))" "\<not> ratio_ge ?rm l (markCompact ?rs)"
    by blast
  then have "l \<le> desiredWithMaps s l cur sl \<and> desiredWithMaps s l cur sl < 4503599627370496"
  proof cases
    case c1
    then have "desiredWithMaps s l cur sl = (if dbl (1 / 2 * dbl_of_size cur) \<le> dbl_of_size r1
        \<and> dbl_of_size r1 \<le> dbl (dbl (11 / 10) * dbl_of_size cur) then cur else align r1 ?P)"
      by (simp add: desiredWithMaps_def Let_def r1_def)
    then show ?thesis using keep [of r1] grown [of r1] d1 b by auto
  next
    case c2
    then have e: "desiredWithMaps s l cur sl = alignDown (?rm div 2) ?P"
      by (simp add: desiredWithMaps_def Let_def)
    have C: "6 / 5 \<le> copy_ratio ?rs" using rs by (auto simp: ratios_ok_def)
    then have "12 / 5 * (1 - 1 / 2 ^ 53) \<le> dbl (2 * copy_ratio ?rs)"
      using rnd_bounds(1) [of "2 * copy_ratio ?rs" 53] by (simp add: field_simps)
    then have two: "2 / (1 - 1 / 2 ^ 50) \<le> dbl (2 * copy_ratio ?rs)" by simp
    have "2 * of_nat l \<le> dbl (2 * copy_ratio ?rs) * of_nat l * (1 - 1 / 2 ^ 50)"
    proof -
      have "2 / (1 - 1 / 2 ^ 50) * of_nat l * (1 - 1 / 2 ^ 50)
          \<le> dbl (2 * copy_ratio ?rs) * of_nat l * (1 - 1 / 2 ^ 50)"
        using two by (intro mult_right_mono) auto
      then show ?thesis by simp
    qed
    also have "\<dots> \<le> of_nat ?rm"
      using c2 l b C by (intro ratio_ge_ram) (auto intro: rnd_nonneg)
    finally have "(of_nat (2 * l) :: rat) \<le> of_nat ?rm" by simp
    then have "2 * l \<le> ?rm" by (simp only: of_nat_le_iff)
    then have lr: "l \<le> ?rm div 2" by simp
    have "?rm div 2 < 18446744073709551616" using b by simp
    note ad = alignDown_le [OF page(1) this] alignDown_gt [OF page(1) this] alignDown_aligned [OF page(1) this]
    have "l \<le> alignDown (?rm div 2) ?P"
      using isAligned_less_add [OF ad(3) l(2)] ad(2) lr by (meson not_le order.strict_trans1 order.strict_trans2)
    then show ?thesis using e ad(1) b by simp
  next
    case c3
    note d3 = desired_copy [OF rs l256 l(1) b(1) c3(3) r3_def]
    have "desiredWithMaps s l cur sl = (if dbl_of_size cur \<le> dbl_of_size r3
        \<and> dbl_of_size r3 \<le> dbl (dbl (11 / 10) * dbl_of_size cur) then cur else align r3 ?P)"
      unfolding desiredWithMaps_def Let_def r3_def [symmetric] if_not_P [OF c3(1)] if_not_P [OF c3(2)]
        if_P [OF c3(3)] ..
    then show ?thesis using keep [of r3] grown [of r3] d3 b by auto
  next
    case c4
    have e: "desiredWithMaps s l cur sl = ?rm"
      unfolding desiredWithMaps_def Let_def if_not_P [OF c4(1)] if_not_P [OF c4(2)]
        if_not_P [OF c4(3)] if_P [OF c4(4)] ..
    have M: "101 / 100 \<le> markCompact ?rs" using rs by (auto simp: ratios_ok_def)
    have "of_nat l \<le> 101 / 100 * of_nat l * (1 - 1 / 2 ^ 50 :: rat)" by simp
    also have "\<dots> \<le> markCompact ?rs * of_nat l * (1 - 1 / 2 ^ 50)"
      using M by (intro mult_right_mono) auto
    also have "\<dots> \<le> of_nat ?rm" using c4 l b M by (intro ratio_ge_ram) auto
    finally show ?thesis using e b by simp
  next
    case c5
    have "9223372036854775808 \<le> sl"
    proof -
      have "SIZE_MAX < sl + ?P" unfolding sl by (rule alignDown_gt [OF page(1)]) simp
      then show ?thesis using page(3) by linarith
    qed
    then have "of_nat 9223372036854775808 \<le> (of_nat sl :: rat)" by (simp only: of_nat_le_iff)
    then have "dbl 9223372036854775808 \<le> dbl_of_size sl"
      unfolding dbl_of_size_def by (intro rnd_mono) simp_all
    moreover have "dbl 9223372036854775808 = 9223372036854775808"
      by (rule rnd_exact [of _ 1 63]) simp_all
    moreover have "r5 \<le> of_nat (1025 * l)" by (rule d5(2))
    moreover have "(of_nat (1025 * l) :: rat) \<le> of_nat 1126999418470400"
      using l(1) by (simp only: of_nat_le_iff)
    ultimately have "\<not> r5 > dbl_of_size sl" by simp
    then have e: "desiredWithMaps s l cur sl = align (size_of_dbl r5) ?P"
      unfolding desiredWithMaps_def Let_def r5_def [symmetric] if_not_P [OF c5(1)] if_not_P [OF c5(2)]
        if_not_P [OF c5(3)] if_not_P [OF c5(4)] by simp
    have "l \<le> size_of_dbl r5" using d5(1) by (intro size_of_dbl_ge) linarith
    moreover have "size_of_dbl r5 \<le> 1025 * l" by (rule size_of_dbl_le [OF d5(2)])
    ultimately show ?thesis
      using align_bounds_page [OF P, of "size_of_dbl r5"] e l(1) page(3) by linarith
  qed
  then show "l \<le> desiredWithMaps s l cur sl" "desiredWithMaps s l cur sl < 4503599627370496" by auto
qed

section \<open>The desired size\<close>

text \<open>
  \<open>invertSizeofCardMapAndCrossMap\<close> returns on every size, the one of the whole address
  space included.
\<close>

lemma sizeofMaps_ge:
  assumes "mutatorMarksCards s" "page_ok s" "n < 18446744073709551616"
  shows "2 * (n div 256) \<le> sizeofCardMapAndCrossMap s n"
proof -
  let ?P = "pageSize (sysvals s)"
  note page = page_okD [OF assms(2)]
  have b: "n div 256 + (?P - 1) < 18446744073709551616"
    using assms(3) page(3) by linarith
  note al = align_ge [OF page(1) b] align_less [OF page(1) b]
  have "2 * align (n div 256) ?P < 18446744073709551616"
    using al(2) assms(3) page(3) by linarith
  then show ?thesis
    using al(1) assms(1) by (simp add: sizeofCardMapAndCrossMap_def sizeofCardMap_def
        sizeofCrossMap_def sizeToCardMapIndex_eq sizeToCrossMapIndex_eq)
qed

lemma invertSizeofLoop_returns:
  assumes "mutatorMarksCards s" "page_ok s" "hwm < 18446744073709551616" "0 < n \<and> hwm + 1 < n + nxt"
  shows "\<exists>r. invertSizeofLoop n s hwm h nxt = Inr r"
  using assms(4)
proof (induction n arbitrary: h nxt)
  case (Suc n)
  let ?P = "pageSize (sysvals s)" and ?f = "sizeofCardMapAndCrossMap s"
  note page = page_okD [OF assms(2)]
  show ?case
  proof (cases "?f nxt \<le> hwm \<and> nxt \<le> hwm - ?f nxt")
    case True
    have "2 * (nxt div 256) \<le> ?f nxt"
      using True assms(3) by (intro sizeofMaps_ge [OF assms(1,2)]) linarith
    then have "nxt + ?P < 18446744073709551616"
      using True assms(3) page(3) by (cases "nxt < 4611686018427387904") linarith+
    then have "\<exists>r. invertSizeofLoop n s hwm nxt (wrap (nxt + ?P)) = Inr r"
      using Suc.prems True page(4) by (intro Suc.IH) auto
    then show ?thesis using True by simp
  next
    case False
    then show ?thesis by auto
  qed
qed simp

lemma invertSizeof_returns:
  assumes "page_ok s" "hwm < 18446744073709551616"
  shows "\<exists>r. invertSizeofCardMapAndCrossMap s hwm = Inr r"
proof (cases "mutatorMarksCards s")
  case True
  let ?h = "minHeapSizeEstimate s hwm"
  have "\<exists>r. invertSizeofLoop (hwm + 2) s hwm ?h (wrap (?h + pageSize (sysvals s))) = Inr r"
    by (rule invertSizeofLoop_returns [OF True assms]) simp
  then show ?thesis
    unfolding invertSizeofCardMapAndCrossMap_def Let_def using True by (simp only: simp_thms if_False)
qed (simp add: invertSizeofCardMapAndCrossMap_def)

lemma maps_small:
  assumes "mutatorMarksCards s" "page_ok s" "n < 4611686018427387904"
  shows "sizeofCardMapAndCrossMap s n < n div 128 + 2 * pageSize (sysvals s)"
    "isAligned (sizeofCardMapAndCrossMap s n) (pageSize (sysvals s))"
proof -
  note page = page_okD [OF assms(2)]
  note f = sizeofMaps_eq [OF assms(1) page(1) assms(3) page(3)]
  have "2 * (n div 256) \<le> n div 128" by linarith
  then show "sizeofCardMapAndCrossMap s n < n div 128 + 2 * pageSize (sysvals s)"
    using f(2,4) by linarith
  have "isAligned (align (n div 256) (pageSize (sysvals s))) (pageSize (sysvals s))"
    using assms(3) page(3) by (intro align_aligned [OF page(1)]) linarith
  then show "isAligned (sizeofCardMapAndCrossMap s n) (pageSize (sysvals s))"
    unfolding f(2) by (simp add: isAligned_iff_dvd)
qed

text \<open>It stops only where one page more does not fit, so small sizes are below the system limit.\<close>

lemma invertSizeofLoop_stop:
  "invertSizeofLoop n s hwm h (wrap (h + pageSize (sysvals s))) = Inr r \<Longrightarrow>
   \<not> (sizeofCardMapAndCrossMap s (wrap (r + pageSize (sysvals s))) \<le> hwm
      \<and> wrap (r + pageSize (sysvals s)) \<le> hwm - sizeofCardMapAndCrossMap s (wrap (r + pageSize (sysvals s))))"
proof (induction n arbitrary: h)
  case (Suc n)
  let ?x = "wrap (h + pageSize (sysvals s))"
  show ?case
  proof (cases "sizeofCardMapAndCrossMap s ?x \<le> hwm \<and> ?x \<le> hwm - sizeofCardMapAndCrossMap s ?x")
    case True
    then have "invertSizeofLoop n s hwm ?x (wrap (?x + pageSize (sysvals s))) = Inr r"
      using Suc.prems by simp
    then show ?thesis by (rule Suc.IH)
  next
    case False
    then have "r = h" using Suc.prems by auto
    then show ?thesis using False by simp
  qed
qed simp

lemma invertSizeof_large:
  assumes "mutatorMarksCards s" "page_ok s" "9223372036854775808 \<le> hwm" "hwm < 18446744073709551616"
    and "invertSizeofCardMapAndCrossMap s hwm = Inr r" "L < 1152921504606846976"
  shows "L \<le> r"
proof (rule ccontr)
  let ?P = "pageSize (sysvals s)"
  note page = page_okD [OF assms(2)]
  assume "\<not> L \<le> r"
  then have x: "wrap (r + ?P) = r + ?P" "r + ?P < 2305843009213693952"
    using assms(6) page(3) by auto
  have "invertSizeofLoop (hwm + 2) s hwm (minHeapSizeEstimate s hwm)
      (wrap (minHeapSizeEstimate s hwm + ?P)) = Inr r"
    using assms(1,5) unfolding invertSizeofCardMapAndCrossMap_def Let_def by (simp only: simp_thms if_False)
  note stop = invertSizeofLoop_stop [OF this, unfolded x(1)]
  have b: "r + ?P < 4611686018427387904" using x(2) by linarith
  have "sizeofCardMapAndCrossMap s (r + ?P) < (r + ?P) div 128 + 2 * ?P"
    by (rule maps_small(1) [OF assms(1,2) b])
  then show False using stop x(2) assms(3) page(3) by linarith
qed

text \<open>It returns the largest size, so it is at least every size that fits.\<close>

lemma invertSizeof_ge:
  assumes "mutatorMarksCards s" "page_ok s" "hwm < 4503599627370496"
    and "isAligned l (pageSize (sysvals s))" "l + sizeofCardMapAndCrossMap s l \<le> hwm"
    and "invertSizeofCardMapAndCrossMap s hwm = Inr r"
  shows "l \<le> r" "isAligned r (pageSize (sysvals s))" "r + sizeofCardMapAndCrossMap s r \<le> hwm"
proof -
  let ?P = "pageSize (sysvals s)"
  note page = page_okD [OF assms(2)]
  have r: "r + sizeofCardMapAndCrossMap s r \<le> hwm" "isAligned r ?P"
    "hwm < (r + ?P) + sizeofCardMapAndCrossMap s (r + ?P)"
    using invertSizeof_total [OF assms(1) page(1,3) assms(3)] assms(6) by auto
  show "l \<le> r"
  proof (rule ccontr)
    assume "\<not> l \<le> r"
    then have le: "r + ?P \<le> l" using isAligned_less_add [OF r(2) assms(4)] by simp
    have b: "r + ?P < 4611686018427387904" "l < 4611686018427387904"
      using r(1) assms(3,5) page(3) by linarith+
    have "align ((r + ?P) div 256) ?P \<le> align (l div 256) ?P"
      using le b page(3) by (intro align_mono [OF page(1)] div_le_mono) auto
    then have "sizeofCardMapAndCrossMap s (r + ?P) \<le> sizeofCardMapAndCrossMap s l"
      using sizeofMaps_eq(2) [OF assms(1) page(1) b(1) page(3)]
        sizeofMaps_eq(2) [OF assms(1) page(1) b(2) page(3)] by simp
    then show False using le r(3) assms(5) by linarith
  qed
  show "isAligned r ?P" "r + sizeofCardMapAndCrossMap s r \<le> hwm" by (fact r(2), fact r(1))
qed

text \<open>Sizes, with their maps, in the range the floating-point estimates are exact enough for.\<close>

definition resize_ok :: "GC_state \<Rightarrow> nat \<Rightarrow> nat \<Rightarrow> bool" where
  "resize_ok s l cur \<longleftrightarrow> mutatorMarksCards s \<and> page_ok s \<and> ratios_ok (ratios (controls s))
     \<and> 0 < l \<and> l < 549755813888 \<and> cur < 1125899906842624
     \<and> isAligned cur (pageSize (sysvals s))
     \<and> ram (sysvals s) < 2251799813685248 \<and> fixedHeap (controls s) < 2251799813685248
     \<and> maxHeap (controls s) < 2251799813685248"

lemma limitWithMaps_cases:
  "limitWithMaps s res live = Inr r \<Longrightarrow> live \<le> res \<Longrightarrow> live \<le> r \<and>
     (0 < fixedHeap (controls s) \<longrightarrow> r \<le> fixedHeap (controls s)) \<and>
     (fixedHeap (controls s) = 0 \<longrightarrow> r \<le> res \<and> (0 < maxHeap (controls s) \<longrightarrow> r \<le> maxHeap (controls s)))"
  by (auto simp: limitWithMaps_def Let_def split: if_splits)

lemma limitWithMaps_error:
  "limitWithMaps s res live = Inl e \<Longrightarrow> live \<le> res \<Longrightarrow> (\<exists>m. e = Die m) \<and>
     (0 < fixedHeap (controls s) \<and> fixedHeap (controls s) < 2 * live
      \<or> 0 < maxHeap (controls s) \<and> maxHeap (controls s) < live)"
  by (auto simp: limitWithMaps_def Let_def split: if_splits)

lemma sizeofHeapDesired_spec:
  assumes "resize_ok s l cur"
  shows "case sizeofHeapDesired s l cur of
      Inr r \<Rightarrow> l \<le> align l (pageSize (sysvals s)) \<and> align l (pageSize (sysvals s)) \<le> r
        \<and> isAligned r (pageSize (sysvals s)) \<and> r < 4503599627370496
        \<and> (0 < fixedHeap (controls s) \<longrightarrow> r + sizeofCardMapAndCrossMap s r \<le> fixedHeap (controls s))
        \<and> (fixedHeap (controls s) = 0 \<and> 0 < maxHeap (controls s)
             \<longrightarrow> r + sizeofCardMapAndCrossMap s r \<le> maxHeap (controls s))
    | Inl e \<Rightarrow> (\<exists>m. e = Die m) \<and> (let L = align l (pageSize (sysvals s)); w = L + sizeofCardMapAndCrossMap s L
        in 0 < fixedHeap (controls s) \<and> fixedHeap (controls s) < 2 * w
           \<or> 0 < maxHeap (controls s) \<and> maxHeap (controls s) < w)"
proof -
  let ?P = "pageSize (sysvals s)" and ?maps = "sizeofCardMapAndCrossMap s"
  define sl where "sl = alignDown SIZE_MAX ?P"
  have m: "mutatorMarksCards s" and pg: "page_ok s" and r: "ratios_ok (ratios (controls s))"
    and l: "0 < l" "l < 549755813888" and c: "cur < 1125899906842624"
    and lim: "ram (sysvals s) < 2251799813685248" "fixedHeap (controls s) < 2251799813685248"
      "maxHeap (controls s) < 2251799813685248"
    using assms by (auto simp: resize_ok_def)
  note page = page_okD [OF pg]
  have lb: "l + (?P - 1) < 18446744073709551616" using l(2) page(3) by linarith
  note al = align_ge [OF page(1) lb] align_less [OF page(1) lb] align_aligned [OF page(1) lb]
  define L where "L = align l ?P"
  have L: "l \<le> L" "L < 549755813888 + 4294967296" "isAligned L ?P"
    using al l(2) page(3) unfolding L_def by linarith+
  have Lb: "L < 4611686018427387904" "cur < 4611686018427387904" using L(2) c by linarith+
  define w where "w = wrap (L + ?maps L)"
  define cw where "cw = wrap (cur + ?maps cur)"
  have w: "w = L + ?maps L" unfolding w_def by (rule withMaps_no_wrap [OF pg Lb(1)])
  have cw: "cw = cur + ?maps cur" unfolding cw_def by (rule withMaps_no_wrap [OF pg Lb(2)])
  have "w < 1099511627776"
    using maps_small(1) [OF m pg Lb(1)] L(2) page(3) unfolding w by linarith
  moreover have "cw < 2251799813685248"
    using maps_small(1) [OF m pg Lb(2)] c page(3) unfolding cw by linarith
  moreover have "isAligned w ?P" unfolding w using L(3) maps_small(2) [OF m pg Lb(1)] by (rule isAligned_add)
  moreover have "0 < w" using w L(1) l(1) by simp
  ultimately have "sizes_ok s w cw" using pg r lim by (simp add: sizes_ok_def)
  note res = desiredWithMaps_bounds [OF this sl_def]
  have slb: "sl < 18446744073709551616"
    unfolding sl_def using alignDown_le [OF page(1), of SIZE_MAX] by simp
  obtain sys where sys: "invertSizeofCardMapAndCrossMap s sl = Inr sys"
    using invertSizeof_returns [OF pg slb] by blast
  have "9223372036854775808 \<le> sl"
    using alignDown_gt [OF page(1), of SIZE_MAX] page(3) unfolding sl_def by simp
  then have "L \<le> sys" using invertSizeof_large [OF m pg _ slb sys] L(2) by simp
  then have e: "sizeofHeapDesired s l cur =
        bindE (limitWithMaps s (desiredWithMaps s w cw sl) w) (invertSizeofCardMapAndCrossMap s)"
      using sys by (simp add: sizeofHeapDesired_def Let_def sl_def [symmetric] L_def [symmetric]
          w_def [symmetric] cw_def [symmetric])
  show ?thesis
    proof (cases "limitWithMaps s (desiredWithMaps s w cw sl) w")
      case (Inl err)
      then show ?thesis using limitWithMaps_error [OF Inl res(1)] e by (simp add: Let_def L_def w)
    next
      case (Inr H)
      note lm = limitWithMaps_cases [OF Inr res(1)]
      have H: "H < 4503599627370496" using lm res(2) lim(2) by (cases "fixedHeap (controls s) = 0") auto
      obtain r where r: "invertSizeofCardMapAndCrossMap s H = Inr r"
        using invertSizeof_total [OF m page(1,3) H] by blast
      note ge = invertSizeof_ge [OF m pg H L(3) _ r]
      have "L + ?maps L \<le> H" using lm w by simp
      then show ?thesis using ge e Inr r lm L(1) H by (auto simp: L_def)
  qed
qed

section \<open>Resizing gives room\<close>

lemma align_page:
  assumes "page_ok s" "n < 4611686018427387904"
  shows "n \<le> align n (pageSize (sysvals s))" "align n (pageSize (sysvals s)) < n + pageSize (sysvals s)"
    "isAligned (align n (pageSize (sysvals s))) (pageSize (sysvals s))"
    "align (align n (pageSize (sysvals s))) (pageSize (sysvals s)) = align n (pageSize (sysvals s))"
proof -
  let ?P = "pageSize (sysvals s)"
  note page = page_okD [OF assms(1)]
  have b: "n + (?P - 1) < 18446744073709551616" using assms(2) page(3) by linarith
  show al: "n \<le> align n ?P" "align n ?P < n + ?P" "isAligned (align n ?P) ?P"
    using align_ge [OF page(1) b] align_less [OF page(1) b] align_aligned [OF page(1) b] by auto
  have "align n ?P + (?P - 1) < 18446744073709551616" using al(2) assms(2) page(3) by linarith
  then show "align (align n ?P) ?P = align n ?P" by (rule align_id [OF page(1) _ al(3)])
qed

lemma createHeap_spec:
  assumes "page_ok s" "0 < minSize" "minSize \<le> desiredSize" "desiredSize < 2305843009213693952"
  shows "\<exists>s' h' ok. createHeap os s h desiredSize minSize = Inr (s', h', ok) \<and> same_config s s'
    \<and> (ok \<longrightarrow> sized_heap s (align minSize (pageSize (sysvals s))) (align desiredSize (pageSize (sysvals s))) h'
          \<and> oldGenSize h' = oldGenSize h
          \<and> (\<exists>k a. os_mmapAnon os k a (withMapsSize h') = Some (heapStart h')))
    \<and> (\<not> ok \<longrightarrow> h' = h)"
proof -
  let ?P = "pageSize (sysvals s)"
  note page = page_okD [OF assms(1)]
  have b: "minSize < 4611686018427387904" "desiredSize < 4611686018427387904" using assms(3,4) by linarith+
  note mn = align_page [OF assms(1) b(1)] and ds = align_page [OF assms(1) b(2)]
  have "align minSize ?P \<le> align desiredSize ?P"
    using assms(3,4) page(3) by (intro align_mono [OF page(1)]) auto
  moreover have "factor_ok s 16"
    unfolding factor_ok_def using page(2) by (intro conjI exI [of _ 4]) auto
  moreover have "align desiredSize ?P < 4611686018427387904" "0 < align minSize ?P"
    using ds(2) assms(2,4) page(3) mn(1) by linarith+
  moreover have "(if desiredSize < minSize then minSize else desiredSize) = desiredSize"
    using assms(3) by simp
  ultimately show ?thesis
    unfolding createHeap_def Let_def using mn(3) ds(3)
    by (simp only:) (intro createHeapLoop_spec assms(1), auto)
qed

lemma remapHeap_spec:
  assumes "page_ok s" "0 < minSize" "minSize < 2305843009213693952" "desiredSize < 2305843009213693952"
    and "keep \<le> minSize" "keep \<le> withMapsSize h"
  shows "\<exists>s' h' ok. remapHeap os s h desiredSize minSize = Inr (s', h', ok) \<and> same_config s s'
    \<and> (ok \<longrightarrow> sized_heap s (align minSize (pageSize (sysvals s))) (align desiredSize (pageSize (sysvals s))) h')
    \<and> (\<not> ok \<longrightarrow> h' = h) \<and> oldGenSize h' = oldGenSize h
    \<and> (\<forall>i<keep. mem s' (heapStart h' + i) = mem s (heapStart h + i))"
proof -
  let ?P = "pageSize (sysvals s)"
  let ?lo = "align minSize ?P" and ?hi = "align desiredSize ?P"
  note page = page_okD [OF assms(1)]
  have b: "minSize < 4611686018427387904" "desiredSize < 4611686018427387904" using assms(3,4) by linarith+
  note mn = align_page [OF assms(1) b(1)] and ds = align_page [OF assms(1) b(2)]
  have hi: "?hi < 4611686018427387904" using ds(2) assms(4) page(3) by linarith
  have lo: "0 < ?lo" "keep \<le> ?lo" using mn(1) assms(2,5) by linarith+
  have nx: "?lo \<le> ?hi \<Longrightarrow> isAligned ?hi ?P \<and> ?lo \<le> ?hi \<and> ?hi \<le> ?hi \<and> isAligned ?hi ?P"
    using ds(3) by simp
  have fuel: "0 < ?hi + 2 \<and> ?hi + 1 < ?hi + 2 + ?lo" by simp
  have no: "False \<Longrightarrow> sized_heap s ?lo ?hi h" by simp
  show ?thesis
    unfolding remapHeap_def Let_def
    using remapHeapLoop_spec [OF assms(1) mn(3) lo(1) nx hi fuel order.refl order.refl lo(2) assms(6) no]
    by blast
qed

text \<open>However the heap was obtained, it has at least the size asked for.\<close>

lemma growHeapCreate_spec:
  assumes "page_ok s" "0 < minSize" "minSize \<le> desiredSize" "desiredSize < 2305843009213693952"
    and "growHeapCreate os s desiredSize minSize = Inr (s', h', ok)"
  shows "same_config s s'" "ok \<longrightarrow> align minSize (pageSize (sysvals s)) \<le> heapSize h'"
  using assms(5) createHeap_spec [OF assms(1-4), of os "initHeap GC_heap0"]
  by (auto simp: growHeapCreate_def Let_def sized_heap_def split: if_splits)

lemma growHeapPlace_size:
  assumes "page_ok s" "0 < minSize" "minSize \<le> desiredSize" "desiredSize < 2305843009213693952"
    and "growHeapPlace os use orig live desiredSize minSize (s, new, created) = Inr t"
  shows "heapSize (heap t) = heapSize new \<and> created \<or> heap t = heap s \<and> \<not> created \<and> use
    \<or> align minSize (pageSize (sysvals s)) \<le> heapSize (heap t)"
proof -
  consider "created" | "\<not> created" "use" | "\<not> created" "\<not> use" by blast
  then show ?thesis
  proof cases
    case 1
    then obtain s' where "growHeapDone orig (s'\<lparr>heap := new\<lparr>oldGenSize := live\<rparr>\<rparr>) = Inr t"
      using assms(5) by (auto simp: growHeapPlace_def Let_def split: prod.splits)
    from growHeapDone_size [OF this] 1 show ?thesis by simp
  next
    case 2
    then have "growHeapDone orig s = Inr t" using assms(5) by (simp add: growHeapPlace_def)
    from growHeapDone_size [OF this] 2 show ?thesis by simp
  next
    case 3
    then obtain s' h' where h': "createHeap os s (releaseHeap (heap s)) desiredSize minSize = Inr (s', h', True)"
      and d: "growHeapDone orig (GC_diskBack_read (mem s) (heapStart (heap s)) (heapStart h') live
               (s'\<lparr>heap := h'\<lparr>oldGenSize := live\<rparr>\<rparr>)) = Inr t"
      using assms(5) by (auto simp: growHeapPlace_def Let_def split: prod.splits if_splits)
    have "heapSize (heap t) = heapSize h'" using growHeapDone_size [OF d] by (simp add: GC_diskBack_read_def)
    then show ?thesis
      using createHeap_spec [OF assms(1-4), of os "releaseHeap (heap s)"] h' by (auto simp: sized_heap_def)
  qed
qed

lemma growHeap_size:
  assumes "page_ok s" "0 < minSize" "minSize \<le> desiredSize" "desiredSize < 1152921504606846976"
    and "heapSize (heap s) < desiredSize" "isAligned (heapSize (heap s)) (pageSize (sysvals s))"
    and "isAligned minSize (pageSize (sysvals s))" "isAligned desiredSize (pageSize (sysvals s))"
    and "growHeap os s desiredSize minSize = Inr t"
  shows "minSize \<le> heapSize (heap t)"
proof -
  let ?P = "pageSize (sysvals s)" and ?hs = "heapSize (heap s)"
  note page = page_okD [OF assms(1)]
  define use where "use = (minSize \<le> ?hs)"
  define ms where "ms = (if use then wrap (?hs + ?P) else minSize)"
  have wp: "wrap (?hs + ?P) = ?hs + ?P" using assms(4,5) page(3) by simp
  have ms: "minSize \<le> ms" "ms \<le> desiredSize" "0 < ms"
    using assms(2,3) isAligned_less_add [OF assms(6,8,5)] page(4) by (auto simp: ms_def wp use_def)
  have b: "ms < 2305843009213693952" "desiredSize < 2305843009213693952" "ms < 4611686018427387904"
    using ms(2) assms(4) by linarith+
  have lo: "minSize \<le> align ms ?P" using ms(1) align_page(1) [OF assms(1) b(3)] by linarith
  obtain s1 cur ok where r: "remapHeap os s (heap s) desiredSize ms = Inr (s1, cur, ok)"
    and c: "same_config s s1" and okh: "ok \<Longrightarrow> sized_heap s (align ms ?P) (align desiredSize ?P) cur"
    and nok: "\<not> ok \<Longrightarrow> cur = heap s"
    using remapHeap_spec [OF assms(1) ms(3) b(1,2), of 0 "heap s" os] by auto
  show ?thesis
  proof (cases ok)
    case True
    then have "growHeapDone (heapStart (heap s)) (s1\<lparr>heap := cur\<rparr>) = Inr t"
      using assms(9) r by (simp add: growHeap_def Let_def use_def [symmetric] ms_def [symmetric])
    from growHeapDone_size [OF this] have "heapSize (heap t) = heapSize cur" by simp
    then show ?thesis using okh [OF True] lo by (simp add: sized_heap_def)
  next
    case False
    define s3 where "s3 = s1\<lparr>heap := (if \<not> use then shrinkHeap s1 cur (oldGenSize (heap s)) else cur)\<rparr>"
    obtain made where mk: "growHeapCreate os s3 desiredSize ms = Inr made"
      and pl: "growHeapPlace os use (heapStart (heap s)) (oldGenSize (heap s)) desiredSize ms made = Inr t"
      using assms(9) r False
      by (auto simp: growHeap_def Let_def use_def [symmetric] ms_def [symmetric] s3_def [symmetric])
    have pg: "page_ok s3" "pageSize (sysvals s3) = ?P"
      using c assms(1) by (auto simp: s3_def same_config_def page_ok_def)
    obtain s4 new created where m: "made = (s4, new, created)" by (cases made)
    have c4: "same_config s3 s4" and large: "created \<Longrightarrow> align ms ?P \<le> heapSize new"
      using growHeapCreate_spec [OF pg(1) ms(3,2) b(2) mk [unfolded m]] pg(2) by auto
    have "minSize \<le> align ms ?P" by (rule lo)
    moreover have "use \<Longrightarrow> heapSize (heap s4) = ?hs"
      using c4 nok [OF False] by (simp add: same_config_def s3_def)
    moreover have "use \<longleftrightarrow> minSize \<le> ?hs" by (simp add: use_def)
    moreover have "page_ok s4" "pageSize (sysvals s4) = ?P"
      using c4 pg by (auto simp: same_config_def page_ok_def)
    ultimately show ?thesis
      using growHeapPlace_size [OF _ ms(3,2) b(2) pl [unfolded m]] large by (cases created; cases use) force+
  qed
qed


text \<open>
  The ratios that \<open>GC_init\<close> sets when the command line gives none (\<open>markCompact\<close> is the
  \<open>float\<close> next to 1.04).
\<close>

definition heap_example :: GC_state where
  "heap_example = maps_example\<lparr>controls := GC_controls0\<lparr>maxHeap := 65536,
     ratios := GC_ratios0\<lparr>live_ratio := 8, grow_ratio := 8, copy_ratio := 4,
       markCompact := 1090519 / 1048576\<rparr>\<rparr>,
     sysvals := GC_sysvals0\<lparr>pageSize := 4096, ram := 1073741824\<rparr>\<rparr>"

lemma heap_example_ok: "resize_ok heap_example 40000 65536"
  by (simp add: resize_ok_def heap_example_def maps_example_def page_ok_def ratios_ok_def
      is_power2_numeral isAligned_def zero_defs)

lemma heap_example_fields:
  "fixedHeap (controls heap_example) = 0" "maxHeap (controls heap_example) = 65536"
  "pageSize (sysvals heap_example) = 4096" "heapSize (heap heap_example) = 65536"
  "align 40000 4096 = 40960" "sizeofCardMapAndCrossMap heap_example 40960 = 8192"
proof -
  show f: "fixedHeap (controls heap_example) = 0" "maxHeap (controls heap_example) = 65536"
    "pageSize (sysvals heap_example) = 4096" "heapSize (heap heap_example) = 65536"
    by (simp_all add: heap_example_def maps_example_def zero_defs)
  show "align 40000 4096 = 40960" by (simp add: align_eq_div is_power2_numeral)
  have "align 160 4096 = 4096" by (simp add: align_eq_div is_power2_numeral)
  moreover have "mutatorMarksCards heap_example" by (simp add: heap_example_def maps_example_def)
  ultimately show "sizeofCardMapAndCrossMap heap_example 40960 = 8192"
    using sizeofMaps_eq(2) [of heap_example 40960] f(3) by (simp add: is_power2_numeral)
qed





text \<open>
  C32: \<open>createHeap\<close> ends for every behaviour of the operating system, even if it refuses every
  request: it leaves the heap record alone and reports failure, or it returns a page-aligned
  heap of a size between the two given ones, with room for its maps, at the address that
  \<open>mmap\<close> gave for exactly that length.
\<close>

theorem createHeap_total:
  assumes "page_ok s" "0 < minSize" "minSize \<le> desiredSize" "desiredSize < 2305843009213693952"
  shows "\<exists>s' h' ok. createHeap os s h desiredSize minSize = Inr (s', h', ok) \<and> heap s' = heap s
    \<and> (ok \<longrightarrow> sized_heap s (align minSize (pageSize (sysvals s))) (align desiredSize (pageSize (sysvals s))) h'
          \<and> (\<exists>k a. os_mmapAnon os k a (withMapsSize h') = Some (heapStart h')))
    \<and> (\<not> ok \<longrightarrow> h' = h)"
  using createHeap_spec [OF assms, of os h] unfolding same_config_def by fast

definition refusing_os :: OS where
  "refusing_os = \<lparr>os_mmapAnon = \<lambda>n a len. if len \<le> 40960 then Some 1048576 else None,
     os_mremap = \<lambda>n p old new. None, os_getrusage = \<lambda>n. rusage0, os_malloc = \<lambda>n len. False\<rparr>"

theorem createHeap_witness:
  "\<exists>s' h' ok. createHeap refusing_os heap_example GC_heap0 65536 8192 = Inr (s', h', ok) \<and> heap s' = heap heap_example"
proof -
  have "page_ok heap_example" using heap_example_ok by (simp add: resize_ok_def)
  then show ?thesis
    using createHeap_total [of heap_example 8192 65536 refusing_os GC_heap0] by auto
qed



text \<open>
  With the live ratio 1.05 (the command line accepts any value above 1)
  the branch that leaves the heap alone when it is close to the wanted size chooses the
  current size although it is below the live size: the assertion at the end of
  \<open>sizeofHeapDesired\<close> is false there.
\<close>

theorem desired_below_live:
  "desiredWithMaps (heap_example\<lparr>controls := GC_controls0\<lparr>
     ratios := GC_ratios0\<lparr>live_ratio := 4404019 / 4194304, grow_ratio := 8, copy_ratio := 1090519 / 1048576,
       markCompact := 1090519 / 1048576\<rparr>\<rparr>\<rparr>) 1044480 1024000 18446744073709547520 = 1024000"
proof -
  have size: "dbl_of_size 1044480 = 1044480" "dbl_of_size 1024000 = 1024000"
    "dbl_of_size 1073741824 = 1073741824" "dbl_of_size 1096704 = 1096704"
    using dbl_of_size_exact [of 1044480] dbl_of_size_exact [of 1024000]
      dbl_of_size_exact [of 1073741824] dbl_of_size_exact [of 1096704] by simp_all
  have r: "flt (4404019 / 4194304 + 8) \<le> dbl (1073741824 / 1044480)" by code_simp
  have "\<lfloor>flt (flt 1044480 * (4404019 / 4194304))\<rfloor> = 1096704" by code_simp
  then have w: "size_of_dbl (flt (flt_of_size 1044480 * (4404019 / 4194304))) = 1096704"
    by (simp add: size_of_dbl_def flt_of_size_def)
  have b: "dbl (1 / 2 * 1024000) \<le> 1096704" "1096704 \<le> dbl (dbl (11 / 10) * 1024000)" by code_simp+
  show ?thesis
    by (simp add: desiredWithMaps_def Let_def ratio_ge_def heap_example_def size r [simplified] w [simplified] b [simplified] zero_defs)
qed

end
