(* ===== verification/ObjectGraph.thy ===== *)
theory ObjectGraph
  imports DfsMark Heap
begin

text \<open>
  Objects as a graph, for the marking of \<open>dfs-mark.c\<close>: the bits of headers that marking uses,
  the words an object is made of (header, length, counter, pointer slots) and that words of
  distinct objects do not overlap, the objects a pointer slot leads to, and reachability.
\<close>

section \<open>Bits of memory\<close>

lemma bit_add_256:
  assumes "x < 256"
  shows "bit (x + 256 * y :: nat) n \<longleftrightarrow> (if n < 8 then bit x n else bit y (n - 8))"
proof -
  have "x = take_bit 8 x" using assms by (simp add: take_bit_nat_eq_self)
  then have x: "\<not> bit x j" if "8 \<le> j" for j using that by (metis bit_take_bit_iff leD)
  have y: "256 * y = push_bit 8 y" by (simp add: push_bit_eq_mult)
  have "x + 256 * y = x OR push_bit 8 y"
    unfolding y by (rule disjunctive_add) (use x in \<open>auto simp: bit_push_bit_iff not_le\<close>)
  then show ?thesis using x by (auto simp: bit_or_iff bit_push_bit_iff)
qed

lemma load_le_bit: "bit (load_le m a k) n \<longleftrightarrow> n < 8 * k \<and> bit (m (a + n div 8)) (n mod 8)"
proof (induction k arbitrary: a n)
  case (Suc k)
  have "n div 8 = Suc ((n - 8) div 8)" "n mod 8 = (n - 8) mod 8" if "8 \<le> n"
    using that by (simp_all add: le_div_geq le_mod_geq)
  then show ?case
    using bit_add_256 [OF unat_lt_8 [of "m a"], of "load_le m (Suc a) k" n]
    by (auto simp: Suc bit_unsigned_iff)
qed simp

lemma load64_bit: "bit (load64 m a) n \<longleftrightarrow> n < 64 \<and> bit (m (a + n div 8)) (n mod 8)"
  by (auto simp: load64_def bit_of_nat_iff load_le_bit)

text \<open>Flipping the mark of every object of a set: the highest bit of the fourth byte of a header.\<close>

definition flips :: "pointer set \<Rightarrow> mem \<Rightarrow> mem" where
  "flips N m = (\<lambda>b. if \<exists>x\<in>N. b = getHeaderp x + 3 then m b XOR 0x80 else m b)"

lemma flips_empty [simp]: "flips {} m = m"
  by (simp add: flips_def)

lemma flips_load:
  "\<forall>x\<in>N. apart a (getHeaderp x) \<Longrightarrow> load64 (flips N m) a = load64 m a"
  by (rule load64_cong) (auto simp: flips_def apart_def)

lemma flips_store:
  "\<forall>x\<in>N. apart a (getHeaderp x) \<Longrightarrow> flips N (store64 m a v) = store64 (flips N m) a v"
  by (rule ext) (auto simp: flips_def store64_def store_le_byte apart_def)

lemma byte_mark: "bit (0x80 :: byte) n \<longleftrightarrow> n = 7"
proof -
  have "(0x80 :: byte) = push_bit 7 1" by simp
  then show ?thesis by (simp only: bit_push_bit_iff bit_1_iff) auto
qed

lemma byte_flip: "bit ((b :: byte) XOR 0x80) n \<longleftrightarrow> bit b n \<noteq> (n = 7)"
  by (simp only: bit_xor_iff byte_mark)

lemma flips_header:
  assumes "x \<in> N" "\<forall>y\<in>N. y \<noteq> x \<longrightarrow> apart (getHeaderp x) (getHeaderp y)"
  shows "load64 (flips N m) (getHeaderp x) = load64 m (getHeaderp x) XOR MARK_MASK"
proof (rule bit_word_eqI)
  fix n :: nat assume n: "n < LENGTH(64)"
  have *: "(\<exists>y\<in>N. getHeaderp x + n div 8 = getHeaderp y + 3) \<longleftrightarrow> n div 8 = 3"
    using assms n by (auto simp: apart_def)
  have byte: "flips N m (getHeaderp x + n div 8)
    = (if n div 8 = 3 then m (getHeaderp x + n div 8) XOR 0x80 else m (getHeaderp x + n div 8))"
    unfolding flips_def * by (rule refl)
  have "n = 31 \<longleftrightarrow> n div 8 = 3 \<and> n mod 8 = 7" by presburger
  then show "bit (load64 (flips N m) (getHeaderp x)) n = bit (load64 m (getHeaderp x) XOR MARK_MASK) n"
    unfolding load64_bit bit_xor_iff byte mark_bit using n by (auto simp: byte_flip)
qed

lemma flips_one: "store64 m (getHeaderp x) (load64 m (getHeaderp x) XOR MARK_MASK) = flips {x} m"
proof -
  have "load64 (flips {x} m) (getHeaderp x) = load64 m (getHeaderp x) XOR MARK_MASK"
    by (rule flips_header) auto
  moreover have "store64 m (getHeaderp x) v = store64 (flips {x} m) (getHeaderp x) v" for v
    by (rule ext) (auto simp: flips_def store64_def store_le_byte)
  ultimately show ?thesis using store64_load [of "flips {x} m" "getHeaderp x"] by simp
qed

lemma flips_union:
  assumes "\<forall>x\<in>M. \<forall>y\<in>N. apart (getHeaderp x) (getHeaderp y)"
  shows "flips M (flips N m) = flips (M \<union> N) m"
proof (rule ext)
  fix b
  have "\<not> ((\<exists>x\<in>M. b = getHeaderp x + 3) \<and> (\<exists>y\<in>N. b = getHeaderp y + 3))"
    using assms by (fastforce simp: apart_def)
  then show "flips M (flips N m) b = flips (M \<union> N) m b" by (auto simp: flips_def)
qed

lemma flips_twice: "flips N (flips N m) = m"
  by (rule ext) (simp add: flips_def xor.assoc)


section \<open>The counter of a header\<close>

lemma setCounter_bits:
  "bit (setCounter h i) n \<longleftrightarrow> 20 \<le> n \<and> n < 32 \<and> bit i (n - 20) \<or> \<not> (20 \<le> n \<and> n < 31) \<and> bit h n"
proof -
  have "bit (ucast (push_bit 20 (word_of_nat i :: 32 word)) :: 64 word) n \<longleftrightarrow> 20 \<le> n \<and> n < 32 \<and> bit i (n - 20)"
    by (cases "20 \<le> n"; cases "n < 32") (auto simp: bit_unsigned_iff bit_push_bit_iff bit_of_nat_iff)
  then show ?thesis
    unfolding setCounter_def bit_or_iff bit_and_iff not_mask_bits by (auto dest: bit_imp_le_length)
qed

lemma bit_small: "i < 2048 \<Longrightarrow> bit (i :: nat) n \<Longrightarrow> n < 11"
proof -
  assume "i < 2048" "bit i n"
  then have "bit (take_bit 11 i) n" by (simp add: take_bit_nat_eq_self)
  then show "n < 11" by (simp add: bit_take_bit_iff)
qed

lemma setCounter_bit:
  assumes "i < 2048"
  shows "bit (setCounter h i) n \<longleftrightarrow> (if 20 \<le> n \<and> n < 31 then bit i (n - 20) else bit h n)"
  using bit_small [OF assms, of "n - 20"] unfolding setCounter_bits by auto

lemma getCounter_setCounter:
  assumes "i < 2048" shows "getCounter (setCounter h i) = i"
proof -
  have "i = take_bit 11 i" using assms by (simp add: take_bit_nat_eq_self)
  then have i: "\<not> bit i j" if "11 \<le> j" for j using that by (metis bit_take_bit_iff leD)
  have "bit (getCounter (setCounter h i)) n \<longleftrightarrow> 20 + n < 31 \<and> bit i n" for n
    unfolding getCounter_def bit_unsigned_iff bit_drop_bit_eq comp_def bit_and_iff counter_bit setCounter_bit [OF assms]
    by auto
  then show ?thesis using i by (intro bit_eqI) (auto simp: not_le [symmetric])
qed

lemma setCounter_clear: "i < 2048 \<Longrightarrow> setCounter h i AND NOT COUNTER_MASK = h AND NOT COUNTER_MASK"
  by (rule bit_word_eqI) (simp only: bit_and_iff not_mask_bits setCounter_bit, auto)

lemma setCounter_mark: "i < 2048 \<Longrightarrow> setCounter h i AND MARK_MASK = h AND MARK_MASK"
  by (rule bit_word_eqI) (simp only: bit_and_iff mark_bit setCounter_bit, auto)

lemma clear_id: "h AND COUNTER_MASK = 0 \<Longrightarrow> h AND NOT COUNTER_MASK = h"
proof (rule bit_word_eqI)
  fix n :: nat assume h: "h AND COUNTER_MASK = 0" and n: "n < LENGTH(64)"
  have "\<not> bit (h AND COUNTER_MASK) n" unfolding h by simp
  then have "\<not> (bit h n \<and> 20 \<le> n \<and> n < 31)" unfolding bit_and_iff counter_bit .
  with n show "bit (h AND NOT COUNTER_MASK) n = bit h n" unfolding bit_and_iff not_mask_bits by auto
qed

lemma typeIndex_clear: "typeIndexOfHeader (h AND NOT COUNTER_MASK) = typeIndexOfHeader h"
  by (rule typeIndex_masked) (simp only: bit_and_iff not_mask_bits, auto)

lemma typeIndex_flip: "typeIndexOfHeader (h XOR MARK_MASK) = typeIndexOfHeader h"
  by (rule typeIndex_masked) (simp only: bit_xor_iff mark_bit, auto)

lemma mark_flip: "(h XOR MARK_MASK) AND MARK_MASK \<noteq> h AND MARK_MASK"
proof
  assume "(h XOR MARK_MASK) AND MARK_MASK = h AND MARK_MASK"
  then have "bit ((h XOR MARK_MASK) AND MARK_MASK) 31 = bit (h AND MARK_MASK) 31" by (rule arg_cong)
  then show False unfolding bit_and_iff bit_xor_iff mark_bit by simp
qed

lemma mark_cases: "h AND MARK_MASK = 0 \<or> h AND MARK_MASK = MARK_MASK"
proof (cases "bit h 31")
  case True
  then have "h AND MARK_MASK = MARK_MASK" by (intro bit_word_eqI) (simp only: bit_and_iff mark_bit, auto)
  then show ?thesis ..
next
  case False
  then have "h AND MARK_MASK = 0" by (intro bit_word_eqI) (simp only: bit_and_iff mark_bit bit_0_eq, auto)
  then show ?thesis ..
qed

lemma flip_marked: "h AND MARK_MASK \<noteq> markOf ms \<Longrightarrow> (h XOR MARK_MASK) AND MARK_MASK = markOf ms"
  using mark_cases [of h] mark_cases [of "h XOR MARK_MASK"] mark_flip [of h]
  unfolding markOf_def by (auto split: if_splits)


section \<open>Graphs of objects\<close>

definition typeOf :: "GC_state \<Rightarrow> pointer \<Rightarrow> GC_objectType" where
  "typeOf s p = objectTypes s ! typeIndexOfHeader (getHeader s p)"

definition elemSize :: "GC_state \<Rightarrow> pointer \<Rightarrow> nat" where
  "elemSize s p = bytesNonObjptrs (typeOf s p) + numObjptrs (typeOf s p) * OBJPTR_SIZE"

text \<open>The elements that hold pointers to follow: a normal object is one of them.\<close>

definition elems :: "GC_state \<Rightarrow> pointer \<Rightarrow> nat" where
  "elems s p =
     (case tag (typeOf s p) of NORMAL_TAG \<Rightarrow> 1 | SEQUENCE_TAG \<Rightarrow> getSequenceLength s p | _ \<Rightarrow> 0)"

definition numSlots :: "GC_state \<Rightarrow> pointer \<Rightarrow> nat" where
  "numSlots s p = elems s p * numObjptrs (typeOf s p)"

definition slotAddr :: "GC_state \<Rightarrow> pointer \<Rightarrow> nat \<Rightarrow> pointer" where
  "slotAddr s p k =
     (let n = numObjptrs (typeOf s p)
      in p + k div n * elemSize s p + (bytesNonObjptrs (typeOf s p) + k mod n * OBJPTR_SIZE))"

definition metaBytes :: "GC_state \<Rightarrow> pointer \<Rightarrow> nat" where
  "metaBytes s p = (if tag (typeOf s p) = SEQUENCE_TAG then GC_SEQUENCE_METADATA_SIZE else GC_NORMAL_METADATA_SIZE)"

definition extent :: "GC_state \<Rightarrow> pointer \<Rightarrow> pointer set" where
  "extent s p = {p - metaBytes s p ..< p + elems s p * elemSize s p}"

definition follows :: "GC_state \<Rightarrow> pointer \<Rightarrow> bool" where
  "follows s c \<longleftrightarrow> isPointer c \<and> isPointerInHeap s c"

lemma follows_mem: "only_mem s t \<Longrightarrow> follows t c = follows s c"
  by (auto simp: only_mem_def follows_def isPointerInHeap_def isPointerInFromSpace_def
      isPointerInOldGen_def isPointerInNursery_def)

definition succs :: "GC_state \<Rightarrow> pointer \<Rightarrow> pointer set" where
  "succs s p = {c. follows s c \<and> (\<exists>k<numSlots s p. c = unat (load64 (mem s) (slotAddr s p k)))}"

text \<open>What \<open>dfsMark\<close> adds up; the code adds nothing for a weak pointer.\<close>

definition objSize :: "GC_state \<Rightarrow> pointer \<Rightarrow> nat" where
  "objSize s p =
     (case tag (typeOf s p) of
        NORMAL_TAG \<Rightarrow> GC_NORMAL_METADATA_SIZE + elemSize s p
      | SEQUENCE_TAG \<Rightarrow> GC_SEQUENCE_METADATA_SIZE
          + sizeofSequenceNoMetaData s (getSequenceLength s p) (bytesNonObjptrs (typeOf s p)) (numObjptrs (typeOf s p))
      | _ \<Rightarrow> 0)"

definition object_ok :: "GC_state \<Rightarrow> pointer \<Rightarrow> bool" where
  "object_ok s p \<longleftrightarrow>
     typeIndexOfHeader (getHeader s p) < length (objectTypes s) \<and> tag (typeOf s p) \<noteq> STACK_TAG \<and>
     numObjptrs (typeOf s p) \<le> 2048 \<and> metaBytes s p \<le> p \<and> p < 2 ^ 64 \<and>
     getHeader s p AND COUNTER_MASK = 0 \<and>
     (tag (typeOf s p) = SEQUENCE_TAG \<longrightarrow> getSequenceCounter s p = 0)"

text \<open>A set of objects that do not overlap and whose pointers lead to objects of the set.\<close>

definition heap_graph :: "GC_state \<Rightarrow> pointer set \<Rightarrow> bool" where
  "heap_graph s Objs \<longleftrightarrow>
     finite Objs \<and>
     (\<forall>p\<in>Objs. object_ok s p \<and> follows s p \<and> succs s p \<subseteq> Objs \<and>
        extent s p \<subseteq> {heapStart (heap s) ..< heapStart (heap s) + heapSize (heap s)}) \<and>
     (\<forall>p\<in>Objs. \<forall>q\<in>Objs. p \<noteq> q \<longrightarrow> extent s p \<inter> extent s q = {})"

section \<open>Words of an object\<close>

lemma slot_index:
  assumes "k < numSlots s p"
  shows "0 < numObjptrs (typeOf s p)" "k div numObjptrs (typeOf s p) < elems s p"
    "k mod numObjptrs (typeOf s p) < numObjptrs (typeOf s p)"
proof -
  show n: "0 < numObjptrs (typeOf s p)" using assms by (auto simp: numSlots_def intro: gr0I)
  show "k div numObjptrs (typeOf s p) < elems s p" using assms by (simp add: numSlots_def less_mult_imp_div_less)
  show "k mod numObjptrs (typeOf s p) < numObjptrs (typeOf s p)" using n by simp
qed

lemma slot_range:
  assumes "k < numSlots s p"
  shows "p \<le> slotAddr s p k" "slotAddr s p k + 8 \<le> p + elems s p * elemSize s p"
proof -
  let ?n = "numObjptrs (typeOf s p)"
  have "Suc (k div ?n) * elemSize s p \<le> elems s p * elemSize s p"
    using slot_index(2) [OF assms] by (intro mult_le_mono1) simp
  moreover have "k mod ?n * 8 + 8 \<le> ?n * 8" using slot_index(3) [OF assms] by simp
  ultimately show "slotAddr s p k + 8 \<le> p + elems s p * elemSize s p"
    by (simp add: slotAddr_def Let_def elemSize_def)
  show "p \<le> slotAddr s p k" by (simp add: slotAddr_def Let_def)
qed

lemma slot_apart:
  assumes "j < numSlots s p" "k < numSlots s p" "j \<noteq> k"
  shows "apart (slotAddr s p j) (slotAddr s p k)"
proof -
  let ?n = "numObjptrs (typeOf s p)" and ?e = "elemSize s p"
  have *: "slotAddr s p i + 8 \<le> slotAddr s p i'"
    if "i div ?n < i' div ?n" "i < numSlots s p" for i i'
  proof -
    have "Suc (i div ?n) * ?e \<le> i' div ?n * ?e" using that(1) by (intro mult_le_mono1) simp
    moreover have "i mod ?n * 8 + 8 \<le> ?n * 8" using slot_index(3) [OF that(2)] by simp
    ultimately show ?thesis by (simp add: slotAddr_def Let_def elemSize_def)
  qed
  show ?thesis
  proof (cases "j div ?n = k div ?n")
    case True
    then have "j mod ?n \<noteq> k mod ?n" using assms(3) by (metis div_mult_mod_eq)
    then show ?thesis using True by (auto simp: slotAddr_def Let_def apart_def)
  next
    case False
    then show ?thesis using * [of j k] * [of k j] assms unfolding apart_def by (meson nat_neq_iff)
  qed
qed

definition objWords :: "GC_state \<Rightarrow> pointer \<Rightarrow> pointer set" where
  "objWords s p = {getHeaderp p} \<union>
     (if tag (typeOf s p) = SEQUENCE_TAG then {getSequenceLengthp p, getSequenceCounterp p} else {}) \<union>
     slotAddr s p ` {..<numSlots s p}"

lemma objWords_extent:
  assumes "object_ok s p" "a \<in> objWords s p"
  shows "p - metaBytes s p \<le> a" "a + 8 \<le> p + elems s p * elemSize s p"
proof -
  consider "a = getHeaderp p" | "tag (typeOf s p) = SEQUENCE_TAG" "a = getSequenceLengthp p \<or> a = getSequenceCounterp p"
    | k where "k < numSlots s p" "a = slotAddr s p k"
    using assms(2) by (auto simp: objWords_def split: if_splits)
  then have "p - metaBytes s p \<le> a \<and> a + 8 \<le> p + elems s p * elemSize s p"
  proof cases
    case 3
    then show ?thesis using slot_range [OF 3(1)] diff_le_self [of p "metaBytes s p"] by linarith
  qed (use assms(1) in \<open>auto simp: object_ok_def metaBytes_def getHeaderp_def getSequenceLengthp_def
      getSequenceCounterp_def split: if_splits\<close>)
  then show "p - metaBytes s p \<le> a" "a + 8 \<le> p + elems s p * elemSize s p" by simp_all
qed

lemma objWords_apart:
  assumes "heap_graph s Objs" "p \<in> Objs" "q \<in> Objs" "p \<noteq> q" "a \<in> objWords s p" "b \<in> objWords s q"
  shows "apart a b"
proof (rule ccontr)
  assume "\<not> apart a b"
  then have "max a b < a + 8" "max a b < b + 8" by (auto simp: apart_def)
  moreover have "object_ok s p" "object_ok s q" using assms by (auto simp: heap_graph_def)
  note objWords_extent [OF this(1) assms(5)] objWords_extent [OF this(2) assms(6)]
  ultimately have "max a b \<in> extent s p" "max a b \<in> extent s q" by (auto simp: extent_def)
  moreover have "extent s p \<inter> extent s q = {}" using assms(1-4) by (simp add: heap_graph_def)
  ultimately show False by blast
qed

lemma header_slot_apart:
  assumes "object_ok s p" "k < numSlots s p"
  shows "apart (getHeaderp p) (slotAddr s p k)"
    "tag (typeOf s p) = SEQUENCE_TAG \<Longrightarrow> apart (getSequenceCounterp p) (slotAddr s p k)"
    "tag (typeOf s p) = SEQUENCE_TAG \<Longrightarrow> apart (getSequenceLengthp p) (slotAddr s p k)"
  using assms slot_range(1) [OF assms(2)]
  by (auto simp: apart_def object_ok_def metaBytes_def getHeaderp_def getSequenceLengthp_def
      getSequenceCounterp_def split: if_splits)

lemma meta_apart:
  assumes "object_ok s p" "tag (typeOf s p) = SEQUENCE_TAG"
  shows "apart (getHeaderp p) (getSequenceCounterp p)" "apart (getHeaderp p) (getSequenceLengthp p)"
    "apart (getSequenceLengthp p) (getSequenceCounterp p)"
  using assms
  by (auto simp: apart_def object_ok_def metaBytes_def getHeaderp_def getSequenceLengthp_def getSequenceCounterp_def)

section \<open>Reachability\<close>

definition edges :: "GC_state \<Rightarrow> pointer set \<Rightarrow> (pointer \<times> pointer) set" where
  "edges s U = {(x, y). x \<in> U \<and> y \<in> U \<and> y \<in> succs s x}"

definition reachIn :: "GC_state \<Rightarrow> pointer set \<Rightarrow> pointer \<Rightarrow> pointer set" where
  "reachIn s U p = {y. (p, y) \<in> (edges s U)\<^sup>*}"

lemma reachIn_self [simp]: "p \<in> reachIn s U p"
  by (simp add: reachIn_def)

lemma reachIn_mono: "U \<subseteq> V \<Longrightarrow> reachIn s U p \<subseteq> reachIn s V p"
  using rtrancl_mono [of "edges s U" "edges s V"] by (auto simp: reachIn_def edges_def)

lemma reachIn_edge: "x \<in> U \<Longrightarrow> y \<in> U \<Longrightarrow> y \<in> succs s x \<Longrightarrow> reachIn s U y \<subseteq> reachIn s U x"
  by (auto simp: reachIn_def edges_def intro: converse_rtrancl_into_rtrancl)

lemma reachIn_closed:
  assumes "p \<in> N" "\<And>x. x \<in> N \<Longrightarrow> succs s x \<inter> U \<subseteq> N"
  shows "reachIn s U p \<subseteq> N"
proof
  fix y assume "y \<in> reachIn s U p"
  then have "(p, y) \<in> (edges s U)\<^sup>*" by (simp add: reachIn_def)
  then show "y \<in> N" using assms by (induction rule: rtrancl_induct) (auto simp: edges_def)
qed



end
