(* ===== verification/Rusage.thy ===== *)
theory Rusage
  imports GC_State "HOL-Library.Signed_Division"
begin

text \<open>
  Resource usage (\<open>rusage.c\<close>) and the timing of collections (\<open>controls.c\<close>). A \<open>timeval\<close> is a pair of
  seconds and microseconds; the C operators \<open>/\<close> and \<open>%\<close> truncate. \<open>getrusage\<close> is an
  operation of the operating system: its n-th answer is a parameter.
\<close>

abbreviation (input) million :: int where "million \<equiv> 1000000"

definition detailedGCTime :: "GC_state \<Rightarrow> bool" where
  "detailedGCTime s \<longleftrightarrow> summary (controls s)"

definition needGCTime :: "GC_state \<Rightarrow> bool" where
  "needGCTime s \<longleftrightarrow> summary (controls s) \<or> messages (controls s) \<or> rusageMeasureGC (controls s)"

definition rusageZero :: rusage where
  "rusageZero = \<lparr>ru_utime = \<lparr>tv_sec = 0, tv_usec = 0\<rparr>, ru_stime = \<lparr>tv_sec = 0, tv_usec = 0\<rparr>\<rparr>"

definition timevalPlus :: "timeval \<Rightarrow> timeval \<Rightarrow> timeval" where
  "timevalPlus t1 t2 =
     (let sec = tv_sec t1 + tv_sec t2;
          usec = tv_usec t1 + tv_usec t2
      in \<lparr>tv_sec = sec + (usec sdiv million), tv_usec = usec smod million\<rparr>)"

definition timevalMinus :: "timeval \<Rightarrow> timeval \<Rightarrow> timeval" where
  "timevalMinus t1 t2 =
     (let sec = (tv_sec t1 - tv_sec t2) - 1;
          usec = tv_usec t1 + million - tv_usec t2
      in \<lparr>tv_sec = sec + (usec sdiv million), tv_usec = usec smod million\<rparr>)"

definition rusagePlusMax :: "rusage \<Rightarrow> rusage \<Rightarrow> rusage" where
  "rusagePlusMax ru1 ru2 =
     \<lparr>ru_utime = timevalPlus (ru_utime ru1) (ru_utime ru2),
      ru_stime = timevalPlus (ru_stime ru1) (ru_stime ru2)\<rparr>"

definition rusageMinusMax :: "rusage \<Rightarrow> rusage \<Rightarrow> rusage" where
  "rusageMinusMax ru1 ru2 =
     \<lparr>ru_utime = timevalMinus (ru_utime ru1) (ru_utime ru2),
      ru_stime = timevalMinus (ru_stime ru1) (ru_stime ru2)\<rparr>"

text \<open>The casts to \<open>uintmax_t\<close> are of times that are not negative.\<close>

definition rusageTime :: "rusage \<Rightarrow> nat" where
  "rusageTime ru =
     1000 * nat (tv_sec (ru_utime ru)) + 1000 * nat (tv_sec (ru_stime ru))
     + nat (tv_usec (ru_utime ru)) div 1000 + nat (tv_usec (ru_stime ru)) div 1000"

definition startTiming :: "OS \<Rightarrow> GC_state \<Rightarrow> GC_state \<times> rusage" where
  "startTiming os s = (s\<lparr>osCalls := osCalls s + 1\<rparr>, os_getrusage os (osCalls s))"

text \<open>The new accumulated usage and the elapsed milliseconds.\<close>

definition stopTiming :: "OS \<Rightarrow> GC_state \<Rightarrow> rusage \<Rightarrow> rusage \<Rightarrow> GC_state \<times> rusage \<times> nat" where
  "stopTiming os s ru_start ru_acc =
     (let ru_finish = os_getrusage os (osCalls s);
          ru_total = rusageMinusMax ru_finish ru_start
      in (s\<lparr>osCalls := osCalls s + 1\<rparr>, rusagePlusMax ru_acc ru_total, rusageTime ru_total))"

text \<open>The timing of a phase of a collection, when the summary asks for it.\<close>

definition startDetailed :: "OS \<Rightarrow> GC_state \<Rightarrow> GC_state \<times> rusage" where
  "startDetailed os s = (if detailedGCTime s then startTiming os s else (s, rusageZero))"

definition stopDetailed ::
  "OS \<Rightarrow> rusage \<Rightarrow> (GC_cumulativeStatistics \<Rightarrow> rusage)
   \<Rightarrow> ((rusage \<Rightarrow> rusage) \<Rightarrow> GC_cumulativeStatistics \<Rightarrow> GC_cumulativeStatistics) \<Rightarrow> GC_state \<Rightarrow> GC_state" where
  "stopDetailed os ru_start acc upd s =
     (if detailedGCTime s then
        (let (s, ru, _) = stopTiming os s ru_start (acc (cumulativeStatistics s))
         in cumul_upd (upd (\<lambda>_. ru)) s)
      else s)"

section \<open>The arithmetic is exact\<close>

definition tv_ok :: "timeval \<Rightarrow> bool" where
  "tv_ok t \<longleftrightarrow> 0 \<le> tv_usec t \<and> tv_usec t < million"

definition micros :: "timeval \<Rightarrow> int" where
  "micros t = million * tv_sec t + tv_usec t"

lemma truncating_pos: "0 \<le> (x :: int) \<Longrightarrow> x sdiv million = x div million \<and> x smod million = x mod million"
  by (simp add: signed_divide_int_def signed_modulo_int_def sgn_if minus_mult_div_eq_mod [symmetric])

lemma timevalPlus_micros:
  assumes "tv_ok a" "tv_ok b"
  shows "tv_ok (timevalPlus a b)" "micros (timevalPlus a b) = micros a + micros b"
  using assms truncating_pos [of "tv_usec a + tv_usec b"]
  by (auto simp: tv_ok_def micros_def timevalPlus_def Let_def)

lemma timevalMinus_micros:
  assumes "tv_ok a" "tv_ok b"
  shows "tv_ok (timevalMinus a b)" "micros (timevalMinus a b) = micros a - micros b"
  using assms truncating_pos [of "tv_usec a + million - tv_usec b"]
  by (auto simp: tv_ok_def micros_def timevalMinus_def Let_def)

lemma micros_eq: "tv_ok a \<Longrightarrow> tv_ok b \<Longrightarrow> micros a = micros b \<Longrightarrow> a = b"
proof -
  assume a: "tv_ok a" "tv_ok b" "micros a = micros b"
  have "micros a div million = tv_sec a" "micros b div million = tv_sec b"
    using a by (auto simp: micros_def tv_ok_def)
  then have "tv_sec a = tv_sec b" using a(3) by metis
  then show "a = b" using a(3) by (simp add: micros_def)
qed

definition ru_ok :: "rusage \<Rightarrow> bool" where
  "ru_ok r \<longleftrightarrow> tv_ok (ru_utime r) \<and> tv_ok (ru_stime r)"

text \<open>
  C33: The timing of a collection loses nothing: the difference of two readings and the
  accumulated sum are exact in microseconds and normalised, whatever borrow or carry
  between the fields is needed, so adding the measured interval to the first reading
  gives the second.
\<close>

theorem rusage_exact:
  assumes "ru_ok start" "ru_ok finish" "ru_ok acc"
  shows "rusagePlusMax start (rusageMinusMax finish start) = finish
    \<and> ru_ok (rusagePlusMax acc (rusageMinusMax finish start))
    \<and> micros (ru_utime (rusagePlusMax acc (rusageMinusMax finish start)))
        = micros (ru_utime acc) + (micros (ru_utime finish) - micros (ru_utime start))"
proof -
  note m = timevalMinus_micros and p = timevalPlus_micros
  have "timevalPlus a (timevalMinus b a) = b" if "tv_ok a" "tv_ok b" for a b
    using that m [of b a] p [of a "timevalMinus b a"] by (intro micros_eq) auto
  then show ?thesis
    using assms m p by (simp add: rusagePlusMax_def rusageMinusMax_def ru_ok_def)
qed

theorem rusage_exact_witness:
  "rusagePlusMax \<lparr>ru_utime = \<lparr>tv_sec = 1, tv_usec = 900000\<rparr>, ru_stime = timeval0\<rparr>
     (rusageMinusMax \<lparr>ru_utime = \<lparr>tv_sec = 3, tv_usec = 100000\<rparr>, ru_stime = timeval0\<rparr>
        \<lparr>ru_utime = \<lparr>tv_sec = 1, tv_usec = 900000\<rparr>, ru_stime = timeval0\<rparr>)
   = \<lparr>ru_utime = \<lparr>tv_sec = 3, tv_usec = 100000\<rparr>, ru_stime = timeval0\<rparr>"
  using rusage_exact [of "\<lparr>ru_utime = \<lparr>tv_sec = 1, tv_usec = 900000\<rparr>, ru_stime = timeval0\<rparr>"
      "\<lparr>ru_utime = \<lparr>tv_sec = 3, tv_usec = 100000\<rparr>, ru_stime = timeval0\<rparr>" rusageZero]
  by (simp add: ru_ok_def tv_ok_def timeval0_def rusageZero_def)

end
