(* ===== verification/Forward.thy ===== *)
theory Forward
  imports Heap Rusage
begin

text \<open>
  The copying collector: forwarding of objects (\<open>forward.c\<close>) and the major and minor
  collections that copy the objects reachable from the globals to the other heap, or
  from the nursery to the end of the old generation (\<open>cheney-copy.c\<close>). The closures
  change the state and the forward state, whose end of the copied objects is the end of
  the range that the last traversal follows.
\<close>

record GC_forwardState =
  amInMinorGC :: bool
  fs_back :: pointer
  toStart :: pointer
  toLimit :: pointer

section \<open>Forwarding pointers\<close>

definition isPointerInToSpace :: "pointer \<Rightarrow> GC_forwardState \<Rightarrow> bool" where
  "isPointerInToSpace p forwardState \<longleftrightarrow>
     \<not> isPointer p \<or> (toStart forwardState \<le> p \<and> p < toLimit forwardState)"

definition isObjptrInToSpace :: "objptr \<Rightarrow> GC_forwardState \<Rightarrow> bool" where
  "isObjptrInToSpace op forwardState \<longleftrightarrow>
     (if \<not> isObjptr op then True
      else isPointerInToSpace (objptrToPointer op (toStart forwardState)) forwardState)"

definition getFwdPtrp :: "pointer \<Rightarrow> pointer" where
  "getFwdPtrp p = getHeaderp p"

definition getFwdPtr :: "GC_state \<Rightarrow> pointer \<Rightarrow> objptr" where
  "getFwdPtr s p = load64 (mem s) (getFwdPtrp p)"

definition hasFwdPtr :: "GC_state \<Rightarrow> pointer \<Rightarrow> bool" where
  "hasFwdPtr s p \<longleftrightarrow> \<not> (GC_VALID_HEADER_MASK AND getHeader s p \<noteq> 0)"

text \<open>
  The sizes of the object to copy: the bytes before the data, the bytes of data that are
  copied, and the bytes skipped behind them. A stack may shrink first; its unused part is
  not copied.
\<close>

definition forwardSizes :: "GC_state \<Rightarrow> pointer \<Rightarrow> GC_objectType \<Rightarrow> (GC_state \<times> nat \<times> nat \<times> nat) res" where
  "forwardSizes s p t =
     (if tag t = NORMAL_TAG \<or> tag t = WEAK_TAG then
        Inr (s, GC_NORMAL_METADATA_SIZE, bytesNonObjptrs t + numObjptrs t * OBJPTR_SIZE, 0)
      else if tag t = SEQUENCE_TAG then
        Inr (s, GC_SEQUENCE_METADATA_SIZE,
             sizeofSequenceNoMetaData s (getSequenceLength s p) (bytesNonObjptrs t) (numObjptrs t), 0)
      else
        (let stack = p; current = (getStackCurrent s = stack)
         in bindE (sizeofStackShrinkReserved s stack current) (\<lambda>reservedNew.
              let s = (if reservedNew < stack_reserved s stack
                       then set_stack_reserved stack reservedNew s else s)
              in Inr (s, GC_STACK_METADATA_SIZE, sizeof_GC_stack + stack_used s stack,
                      wrap_sub (stack_reserved s stack) (stack_used s stack)))))"

definition linkWeak :: "GC_forwardState \<Rightarrow> pointer \<Rightarrow> GC_state \<Rightarrow> GC_state" where
  "linkWeak forwardState w s =
     (if isObjptr (weak_objptr s w)
         \<and> (\<not> amInMinorGC forwardState \<or> isObjptrInNursery s (weak_objptr s w))
      then (set_weak_link w (weaks s) s)\<lparr>weaks := w\<rparr>
      else s)"

definition forwardObjptr :: "GC_forwardState foreachObjptrFun" where
  "forwardObjptr st opp =
     (case st of (s, forwardState) \<Rightarrow>
        let op = load64 (mem s) opp; p = objptrToPointer op (heapStart (heap s))
        in bindE
             (if \<not> hasFwdPtr s p then
                bindE (splitHeader s (getHeader s p)) (\<lambda>t.
                bindE (forwardSizes s p t) (\<lambda>(s, metaDataBytes, objectBytes, skip).
                  let size = metaDataBytes + objectBytes
                  in bindE (GC_memcpy (mem s) (p - metaDataBytes) (fs_back forwardState) size) (\<lambda>m.
                       let s = s\<lparr>mem := m\<rparr>;
                           s = (if tag t = WEAK_TAG \<and> numObjptrs t = 1
                                then linkWeak forwardState
                                       (fs_back forwardState + GC_NORMAL_METADATA_SIZE + offsetofWeak s) s
                                else s);
                           s = write64 (getFwdPtrp p)
                                 (pointerToObjptr (fs_back forwardState + metaDataBytes) (toStart forwardState)) s
                       in Inr (s, forwardState\<lparr>fs_back := fs_back forwardState + (size + skip)\<rparr>))))
              else Inr (s, forwardState))
             (\<lambda>(s, forwardState). Inr (write64 opp (getFwdPtr s p) s, forwardState)))"

definition forwardObjptrIfInNursery :: "GC_forwardState foreachObjptrFun" where
  "forwardObjptrIfInNursery st opp =
     (let s = fst st; p = objptrToPointer (load64 (mem s) opp) (heapStart (heap s))
      in if p < nursery (heap s) \<or> p > frontier s then Inr st else forwardObjptr st opp)"

definition forwardObjptrIfInHeap :: "GC_forwardState foreachObjptrFun" where
  "forwardObjptrIfInHeap st opp =
     (let s = fst st; p = objptrToPointer (load64 (mem s) opp) (heapStart (heap s))
      in if p < heapStart (heap s) \<or> p > frontier s then Inr st else forwardObjptr st opp)"

section \<open>Intergenerational pointers\<close>

text \<open>
  The walk through the cards: \<open>check\<close> is the label \<open>checkAll\<close>, otherwise control is at
  \<open>checkCard\<close>. A marked card advances the index to that of the object after it, an
  unmarked one by 1, so the number of cards bounds the steps.
\<close>

fun forwardCardsLoop ::
  "nat \<Rightarrow> nat \<Rightarrow> pointer \<Rightarrow> bool \<Rightarrow> GC_state \<times> GC_forwardState \<Rightarrow> nat \<Rightarrow> pointer \<Rightarrow> pointer
   \<Rightarrow> (GC_state \<times> GC_forwardState) res" where
  "forwardCardsLoop 0 maxCardIndex oldGenEnd check st cardIndex cardStart objectStart = Inl OutOfFuel"
| "forwardCardsLoop (Suc n) maxCardIndex oldGenEnd check st cardIndex cardStart objectStart =
     (if check \<and> cardIndex = maxCardIndex then Inr st
      else
        (let s = fst st; oldGenStart = heapStart (heap s)
         in if mem s (cardMap (generationalMaps s) + cardIndex) \<noteq> 0 then
              (let s = cumul_upd (\<lambda>c. c\<lparr>numCardsMarked := numCardsMarked c + 1\<rparr>) s;
                   cardEnd = min oldGenEnd (cardStart + CARD_SIZE);
                   lastObject = objectStart
               in bindE (foreachObjptrInRange (cardEnd - objectStart + 1) (s, snd st) objectStart
                           (\<lambda>_. cardEnd) forwardObjptrIfInNursery False) (\<lambda>((s, fs), objectStart).
                    let s = cumul_upd (\<lambda>c. c\<lparr>bytesScannedMinor :=
                              bytesScannedMinor c + (objectStart - lastObject)\<rparr>) s
                    in if objectStart = oldGenEnd then Inr (s, fs)
                       else
                         (let cardIndex = sizeToCardMapIndex (objectStart - oldGenStart);
                              cardStart = oldGenStart + cardMapIndexToSize cardIndex
                          in forwardCardsLoop n maxCardIndex oldGenEnd False (s, fs) cardIndex cardStart objectStart)))
            else
              (let x = mem s (crossMap (generationalMaps s) + cardIndex);
                   objectStart = (if x \<noteq> CROSS_MAP_EMPTY then cardStart + unat x * CROSS_MAP_OFFSET_SCALE
                                  else objectStart)
               in forwardCardsLoop n maxCardIndex oldGenEnd True st (cardIndex + 1) (cardStart + CARD_SIZE)
                    objectStart)))"

definition forwardInterGenerationalObjptrs :: "GC_state \<times> GC_forwardState \<Rightarrow> (GC_state \<times> GC_forwardState) res" where
  "forwardInterGenerationalObjptrs st =
     bindE (updateCrossMap (fst st)) (\<lambda>s.
       let maxCardIndex = sizeToCardMapIndex (align (oldGenSize (heap s)) CARD_SIZE);
           oldGenEnd = heapStart (heap s) + oldGenSize (heap s);
           objectStart = alignFrontier s (heapStart (heap s))
       in forwardCardsLoop (2 * maxCardIndex + 2) maxCardIndex oldGenEnd True (s, snd st) 0
            (heapStart (heap s)) objectStart)"

section \<open>Weak pointers after the copy\<close>

text \<open>The list of linked weak objects; a cycle would never end.\<close>

fun updateWeaksLoop :: "nat \<Rightarrow> GC_state \<Rightarrow> pointer \<Rightarrow> GC_state res" where
  "updateWeaksLoop 0 s w = Inl OutOfFuel"
| "updateWeaksLoop (Suc n) s w =
     (if w = 0 then Inr s
      else
        (let p = objptrToPointer (weak_objptr s w) (heapStart (heap s));
             s = (if hasFwdPtr s p then set_weak_objptr w (getFwdPtr s p) s
                  else set_weak_objptr w BOGUS_OBJPTR
                         (write64 (getHeaderp (w - offsetofWeak s)) GC_WEAK_GONE_HEADER s))
         in updateWeaksLoop n s (weak_link s w)))"

definition updateWeaksForCheneyCopy :: "nat \<Rightarrow> GC_state \<Rightarrow> GC_state res" where
  "updateWeaksForCheneyCopy n s =
     bindE (updateWeaksLoop n s (weaks s)) (\<lambda>s. Inr (s\<lparr>weaks := 0\<rparr>))"

definition swapHeapsForCheneyCopy :: "GC_state \<Rightarrow> GC_state" where
  "swapHeapsForCheneyCopy s =
     (let tempHeap = secondaryHeap s;
          s = s\<lparr>secondaryHeap := heap s\<rparr>;
          s = s\<lparr>heap := tempHeap\<rparr>
      in setCardMapAndCrossMap s)"

section \<open>Collections\<close>

text \<open>
  The copied bytes bound the objects of the traversal and the linked weak objects; every
  object has at least 8 bytes.
\<close>

definition majorCheneyCopyDone :: "OS \<Rightarrow> rusage \<Rightarrow> GC_forwardState \<Rightarrow> GC_state \<Rightarrow> GC_state" where
  "majorCheneyCopyDone os ru_start forwardState s =
     (let s = secondaryHeap_upd (\<lambda>h. h\<lparr>oldGenSize := fs_back forwardState - heapStart h\<rparr>) s;
          bytes = oldGenSize (secondaryHeap s);
          s = cumul_upd (\<lambda>c. c\<lparr>bytesCopied := bytesCopied c + bytes\<rparr>) s;
          s = swapHeapsForCheneyCopy s;
          s = lastMajor_upd (\<lambda>m. m\<lparr>lm_kind := GC_COPYING\<rparr>) s
      in stopDetailed os ru_start ru_gcCopying ru_gcCopying_update s)"

definition majorCheneyCopyGC :: "OS \<Rightarrow> GC_state \<Rightarrow> GC_state res" where
  "majorCheneyCopyGC os s =
     (let (s, ru_start) = startDetailed os s;
          s = cumul_upd (\<lambda>c. c\<lparr>numCopyingGCs := numCopyingGCs c + 1\<rparr>) s;
          start = alignFrontier s (heapStart (secondaryHeap s));
          forwardState = \<lparr>amInMinorGC = False, fs_back = start, toStart = heapStart (secondaryHeap s),
                          toLimit = heapStart (secondaryHeap s) + heapSize (secondaryHeap s)\<rparr>;
          fuel = heapSize (secondaryHeap s) + 2
      in bindE (foreachGlobalObjptr (s, forwardState) forwardObjptrIfInHeap) (\<lambda>st.
         bindE (foreachObjptrInRange fuel st start (\<lambda>st. fs_back (snd st)) forwardObjptrIfInHeap True)
           (\<lambda>((s, forwardState), _).
         bindE (updateWeaksForCheneyCopy fuel s) (\<lambda>s.
           Inr (majorCheneyCopyDone os ru_start forwardState s)))))"

definition minorCheneyCopyDone :: "OS \<Rightarrow> rusage \<Rightarrow> nat \<Rightarrow> GC_state \<Rightarrow> GC_state" where
  "minorCheneyCopyDone os ru_start bytes s =
     (let s = cumul_upd (\<lambda>c. c\<lparr>bytesCopiedMinor := bytesCopiedMinor c + bytes\<rparr>) s;
          s = heap_upd (\<lambda>h. h\<lparr>oldGenSize := oldGenSize h + bytes\<rparr>) s;
          s = lastMajor_upd (\<lambda>m. m\<lparr>lm_numMinorGCs := lm_numMinorGCs m + 1\<rparr>) s
      in stopDetailed os ru_start ru_gcMinor ru_gcMinor_update s)"

definition minorCheneyCopyGC :: "OS \<Rightarrow> GC_state \<Rightarrow> GC_state res" where
  "minorCheneyCopyGC os s =
     (let allocated = wrap_sub (frontier s) (nursery (heap s))
      in if allocated = 0 then Inr s
         else
           (let s = cumul_upd (\<lambda>c. c\<lparr>bytesAllocated := bytesAllocated c + allocated\<rparr>) s
            in if \<not> canMinor s then
                 Inr (heap_upd (\<lambda>h. h\<lparr>oldGenSize := wrap (oldGenSize h + allocated)\<rparr>) s)
               else
                 (let (s, ru_start) = startDetailed os s;
                      s = cumul_upd (\<lambda>c. c\<lparr>numMinorGCs := numMinorGCs c + 1\<rparr>) s;
                      start = heapStart (heap s) + oldGenSize (heap s);
                      forwardState = \<lparr>amInMinorGC = True, fs_back = start, toStart = start,
                                      toLimit = start + allocated\<rparr>;
                      fuel = allocated + 2
                  in bindE (foreachGlobalObjptr (s, forwardState) forwardObjptrIfInNursery) (\<lambda>st.
                     bindE (forwardInterGenerationalObjptrs st) (\<lambda>st.
                     bindE (foreachObjptrInRange fuel st start (\<lambda>st. fs_back (snd st))
                              forwardObjptrIfInNursery True) (\<lambda>((s, forwardState), _).
                     bindE (updateWeaksForCheneyCopy fuel s) (\<lambda>s.
                       Inr (minorCheneyCopyDone os ru_start (fs_back forwardState - start) s))))))))"

section \<open>What forwarding leaves alone\<close>

text \<open>
  Forwarding changes the memory and the list of weak objects only, and its end never goes
  back.
\<close>

definition only_mem_weaks :: "GC_state \<Rightarrow> GC_state \<Rightarrow> bool" where
  "only_mem_weaks s t \<longleftrightarrow> t = s\<lparr>mem := mem t, weaks := weaks t\<rparr>"

lemma only_mem_weaks_intros [simp, intro]:
  "only_mem_weaks s s" "only_mem_weaks s (s\<lparr>mem := m\<rparr>)" "only_mem_weaks s (s\<lparr>weaks := w\<rparr>)"
  "only_mem_weaks s (s\<lparr>mem := m, weaks := w\<rparr>)" "only_mem_weaks s (write64 a v s)"
  by (simp_all add: only_mem_weaks_def write64_def)

lemma only_mem_weaks_trans: "only_mem_weaks s t \<Longrightarrow> only_mem_weaks t u \<Longrightarrow> only_mem_weaks s u"
proof -
  assume t: "only_mem_weaks s t" and u: "only_mem_weaks t u"
  have "u = t\<lparr>mem := mem u, weaks := weaks u\<rparr>" using u by (simp only: only_mem_weaks_def)
  also have "\<dots> = s\<lparr>mem := mem t, weaks := weaks t\<rparr>\<lparr>mem := mem u, weaks := weaks u\<rparr>"
    using t by (simp only: only_mem_weaks_def)
  also have "\<dots> = s\<lparr>mem := mem u, weaks := weaks u\<rparr>" by simp
  finally show ?thesis by (simp only: only_mem_weaks_def)
qed

lemma forwardSizes_frame:
  "forwardSizes s p t = Inr (s', a, b, c) \<Longrightarrow> only_mem_weaks s s'"
  by (auto simp: forwardSizes_def Let_def set_stack_reserved_def split: if_splits)

lemma linkWeak_frame: "only_mem_weaks s (linkWeak fs w s)"
  by (simp add: linkWeak_def set_weak_link_def write64_def)

definition fwd_frame :: "GC_state \<Rightarrow> GC_forwardState \<Rightarrow> GC_state \<times> GC_forwardState \<Rightarrow> bool" where
  "fwd_frame s fs st \<longleftrightarrow> only_mem_weaks s (fst st) \<and> fs_back fs \<le> fs_back (snd st)
     \<and> snd st = fs\<lparr>fs_back := fs_back (snd st)\<rparr>"

lemma fwd_frame_refl [simp]: "fwd_frame s fs (s, fs)"
  by (simp add: fwd_frame_def)

lemma forwardObjptr_frame:
  assumes "fwd_frame s0 fs0 st" "forwardObjptr st opp = Inr st'"
  shows "fwd_frame s0 fs0 st'"
proof -
  obtain s fs where st: "st = (s, fs)" by (cases st)
  define p where "p = unat (load64 (mem s) opp)"
  show ?thesis
  proof (cases "hasFwdPtr s p")
    case True
    then have "st' = (write64 opp (getFwdPtr s p) s, fs)"
      using assms(2) by (simp add: forwardObjptr_def st p_def Let_def)
    then show ?thesis using assms(1) only_mem_weaks_trans by (auto simp: fwd_frame_def st)
  next
    case False
    obtain t s1 m d skip m1 s2 v w where
      sz: "forwardSizes s p t = Inr (s1, m, d, skip)"
      and s2: "s2 = (if tag t = WEAK_TAG \<and> numObjptrs t = 1
                     then linkWeak fs w (s1\<lparr>mem := m1\<rparr>) else s1\<lparr>mem := m1\<rparr>)"
      and st': "st' = (write64 opp (getFwdPtr (write64 (getFwdPtrp p) v s2) p) (write64 (getFwdPtrp p) v s2),
                       fs\<lparr>fs_back := fs_back fs + (m + d + skip)\<rparr>)"
      using assms(2) False
      by (auto simp: forwardObjptr_def st p_def [symmetric] Let_def split: prod.splits)
    have "only_mem_weaks s1 s2" unfolding s2 using only_mem_weaks_trans [OF only_mem_weaks_intros(2) linkWeak_frame] by auto
    then have "only_mem_weaks s (fst st')"
      using forwardSizes_frame [OF sz] only_mem_weaks_trans unfolding st' fst_conv
      by (meson only_mem_weaks_intros(5))
    with assms(1) have "only_mem_weaks s0 (fst st')"
      using only_mem_weaks_trans [of s0 s "fst st'"] by (simp add: fwd_frame_def st)
    moreover have "fs = fs0\<lparr>fs_back := fs_back fs\<rparr>" "fs_back fs0 \<le> fs_back fs"
      using assms(1) by (simp_all add: fwd_frame_def st)
    moreover from this(1) have "snd st' = fs0\<lparr>fs_back := fs_back (snd st')\<rparr>"
      unfolding st' by (cases fs; cases fs0) simp
    ultimately show ?thesis by (simp add: fwd_frame_def st')
  qed
qed

interpretation fwdHeap: foreach_invariant forwardObjptrIfInHeap "fwd_frame s fs" for s fs
  by unfold_locales (auto simp: forwardObjptrIfInHeap_def Let_def intro: forwardObjptr_frame split: if_splits)

interpretation fwdNursery: foreach_invariant forwardObjptrIfInNursery "fwd_frame s fs" for s fs
  by unfold_locales (auto simp: forwardObjptrIfInNursery_def Let_def intro: forwardObjptr_frame split: if_splits)


section \<open>Forwarding preserves sharing\<close>

lemma forward_again:
  assumes "hasFwdPtr s p" "unat (load64 (mem s) opp) = p"
  shows "forwardObjptr (s, fs) opp = Inr (write64 opp (getFwdPtr s p) s, fs)"
  using assms by (simp add: forwardObjptr_def Let_def)

text \<open>An object that is not a stack and not weak, with the bytes it occupies and where they go.\<close>

definition fwd_ready :: "GC_state \<Rightarrow> GC_forwardState \<Rightarrow> pointer \<Rightarrow> nat \<Rightarrow> nat \<Rightarrow> bool" where
  "fwd_ready s fs p m d \<longleftrightarrow>
     (case splitHeader s (getHeader s p) of
        Inl _ \<Rightarrow> False
      | Inr t \<Rightarrow> tag t = NORMAL_TAG \<or> tag t = SEQUENCE_TAG)
     \<and> sizeofObjectAux s p = Inr (m, d) \<and> \<not> hasFwdPtr s p \<and> m \<le> p
     \<and> (p + d \<le> fs_back fs \<or> fs_back fs + (m + d) \<le> p - m)
     \<and> fs_back fs + m < 18446744073709551616 \<and> (fs_back fs + m) mod 4 = 0"

definition outside :: "pointer \<Rightarrow> nat \<Rightarrow> pointer \<Rightarrow> nat \<Rightarrow> bool" where
  "outside a n b k \<longleftrightarrow> a + n \<le> b \<or> b + k \<le> a"

lemma even_word: "n mod 4 = 0 \<Longrightarrow> n < 18446744073709551616 \<Longrightarrow> (1 :: 64 word) AND word_of_nat n = 0"
proof -
  assume n: "n mod 4 = 0" "n < 18446744073709551616"
  then obtain k where "n = 4 * k" by (metis mod_0_imp_dvd dvdE)
  then have "word_of_nat n = (push_bit 2 (word_of_nat k) :: 64 word)"
    by (simp add: push_bit_eq_mult)
  then show ?thesis by (simp only:) (rule bit_word_eqI, auto simp: bit_simps)
qed

lemma forward_fresh:
  assumes ready: "fwd_ready s fs p m d" and p: "unat (load64 (mem s) opp) = p"
    and slot: "outside opp 8 (p - m) (m + d)" "outside opp 8 (fs_back fs) (m + d)"
  shows "\<exists>s'. forwardObjptr (s, fs) opp = Inr (s', fs\<lparr>fs_back := fs_back fs + (m + d)\<rparr>)
    \<and> load64 (mem s') opp = word_of_nat (fs_back fs + m)
    \<and> (\<forall>i<m + d. mem s' (fs_back fs + i) = mem s (p - m + i))
    \<and> hasFwdPtr s' p \<and> getFwdPtr s' p = word_of_nat (fs_back fs + m)
    \<and> (\<forall>b. outside b 1 (fs_back fs) (m + d) \<and> outside b 1 (p - 8) 8 \<and> outside b 1 opp 8
          \<longrightarrow> mem s' b = mem s b)"
proof -
  let ?b = "fs_back fs"
  obtain t where t: "splitHeader s (getHeader s p) = Inr t" "tag t = NORMAL_TAG \<or> tag t = SEQUENCE_TAG"
    using ready by (auto simp: fwd_ready_def split: sum.splits)
  have r: "sizeofObjectAux s p = Inr (m, d)" "\<not> hasFwdPtr s p" "m \<le> p"
    "p + d \<le> ?b \<or> ?b + (m + d) \<le> p - m" "?b + m < 18446744073709551616" "(?b + m) mod 4 = 0"
    using ready by (auto simp: fwd_ready_def)
  have m8: "8 \<le> m" using r(1) t by (auto simp: sizeofObjectAux_def)
  have sz: "forwardSizes s p t = Inr (s, m, d, 0)"
    using r(1) t by (auto simp: sizeofObjectAux_def forwardSizes_def)
  define m1 where "m1 = copy_block (mem s) (p - m) ?b (m + d)"
  have cp: "GC_memcpy (mem s) (p - m) ?b (m + d) = Inr m1"
    using r(3,4) m8 by (auto simp: GC_memcpy_def m1_def)
  define v where "v = (word_of_nat (?b + m) :: 64 word)"
  define s2 where "s2 = write64 (p - 8) v (s\<lparr>mem := m1\<rparr>)"
  have fwd: "load64 (mem s2) (p - 8) = v" by (simp add: s2_def)
  have run: "forwardObjptr (s, fs) opp = Inr (write64 opp v s2, fs\<lparr>fs_back := ?b + (m + d)\<rparr>)"
    using r(2) t sz cp
    by (auto simp: forwardObjptr_def Let_def getFwdPtrp_def getFwdPtr_def getHeaderp_def v_def s2_def p
        simp del: of_nat_add)
  have slot8: "opp + 8 \<le> p - 8 \<or> p - 8 + 8 \<le> opp"
    using slot(1) m8 r(3) by (auto simp: outside_def)
  have keep: "load64 (mem (write64 opp v s2)) (p - 8) = v"
    using slot8 m8 r(3) by (auto simp: mem_simps fwd)
  have dst: "mem (write64 opp v s2) (?b + i) = mem s (p - m + i)" if "i < m + d" for i
  proof -
    have "mem (write64 opp v s2) (?b + i) = mem s2 (?b + i)"
      using slot(2) that by (auto simp: outside_def store64_other)
    also have "\<dots> = m1 (?b + i)"
    proof -
      have "?b + i < p - 8 \<or> p - 8 + 8 \<le> ?b + i" using r(3,4) m8 that by linarith
      then show ?thesis by (simp add: s2_def store64_other)
    qed
    finally show ?thesis using that by (simp add: m1_def copy_block_def)
  qed
  have "mem (write64 opp v s2) b = mem s b"
    if "outside b 1 ?b (m + d)" "outside b 1 (p - 8) 8" "outside b 1 opp 8" for b
    using that m8 r(3) by (auto simp: outside_def s2_def store64_other m1_def copy_block_def)
  moreover have "hasFwdPtr (write64 opp v s2) p"
    using keep even_word [OF r(6,5)] by (simp add: hasFwdPtr_def getHeader_def getHeaderp_def v_def)
  moreover have "getFwdPtr (write64 opp v s2) p = v"
    using keep by (simp add: getFwdPtr_def getFwdPtrp_def getHeaderp_def)
  ultimately show ?thesis using run dst unfolding v_def by auto
qed

text \<open>
  C6: Forwarding keeps sharing: after two slots that hold the same object have been
  forwarded, both hold the address of one copy; the object was copied once, byte for byte,
  and nothing else was written but the two slots and the forwarding pointer in the old
  header.
\<close>

theorem forwardObjptr_sharing:
  assumes "fwd_ready s fs p m d"
    and "unat (load64 (mem s) a) = p" "unat (load64 (mem s) b) = p"
    and "outside a 8 (p - m) (m + d)" "outside a 8 (fs_back fs) (m + d)"
    and "outside b 8 (p - m) (m + d)" "outside b 8 (fs_back fs) (m + d)" "outside a 8 b 8"
  shows "\<exists>s1 s2. forwardObjptr (s, fs) a = Inr (s1, fs\<lparr>fs_back := fs_back fs + (m + d)\<rparr>)
    \<and> forwardObjptr (s1, fs\<lparr>fs_back := fs_back fs + (m + d)\<rparr>) b
        = Inr (s2, fs\<lparr>fs_back := fs_back fs + (m + d)\<rparr>)
    \<and> load64 (mem s2) a = word_of_nat (fs_back fs + m) \<and> load64 (mem s2) b = word_of_nat (fs_back fs + m)
    \<and> (\<forall>i<m + d. mem s2 (fs_back fs + i) = mem s (p - m + i))
    \<and> (\<forall>c. outside c 1 (fs_back fs) (m + d) \<and> outside c 1 (p - 8) 8 \<and> outside c 1 a 8 \<and> outside c 1 b 8
          \<longrightarrow> mem s2 c = mem s c)"
proof -
  let ?fs = "fs\<lparr>fs_back := fs_back fs + (m + d)\<rparr>" and ?v = "word_of_nat (fs_back fs + m) :: 64 word"
  obtain s1 where s1: "forwardObjptr (s, fs) a = Inr (s1, ?fs)" "load64 (mem s1) a = ?v"
    "\<forall>i<m + d. mem s1 (fs_back fs + i) = mem s (p - m + i)" "hasFwdPtr s1 p" "getFwdPtr s1 p = ?v"
    "\<forall>c. outside c 1 (fs_back fs) (m + d) \<and> outside c 1 (p - 8) 8 \<and> outside c 1 a 8 \<longrightarrow> mem s1 c = mem s c"
    using forward_fresh [OF assms(1,2,4,5)] by blast
  have m: "8 \<le> m" "m \<le> p" using assms(1)
    by (auto simp: fwd_ready_def sizeofObjectAux_def split: sum.splits if_splits)
  have "mem s1 c = mem s c" if "b \<le> c" "c < b + 8" for c
  proof -
    have "outside c 1 (fs_back fs) (m + d) \<and> outside c 1 (p - 8) 8 \<and> outside c 1 a 8"
      using that assms(6-8) m by (auto simp: outside_def)
    then show ?thesis using s1(6) by blast
  qed
  then have "load64 (mem s1) b = load64 (mem s) b" by (intro load64_cong)
  then have again: "forwardObjptr (s1, ?fs) b = Inr (write64 b ?v s1, ?fs)"
    using forward_again [OF s1(4), of b ?fs] assms(3) s1(5) by simp
  have "load64 (mem (write64 b ?v s1)) a = ?v"
    using s1(2) assms(8) by (auto simp: outside_def mem_simps)
  moreover have "mem (write64 b ?v s1) (fs_back fs + i) = mem s (p - m + i)" if "i < m + d" for i
    using s1(3) that assms(7) by (auto simp: outside_def store64_other)
  moreover have "mem (write64 b ?v s1) c = mem s c"
    if "outside c 1 (fs_back fs) (m + d)" "outside c 1 (p - 8) 8" "outside c 1 a 8" "outside c 1 b 8" for c
    using s1(6) that by (auto simp: outside_def store64_other)
  ultimately show ?thesis using s1(1) again by auto
qed

definition forward_example :: GC_state where
  "forward_example = state0\<lparr>alignment := 8,
     objectTypes := [\<lparr>tag = NORMAL_TAG, hasIdentity = True, bytesNonObjptrs = 8, numObjptrs = 1\<rparr>],
     mem := store64 (store64 (store64 (\<lambda>_. 0) 4088 1) 1024 4096) 1032 4096\<rparr>"

theorem forwardObjptr_sharing_witness:
  "\<exists>s1 s2 fs. forwardObjptr (forward_example, \<lparr>amInMinorGC = False, fs_back = 8192, toStart = 8192, toLimit = 16384\<rparr>) 1024
       = Inr (s1, fs)
    \<and> forwardObjptr (s1, fs) 1032 = Inr (s2, fs) \<and> load64 (mem s2) 1024 = load64 (mem s2) 1032"
proof -
  let ?fs = "\<lparr>amInMinorGC = False, fs_back = 8192, toStart = 8192, toLimit = 16384\<rparr>"
  have h: "getHeader forward_example 4096 = 1" "load64 (mem forward_example) 1024 = 4096"
    "load64 (mem forward_example) 1032 = 4096"
    by (simp_all add: forward_example_def getHeader_def getHeaderp_def mem_simps)
  have t: "splitHeader forward_example 1 =
      Inr \<lparr>tag = NORMAL_TAG, hasIdentity = True, bytesNonObjptrs = 8, numObjptrs = 1\<rparr>"
    by (simp add: forward_example_def splitHeader_def typeIndexOfHeader_def)
  have "fwd_ready forward_example ?fs 4096 8 16"
    by (simp add: fwd_ready_def h t sizeofObjectAux_def hasFwdPtr_def)
  then show ?thesis
    using forwardObjptr_sharing [of forward_example ?fs 4096 8 16 1024 1032]
    by (force simp: h outside_def)
qed

section \<open>The weak list\<close>

text \<open>The linked weak objects, each at the address of its structure.\<close>

inductive weak_chain :: "GC_state \<Rightarrow> pointer \<Rightarrow> pointer list \<Rightarrow> bool" for s where
  weak_chain_Nil: "weak_chain s 0 []"
| weak_chain_Cons: "0 < w \<Longrightarrow> weak_chain s (weak_link s w) ws \<Longrightarrow> weak_chain s w (w # ws)"

inductive_cases weak_chain_ConsE: "weak_chain s w (v # ws)"

text \<open>The bytes an update of a weak object writes: its header and its object pointer.\<close>

definition weak_header :: "GC_state \<Rightarrow> pointer \<Rightarrow> pointer" where
  "weak_header s w = w - offsetofWeak s - 8"

definition weak_apart :: "GC_state \<Rightarrow> pointer \<Rightarrow> pointer \<Rightarrow> bool" where
  "weak_apart s w v \<longleftrightarrow> outside (weak_header s w) 8 v 16 \<and> outside (w + 8) 8 v 16
     \<and> outside (w + 8) 8 (weak_header s v) 8 \<and> outside (weak_header s w) 8 (weak_header s v) 8
     \<and> (let q = weak_objptr s v in outside (weak_header s w) 8 (unat q - 8) 8 \<and> outside (w + 8) 8 (unat q - 8) 8)"

definition weak_step :: "GC_state \<Rightarrow> pointer \<Rightarrow> GC_state" where
  "weak_step s w =
     (let p = unat (weak_objptr s w)
      in if hasFwdPtr s p then set_weak_objptr w (getFwdPtr s p) s
         else set_weak_objptr w BOGUS_OBJPTR (write64 (weak_header s w) GC_WEAK_GONE_HEADER s))"

lemma weak_step_frame: "only_mem_weaks s (weak_step s w)"
  by (simp add: weak_step_def Let_def set_weak_objptr_def write64_def)

lemma weak_step_other:
  assumes "outside (weak_header s w) 8 a 8" "outside (w + 8) 8 a 8"
  shows "load64 (mem (weak_step s w)) a = load64 (mem s) a"
  using assms by (auto simp: weak_step_def Let_def set_weak_objptr_def outside_def mem_simps)

lemma updateWeaksLoop_Cons:
  "0 < w \<Longrightarrow> updateWeaksLoop (Suc n) s w = updateWeaksLoop n (weak_step s w) (weak_link (weak_step s w) w)"
  by (simp add: weak_step_def Let_def weak_header_def getHeaderp_def)

lemma offsetofWeak_cong: "only_mem_weaks s t \<Longrightarrow> offsetofWeak t = offsetofWeak s"
proof -
  assume "only_mem_weaks s t"
  then have "alignment t = alignment (s\<lparr>mem := mem t, weaks := weaks t\<rparr>)" by (simp only: only_mem_weaks_def)
  then show ?thesis by (simp add: offsetofWeak_def sizeofWeak_def)
qed

text \<open>What the update of one weak object leaves of the others.\<close>

lemma weak_step_apart:
  assumes "weak_apart s w v"
  shows "weak_link (weak_step s w) v = weak_link s v" "weak_objptr (weak_step s w) v = weak_objptr s v"
    "hasFwdPtr (weak_step s w) (unat (weak_objptr s v)) = hasFwdPtr s (unat (weak_objptr s v))"
    "getFwdPtr (weak_step s w) (unat (weak_objptr s v)) = getFwdPtr s (unat (weak_objptr s v))"
    "load64 (mem (weak_step s w)) (weak_header s v) = load64 (mem s) (weak_header s v)"
    "weak_header (weak_step s w) v = weak_header s v"
proof -
  have v: "outside (weak_header s w) 8 v 8" "outside (w + 8) 8 v 8"
    "outside (weak_header s w) 8 (v + 8) 8" "outside (w + 8) 8 (v + 8) 8"
    using assms by (auto simp: weak_apart_def outside_def)
  show "weak_link (weak_step s w) v = weak_link s v" "weak_objptr (weak_step s w) v = weak_objptr s v"
    using weak_step_other v by (simp_all add: weak_link_def weak_objptr_def)
  have q: "load64 (mem (weak_step s w)) (unat (weak_objptr s v) - 8) = load64 (mem s) (unat (weak_objptr s v) - 8)"
    using assms by (intro weak_step_other) (simp_all add: weak_apart_def Let_def)
  then show "hasFwdPtr (weak_step s w) (unat (weak_objptr s v)) = hasFwdPtr s (unat (weak_objptr s v))"
    "getFwdPtr (weak_step s w) (unat (weak_objptr s v)) = getFwdPtr s (unat (weak_objptr s v))"
    by (simp_all add: hasFwdPtr_def getFwdPtr_def getFwdPtrp_def getHeader_def getHeaderp_def)
  show "load64 (mem (weak_step s w)) (weak_header s v) = load64 (mem s) (weak_header s v)"
    using assms by (intro weak_step_other) (simp_all add: weak_apart_def)
  show "weak_header (weak_step s w) v = weak_header s v"
    using offsetofWeak_cong [OF weak_step_frame] by (simp add: weak_header_def)
qed

text \<open>The result for one weak object of the list.\<close>

definition weak_updated :: "GC_state \<Rightarrow> GC_state \<Rightarrow> pointer \<Rightarrow> bool" where
  "weak_updated s t w \<longleftrightarrow>
     (let p = unat (weak_objptr s w)
      in if hasFwdPtr s p then weak_objptr t w = getFwdPtr s p
           \<and> load64 (mem t) (weak_header s w) = load64 (mem s) (weak_header s w)
         else weak_objptr t w = BOGUS_OBJPTR \<and> load64 (mem t) (weak_header s w) = GC_WEAK_GONE_HEADER)"


lemma weak_chain_step:
  assumes "weak_chain s v ws" "\<forall>u\<in>set ws. weak_apart s w u"
  shows "weak_chain (weak_step s w) v ws"
  using assms
proof (induction rule: weak_chain.induct)
  case (weak_chain_Cons u us)
  then have "weak_link (weak_step s w) u = weak_link s u" by (intro weak_step_apart(1)) simp
  then show ?case using weak_chain_Cons by (auto intro: weak_chain.intros)
qed (rule weak_chain.intros)

lemma weak_apart_step:
  assumes "weak_apart s w u" "weak_apart s w v"
  shows "weak_apart (weak_step s w) u v = weak_apart s u v"
  using weak_step_apart(2,6) [OF assms(1)] weak_step_apart(2,6) [OF assms(2)]
  by (simp add: weak_apart_def)

lemma weak_step_self:
  assumes "offsetofWeak s + 8 \<le> w"
  shows "weak_link (weak_step s w) w = weak_link s w" "weak_updated s (weak_step s w) w"
proof -
  have o: "outside (weak_header s w) 8 w 16" using assms by (auto simp: outside_def weak_header_def)
  then show "weak_link (weak_step s w) w = weak_link s w"
    unfolding weak_link_def by (subst weak_step_other) (auto simp: outside_def)
  have h: "weak_header s w + 8 \<le> w" using assms by (simp add: weak_header_def)
  show "weak_updated s (weak_step s w) w"
    using h by (auto simp: weak_updated_def weak_step_def Let_def set_weak_objptr_def weak_objptr_def mem_simps)
qed

lemma updateWeaksLoop_spec:
  assumes "weak_chain s w ws" "sorted_wrt (weak_apart s) ws" "\<forall>v\<in>set ws. offsetofWeak s + 8 \<le> v"
    and "length ws < n"
  shows "\<exists>t. updateWeaksLoop n s w = Inr t \<and> only_mem_weaks s t \<and> (\<forall>v\<in>set ws. weak_updated s t v)
    \<and> (\<forall>a. (\<forall>v\<in>set ws. outside (weak_header s v) 8 a 8 \<and> outside (v + 8) 8 a 8)
          \<longrightarrow> load64 (mem t) a = load64 (mem s) a)"
  using assms
proof (induction ws arbitrary: s w n rule: list.induct)
  case Nil
  then obtain n' where n: "n = Suc n'" by (cases n) auto
  have "w = 0" using Nil.prems(1) by (auto elim: weak_chain.cases)
  then show ?case by (auto simp: n)
next
  case (Cons v ws)
  then obtain n' where n: "n = Suc n'" by (cases n) auto
  have w: "v = w" "0 < w" "weak_chain s (weak_link s w) ws"
    using Cons.prems(1) by (auto elim: weak_chain_ConsE)
  let ?s = "weak_step s w"
  have ap: "\<forall>u\<in>set ws. weak_apart s w u" and srt: "sorted_wrt (weak_apart s) ws"
    using Cons.prems(2) by (auto simp: w)
  have off: "offsetofWeak s + 8 \<le> w" using Cons.prems(3) by (simp add: w)
  note self = weak_step_self [OF off]
  have "sorted_wrt (weak_apart ?s) ws"
    using srt ap weak_apart_step by (auto intro: sorted_wrt_mono_rel [rotated])
  moreover have "\<forall>u\<in>set ws. offsetofWeak ?s + 8 \<le> u"
    using Cons.prems(3) offsetofWeak_cong [OF weak_step_frame] by simp
  moreover have "weak_chain ?s (weak_link ?s w) ws"
    using weak_chain_step [OF w(3) ap] self(1) by simp
  moreover have "length ws < n'" using Cons.prems(4) n by simp
  ultimately obtain t where t: "updateWeaksLoop n' ?s (weak_link ?s w) = Inr t" "only_mem_weaks ?s t"
    "\<forall>u\<in>set ws. weak_updated ?s t u"
    "\<And>a. (\<forall>u\<in>set ws. outside (weak_header ?s u) 8 a 8 \<and> outside (u + 8) 8 a 8)
          \<Longrightarrow> load64 (mem t) a = load64 (mem ?s) a"
    using Cons.IH by blast
  have hd: "\<And>u. u \<in> set ws \<Longrightarrow> weak_header ?s u = weak_header s u" using ap weak_step_apart(6) by blast
  have run: "updateWeaksLoop n s w = Inr t"
    unfolding n using updateWeaksLoop_Cons [OF w(2)] t(1) by simp
  have rest: "weak_updated s t u" if u: "u \<in> set ws" for u
    using weak_step_apart [OF ap [rule_format, OF u]] bspec [OF t(3) u]
    by (simp add: weak_updated_def Let_def split: if_splits)
  have hw: "load64 (mem t) (weak_header s w) = load64 (mem ?s) (weak_header s w)"
    using ap hd by (intro t(4)) (auto simp: weak_apart_def outside_def)
  moreover have "load64 (mem t) (w + 8) = load64 (mem ?s) (w + 8)"
    using ap hd by (intro t(4)) (auto simp: weak_apart_def outside_def)
  ultimately have "weak_updated s t w"
    using self(2) by (simp add: weak_updated_def weak_objptr_def Let_def split: if_splits)
  moreover have "load64 (mem t) a = load64 (mem s) a"
    if "\<forall>u\<in>set (v # ws). outside (weak_header s u) 8 a 8 \<and> outside (u + 8) 8 a 8" for a
    using that t(4) [of a] weak_step_other [of s w a] hd by (auto simp: w)
  ultimately show ?case
    using run rest only_mem_weaks_trans [OF weak_step_frame t(2)] w(1) by auto
qed

text \<open>
  C34: After a copying collection every linked weak object either points to the copy of its
  object, if that was forwarded, or is marked as gone with a bogus pointer; the list is
  empty, and no other word is changed.
\<close>

theorem updateWeaks_spec:
  assumes "weak_chain s (weaks s) ws" "sorted_wrt (weak_apart s) ws"
    and "\<forall>v\<in>set ws. offsetofWeak s + 8 \<le> v" "length ws < n"
  shows "\<exists>t. updateWeaksForCheneyCopy n s = Inr t \<and> weaks t = 0 \<and> (\<forall>v\<in>set ws. weak_updated s t v)
    \<and> (\<forall>a. (\<forall>v\<in>set ws. outside (weak_header s v) 8 a 8 \<and> outside (v + 8) 8 a 8)
          \<longrightarrow> load64 (mem t) a = load64 (mem s) a)"
proof -
  have "weak_updated s (t\<lparr>weaks := x\<rparr>) v = weak_updated s t v" for t x v
    by (simp add: weak_updated_def weak_objptr_def)
  then show ?thesis
    using updateWeaksLoop_spec [OF assms] by (auto simp: updateWeaksForCheneyCopy_def)
qed

text \<open>Two weak objects in a new heap at 4096, of which only the first one's object was copied.\<close>

definition weak_example :: GC_state where
  "weak_example = state0\<lparr>alignment := 8, weaks := 4104,
     mem := store64 (store64 (store64 (store64 (store64 (store64 (\<lambda>_. 0) 4104 4136) 4112 1024) 4144 2048)
                1016 8192) 2040 1) 4136 0\<rparr>"

lemma weak_example_loads:
  "load64 (mem weak_example) 4104 = 4136" "load64 (mem weak_example) 4112 = 1024"
  "load64 (mem weak_example) 4136 = 0" "load64 (mem weak_example) 4144 = 2048"
  "load64 (mem weak_example) 1016 = 8192" "load64 (mem weak_example) 2040 = 1"
  by (simp_all add: weak_example_def mem_simps)

theorem updateWeaks_witness:
  "\<exists>t. updateWeaksForCheneyCopy 3 weak_example = Inr t \<and> weak_objptr t 4104 = 8192
     \<and> weak_objptr t 4136 = BOGUS_OBJPTR"
proof -
  have a: "align 24 8 = 24" by (simp add: align_eq_div is_power2_numeral)
  have off: "offsetofWeak weak_example = 0"
    by (simp add: offsetofWeak_def sizeofWeak_def weak_example_def a)
  have "weak_chain weak_example 4104 [4104, 4136]"
    by (intro weak_chain.intros) (simp_all add: weak_link_def weak_example_loads weak_chain.intros)
  moreover have "weaks weak_example = 4104" by (simp add: weak_example_def)
  moreover have "sorted_wrt (weak_apart weak_example) [4104, 4136]"
    by (simp add: weak_apart_def outside_def weak_header_def off weak_objptr_def weak_example_loads)
  moreover have "weak_updated weak_example t 4104 \<Longrightarrow> weak_objptr t 4104 = 8192"
    "weak_updated weak_example t 4136 \<Longrightarrow> weak_objptr t 4136 = BOGUS_OBJPTR" for t
    by (simp_all add: weak_updated_def weak_objptr_def weak_example_loads hasFwdPtr_def getHeader_def
        getHeaderp_def getFwdPtr_def getFwdPtrp_def)
  ultimately show ?thesis
    using updateWeaks_spec [of weak_example "[4104, 4136]" 3] by (auto simp: off)
qed

section \<open>The effect of a major copying collection\<close>

lemma only_mem_weaks_heap:
  assumes "only_mem_weaks s t"
  shows "heap t = heap s" "secondaryHeap t = secondaryHeap s"
    "cumulativeStatistics t = cumulativeStatistics s" "controls t = controls s"
    "lastMajorStatistics t = lastMajorStatistics s" "frontier t = frontier s" "canMinor t = canMinor s"
    "mutatorMarksCards t = mutatorMarksCards s" "limitPlusSlop t = limitPlusSlop s"
    "currentThreadp t = currentThreadp s" "sysvals t = sysvals s" "same_tables s t"
proof -
  obtain m w where "t = s\<lparr>mem := m, weaks := w\<rparr>" using assms unfolding only_mem_weaks_def by blast
  then show "heap t = heap s" "secondaryHeap t = secondaryHeap s"
    "cumulativeStatistics t = cumulativeStatistics s" "controls t = controls s"
    "lastMajorStatistics t = lastMajorStatistics s" "frontier t = frontier s" "canMinor t = canMinor s"
    "mutatorMarksCards t = mutatorMarksCards s" "limitPlusSlop t = limitPlusSlop s"
    "currentThreadp t = currentThreadp s" "sysvals t = sysvals s" "same_tables s t"
    by (simp_all add: same_tables_def)
qed

lemma updateWeaksLoop_frame: "updateWeaksLoop n s w = Inr t \<Longrightarrow> only_mem_weaks s t"
proof (induction n arbitrary: s w)
  case (Suc n)
  show ?case
  proof (cases "w = 0")
    case True
    then show ?thesis using Suc.prems by simp
  next
    case False
    then have "only_mem_weaks (weak_step s w) t"
      using Suc updateWeaksLoop_Cons [of w n s] by simp
    then show ?thesis by (rule only_mem_weaks_trans [OF weak_step_frame])
  qed
qed simp

text \<open>Only the memory and the record of the maps change.\<close>

definition only_maps :: "GC_state \<Rightarrow> GC_state \<Rightarrow> bool" where
  "only_maps s t \<longleftrightarrow> (\<exists>m g. t = s\<lparr>mem := m, generationalMaps := g\<rparr>)"

lemma only_maps_trans: "only_maps s t \<Longrightarrow> only_maps t u \<Longrightarrow> only_maps s u"
  unfolding only_maps_def by force

lemma only_maps_intros:
  "only_maps s (s\<lparr>mem := m\<rparr>)" "only_maps s (maps_upd f s)"
proof -
  have "s\<lparr>mem := m\<rparr> = s\<lparr>mem := m, generationalMaps := generationalMaps s\<rparr>" by simp
  then show "only_maps s (s\<lparr>mem := m\<rparr>)" unfolding only_maps_def by blast
  have "maps_upd f s = s\<lparr>mem := mem s, generationalMaps := f (generationalMaps s)\<rparr>" by (simp add: maps_upd_def)
  then show "only_maps s (maps_upd f s)" unfolding only_maps_def by blast
qed

lemma only_maps_refl: "only_maps s s"
proof -
  have "s = s\<lparr>mem := mem s, generationalMaps := generationalMaps s\<rparr>" by simp
  then show ?thesis unfolding only_maps_def by blast
qed

lemma only_maps_fields:
  assumes "only_maps s t"
  shows "heap t = heap s" "secondaryHeap t = secondaryHeap s" "cumulativeStatistics t = cumulativeStatistics s"
    "lastMajorStatistics t = lastMajorStatistics s" "weaks t = weaks s" "controls t = controls s"
proof -
  obtain m g where "t = s\<lparr>mem := m, generationalMaps := g\<rparr>" using assms unfolding only_maps_def by blast
  then show "heap t = heap s" "secondaryHeap t = secondaryHeap s" "cumulativeStatistics t = cumulativeStatistics s"
    "lastMajorStatistics t = lastMajorStatistics s" "weaks t = weaks s" "controls t = controls s"
    by simp_all
qed

lemma setCardMapAndCrossMap_only: "only_maps s (setCardMapAndCrossMap s)"
proof -
  have a: "only_maps u (setCardMapAbsolute u)" for u
    unfolding setCardMapAbsolute_def by (simp add: only_maps_intros only_maps_refl)
  have "only_maps u (clearCrossMap u)" for u
    unfolding clearCrossMap_def Let_def by (rule only_maps_trans [OF only_maps_intros(2) only_maps_intros(1)])
  moreover have "only_maps u (clearCardMap u)" for u
    unfolding clearCardMap_def by (rule only_maps_intros)
  ultimately have "only_maps u (clearCardMapAndCrossMap u)" for u
    unfolding clearCardMapAndCrossMap_def by (blast intro: only_maps_trans)
  then have c: "only_maps s u \<Longrightarrow> only_maps s (clearCardMapAndCrossMap (setCardMapAbsolute u))" for u
    using a only_maps_trans by blast
  have st: "only_maps s u \<Longrightarrow> (\<And>v. only_maps s v \<Longrightarrow> only_maps s (f v)) \<Longrightarrow> only_maps s (Let (maps_upd g u) f)" for u g f
    using only_maps_intros(2) only_maps_trans by (metis Let_def)
  have n: "(\<And>k. only_maps s (f k)) \<Longrightarrow> only_maps s (Let (x :: nat) f)" for x f by (simp add: Let_def)
  show ?thesis
    unfolding setCardMapAndCrossMap_def
    by (simp only: split: if_split, intro conjI impI only_maps_intros(2))
      (rule n st only_maps_refl c | assumption)+
qed

lemmas setCardMapAndCrossMap_keeps = only_maps_fields [OF setCardMapAndCrossMap_only]

lemma stopDetailed_keeps:
  "heap (stopDetailed os ru acc upd s) = heap s" "secondaryHeap (stopDetailed os ru acc upd s) = secondaryHeap s"
  "lastMajorStatistics (stopDetailed os ru acc upd s) = lastMajorStatistics s"
  "weaks (stopDetailed os ru acc upd s) = weaks s"
  "(\<And>f c. g (upd f c) = g c) \<Longrightarrow>
     g (cumulativeStatistics (stopDetailed os ru acc upd s)) = g (cumulativeStatistics s)"
  by (auto simp: stopDetailed_def stopTiming_def Let_def cumul_upd_def)

lemma startDetailed_keeps:
  assumes "startDetailed os s = (t, ru)"
  shows "heap t = heap s" "secondaryHeap t = secondaryHeap s" "cumulativeStatistics t = cumulativeStatistics s"
    "alignment t = alignment s"
  using assms by (auto simp: startDetailed_def startTiming_def split: if_splits)

lemma majorCheneyCopyDone_fields:
  fixes s fs defines "n \<equiv> fs_back fs - heapStart (secondaryHeap s)"
  shows "heap (majorCheneyCopyDone os ru fs s) = secondaryHeap s\<lparr>oldGenSize := n\<rparr>"
    "secondaryHeap (majorCheneyCopyDone os ru fs s) = heap s" "weaks (majorCheneyCopyDone os ru fs s) = weaks s"
    "lm_kind (lastMajorStatistics (majorCheneyCopyDone os ru fs s)) = GC_COPYING"
    "numCopyingGCs (cumulativeStatistics (majorCheneyCopyDone os ru fs s)) = numCopyingGCs (cumulativeStatistics s)"
    "bytesCopied (cumulativeStatistics (majorCheneyCopyDone os ru fs s)) = bytesCopied (cumulativeStatistics s) + n"
  by (simp_all add: majorCheneyCopyDone_def Let_def stopDetailed_keeps lastMajor_upd_def cumul_upd_def
      swapHeapsForCheneyCopy_def setCardMapAndCrossMap_keeps secondaryHeap_upd_def n_def)

text \<open>
  A major copying collection exchanges the heaps: the program continues in the old
  secondary heap, whose old generation is what was copied, the old heap becomes the
  secondary one unchanged in size and place, no weak object stays linked, and the
  statistics are those of the copied bytes.
\<close>

theorem majorCheneyCopyGC_swaps:
  assumes "majorCheneyCopyGC os s = Inr t"
  shows "secondaryHeap t = heap s \<and> heap t = secondaryHeap s\<lparr>oldGenSize := oldGenSize (heap t)\<rparr>
    \<and> alignFrontier s (heapStart (secondaryHeap s)) \<le> heapStart (heap t) + oldGenSize (heap t)
    \<and> weaks t = 0 \<and> lm_kind (lastMajorStatistics t) = GC_COPYING
    \<and> numCopyingGCs (cumulativeStatistics t) = numCopyingGCs (cumulativeStatistics s) + 1
    \<and> bytesCopied (cumulativeStatistics t) = bytesCopied (cumulativeStatistics s) + oldGenSize (heap t)"
proof -
  define start where "start = alignFrontier s (heapStart (secondaryHeap s))"
  obtain s0 ru where s0: "startDetailed os s = (s0, ru)" by (cases "startDetailed os s")
  define s1 where "s1 = cumul_upd (\<lambda>c. c\<lparr>numCopyingGCs := numCopyingGCs c + 1\<rparr>) s0"
  define fs where "fs = \<lparr>amInMinorGC = False, fs_back = start, toStart = heapStart (secondaryHeap s),
                          toLimit = heapStart (secondaryHeap s) + heapSize (secondaryHeap s)\<rparr>"
  note k = startDetailed_keeps [OF s0]
  have s1: "heap s1 = heap s" "secondaryHeap s1 = secondaryHeap s"
    "numCopyingGCs (cumulativeStatistics s1) = numCopyingGCs (cumulativeStatistics s) + 1"
    "bytesCopied (cumulativeStatistics s1) = bytesCopied (cumulativeStatistics s)"
    "alignFrontier s1 (heapStart (secondaryHeap s)) = start"
    by (simp_all add: s1_def cumul_upd_def k start_def alignFrontier_def alignWithExtra_def)
  let ?fuel = "heapSize (secondaryHeap s) + 2"
  have "bindE (foreachGlobalObjptr (s1, fs) forwardObjptrIfInHeap) (\<lambda>st.
         bindE (foreachObjptrInRange ?fuel st start (\<lambda>st. fs_back (snd st)) forwardObjptrIfInHeap True)
           (\<lambda>((s, forwardState), _).
         bindE (updateWeaksForCheneyCopy ?fuel s) (\<lambda>s.
           Inr (majorCheneyCopyDone os ru forwardState s)))) = Inr t"
    using assms unfolding majorCheneyCopyGC_def Let_def s0 prod.case s1_def [symmetric] s1 fs_def .
  then obtain st s2 fs2 q s3 where
    g: "foreachGlobalObjptr (s1, fs) forwardObjptrIfInHeap = Inr st"
    and r: "foreachObjptrInRange ?fuel st start (\<lambda>st. fs_back (snd st)) forwardObjptrIfInHeap True = Inr ((s2, fs2), q)"
    and u: "updateWeaksForCheneyCopy ?fuel s2 = Inr s3" and t: "t = majorCheneyCopyDone os ru fs2 s3"
    by auto
  have "fwd_frame s1 fs st" by (rule fwdHeap.global_inv [OF g]) simp
  then have f2: "fwd_frame s1 fs (s2, fs2)" by (rule fwdHeap.range_inv [OF r])
  obtain s4 where s4: "updateWeaksLoop ?fuel s2 (weaks s2) = Inr s4" "s3 = s4\<lparr>weaks := 0\<rparr>"
    using u by (auto simp: updateWeaksForCheneyCopy_def)
  have "only_mem_weaks s1 s2" using f2 by (simp add: fwd_frame_def)
  then have "only_mem_weaks s1 s3"
    using only_mem_weaks_trans [OF updateWeaksLoop_frame [OF s4(1)] only_mem_weaks_intros(3)]
      only_mem_weaks_trans s4(2) by blast
  note h = only_mem_weaks_heap [OF this]
  have "weaks s3 = 0" "start \<le> fs_back fs2"
    using s4(2) f2 by (simp_all add: fwd_frame_def fs_def)
  then show ?thesis
    unfolding t majorCheneyCopyDone_fields start_def [symmetric] h s1 by simp
qed


text \<open>A heap from which nothing is reachable.\<close>

definition empty_example :: GC_state where
  "empty_example = state0\<lparr>alignment := 8, heap := GC_heap0\<lparr>heapStart := 4096, heapSize := 4096\<rparr>,
     secondaryHeap := GC_heap0\<lparr>heapStart := 65536, heapSize := 4096\<rparr>\<rparr>"

lemma empty_example_run: "\<exists>t. majorCheneyCopyGC os empty_example = Inr t"
proof -
  have al: "align 8 8 = 8" "align 65544 8 = 65544" by (simp_all add: align_eq_div is_power2_numeral)
  show ?thesis
    by (simp add: majorCheneyCopyGC_def Let_def startDetailed_def detailedGCTime_def empty_example_def
        foreachGlobalObjptr_def foreachObjptrInStaticHeap_def foreachObjptrInRegionBuffer_def
        foreachObjptrInRange_def callIfIsObjptr_def forwardObjptrIfInHeap_def alignFrontier_def
        alignWithExtra_def al wrap_sub_def updateWeaksForCheneyCopy_def zero_defs cumul_upd_def)
qed

theorem majorCheneyCopyGC_witness:
  "\<forall>os. \<exists>t. majorCheneyCopyGC os empty_example = Inr t \<and> heapStart (heap t) = 65536
     \<and> heapStart (secondaryHeap t) = 4096"
proof
  fix os
  obtain t where t: "majorCheneyCopyGC os empty_example = Inr t" using empty_example_run by blast
  have sw: "secondaryHeap t = heap empty_example"
    "heap t = secondaryHeap empty_example\<lparr>oldGenSize := oldGenSize (heap t)\<rparr>"
    using majorCheneyCopyGC_swaps [OF t] by blast+
  from sw(2) obtain n where "heap t = secondaryHeap empty_example\<lparr>oldGenSize := n\<rparr>" by blast
  then have "heapStart (heap t) = heapStart (secondaryHeap empty_example)" by simp
  with t sw(1) show "\<exists>t. majorCheneyCopyGC os empty_example = Inr t \<and> heapStart (heap t) = 65536
     \<and> heapStart (secondaryHeap t) = 4096" by (simp add: empty_example_def)
qed

end
