(* ===== verification/MarkCompact.thy ===== *)
theory MarkCompact
  imports DfsMark Forward
begin

text \<open>
  Jonkers's mark-compact collection (\<open>mark-compact.c\<close>). After marking, every pointer to
  an object is threaded: the header of the object becomes the start of a list through the
  slots that pointed to it. Two passes over the old generation give the slots the new
  address of the object, before and behind it, and slide the objects down.
\<close>

section \<open>Threading\<close>

text \<open>With a header as large as an object pointer one word is copied.\<close>

definition copyForThreadInternal :: "pointer \<Rightarrow> 64 word \<Rightarrow> GC_state \<Rightarrow> GC_state" where
  "copyForThreadInternal dst src s = write64 dst src s"

definition threadInternalObjptr :: "unit foreachObjptrFun" where
  "threadInternalObjptr st opp =
     (let s = fst st;
          opop = pointerToObjptr opp (heapStart (heap s));
          p = objptrToPointer (load64 (mem s) opp) (heapStart (heap s))
      in if \<not> isPointerInHeap s p then Inr st
         else
           (let s = copyForThreadInternal opp (load64 (mem s) (getHeaderp p)) s;
                s = copyForThreadInternal (getHeaderp p) opop s
            in Inr (s, snd st)))"

text \<open>
  The loop that ends a thread: every slot of the list gets the new pointer, and the header
  comes back. Each turn is at a slot of its own, so an address space of them is enough fuel.
\<close>

fun fixPointersLoop :: "nat \<Rightarrow> pointer \<Rightarrow> objptr \<Rightarrow> GC_state \<Rightarrow> GC_state res" where
  "fixPointersLoop 0 hp newObjptr s = Inl OutOfFuel"
| "fixPointersLoop (Suc n) hp newObjptr s =
     (let c = objptrToPointer (load64 (mem s) hp) (heapStart (heap s));
          s = copyForThreadInternal hp (load64 (mem s) c) s;
          s = write64 c newObjptr s
      in if GC_VALID_HEADER_MASK AND load64 (mem s) hp = 0 then fixPointersLoop n hp newObjptr s
         else Inr s)"

definition fixPointers :: "pointer \<Rightarrow> objptr \<Rightarrow> GC_state \<Rightarrow> GC_state res" where
  "fixPointers = fixPointersLoop (2 ^ 64)"

section \<open>Weak pointers\<close>

fun updateWeaksForMarkCompactLoop :: "nat \<Rightarrow> GC_state \<Rightarrow> pointer \<Rightarrow> GC_state res" where
  "updateWeaksForMarkCompactLoop 0 s w = Inl OutOfFuel"
| "updateWeaksForMarkCompactLoop (Suc n) s w =
     (if w = 0 then Inr s
      else
        (let p = objptrToPointer (weak_objptr s w) (heapStart (heap s));
             s = (if isPointerMarked s p then s
                  else set_weak_objptr w BOGUS_OBJPTR
                         (write64 (getHeaderp (w - offsetofWeak s)) (GC_WEAK_GONE_HEADER OR MARK_MASK) s))
         in updateWeaksForMarkCompactLoop n s (weak_link s w)))"

text \<open>Each linked weak object is an object of its own in the heap.\<close>

definition updateWeaksForMarkCompact :: "GC_state \<Rightarrow> GC_state res" where
  "updateWeaksForMarkCompact s =
     bindE (updateWeaksForMarkCompactLoop (heapSize (heap s) + 2) s (weaks s)) (\<lambda>s.
       Inr (s\<lparr>weaks := 0\<rparr>))"

section \<open>The two passes\<close>

text \<open>The sizes of a live object: \<open>size\<close>, \<open>skipFront\<close>, \<open>skipGap\<close>.\<close>

definition liveSizes :: "GC_state \<Rightarrow> pointer \<Rightarrow> pointer \<Rightarrow> 64 word \<Rightarrow> (nat \<times> nat \<times> nat) res" where
  "liveSizes s currentStack p h =
     bindE (splitHeader s h) (\<lambda>t.
       if tag t = NORMAL_TAG \<or> tag t = WEAK_TAG then
         Inr (GC_NORMAL_METADATA_SIZE + (bytesNonObjptrs t + numObjptrs t * OBJPTR_SIZE), 0, 0)
       else if tag t = SEQUENCE_TAG then
         Inr (GC_SEQUENCE_METADATA_SIZE
              + sizeofSequenceNoMetaData s (getSequenceLength s p) (bytesNonObjptrs t) (numObjptrs t), 0, 0)
       else
         (let stack = p; current = (currentStack = stack); reservedOld = stack_reserved s stack
          in bindE (sizeofStackShrinkReserved s stack current) (\<lambda>reservedNew.
               Inr (GC_STACK_METADATA_SIZE + (sizeof_GC_stack + stack_used s stack),
                    wrap_sub reservedOld (stack_used s stack), wrap_sub reservedOld reservedNew))))"

text \<open>Unmarked objects before a live one become one sequence of bytes, if there is room.\<close>

definition compressGap :: "pointer \<Rightarrow> pointer \<Rightarrow> GC_state \<Rightarrow> GC_state" where
  "compressGap endOfLastMarked front s =
     (if GC_SEQUENCE_METADATA_SIZE \<le> wrap_sub front endOfLastMarked then
        (let newSequence = endOfLastMarked;
             s = write64 newSequence 0 s;
             newSequence = newSequence + GC_SEQUENCE_COUNTER_SIZE;
             s = write64 newSequence (word_of_nat (wrap_sub front endOfLastMarked - GC_SEQUENCE_METADATA_SIZE)) s;
             newSequence = newSequence + GC_SEQUENCE_LENGTH_SIZE
         in write64 newSequence GC_WORD8_VECTOR_HEADER s)
      else s)"

definition threadObject ::
  "GC_state \<Rightarrow> pointer \<Rightarrow> pointer \<Rightarrow> pointer \<Rightarrow> pointer \<Rightarrow> (GC_state \<times> pointer \<times> nat) res" where
  "threadObject s currentStack front endOfLastMarked p =
     (let s = compressGap endOfLastMarked front s
      in bindE (liveSizes s currentStack p (getHeader s p)) (\<lambda>(size, skipFront, skipGap).
         bindE (foreachObjptrInObject (s, ()) p threadInternalObjptr False) (\<lambda>(st, _).
           Inr (fst st, front + (size + skipFront), skipGap))))"

text \<open>An object takes at least a header, so the size of the old generation is enough fuel.\<close>

fun updateForwardPointersLoop ::
  "nat \<Rightarrow> GC_state \<Rightarrow> pointer \<Rightarrow> pointer \<Rightarrow> pointer \<Rightarrow> pointer \<Rightarrow> nat \<Rightarrow> GC_state res" where
  "updateForwardPointersLoop 0 s currentStack back front endOfLastMarked gap = Inl OutOfFuel"
| "updateForwardPointersLoop (Suc n) s currentStack back front endOfLastMarked gap =
     (if front = back then Inr s
      else
        (let p = advanceToObjectData s front;
             h = getHeader s p;
             thread = (\<lambda>s. bindE (threadObject s currentStack front endOfLastMarked p)
               (\<lambda>(s, front, skipGap).
                  updateForwardPointersLoop n s currentStack back front front (gap + skipGap)))
         in if GC_VALID_HEADER_MASK AND h \<noteq> 0 then
              (if MARK_MASK AND h \<noteq> 0 then thread s
               else
                 bindE (sizeofObject s p) (\<lambda>size.
                   updateForwardPointersLoop n s currentStack back (front + size) endOfLastMarked (gap + size)))
            else
              (let newObjptr = pointerToObjptr (p - gap) (heapStart (heap s))
               in bindE (fixPointers (getHeaderp p) newObjptr s) thread)))"

definition updateForwardPointersForMarkCompact :: "GC_state \<Rightarrow> pointer \<Rightarrow> GC_state res" where
  "updateForwardPointersForMarkCompact s currentStack =
     (let front = alignFrontier s (heapStart (heap s));
          back = heapStart (heap s) + oldGenSize (heap s)
      in updateForwardPointersLoop (oldGenSize (heap s) + 2) s currentStack back front front 0)"

text \<open>Unmarking and sliding an object; a stack shrinks on the way.\<close>

definition slideObject ::
  "GC_state \<Rightarrow> pointer \<Rightarrow> pointer \<Rightarrow> nat \<Rightarrow> pointer \<Rightarrow> (GC_state \<times> pointer \<times> nat) res" where
  "slideObject s currentStack front gap p =
     (let h = getHeader s p
      in bindE (liveSizes s currentStack p h) (\<lambda>(size, skipFront, skipGap).
         bindE (splitHeader s h) (\<lambda>t.
         bindE (if tag t = STACK_TAG then
                  bindE (sizeofStackShrinkReserved s p (currentStack = p)) (\<lambda>reservedNew.
                    Inr (if reservedNew < stack_reserved s p then set_stack_reserved p reservedNew s else s))
                else Inr s) (\<lambda>s.
           let s = write64 (getHeaderp p) (h AND NOT MARK_MASK) s;
               s = s\<lparr>mem := GC_memmove (mem s) front (front - gap) size\<rparr>
           in Inr (s, front + (size + skipFront), skipGap)))))"

fun updateBackwardPointersLoop ::
  "nat \<Rightarrow> GC_state \<Rightarrow> pointer \<Rightarrow> pointer \<Rightarrow> pointer \<Rightarrow> nat \<Rightarrow> (GC_state \<times> pointer \<times> nat) res" where
  "updateBackwardPointersLoop 0 s currentStack back front gap = Inl OutOfFuel"
| "updateBackwardPointersLoop (Suc n) s currentStack back front gap =
     (if front = back then Inr (s, front, gap)
      else
        (let p = advanceToObjectData s front;
             h = getHeader s p;
             unmark = (\<lambda>s. bindE (slideObject s currentStack front gap p) (\<lambda>(s, front, skipGap).
               updateBackwardPointersLoop n s currentStack back front (gap + skipGap)))
         in if GC_VALID_HEADER_MASK AND h \<noteq> 0 then
              (if MARK_MASK AND h \<noteq> 0 then unmark s
               else
                 bindE (sizeofObject s p) (\<lambda>size.
                   updateBackwardPointersLoop n s currentStack back (front + size) (gap + size)))
            else
              (let newObjptr = pointerToObjptr (p - gap) (heapStart (heap s))
               in bindE (fixPointers (getHeaderp p) newObjptr s) unmark)))"

definition updateBackwardPointersAndSlideForMarkCompact :: "GC_state \<Rightarrow> pointer \<Rightarrow> GC_state res" where
  "updateBackwardPointersAndSlideForMarkCompact s currentStack =
     (let front = alignFrontier s (heapStart (heap s));
          back = heapStart (heap s) + oldGenSize (heap s)
      in bindE (updateBackwardPointersLoop (oldGenSize (heap s) + 2) s currentStack back front 0)
           (\<lambda>(s, front, gap). Inr (heap_upd (\<lambda>h. h\<lparr>oldGenSize := wrap_sub (front - gap) (heapStart h)\<rparr>) s)))"

section \<open>The collection\<close>

definition majorMarkCompactDone :: "OS \<Rightarrow> rusage \<Rightarrow> GC_state \<Rightarrow> GC_state" where
  "majorMarkCompactDone os ru_start s =
     (let hashConsed = lm_bytesHashConsed (lastMajorStatistics s);
          compacted = oldGenSize (heap s);
          s = cumul_upd (\<lambda>c. c\<lparr>bytesHashConsed := bytesHashConsed c + hashConsed,
                               bytesMarkCompacted := bytesMarkCompacted c + compacted\<rparr>) s;
          s = lastMajor_upd (\<lambda>m. m\<lparr>lm_kind := GC_MARK_COMPACT\<rparr>) s
      in stopDetailed os ru_start ru_gcMarkCompact ru_gcMarkCompact_update s)"

definition majorMarkCompactGC :: "OS \<Rightarrow> GC_state \<Rightarrow> GC_state res" where
  "majorMarkCompactGC os s =
     (let (s, ru_start) = startDetailed os s;
          s = cumul_upd (\<lambda>c. c\<lparr>numMarkCompactGCs := numMarkCompactGCs c + 1\<rparr>) s;
          currentStack = getStackCurrent s;
          markState = \<lparr>mode = MARK_MODE, shouldHashCons = hashConsDuringGC s, shouldLinkWeaks = True, ms_size = 0\<rparr>
      in bindE
           (if hashConsDuringGC s then
              (let s = lastMajor_upd (\<lambda>m. m\<lparr>lm_bytesHashConsed := 0\<rparr>) s;
                   s = cumul_upd (\<lambda>c. c\<lparr>numHashConsGCs := numHashConsGCs c + 1\<rparr>) s
               in bindE (allocHashTable os s) (\<lambda>(s, t). Inr (s\<lparr>objectHashTable := t\<rparr>)))
            else Inr s) (\<lambda>s.
         bindE (foreachGlobalObjptr (s, markState) (dfsMarkObjptr os)) (\<lambda>(s, _).
         bindE (updateWeaksForMarkCompact s) (\<lambda>s.
         bindE (foreachGlobalObjptr (s, ()) threadInternalObjptr) (\<lambda>(s, _).
         bindE (updateForwardPointersForMarkCompact s currentStack) (\<lambda>s.
         bindE (updateBackwardPointersAndSlideForMarkCompact s currentStack) (\<lambda>s.
           Inr (majorMarkCompactDone os ru_start s))))))))"

end
