(* ===== verification/ToString.thy ===== *)
theory ToString
  imports GC_State
begin

text \<open>
  Numbers as text and as bytes of a file (\<open>util/to-string.c\<close>, \<open>util/read_write.h\<close>,
  \<open>gc/read_write.c\<close>). A file is the list of its bytes; \<open>fread_safe\<close> stops the program at
  the end of it, and \<open>fwrite_safe\<close> appends.
\<close>

section \<open>Decimal and hexadecimal numerals\<close>

text \<open>The conversions \<open>%u\<close> and \<open>%x\<close> of \<open>snprintf\<close>.\<close>

definition digitChar :: "nat \<Rightarrow> char" where
  "digitChar k = (if k < 10 then char_of (48 + k) else char_of (87 + k))"

fun showBase :: "nat \<Rightarrow> nat \<Rightarrow> string" where
  "showBase b n = (if n < b \<or> b < 2 then [digitChar n] else showBase b (n div b) @ [digitChar (n mod b)])"

declare showBase.simps [simp del]

definition showDec :: "nat \<Rightarrow> string" where
  "showDec n = showBase 10 n"

definition showInt :: "int \<Rightarrow> string" where
  "showInt i = (if i < 0 then CHR ''-'' # showDec (nat (- i)) else showDec (nat i))"

definition showHexPad :: "nat \<Rightarrow> nat \<Rightarrow> string" where
  "showHexPad w n = (let s = showBase 16 n in replicate (w - length s) CHR ''0'' @ s)"

definition boolToString :: "bool \<Rightarrow> string" where
  "boolToString b = (if b then ''TRUE'' else ''FALSE'')"

section \<open>Commas\<close>

text \<open>The loop that copies the digits, with \<open>k\<close> digits left in the group.\<close>

fun commaLoop :: "nat \<Rightarrow> string \<Rightarrow> string" where
  "commaLoop k [] = []"
| "commaLoop k (c # cs) =
     (if k = 0 then CHR '','' # c # commaLoop 2 cs else c # commaLoop (k - 1) cs)"

definition commaStart :: "nat \<Rightarrow> string \<Rightarrow> string" where
  "commaStart l cs = (let k = l mod 3; k = (if k = 0 then 3 else k) in hd cs # commaLoop (k - 1) (tl cs))"

definition uintmaxToCommaString :: "nat \<Rightarrow> string" where
  "uintmaxToCommaString n = (let tmp = showDec n in commaStart (length tmp) tmp)"

definition intmaxToCommaString :: "int \<Rightarrow> string" where
  "intmaxToCommaString n =
     (let tmp = showInt n; l = length tmp
      in if hd tmp = CHR ''-'' then CHR ''-'' # commaStart (l - 1) (tl tmp)
         else commaStart l tmp)"

section \<open>Files\<close>

type_synonym cfile = "byte list"

definition bytesLE :: "nat \<Rightarrow> nat \<Rightarrow> byte list" where
  "bytesLE k v = map (\<lambda>i. word_of_nat (v div 256 ^ i)) [0..<k]"

definition valueLE :: "byte list \<Rightarrow> nat" where
  "valueLE bs = (\<Sum>i<length bs. unat (bs ! i) * 256 ^ i)"

definition fread_safe :: "nat \<Rightarrow> cfile \<Rightarrow> (byte list \<times> cfile) res" where
  "fread_safe n f = (if n \<le> length f then Inr (take n f, drop n f) else Inl (Die ''fread failed''))"

definition fwrite_safe :: "byte list \<Rightarrow> cfile \<Rightarrow> cfile" where
  "fwrite_safe bs f = f @ bs"

definition readChar :: "cfile \<Rightarrow> (char \<times> cfile) res" where
  "readChar f = bindE (fread_safe 1 f) (\<lambda>(bs, f). Inr (char_of (unat (hd bs)), f))"

definition readSize :: "cfile \<Rightarrow> (nat \<times> cfile) res" where
  "readSize f = bindE (fread_safe 8 f) (\<lambda>(bs, f). Inr (valueLE bs, f))"

definition readUint32 :: "cfile \<Rightarrow> (nat \<times> cfile) res" where
  "readUint32 f = bindE (fread_safe 4 f) (\<lambda>(bs, f). Inr (valueLE bs, f))"

definition readUintptr :: "cfile \<Rightarrow> (nat \<times> cfile) res" where
  "readUintptr f = bindE (fread_safe 8 f) (\<lambda>(bs, f). Inr (valueLE bs, f))"

definition readObjptr :: "cfile \<Rightarrow> (objptr \<times> cfile) res" where
  "readObjptr f = bindE (fread_safe 8 f) (\<lambda>(bs, f). Inr (word_of_nat (valueLE bs), f))"

definition readPointer :: "cfile \<Rightarrow> (pointer \<times> cfile) res" where
  "readPointer f = bindE (fread_safe 8 f) (\<lambda>(bs, f). Inr (valueLE bs, f))"

definition writeChar :: "char \<Rightarrow> cfile \<Rightarrow> cfile" where
  "writeChar c f = fwrite_safe [of_char c] f"

definition writeSize :: "nat \<Rightarrow> cfile \<Rightarrow> cfile" where
  "writeSize z f = fwrite_safe (bytesLE 8 z) f"

definition writeUint32 :: "nat \<Rightarrow> cfile \<Rightarrow> cfile" where
  "writeUint32 u f = fwrite_safe (bytesLE 4 u) f"

definition writeUintptr :: "nat \<Rightarrow> cfile \<Rightarrow> cfile" where
  "writeUintptr u f = fwrite_safe (bytesLE 8 u) f"

definition writeObjptr :: "objptr \<Rightarrow> cfile \<Rightarrow> cfile" where
  "writeObjptr op f = fwrite_safe (bytesLE 8 (unat op)) f"

definition writePointer :: "pointer \<Rightarrow> cfile \<Rightarrow> cfile" where
  "writePointer p f = fwrite_safe (bytesLE 8 p) f"

definition writeString :: "string \<Rightarrow> cfile \<Rightarrow> cfile" where
  "writeString s f = fwrite_safe (map of_char s) f"

definition writeUint32U :: "nat \<Rightarrow> cfile \<Rightarrow> cfile" where
  "writeUint32U u f = writeString (showDec u) f"

definition writeUintmaxU :: "nat \<Rightarrow> cfile \<Rightarrow> cfile" where
  "writeUintmaxU u f = writeString (showDec u) f"

definition writeUint32X :: "nat \<Rightarrow> cfile \<Rightarrow> cfile" where
  "writeUint32X u f = writeString (''0x'' @ showHexPad 8 u) f"

definition writeUintmaxX :: "nat \<Rightarrow> cfile \<Rightarrow> cfile" where
  "writeUintmaxX u f = writeString (''0x'' @ showHexPad 16 u) f"

definition writeNewline :: "cfile \<Rightarrow> cfile" where
  "writeNewline f = writeString [CHR 0x0A] f"

definition writeStringWithNewline :: "string \<Rightarrow> cfile \<Rightarrow> cfile" where
  "writeStringWithNewline s f = writeNewline (writeString s f)"

section \<open>Reading back numerals\<close>

definition digitVal :: "char \<Rightarrow> nat" where
  "digitVal c = (let k = of_char c in if k < 58 then k - 48 else k - 87)"

definition readBase :: "nat \<Rightarrow> string \<Rightarrow> nat" where
  "readBase b s = foldl (\<lambda>v c. v * b + digitVal c) 0 s"

lemma digitVal_digitChar: "k < 16 \<Longrightarrow> digitVal (digitChar k) = k"
  by (auto simp: digitVal_def digitChar_def Let_def of_char_of)

lemma readBase_append: "readBase b (s @ [c]) = readBase b s * b + digitVal c"
  by (simp add: readBase_def)

lemma readBase_showBase:
  assumes "2 \<le> b" "b \<le> 16"
  shows "readBase b (showBase b n) = n"
proof (induction n rule: less_induct)
  case (less n)
  show ?case
  proof (cases "n < b")
    case True
    then show ?thesis using assms
      by (subst showBase.simps) (simp add: readBase_def digitVal_digitChar)
  next
    case False
    then have e: "showBase b n = showBase b (n div b) @ [digitChar (n mod b)]"
      using assms by (subst showBase.simps) simp
    have "n div b < n" using assms False by (intro div_less_dividend) auto
    moreover have "n mod b < 16" using assms mod_less_divisor [of b n] by linarith
    ultimately show ?thesis
      unfolding e by (simp add: readBase_append less digitVal_digitChar)
  qed
qed

lemma showBase_nonempty [simp]: "showBase b n \<noteq> []"
  by (subst showBase.simps) simp

lemma digitChar_not_comma: "k < 16 \<Longrightarrow> digitChar k \<noteq> CHR '',''"
proof
  assume "k < 16" "digitChar k = CHR '',''"
  then have "digitVal (CHR '','') = k" using digitVal_digitChar by metis
  then have "(44::nat) - 48 = k" by (simp add: digitVal_def)
  then have "k = 0" by simp
  with \<open>digitChar k = CHR '',''\<close> show False by (simp add: digitChar_def char_of_eq_iff)
qed

lemma showBase_no_comma:
  assumes "2 \<le> b" "b \<le> 16" shows "CHR '','' \<notin> set (showBase b n)"
proof (induction n rule: less_induct)
  case (less n)
  show ?case
  proof (cases "n < b")
    case True
    then show ?thesis using assms digitChar_not_comma [of n] by (subst showBase.simps) auto
  next
    case False
    then have "showBase b n = showBase b (n div b) @ [digitChar (n mod b)]"
      using assms by (subst showBase.simps) simp
    moreover have "n div b < n" using assms False by (intro div_less_dividend) auto
    moreover have "n mod b < 16" using assms mod_less_divisor [of b n] by linarith
    ultimately show ?thesis using less digitChar_not_comma [of "n mod b"] by auto
  qed
qed

section \<open>The place of the commas\<close>

text \<open>The reference: the last three digits, behind a comma, after the rest.\<close>

function grouped :: "string \<Rightarrow> string" where
  "grouped ds = (if length ds \<le> 3 then ds
     else grouped (take (length ds - 3) ds) @ CHR '','' # drop (length ds - 3) ds)"
  by pat_completeness auto
termination by (relation "measure length") auto

declare grouped.simps [simp del]

lemma commaLoop_snoc:
  assumes "length xs = k + 3 * m" "length ys = 3"
  shows "commaLoop k (xs @ ys) = commaLoop k xs @ CHR '','' # ys"
  using assms
proof (induction xs arbitrary: k m)
  case Nil
  then obtain a b c where "ys = [a, b, c]" by (auto simp: length_Suc_conv numeral_eq_Suc)
  then show ?case using Nil by (simp add: numeral_eq_Suc)
next
  case (Cons c xs)
  show ?case
  proof (cases k)
    case 0
    then obtain m' where "m = Suc m'" using Cons.prems(1) by (cases m) auto
    then have "length xs = 2 + 3 * m'" using Cons.prems(1) 0 by simp
    then show ?thesis using Cons.IH [of 2 m'] Cons.prems(2) 0 by simp
  next
    case (Suc k')
    then show ?thesis using Cons.IH [of k' m] Cons.prems by simp
  qed
qed

lemma commaStart_grouped: "ds \<noteq> [] \<Longrightarrow> commaStart (length ds) ds = grouped ds"
proof (induction ds rule: grouped.induct)
  case (1 ds)
  show ?case
  proof (cases "length ds \<le> 3")
    case True
    then consider a where "ds = [a]" | a b where "ds = [a, b]" | a b c where "ds = [a, b, c]"
      using 1(2) by (cases ds; cases "tl ds"; cases "tl (tl ds)"; cases "tl (tl (tl ds))") auto
    then show ?thesis by cases (simp_all add: grouped.simps commaStart_def)
  next
    case False
    define xs where "xs = take (length ds - 3) ds"
    define ys where "ys = drop (length ds - 3) ds"
    have ds: "ds = xs @ ys" "length ys = 3" "xs \<noteq> []" using False by (auto simp: xs_def ys_def)
    obtain x xs' where xs: "xs = x # xs'" using ds(3) by (cases xs) auto
    define k where "k = (if length xs mod 3 = 0 then 3 else length xs mod 3)"
    have k: "length xs' = (k - 1) + 3 * ((length xs - 1) div 3)" "length ds mod 3 = length xs mod 3"
    proof -
      have "length xs = 3 * (length xs div 3) + length xs mod 3" by simp
      then show "length xs' = (k - 1) + 3 * ((length xs - 1) div 3)"
        unfolding k_def using xs by (auto split: if_splits) presburger+
      show "length ds mod 3 = length xs mod 3" using ds by simp
    qed
    have "commaStart (length ds) ds = commaStart (length xs) xs @ CHR '','' # ys"
      unfolding commaStart_def Let_def k(2) k_def [symmetric]
      using commaLoop_snoc [OF k(1) ds(2)] ds(1) xs by simp
    moreover have "commaStart (length xs) xs = grouped xs"
      using 1(1) False ds(3) by (simp add: xs_def)
    ultimately show ?thesis
      using False by (subst grouped.simps) (simp add: xs_def ys_def)
  qed
qed

lemma grouped_digits: "CHR '','' \<notin> set ds \<Longrightarrow> filter (\<lambda>c. c \<noteq> CHR '','') (grouped ds) = ds"
proof (induction ds rule: grouped.induct)
  case (1 ds)
  show ?case
  proof (cases "length ds \<le> 3")
    case True
    then show ?thesis using 1(2) by (subst grouped.simps) (auto intro: filter_True)
  next
    case False
    let ?xs = "take (length ds - 3) ds" and ?ys = "drop (length ds - 3) ds"
    have "filter (\<lambda>c. c \<noteq> CHR '','') (grouped ?xs) = ?xs"
      using 1 False by (meson in_set_takeD)
    moreover have "filter (\<lambda>c. c \<noteq> CHR '','') ?ys = ?ys"
      using 1(2) by (intro filter_True) (auto dest: in_set_dropD)
    ultimately show ?thesis using False by (subst grouped.simps) simp
  qed
qed

text \<open>
  C37: The numbers of the messages: the decimal numeral with a comma before every group of
  three digits, counted from the right, and nothing else; without its commas the text is
  the numeral, which reads back as the number.
\<close>

theorem uintmaxToCommaString_groups:
  "uintmaxToCommaString n = grouped (showDec n)
   \<and> readBase 10 (filter (\<lambda>c. c \<noteq> CHR '','') (uintmaxToCommaString n)) = n"
proof -
  have "uintmaxToCommaString n = grouped (showDec n)"
    by (simp add: uintmaxToCommaString_def showDec_def commaStart_grouped)
  then show ?thesis
    by (simp add: showDec_def grouped_digits showBase_no_comma readBase_showBase)
qed

section \<open>Bytes read back\<close>

lemma valueLE_bytesLE: "valueLE (bytesLE k v) = v mod 256 ^ k"
proof (induction k)
  case (Suc k)
  have n: "bytesLE (Suc k) v = bytesLE k v @ [word_of_nat (v div 256 ^ k)]" "length (bytesLE k v) = k"
    by (simp_all add: bytesLE_def)
  have "valueLE (bytesLE (Suc k) v) = valueLE (bytesLE k v) + (v div 256 ^ k mod 256) * 256 ^ k"
    unfolding valueLE_def n(1) using n(2) by (simp add: nth_append unat_of_nat)
  also have "\<dots> = v mod 256 ^ Suc k"
    using mod_mult2_eq [of v "256 ^ k" 256] by (simp add: Suc mult.commute)
  finally show ?case .
qed (simp add: valueLE_def bytesLE_def)

lemma fread_fwrite: "length bs = n \<Longrightarrow> fread_safe n (bs @ f) = Inr (bs, f)"
  by (simp add: fread_safe_def)

lemma length_bytesLE [simp]: "length (bytesLE k v) = k"
  by (simp add: bytesLE_def)

lemma unat_of_char: "unat (of_char c :: 8 word) = of_char c"
proof -
  have "(of_char c :: 8 word) = word_of_nat (of_char c)" by (simp add: of_nat_of_char)
  then show ?thesis using nat_of_char_less_256 [of c] by (simp add: unat_of_nat)
qed

lemma read_write:
  "u < 4294967296 \<Longrightarrow> readUint32 (bytesLE 4 u @ f) = Inr (u, f)"
  "z < 18446744073709551616 \<Longrightarrow> readSize (bytesLE 8 z @ f) = Inr (z, f)"
  "z < 18446744073709551616 \<Longrightarrow> readUintptr (bytesLE 8 z @ f) = Inr (z, f)"
  "z < 18446744073709551616 \<Longrightarrow> readPointer (bytesLE 8 z @ f) = Inr (z, f)"
  "readObjptr (bytesLE 8 (unat op) @ f) = Inr (op, f)"
  "readChar (of_char c # f) = Inr (c, f)"
  using unat_lt_64 [of op] fread_fwrite [of "[of_char c]" 1 f]
  by (simp_all add: readUint32_def readSize_def readUintptr_def readPointer_def readObjptr_def readChar_def
      fread_fwrite valueLE_bytesLE unat_of_char)

end
