(* ===== verification/Profiling.thy ===== *)
theory Profiling
  imports HashCons ToString Foreach
begin

text \<open>
  Source-level profiling (\<open>profiling.c\<close>, \<open>sources.c\<close>): ticks are charged to the sources
  on the stack. The operations read the source maps of the state and change the profile
  data, \<open>s->profiling.data\<close>; a write outside its arrays is undefined.
\<close>

section \<open>Sources\<close>

abbreviation (input) UNKNOWN_SOURCE_SEQ_INDEX :: nat where "UNKNOWN_SOURCE_SEQ_INDEX \<equiv> 0"
abbreviation (input) GC_SOURCE_SEQ_INDEX :: nat where "GC_SOURCE_SEQ_INDEX \<equiv> 1"
abbreviation (input) UNKNOWN_SOURCE_INDEX :: nat where "UNKNOWN_SOURCE_INDEX \<equiv> 0"
abbreviation (input) GC_SOURCE_INDEX :: nat where "GC_SOURCE_INDEX \<equiv> 1"

definition getCachedStackTopFrameSourceSeqIndex :: "GC_state \<Rightarrow> nat res" where
  "getCachedStackTopFrameSourceSeqIndex s =
     (let i = getCachedStackTopFrameIndex s
      in if i < length (frameInfos s) then Inr (sourceSeqIndex (frameInfos s ! i)) else Inl Undefined)"

definition nthE :: "'a list \<Rightarrow> nat \<Rightarrow> 'a res" where
  "nthE xs i = (if i < length xs then Inr (xs ! i) else Inl Undefined)"

definition updE :: "nat \<Rightarrow> ('a \<Rightarrow> 'a) \<Rightarrow> 'a list \<Rightarrow> 'a list res" where
  "updE i f xs = (if i < length xs then Inr (xs[i := f (xs ! i)]) else Inl Undefined)"

definition getSourceName :: "GC_state \<Rightarrow> nat \<Rightarrow> string res" where
  "getSourceName s i =
     bindE (nthE (sources (sourceMaps s)) i) (\<lambda>src. nthE (sourceNames (sourceMaps s)) (sourceNameIndex src))"

definition GC_sourceName :: "GC_state \<Rightarrow> nat \<Rightarrow> string res" where
  "GC_sourceName s i = getSourceName s i"

definition showSources :: "GC_state \<Rightarrow> string" where
  "showSources s =
     (let maps = sourceMaps s; nl = [CHR 0x0A]
      in ''0x'' @ showHexPad 8 (unat (magic s)) @ nl
         @ showDec (length (sourceNames maps)) @ nl
         @ concat (map (\<lambda>n. n @ nl) (sourceNames maps))
         @ showDec (length (sources maps)) @ nl
         @ concat (map (\<lambda>src. showDec (sourceNameIndex src) @ '' '' @ showDec (successorSourceSeqIndex src) @ nl)
                    (sources maps))
         @ showDec (length (sourceSeqs maps)) @ nl
         @ concat (map (\<lambda>seq. concat (map (\<lambda>i. showDec i @ '' '') seq) @ nl) (sourceSeqs maps)))"

text \<open>The profile of a source, and the profile of its name behind those of the sources.\<close>

definition sourceIndexToProfileMasterIndex :: "GC_state \<Rightarrow> nat \<Rightarrow> nat res" where
  "sourceIndexToProfileMasterIndex s i =
     bindE (nthE (sources (sourceMaps s)) i) (\<lambda>src.
       Inr (sourceNameIndex src + length (sources (sourceMaps s))))"

definition profileMasterIndexToSourceNameIndex :: "GC_state \<Rightarrow> nat \<Rightarrow> nat" where
  "profileMasterIndexToSourceNameIndex s i = i - length (sources (sourceMaps s))"

definition profileIndexSourceName :: "GC_state \<Rightarrow> nat \<Rightarrow> string res" where
  "profileIndexSourceName s i =
     (if i < length (sources (sourceMaps s)) then getSourceName s i
      else nthE (sourceNames (sourceMaps s)) (profileMasterIndexToSourceNameIndex s i))"

section \<open>Entering and leaving sources\<close>

definition getProfileStackInfo :: "GC_profileData \<Rightarrow> nat \<Rightarrow> GC_profileStack res" where
  "getProfileStackInfo p i = nthE (profStack p) i"

definition stackInfo_upd :: "nat \<Rightarrow> (GC_profileStack \<Rightarrow> GC_profileStack) \<Rightarrow> GC_profileData \<Rightarrow> GC_profileData res" where
  "stackInfo_upd i f p = bindE (updE i f (profStack p)) (\<lambda>st. Inr (p\<lparr>profStack := st\<rparr>))"

definition addToStackForProfiling :: "GC_profileData \<Rightarrow> nat \<Rightarrow> GC_profileData res" where
  "addToStackForProfiling p i =
     stackInfo_upd i (\<lambda>ps. ps\<lparr>lastTotal := total p, lastTotalGC := totalGC p\<rparr>) p"

definition enterSourceForProfiling :: "GC_profileData \<Rightarrow> nat \<Rightarrow> GC_profileData res" where
  "enterSourceForProfiling p i =
     bindE (stackInfo_upd i (\<lambda>ps. ps\<lparr>numOccurrences := wrap (numOccurrences ps + 1)\<rparr>) p) (\<lambda>p.
     bindE (getProfileStackInfo p i) (\<lambda>ps.
       if 1 = numOccurrences ps then addToStackForProfiling p i else Inr p))"

text \<open>A source and its name.\<close>

definition enterBoth :: "GC_state \<Rightarrow> GC_profileData \<Rightarrow> nat \<Rightarrow> GC_profileData res" where
  "enterBoth s p sourceIndex =
     bindE (enterSourceForProfiling p sourceIndex) (\<lambda>p.
     bindE (sourceIndexToProfileMasterIndex s sourceIndex) (\<lambda>m. enterSourceForProfiling p m))"

definition enterForProfiling :: "GC_state \<Rightarrow> GC_profileData \<Rightarrow> nat \<Rightarrow> GC_profileData res" where
  "enterForProfiling s p ssi =
     bindE (nthE (sourceSeqs (sourceMaps s)) ssi) (\<lambda>sourceSeq. foldE (enterBoth s) sourceSeq p)"

definition prof_upd :: "(GC_profileData \<Rightarrow> GC_profileData res) \<Rightarrow> GC_state \<Rightarrow> GC_state res" where
  "prof_upd f s =
     bindE (f (prof_data (profiling s))) (\<lambda>p. Inr (s\<lparr>profiling := (profiling s)\<lparr>prof_data := p\<rparr>\<rparr>))"

definition enterFrameForProfiling :: "unit foreachStackFrameFun" where
  "enterFrameForProfiling st frameIndex fi top' =
     bindE (prof_upd (\<lambda>p. enterForProfiling (fst st) p (sourceSeqIndex fi)) (fst st)) (\<lambda>s. Inr (s, snd st))"

definition GC_profileEnter :: "GC_state \<Rightarrow> GC_state res" where
  "GC_profileEnter s =
     bindE (getCachedStackTopFrameSourceSeqIndex s) (\<lambda>ssi. prof_upd (\<lambda>p. enterForProfiling s p ssi) s)"

definition removeFromStackForProfiling :: "GC_profileData \<Rightarrow> nat \<Rightarrow> GC_profileData res" where
  "removeFromStackForProfiling p i =
     stackInfo_upd i (\<lambda>ps. ps\<lparr>ticks := wrap (ticks ps + wrap_sub (total p) (lastTotal ps)),
                             ticksGC := wrap (ticksGC ps + wrap_sub (totalGC p) (lastTotalGC ps))\<rparr>) p"

definition leaveSourceForProfiling :: "GC_profileData \<Rightarrow> nat \<Rightarrow> GC_profileData res" where
  "leaveSourceForProfiling p i =
     bindE (stackInfo_upd i (\<lambda>ps. ps\<lparr>numOccurrences := wrap_sub (numOccurrences ps) 1\<rparr>) p) (\<lambda>p.
     bindE (getProfileStackInfo p i) (\<lambda>ps.
       if 0 = numOccurrences ps then removeFromStackForProfiling p i else Inr p))"

definition leaveBoth :: "GC_state \<Rightarrow> GC_profileData \<Rightarrow> nat \<Rightarrow> GC_profileData res" where
  "leaveBoth s p sourceIndex =
     bindE (leaveSourceForProfiling p sourceIndex) (\<lambda>p.
     bindE (sourceIndexToProfileMasterIndex s sourceIndex) (\<lambda>m. leaveSourceForProfiling p m))"

definition leaveForProfiling :: "GC_state \<Rightarrow> GC_profileData \<Rightarrow> nat \<Rightarrow> GC_profileData res" where
  "leaveForProfiling s p ssi =
     bindE (nthE (sourceSeqs (sourceMaps s)) ssi) (\<lambda>sourceSeq. foldE (leaveBoth s) (rev sourceSeq) p)"

definition GC_profileLeave :: "GC_state \<Rightarrow> GC_state res" where
  "GC_profileLeave s =
     bindE (getCachedStackTopFrameSourceSeqIndex s) (\<lambda>ssi. prof_upd (\<lambda>p. leaveForProfiling s p ssi) s)"

section \<open>Ticks\<close>

definition countTop_upd :: "nat \<Rightarrow> nat \<Rightarrow> GC_profileData \<Rightarrow> GC_profileData res" where
  "countTop_upd i amount p =
     bindE (updE i (\<lambda>c. wrap (c + amount)) (countTop p)) (\<lambda>ct. Inr (p\<lparr>countTop := ct\<rparr>))"

definition addTotal :: "nat \<Rightarrow> nat \<Rightarrow> GC_profileData \<Rightarrow> GC_profileData" where
  "addTotal topSourceIndex amount p =
     (if GC_SOURCE_INDEX = topSourceIndex then p\<lparr>totalGC := wrap (totalGC p + amount)\<rparr>
      else p\<lparr>total := wrap (total p + amount)\<rparr>)"

definition incForProfilingData :: "GC_state \<Rightarrow> nat \<Rightarrow> nat \<Rightarrow> GC_profileData \<Rightarrow> GC_profileData res" where
  "incForProfilingData s amount ssi p =
     bindE (nthE (sourceSeqs (sourceMaps s)) ssi) (\<lambda>sourceSeq.
       let topSourceIndex = (if sourceSeq \<noteq> [] then last sourceSeq else UNKNOWN_SOURCE_INDEX)
       in bindE (countTop_upd topSourceIndex amount p) (\<lambda>p.
          bindE (sourceIndexToProfileMasterIndex s topSourceIndex) (\<lambda>m.
          bindE (countTop_upd m amount p) (\<lambda>p.
          bindE (if prof_stack (profiling s) then enterForProfiling s p ssi else Inr p) (\<lambda>p.
            let p = addTotal topSourceIndex amount p
            in if prof_stack (profiling s) then leaveForProfiling s p ssi else Inr p)))))"

definition incForProfiling :: "GC_state \<Rightarrow> nat \<Rightarrow> nat \<Rightarrow> GC_state res" where
  "incForProfiling s amount ssi = prof_upd (incForProfilingData s amount ssi) s"

definition GC_profileInc :: "GC_state \<Rightarrow> nat \<Rightarrow> GC_state res" where
  "GC_profileInc s amount =
     (if amInGC s then incForProfiling s amount GC_SOURCE_SEQ_INDEX
      else bindE (getCachedStackTopFrameSourceSeqIndex s) (incForProfiling s amount))"

definition GC_profileAllocInc :: "GC_state \<Rightarrow> nat \<Rightarrow> GC_state res" where
  "GC_profileAllocInc s amount =
     (if isOn (profiling s) \<and> prof_kind (profiling s) = PROFILE_ALLOC then GC_profileInc s amount
      else Inr s)"

section \<open>Data of a profile\<close>

definition GC_profileStack0 :: GC_profileStack where
  "GC_profileStack0 = \<lparr>ticks = 0, ticksGC = 0, lastTotal = 0, lastTotalGC = 0, numOccurrences = 0\<rparr>"

definition profileMasterLength :: "GC_state \<Rightarrow> nat" where
  "profileMasterLength s = length (sources (sourceMaps s)) + length (sourceNames (sourceMaps s))"

definition profileMalloc :: "OS \<Rightarrow> GC_state \<Rightarrow> (GC_state \<times> GC_profileData) res" where
  "profileMalloc os s =
     bindE (malloc_safe os s 32) (\<lambda>s.
     bindE (malloc_safe os s (profileMasterLength s * 8)) (\<lambda>s.
     bindE (if prof_stack (profiling s) then malloc_safe os s (profileMasterLength s * 40) else Inr s) (\<lambda>s.
       Inr (s, \<lparr>countTop = replicate (profileMasterLength s) 0,
                profStack = (if prof_stack (profiling s) then replicate (profileMasterLength s) GC_profileStack0
                             else []),
                total = 0, totalGC = 0\<rparr>))))"

definition GC_profileMalloc :: "OS \<Rightarrow> GC_state \<Rightarrow> (GC_state \<times> GC_profileData) res" where
  "GC_profileMalloc os s = profileMalloc os s"

definition writeProfileCount :: "GC_state \<Rightarrow> GC_profileData \<Rightarrow> cfile \<Rightarrow> nat \<Rightarrow> cfile res" where
  "writeProfileCount s p f i =
     bindE (nthE (countTop p) i) (\<lambda>c.
       let f = writeUintmaxU c f
       in bindE (if prof_stack (profiling s) then
                   bindE (nthE (profStack p) i) (\<lambda>ps.
                     Inr (writeUintmaxU (ticksGC ps) (writeString '' ''
                            (writeUintmaxU (ticks ps) (writeString '' '' f)))))
                 else Inr f) (\<lambda>f. Inr (writeNewline f)))"

definition profileWrite :: "GC_state \<Rightarrow> GC_profileData \<Rightarrow> cfile res" where
  "profileWrite s p =
     (let f = writeStringWithNewline ''MLton prof'' [];
          n = length (sources (sourceMaps s)); m = length (sourceNames (sourceMaps s))
      in bindE (case prof_kind (profiling s) of
                  PROFILE_ALLOC \<Rightarrow> Inr ''alloc''
                | PROFILE_COUNT \<Rightarrow> Inr ''count''
                | PROFILE_NONE \<Rightarrow> Inl (Die ''impossible PROFILE_NONE'')
                | PROFILE_TIME \<Rightarrow> Inr ''time'') (\<lambda>kind.
           let f = writeStringWithNewline kind f;
               f = writeStringWithNewline (if prof_stack (profiling s) then ''stack'' else ''current'') f;
               f = writeNewline (writeUint32X (unat (magic s)) f);
               f = writeNewline (writeUintmaxU (totalGC p) (writeString '' '' (writeUintmaxU (total p) f)));
               f = writeNewline (writeUint32U n f)
           in bindE (foldE (writeProfileCount s p) [0..<n] f) (\<lambda>f.
              let f = writeNewline (writeUint32U m f)
              in foldE (writeProfileCount s p) (map (\<lambda>i. i + n) [0..<m]) f)))"

definition GC_profileWrite :: "GC_state \<Rightarrow> GC_profileData \<Rightarrow> cfile res" where
  "GC_profileWrite s p = profileWrite s p"

section \<open>Time profiling, start and end\<close>

text \<open>The handler of \<open>SIGPROF\<close>: a tick for what runs.\<close>

definition GC_handleSigProf :: "GC_state \<Rightarrow> GC_state res" where
  "GC_handleSigProf s =
     bindE (if amInGC s then Inr GC_SOURCE_SEQ_INDEX
            else if GC_state.stackTop s = GC_state.stackBottom s then Inr (curSourceSeqIndex (sourceMaps s))
            else
              bindE (nthE (frameInfos s) (getCachedStackTopFrameIndex s)) (\<lambda>fi.
                Inr (if frame_kind fi = CRETURN_FRAME then sourceSeqIndex fi
                     else curSourceSeqIndex (sourceMaps s))))
       (incForProfiling s 1)"

definition initProfilingTime :: "OS \<Rightarrow> GC_state \<Rightarrow> GC_state res" where
  "initProfilingTime os s =
     bindE (profileMalloc os s) (\<lambda>(s, p).
       Inr (s\<lparr>profiling := (profiling s)\<lparr>prof_data := p\<rparr>,
              sourceMaps := (sourceMaps s)\<lparr>curSourceSeqIndex := UNKNOWN_SOURCE_SEQ_INDEX\<rparr>\<rparr>))"

definition atexitForProfiling :: "GC_state \<Rightarrow> cfile option res" where
  "atexitForProfiling s =
     (if isOn (profiling s) then bindE (profileWrite s (prof_data (profiling s))) (\<lambda>f. Inr (Some f))
      else Inr None)"

definition initProfiling :: "OS \<Rightarrow> GC_state \<Rightarrow> GC_state res" where
  "initProfiling os s =
     (if prof_kind (profiling s) = PROFILE_NONE then Inr (s\<lparr>profiling := (profiling s)\<lparr>isOn := False\<rparr>\<rparr>)
      else
        (let s = s\<lparr>profiling := (profiling s)\<lparr>isOn := True\<rparr>\<rparr>
         in case prof_kind (profiling s) of
              PROFILE_TIME \<Rightarrow> initProfilingTime os s
            | _ \<Rightarrow> bindE (profileMalloc os s) (\<lambda>(s, p). Inr (s\<lparr>profiling := (profiling s)\<lparr>prof_data := p\<rparr>\<rparr>))))"

definition profileDoneStep :: "GC_profileData \<Rightarrow> nat \<Rightarrow> GC_profileData res" where
  "profileDoneStep p i =
     bindE (getProfileStackInfo p i) (\<lambda>ps.
       if 0 < numOccurrences ps then removeFromStackForProfiling p i else Inr p)"

definition GC_profileDone :: "GC_state \<Rightarrow> GC_state res" where
  "GC_profileDone s =
     (let s = s\<lparr>profiling := (profiling s)\<lparr>isOn := False\<rparr>\<rparr>
      in if prof_stack (profiling s) then
           prof_upd (\<lambda>p. foldE profileDoneStep [0..<profileMasterLength s] p) s
         else Inr s)"

definition GC_getProfileCurrent :: "GC_state \<Rightarrow> GC_profileData" where
  "GC_getProfileCurrent s = prof_data (profiling s)"

definition GC_setProfileCurrent :: "GC_state \<Rightarrow> GC_profileData \<Rightarrow> GC_state" where
  "GC_setProfileCurrent s p = s\<lparr>profiling := (profiling s)\<lparr>prof_data := p\<rparr>\<rparr>"

end
