(* ===== verification/NewObject.thy ===== *)
theory NewObject
  imports Heap Profiling
begin

text \<open>
  The current heap, thread and stack in the collector state (\<open>gc_state.c\<close>), the mutator's
  invariants (\<open>invariant.c\<close>), and the allocation of objects in the space that is free
  (\<open>new-object.c\<close>, \<open>weak.c\<close>).
\<close>

section \<open>The current thread, stack and heap\<close>

abbreviation (input) GC_HEAP_LIMIT_SLOP :: nat where "GC_HEAP_LIMIT_SLOP \<equiv> 512"

definition sizeofGCStateCurrentStackUsed :: "GC_state \<Rightarrow> nat" where
  "sizeofGCStateCurrentStackUsed s = wrap_sub (GC_state.stackTop s) (GC_state.stackBottom s)"

definition setGCStateCurrentThreadAndStack :: "GC_state \<Rightarrow> GC_state" where
  "setGCStateCurrentThreadAndStack s =
     (let s = s\<lparr>GC_state.exnStack := thread_exnStack s (getThreadCurrent s)\<rparr>;
          stack = getStackCurrent s;
          s = s\<lparr>GC_state.stackBottom := getStackBottom s stack, GC_state.stackTop := getStackTop s stack,
                GC_state.stackLimit := getStackLimit s stack\<rparr>
      in markCard stack s)"

text \<open>
  \<open>(float)x / (float)y <= r\<close>; for \<open>y = 0\<close> the quotient is infinite or not a number, and the
  comparison does not hold.
\<close>

definition fratio_le :: "nat \<Rightarrow> nat \<Rightarrow> double \<Rightarrow> bool" where
  "fratio_le x y r \<longleftrightarrow> y \<noteq> 0 \<and> flt (flt_of_size x / flt_of_size y) \<le> r"

text \<open>The generational nursery is worth it.\<close>

definition useGenerational :: "GC_state \<Rightarrow> nat \<Rightarrow> nat \<Rightarrow> nat \<Rightarrow> bool" where
  "useGenerational s nurseryBytesRequested nurserySize genNurserySize \<longleftrightarrow>
     (let h = heap s; live = lm_bytesLive (lastMajorStatistics s); rs = ratios (controls s)
      in mutatorMarksCards s \<and> nurseryBytesRequested \<le> genNurserySize
         \<and> fratio_le (wrap_sub (heapSize h) live) nurserySize (nursery_ratio rs)
         \<and> (lm_kind (lastMajorStatistics s) = GC_MARK_COMPACT
            \<or> fratio_le (heapSize h) live
                (if withMapsSize h < ram (sysvals s) then copyGenerational rs else markCompactGenerational rs)))"

definition setGCStateCurrentHeap :: "GC_state \<Rightarrow> nat \<Rightarrow> nat \<Rightarrow> GC_state res" where
  "setGCStateCurrentHeap s oldGenBytesRequested nurseryBytesRequested =
     (let h = heap s;
          s = s\<lparr>limitPlusSlop := heapStart h + heapSize h\<rparr>;
          s = s\<lparr>limit := wrap_sub (limitPlusSlop s) GC_HEAP_LIMIT_SLOP\<rparr>;
          nurserySize = wrap_sub (heapSize h) (wrap (oldGenSize h + oldGenBytesRequested));
          nurseryp = wrap_sub (limitPlusSlop s) nurserySize;
          genNursery = alignFrontier s (wrap_sub (limitPlusSlop s) (nurserySize div 2));
          genNurserySize = wrap_sub (limitPlusSlop s) genNursery
      in bindE (if useGenerational s nurseryBytesRequested nurserySize genNurserySize then
                  Inr (clearCardMap (s\<lparr>canMinor := True\<rparr>), genNursery)
                else if \<not> nurseryBytesRequested \<le> nurserySize then
                  Inl (Die ''Out of memory.  Insufficient space in nursery.'')
                else Inr (s\<lparr>canMinor := False\<rparr>, nurseryp)) (\<lambda>(s, nurseryp).
           let s = heap_upd (\<lambda>h. h\<lparr>nursery := nurseryp\<rparr>) s
           in Inr (s\<lparr>frontier := nurseryp\<rparr>)))"

section \<open>Access for the mutator\<close>

definition GC_getAmOriginal :: "GC_state \<Rightarrow> bool" where
  "GC_getAmOriginal s = amOriginal s"

definition GC_setAmOriginal :: "bool \<Rightarrow> GC_state \<Rightarrow> GC_state" where
  "GC_setAmOriginal b s = s\<lparr>amOriginal := b\<rparr>"

definition GC_setControlsMessages :: "bool \<Rightarrow> GC_state \<Rightarrow> GC_state" where
  "GC_setControlsMessages b s = s\<lparr>controls := (controls s)\<lparr>messages := b\<rparr>\<rparr>"

definition GC_setControlsSummary :: "bool \<Rightarrow> GC_state \<Rightarrow> GC_state" where
  "GC_setControlsSummary b s = s\<lparr>controls := (controls s)\<lparr>summary := b\<rparr>\<rparr>"

definition GC_setControlsRusageMeasureGC :: "bool \<Rightarrow> GC_state \<Rightarrow> GC_state" where
  "GC_setControlsRusageMeasureGC b s = s\<lparr>controls := (controls s)\<lparr>rusageMeasureGC := b\<rparr>\<rparr>"

definition GC_getCumulativeStatisticsBytesAllocated :: "GC_state \<Rightarrow> nat" where
  "GC_getCumulativeStatisticsBytesAllocated s = bytesAllocated (cumulativeStatistics s)"

definition GC_getCumulativeStatisticsNumCopyingGCs :: "GC_state \<Rightarrow> nat" where
  "GC_getCumulativeStatisticsNumCopyingGCs s = numCopyingGCs (cumulativeStatistics s)"

definition GC_getCumulativeStatisticsNumMarkCompactGCs :: "GC_state \<Rightarrow> nat" where
  "GC_getCumulativeStatisticsNumMarkCompactGCs s = numMarkCompactGCs (cumulativeStatistics s)"

definition GC_getCumulativeStatisticsNumMinorGCs :: "GC_state \<Rightarrow> nat" where
  "GC_getCumulativeStatisticsNumMinorGCs s = numMinorGCs (cumulativeStatistics s)"

definition GC_getCumulativeStatisticsMaxBytesLive :: "GC_state \<Rightarrow> nat" where
  "GC_getCumulativeStatisticsMaxBytesLive s = maxBytesLive (cumulativeStatistics s)"

definition GC_setHashConsDuringGC :: "bool \<Rightarrow> GC_state \<Rightarrow> GC_state" where
  "GC_setHashConsDuringGC b s = s\<lparr>hashConsDuringGC := b\<rparr>"

definition GC_getLastMajorStatisticsBytesLive :: "GC_state \<Rightarrow> nat" where
  "GC_getLastMajorStatisticsBytesLive s = lm_bytesLive (lastMajorStatistics s)"

definition GC_getCallFromCHandlerThread :: "GC_state \<Rightarrow> pointer" where
  "GC_getCallFromCHandlerThread s = objptrToPointer (callFromCHandlerThread s) (heapStart (heap s))"

definition GC_setCallFromCHandlerThread :: "pointer \<Rightarrow> GC_state \<Rightarrow> GC_state" where
  "GC_setCallFromCHandlerThread p s =
     write64 (callFromCHandlerThreadp s) (pointerToObjptr p (heapStart (heap s))) s"

definition GC_getCallFromCOpArgsResPtr :: "GC_state \<Rightarrow> pointer" where
  "GC_getCallFromCOpArgsResPtr s = callFromCOpArgsResPtr s"

definition GC_getCurrentThread :: "GC_state \<Rightarrow> pointer" where
  "GC_getCurrentThread s = objptrToPointer (currentThread s) (heapStart (heap s))"

definition set_savedThread :: "objptr \<Rightarrow> GC_state \<Rightarrow> GC_state" where
  "set_savedThread op s = write64 (savedThreadp s) op s"

definition set_currentThread :: "objptr \<Rightarrow> GC_state \<Rightarrow> GC_state" where
  "set_currentThread op s = write64 (currentThreadp s) op s"

definition GC_getSavedThread :: "GC_state \<Rightarrow> GC_state \<times> pointer" where
  "GC_getSavedThread s =
     (let p = objptrToPointer (savedThread s) (heapStart (heap s))
      in (set_savedThread BOGUS_OBJPTR s, p))"

definition GC_setSavedThread :: "pointer \<Rightarrow> GC_state \<Rightarrow> GC_state" where
  "GC_setSavedThread p s = set_savedThread (pointerToObjptr p (heapStart (heap s))) s"

definition GC_setSignalHandlerThread :: "pointer \<Rightarrow> GC_state \<Rightarrow> GC_state" where
  "GC_setSignalHandlerThread p s =
     write64 (signalHandlerThreadp s) (pointerToObjptr p (heapStart (heap s))) s"

definition GC_setGCSignalHandled :: "bool \<Rightarrow> GC_state \<Rightarrow> GC_state" where
  "GC_setGCSignalHandled b s = signals_upd (\<lambda>i. i\<lparr>gcSignalHandled := b\<rparr>) s"

definition GC_getGCSignalPending :: "GC_state \<Rightarrow> bool" where
  "GC_getGCSignalPending s = gcSignalPending (signalsInfo s)"

definition GC_setGCSignalPending :: "bool \<Rightarrow> GC_state \<Rightarrow> GC_state" where
  "GC_setGCSignalPending b s = signals_upd (\<lambda>i. i\<lparr>gcSignalPending := b\<rparr>) s"

section \<open>Invariants of the mutator\<close>

definition invariantForMutatorFrontier :: "GC_state \<Rightarrow> bool" where
  "invariantForMutatorFrontier s \<longleftrightarrow>
     thread_bytesNeeded s (getThreadCurrent s) \<le> wrap_sub (limitPlusSlop s) (frontier s)"

definition invariantForMutatorStack :: "GC_state \<Rightarrow> bool res" where
  "invariantForMutatorStack s =
     (let stack = getStackCurrent s
      in bindE (getStackTopFrameSize s stack) (\<lambda>fs. Inr (getStackTop s stack \<le> getStackLimit s stack + fs)))"

section \<open>New objects\<close>

definition newObject :: "GC_state \<Rightarrow> 64 word \<Rightarrow> nat \<Rightarrow> bool \<Rightarrow> (GC_state \<times> pointer) res" where
  "newObject s hdr bytesRequested allocInOldGen =
     (let (s, front) =
            (if allocInOldGen then
               (let front = heapStart (heap s) + oldGenSize (heap s);
                    s = heap_upd (\<lambda>h. h\<lparr>oldGenSize := wrap (oldGenSize h + bytesRequested)\<rparr>) s;
                    s = cumul_upd (\<lambda>c. c\<lparr>bytesAllocated := wrap (bytesAllocated c + bytesRequested)\<rparr>) s
                in (s, front))
             else (s\<lparr>frontier := frontier s + bytesRequested\<rparr>, frontier s))
      in bindE (GC_profileAllocInc s bytesRequested) (\<lambda>s.
           Inr (write64 front hdr s, front + GC_HEADER_SIZE)))"

definition newStack :: "GC_state \<Rightarrow> nat \<Rightarrow> bool \<Rightarrow> (GC_state \<times> pointer) res" where
  "newStack s reserved allocInOldGen =
     (let s = (if reserved > maxStackSize (cumulativeStatistics s)
               then cumul_upd (\<lambda>c. c\<lparr>maxStackSize := reserved\<rparr>) s else s)
      in bindE (newObject s GC_STACK_HEADER (sizeofStackWithMetaData s reserved) allocInOldGen) (\<lambda>(s, stack).
           Inr (set_stack_used stack 0 (set_stack_reserved stack reserved s), stack)))"

definition setFrontier :: "GC_state \<Rightarrow> pointer \<Rightarrow> GC_state res" where
  "setFrontier s p =
     (let p = alignFrontier s p
      in bindE (GC_profileAllocInc s (wrap_sub p (frontier s))) (\<lambda>s.
           let s = cumul_upd (\<lambda>c. c\<lparr>bytesAllocated := wrap (bytesAllocated c + wrap_sub p (frontier s))\<rparr>) s
           in Inr (s\<lparr>frontier := p\<rparr>)))"

definition GC_weakNew :: "GC_state \<Rightarrow> 64 word \<Rightarrow> pointer \<Rightarrow> (GC_state \<times> pointer) res" where
  "GC_weakNew s hdr p =
     bindE (newObject s hdr (sizeofWeak s) False) (\<lambda>(s, res).
       Inr (set_weak_objptr (res + offsetofWeak s) (pointerToObjptr p (heapStart (heap s))) s, res))"

end
