(* ===== verification/GarbageCollection.thy ===== *)
theory GarbageCollection
  imports MarkCompact NewObject
begin

text \<open>
  The control of collections (\<open>garbage-collection.c\<close>) with what it is built on and what is
  built on it: the critical sections of the runtime (\<open>atomic.c\<close>, \<open>enter_leave.c\<close>), signals and
  thread switches (\<open>handler.c\<close>, \<open>switch-thread.c\<close>), new threads and sequences
  (\<open>new-object.c\<close>, \<open>sequence-allocate.c\<close>, \<open>copy-thread.c\<close>), packing (\<open>pack.c\<close>), sharing and
  sizes of object graphs (\<open>share.c\<close>, \<open>size.c\<close>).
\<close>

section \<open>Critical sections\<close>

definition beginAtomic :: "GC_state \<Rightarrow> GC_state" where
  "beginAtomic s =
     (let s = s\<lparr>atomicState := atomicState s + 1\<rparr>
      in if 0 = limit s then s\<lparr>limit := wrap_sub (limitPlusSlop s) GC_HEAP_LIMIT_SLOP\<rparr> else s)"

definition endAtomic :: "GC_state \<Rightarrow> GC_state" where
  "endAtomic s =
     (let s = s\<lparr>atomicState := atomicState s - 1\<rparr>
      in if 0 = atomicState s \<and> signalIsPending (signalsInfo s) then s\<lparr>limit := 0\<rparr> else s)"

definition enter :: "GC_state \<Rightarrow> GC_state" where
  "enter s =
     (let s = set_stack_used (getStackCurrent s) (sizeofGCStateCurrentStackUsed s) s;
          s = set_thread_exnStack (getThreadCurrent s) (GC_state.exnStack s) s
      in beginAtomic s)"

definition leave :: "GC_state \<Rightarrow> GC_state" where
  "leave s = endAtomic s"

section \<open>Collections\<close>

definition minorGC :: "OS \<Rightarrow> GC_state \<Rightarrow> GC_state res" where
  "minorGC os s = minorCheneyCopyGC os s"

definition hashConsThisTime :: "GC_state \<Rightarrow> bool" where
  "hashConsThisTime s \<longleftrightarrow>
     (let c = cumulativeStatistics s; n = wrap (numCopyingGCs c + numMarkCompactGCs c)
      in 0 < n \<and> flt (flt_of_size (numHashConsGCs c) / flt_of_size n) < hashCons_ratio (ratios (controls s)))"

text \<open>The choice of the collector; a secondary heap may be created for the copying one.\<close>

definition majorCollect :: "OS \<Rightarrow> GC_state \<Rightarrow> nat \<Rightarrow> GC_state res" where
  "majorCollect os s desiredSize =
     (if \<not> hashConsDuringGC s \<and> withMapsSize (heap s) < ram (sysvals s) then
        (if \<not> isHeapInit (secondaryHeap s) then majorCheneyCopyGC os s
         else
           bindE (createHeapSecondary os s desiredSize) (\<lambda>(s, ok).
             if ok then majorCheneyCopyGC os s else majorMarkCompactGC os s))
      else majorMarkCompactGC os s)"

definition noteLive :: "GC_state \<Rightarrow> GC_state" where
  "noteLive s =
     (let s = s\<lparr>hashConsDuringGC := False\<rparr>;
          s = lastMajor_upd (\<lambda>m. m\<lparr>lm_bytesLive := oldGenSize (heap s)\<rparr>) s
      in if lm_bytesLive (lastMajorStatistics s) > maxBytesLive (cumulativeStatistics s)
         then cumul_upd (\<lambda>c. c\<lparr>maxBytesLive := lm_bytesLive (lastMajorStatistics s)\<rparr>) s
         else s)"

definition majorGC :: "OS \<Rightarrow> GC_state \<Rightarrow> nat \<Rightarrow> bool \<Rightarrow> GC_state res" where
  "majorGC os s bytesRequested mayResize =
     (let s = lastMajor_upd (\<lambda>m. m\<lparr>lm_numMinorGCs := 0\<rparr>) s;
          s = (if hashConsThisTime s then s\<lparr>hashConsDuringGC := True\<rparr> else s)
      in bindE (sizeofHeapDesired s (wrap (lm_bytesLive (lastMajorStatistics s) + bytesRequested)) 0)
           (\<lambda>desiredSize.
         bindE (majorCollect os s desiredSize) (\<lambda>s.
           let s = noteLive s
           in bindE (if mayResize
                     then resizeHeap os s (wrap (lm_bytesLive (lastMajorStatistics s) + bytesRequested))
                     else Inr s) (\<lambda>s.
              resizeHeapSecondary os (setCardMapAndCrossMap s)))))"

definition growStackCurrent :: "GC_state \<Rightarrow> GC_state res" where
  "growStackCurrent s =
     bindE (sizeofStackGrowReserved s (getStackCurrent s)) (\<lambda>reserved.
     bindE (newStack s reserved True) (\<lambda>(s, stack).
     bindE (copyStack s (getStackCurrent s) stack) (\<lambda>s.
       let s = set_thread_stack (getThreadCurrent s) (pointerToObjptr stack (heapStart (heap s))) s
       in Inr (markCard (objptrToPointer (getThreadCurrentObjptr s) (heapStart (heap s))) s))))"

definition profilesGC :: "GC_state \<Rightarrow> bool" where
  "profilesGC s \<longleftrightarrow> isOn (profiling s) \<and> prof_stack (profiling s) \<and> prof_kind (profiling s) \<noteq> PROFILE_COUNT"

definition enterGC :: "GC_state \<Rightarrow> GC_state res" where
  "enterGC s = bindE (if profilesGC s then GC_profileEnter s else Inr s) (\<lambda>s. Inr (s\<lparr>amInGC := True\<rparr>))"

definition leaveGC :: "GC_state \<Rightarrow> GC_state res" where
  "leaveGC s = bindE (if profilesGC s then GC_profileLeave s else Inr s) (\<lambda>s. Inr (s\<lparr>amInGC := False\<rparr>))"

definition startGCTiming :: "OS \<Rightarrow> GC_state \<Rightarrow> GC_state \<times> rusage" where
  "startGCTiming os s = (if needGCTime s then startTiming os s else (s, rusageZero))"

definition stopGCTiming :: "OS \<Rightarrow> rusage \<Rightarrow> GC_state \<Rightarrow> GC_state" where
  "stopGCTiming os ru_start s =
     (if needGCTime s then
        (let (s, ru, gcTime) = stopTiming os s ru_start (ru_gc (cumulativeStatistics s))
         in cumul_upd (\<lambda>c. c\<lparr>ru_gc := ru, maxPauseTime := max (maxPauseTime c) gcTime\<rparr>) s)
      else s)"

definition sendGCSignal :: "GC_state \<Rightarrow> GC_state" where
  "sendGCSignal s =
     (if gcSignalHandled (signalsInfo s) \<and> signalHandlerThread s \<noteq> BOGUS_OBJPTR then
        (let s = signals_upd (\<lambda>i. i\<lparr>gcSignalPending := True\<rparr>) s
         in if \<not> amInSignalHandler (signalsInfo s)
            then signals_upd (\<lambda>i. i\<lparr>signalIsPending := True\<rparr>) s else s)
      else s)"

definition performGC :: "OS \<Rightarrow> GC_state \<Rightarrow> nat \<Rightarrow> nat \<Rightarrow> bool \<Rightarrow> bool \<Rightarrow> GC_state res" where
  "performGC os s oldGenBytesRequested nurseryBytesRequested forceMajor mayResize =
     bindE (enterGC s) (\<lambda>s.
       let s = cumul_upd (\<lambda>c. c\<lparr>numGCs := wrap (numGCs c + 1)\<rparr>) s;
           (s, ru_start) = startGCTiming os s
       in bindE (minorGC os s) (\<lambda>s.
          bindE (invariantForMutatorStack s) (\<lambda>stackTopOk.
          bindE (if stackTopOk then Inr 0
                 else bindE (sizeofStackGrowReserved s (getStackCurrent s)) (\<lambda>r.
                        Inr (sizeofStackWithMetaData s r))) (\<lambda>stackBytesRequested.
            let totalBytesRequested = wrap (oldGenBytesRequested + nurseryBytesRequested + stackBytesRequested)
            in bindE (if forceMajor \<or> totalBytesRequested > wrap_sub (heapSize (heap s)) (oldGenSize (heap s))
                      then majorGC os s totalBytesRequested mayResize else Inr s) (\<lambda>s.
               bindE (setGCStateCurrentHeap s (wrap (oldGenBytesRequested + stackBytesRequested))
                        nurseryBytesRequested) (\<lambda>s.
               bindE (if stackTopOk then Inr s else growStackCurrent s) (\<lambda>s.
                 let s = setGCStateCurrentThreadAndStack s;
                     s = stopGCTiming os ru_start s;
                     s = sendGCSignal s
                 in leaveGC s)))))))"

definition ensureInvariantForMutator :: "OS \<Rightarrow> GC_state \<Rightarrow> bool \<Rightarrow> GC_state res" where
  "ensureInvariantForMutator os s force =
     bindE (if force \<or> \<not> invariantForMutatorFrontier s then Inr True
            else bindE (invariantForMutatorStack s) (\<lambda>b. Inr (\<not> b))) (\<lambda>gc.
       if gc then performGC os s 0 (thread_bytesNeeded s (getThreadCurrent s)) force True else Inr s)"

definition ensureHasHeapBytesFree :: "OS \<Rightarrow> GC_state \<Rightarrow> nat \<Rightarrow> nat \<Rightarrow> GC_state res" where
  "ensureHasHeapBytesFree os s oldGenBytesRequested nurseryBytesRequested =
     (if \<not> hasHeapBytesFree s oldGenBytesRequested nurseryBytesRequested
      then performGC os s oldGenBytesRequested nurseryBytesRequested False True else Inr s)"

section \<open>Signals and threads\<close>

definition switchToThread :: "objptr \<Rightarrow> GC_state \<Rightarrow> GC_state" where
  "switchToThread op s = setGCStateCurrentThreadAndStack (set_currentThread op s)"

definition GC_startSignalHandler :: "GC_state \<Rightarrow> GC_state" where
  "GC_startSignalHandler s =
     (let s = signals_upd (\<lambda>i. i\<lparr>signalIsPending := False, amInSignalHandler := True\<rparr>) s;
          s = set_savedThread (currentThread s) s
      in s\<lparr>atomicState := 2\<rparr>)"

definition GC_finishSignalHandler :: "GC_state \<Rightarrow> GC_state" where
  "GC_finishSignalHandler s = signals_upd (\<lambda>i. i\<lparr>amInSignalHandler := False\<rparr>) s"

definition switchToSignalHandlerThreadIfNonAtomicAndSignalPending :: "GC_state \<Rightarrow> GC_state" where
  "switchToSignalHandlerThreadIfNonAtomicAndSignalPending s =
     (if atomicState s = 1 \<and> signalIsPending (signalsInfo s) then
        (let s = GC_startSignalHandler s in switchToThread (signalHandlerThread s) s)
      else s)"

definition GC_handler :: "nat \<Rightarrow> GC_state \<Rightarrow> GC_state" where
  "GC_handler signum s =
     (let s = (if atomicState s = 0 then s\<lparr>limit := 0\<rparr> else s)
      in signals_upd (\<lambda>i. i\<lparr>signalIsPending := True, signalsPending := insert signum (signalsPending i)\<rparr>) s)"

definition GC_collect :: "OS \<Rightarrow> GC_state \<Rightarrow> nat \<Rightarrow> bool \<Rightarrow> GC_state res" where
  "GC_collect os s bytesRequested force =
     (let s = enter s;
          bytesRequested = (if 0 = bytesRequested then GC_HEAP_LIMIT_SLOP else bytesRequested);
          s = set_thread_bytesNeeded (getThreadCurrent s) bytesRequested s;
          s = switchToSignalHandlerThreadIfNonAtomicAndSignalPending s
      in bindE (ensureInvariantForMutator os s force) (\<lambda>s. Inr (leave s)))"

text \<open>The branch that is compiled, with \<open>enter\<close> and \<open>leave\<close> written out as in the code.\<close>

definition GC_switchToThread :: "OS \<Rightarrow> GC_state \<Rightarrow> pointer \<Rightarrow> nat \<Rightarrow> GC_state res" where
  "GC_switchToThread os s p ensureBytesFree =
     (let s = set_stack_used (getStackCurrent s) (sizeofGCStateCurrentStackUsed s) s;
          s = set_thread_exnStack (getThreadCurrent s) (GC_state.exnStack s) s;
          s = beginAtomic s;
          s = set_thread_bytesNeeded (getThreadCurrent s) ensureBytesFree s;
          s = switchToThread (pointerToObjptr p (heapStart (heap s))) s;
          s = s\<lparr>atomicState := atomicState s - 1\<rparr>;
          s = switchToSignalHandlerThreadIfNonAtomicAndSignalPending s
      in bindE (ensureInvariantForMutator os s False) (\<lambda>s. Inr (endAtomic s)))"

section \<open>Threads and sequences\<close>

definition newThread :: "OS \<Rightarrow> GC_state \<Rightarrow> nat \<Rightarrow> (GC_state \<times> pointer) res" where
  "newThread os s reserved =
     bindE (ensureHasHeapBytesFree os s 0 (wrap (sizeofStackWithMetaData s reserved + sizeofThread s))) (\<lambda>s.
     bindE (newStack s reserved False) (\<lambda>(s, stack).
     bindE (newObject s GC_THREAD_HEADER (sizeofThread s) False) (\<lambda>(s, res).
       let thread = res + offsetofThread s;
           s = set_thread_bytesNeeded thread 0 s;
           s = set_thread_exnStack thread BOGUS_EXN_STACK s;
           s = set_thread_stack thread (pointerToObjptr stack (heapStart (heap s))) s
       in Inr (s, thread))))"

definition copyThread :: "OS \<Rightarrow> GC_state \<Rightarrow> pointer \<Rightarrow> nat \<Rightarrow> (GC_state \<times> pointer) res" where
  "copyThread os s fromThread used =
     (let s = set_savedThread (pointerToObjptr (fromThread - offsetofThread s) (heapStart (heap s))) s
      in bindE (newThread os s (alignStackReserved s used)) (\<lambda>(s, to).
           let fromThread = objptrToPointer (savedThread s) (heapStart (heap s)) + offsetofThread s;
               s = set_savedThread BOGUS_OBJPTR s
           in bindE (copyStack s (objptrToPointer (thread_stack s fromThread) (heapStart (heap s)))
                       (objptrToPointer (thread_stack s to) (heapStart (heap s)))) (\<lambda>s.
              let s = set_thread_bytesNeeded to (thread_bytesNeeded s fromThread) s;
                  s = set_thread_exnStack to (thread_exnStack s fromThread) s
              in Inr (s, to))))"

definition GC_copyCurrentThread :: "OS \<Rightarrow> GC_state \<Rightarrow> GC_state res" where
  "GC_copyCurrentThread os s =
     (let s = enter s;
          fromThread = objptrToPointer (currentThread s) (heapStart (heap s)) + offsetofThread s;
          fromStack = objptrToPointer (thread_stack s fromThread) (heapStart (heap s))
      in bindE (copyThread os s fromThread (stack_used s fromStack)) (\<lambda>(s, toThread).
           let s = leave s
           in Inr (set_savedThread (pointerToObjptr (toThread - offsetofThread s) (heapStart (heap s))) s)))"

definition GC_copyThread :: "OS \<Rightarrow> GC_state \<Rightarrow> pointer \<Rightarrow> (GC_state \<times> pointer) res" where
  "GC_copyThread os s p =
     (let s = enter s;
          fromThread = p + offsetofThread s;
          fromStack = objptrToPointer (thread_stack s fromThread) (heapStart (heap s))
      in bindE (copyThread os s fromThread (stack_used s fromStack)) (\<lambda>(s, toThread).
           let s = leave s in Inr (s, toThread - offsetofThread s)))"

text \<open>The size of a sequence: the exact one and the aligned one, or no room for it.\<close>

definition sequenceSizes :: "GC_state \<Rightarrow> nat \<Rightarrow> nat \<Rightarrow> (nat \<times> nat) res" where
  "sequenceSizes s bytesPerElement numElements =
     (let doOverflow = Inl (Die ''Out of memory.  Unable to allocate sequence'')
      in if bytesPerElement > 0 \<and> numElements > SIZE_MAX div bytesPerElement then doOverflow
         else
           (let sequenceSize = wrap (bytesPerElement * numElements)
            in if sequenceSize > SIZE_MAX - GC_SEQUENCE_METADATA_SIZE then doOverflow
               else
                 (let sequenceSize = sequenceSize + GC_SEQUENCE_METADATA_SIZE;
                      sequenceSizeAligned = align sequenceSize (alignment s)
                  in if sequenceSizeAligned < sequenceSize then doOverflow
                     else Inr (sequenceSize, sequenceSizeAligned))))"

text \<open>The space for it, in the old generation when it is large.\<close>

definition sequenceSpace :: "OS \<Rightarrow> GC_state \<Rightarrow> nat \<Rightarrow> nat \<Rightarrow> (GC_state \<times> pointer) res" where
  "sequenceSpace os s ensureBytesFree sequenceSizeAligned =
     (if sequenceSizeAligned \<ge> oldGenSequenceSize (controls s) then
        bindE (if \<not> hasHeapBytesFree s sequenceSizeAligned ensureBytesFree
               then bindE (performGC os (enter s) sequenceSizeAligned ensureBytesFree False True) (\<lambda>s. Inr (leave s))
               else Inr s) (\<lambda>s.
          let front = heapStart (heap s) + oldGenSize (heap s);
              s = heap_upd (\<lambda>h. h\<lparr>oldGenSize := wrap (oldGenSize h + sequenceSizeAligned)\<rparr>) s;
              s = cumul_upd (\<lambda>c. c\<lparr>bytesAllocated := wrap (bytesAllocated c + sequenceSizeAligned)\<rparr>) s
          in Inr (s, front))
      else
        (let bytesRequested = wrap (sequenceSizeAligned + ensureBytesFree)
         in bindE (if \<not> hasHeapBytesFree s 0 bytesRequested
                   then bindE (performGC os (enter s) 0 bytesRequested False True) (\<lambda>s. Inr (leave s))
                   else Inr s) (\<lambda>s.
              let front = frontier s
              in Inr (s\<lparr>frontier := front + sequenceSizeAligned\<rparr>, front))))"

definition bogusSlots :: "pointer list \<Rightarrow> GC_state \<Rightarrow> GC_state" where
  "bogusSlots ps s = fold (\<lambda>p. write64 p BOGUS_OBJPTR) ps s"

definition GC_sequenceAllocate :: "OS \<Rightarrow> GC_state \<Rightarrow> nat \<Rightarrow> nat \<Rightarrow> 64 word \<Rightarrow> (GC_state \<times> pointer) res" where
  "GC_sequenceAllocate os s ensureBytesFree numElements hdr =
     bindE (splitHeader s hdr) (\<lambda>t.
     bindE (sequenceSizes s (bytesNonObjptrs t + numObjptrs t * OBJPTR_SIZE) numElements)
       (\<lambda>(sequenceSize, sequenceSizeAligned).
     bindE (sequenceSpace os s ensureBytesFree sequenceSizeAligned) (\<lambda>(s, front).
       let lastp = front + sequenceSize;
           s = write64 front 0 s;
           front = front + GC_SEQUENCE_COUNTER_SIZE;
           s = write64 front (word_of_nat numElements) s;
           front = front + GC_SEQUENCE_LENGTH_SIZE;
           s = write64 front hdr s;
           front = front + GC_HEADER_SIZE;
           s = (if 1 \<le> numObjptrs t \<and> 0 < numElements then
                  (if 0 = bytesNonObjptrs t then bogusSlots (objptrSteps front lastp) s
                   else bogusSlots (elementSteps (bytesNonObjptrs t) (numObjptrs t * OBJPTR_SIZE) front lastp) s)
                else s)
       in bindE (GC_profileAllocInc s sequenceSizeAligned) (\<lambda>s. Inr (s, front)))))"

section \<open>Packing\<close>

text \<open>\<open>oldGenSize * 1.1\<close> is a product of doubles.\<close>

definition packSize :: "GC_state \<Rightarrow> nat" where
  "packSize s = size_of_dbl (dbl (dbl_of_size (oldGenSize (heap s)) * dbl (11 / 10)))"

definition GC_pack :: "OS \<Rightarrow> GC_state \<Rightarrow> GC_state res" where
  "GC_pack os s =
     bindE (performGC os (enter s) 0 0 True False) (\<lambda>s.
       let keep = packSize s
       in bindE (if keep \<le> heapSize (heap s) then
                   (let s = s\<lparr>heap := shrinkHeap s (heap s) keep\<rparr>;
                        s = setCardMapAndCrossMap s
                    in bindE (setGCStateCurrentHeap s 0 0) (\<lambda>s. Inr (setGCStateCurrentThreadAndStack s)))
                 else Inr s) (\<lambda>s.
          let s = s\<lparr>secondaryHeap := releaseHeap (secondaryHeap s)\<rparr>
          in Inr (leave s)))"

definition GC_unpack :: "OS \<Rightarrow> GC_state \<Rightarrow> GC_state res" where
  "GC_unpack os s =
     bindE (enterGC (enter s)) (\<lambda>s.
     bindE (minorGC os s) (\<lambda>s.
     bindE (resizeHeap os s (oldGenSize (heap s))) (\<lambda>s.
     bindE (resizeHeapSecondary os (setCardMapAndCrossMap s)) (\<lambda>s.
     bindE (setGCStateCurrentHeap s 0 0) (\<lambda>s.
     bindE (leaveGC (setGCStateCurrentThreadAndStack s)) (\<lambda>s. Inr (leave s)))))))"

section \<open>Sharing and sizes\<close>

definition marking :: "GC_markMode \<Rightarrow> bool \<Rightarrow> GC_markState" where
  "marking m hashCons = \<lparr>mode = m, shouldHashCons = hashCons, shouldLinkWeaks = False, ms_size = 0\<rparr>"

definition GC_share :: "OS \<Rightarrow> GC_state \<Rightarrow> pointer \<Rightarrow> GC_state res" where
  "GC_share os s object =
     (if \<not> isPointer object then Inr s
      else
        (let s = enter s;
             s = (if messages (controls s) then lastMajor_upd (\<lambda>m. m\<lparr>lm_bytesHashConsed := 0\<rparr>) s else s)
         in bindE (dfsMark os s object (marking MARK_MODE False)) (\<lambda>(s, _).
            bindE (allocHashTable os s) (\<lambda>(s, t).
            bindE (dfsMark os (s\<lparr>objectHashTable := t\<rparr>) object (marking UNMARK_MODE True)) (\<lambda>(s, _).
              let hashConsed = lm_bytesHashConsed (lastMajorStatistics s)
              in Inr (leave (cumul_upd (\<lambda>c. c\<lparr>bytesHashConsed := wrap (bytesHashConsed c + hashConsed)\<rparr>) s)))))))"

definition GC_size :: "OS \<Rightarrow> GC_state \<Rightarrow> pointer \<Rightarrow> (GC_state \<times> nat) res" where
  "GC_size os s rootp =
     (if \<not> isPointer rootp then Inr (s, 0)
      else
        bindE (dfsMark os (enter s) rootp (marking MARK_MODE False)) (\<lambda>(s, markState).
        bindE (dfsMark os s rootp (marking UNMARK_MODE False)) (\<lambda>(s, _).
          Inr (leave s, ms_size markState))))"

definition GC_sizeAll :: "OS \<Rightarrow> GC_state \<Rightarrow> (GC_state \<times> nat) res" where
  "GC_sizeAll os s =
     bindE (foreachGlobalObjptr (enter s, marking MARK_MODE False) (dfsMarkObjptr os)) (\<lambda>(s, markState).
     bindE (foreachGlobalObjptr (s, marking UNMARK_MODE False) (dfsMarkObjptr os)) (\<lambda>(s, _).
       Inr (leave s, ms_size markState)))"

section \<open>The end of the program\<close>

definition GC_done :: "OS \<Rightarrow> GC_state \<Rightarrow> GC_state res" where
  "GC_done os s =
     bindE (minorGC os (enter s)) (\<lambda>s.
       let liveBytes = wrap_sub (regionTop s) (regionBuffer s);
           s = (if liveBytes > 0 then
                  cumul_upd (\<lambda>c. c\<lparr>bytesStackAllocated := wrap (bytesStackAllocated c + liveBytes),
                                   maxRegionBytesLive := (if liveBytes > maxRegionBytesLive c then liveBytes
                                                          else maxRegionBytesLive c)\<rparr>) s
                else s);
           s = s\<lparr>heap := releaseHeap (heap s)\<rparr>
       in Inr (s\<lparr>secondaryHeap := releaseHeap (secondaryHeap s)\<rparr>))"

end
