(* ===== verification/Allocation.thy ===== *)
theory Allocation
  imports ObjectGraph GarbageCollection
begin

text \<open>
  Sequences made by \<open>GC_sequenceAllocate\<close> (\<open>sequence-allocate.c\<close>): the check of its size against
  \<open>SIZE_MAX\<close> is exact, and the object it makes is well formed, has no successors, and is
  written within its own bytes.
\<close>

section \<open>The size\<close>

lemma product_guard: "(0 < b \<and> m div b < n) = (m < n * (b::nat))"
  using less_eq_div_iff_mult_less_eq [of b n m] by (cases "b = 0") (simp, linarith)

lemma sequenceSizes_exact:
  assumes "is_power2 (alignment s)"
  shows "sequenceSizes s b n =
    (if n * b + 24 + (alignment s - 1) < 2 ^ 64 then Inr (n * b + 24, align (n * b + 24) (alignment s))
     else Inl (Die ''Out of memory.  Unable to allocate sequence''))"
proof -
  have guard: "(0 < b \<and> SIZE_MAX div b < n) = (SIZE_MAX < n * b)"
    by (rule product_guard)
  let ?e = "n * b + 24"
  have wrapped: "align ?e (alignment s) < ?e"
    if "?e < 2 ^ 64" "2 ^ 64 \<le> ?e + (alignment s - 1)"
  proof -
    have "alignment s < 2 ^ 64" using is_power2_less [OF assms] by simp
    then have w: "wrap (?e + (alignment s - 1)) = ?e + (alignment s - 1) - 2 ^ 64"
      using that by (simp add: wrap_def mod_if)
    then have "wrap (?e + (alignment s - 1)) < alignment s" using that by simp
    moreover have "wrap (?e + (alignment s - 1)) < 18446744073709551616" by (simp add: wrap_def)
    ultimately have "align ?e (alignment s) = 0"
      unfolding align_def by (simp only: and_neg_is_power2 [OF assms] mod_less diff_self_eq_0)
    then show ?thesis by simp
  qed
  have fits: "\<not> align ?e (alignment s) < ?e" if "?e + (alignment s - 1) < 2 ^ 64"
    using align_ge [OF assms, of ?e] that by simp
  show ?thesis
    unfolding sequenceSizes_def guard using wrapped fits
    by (auto simp: Let_def mult.commute [of b])
qed

text \<open>
  C39: \<open>GC_sequenceAllocate\<close> checks the size of a sequence with arithmetic that wraps at
  \<open>2 ^ 64\<close> (the quotient before the product, the comparison after the rounding). The checks are
  exact: a size is accepted just if the mathematical size of elements and metadata, rounded up
  to the alignment, is below \<open>2 ^ 64\<close>, and it is that size, the least multiple
  of the alignment that is enough; all other sizes stop the program with the message.
\<close>

theorem sequenceSizes_spec:
  assumes "is_power2 (alignment s)"
  shows "(\<exists>r. isAligned r (alignment s) \<and> n * b + 24 \<le> r \<and> r < 2 ^ 64 \<and>
           (\<forall>c. isAligned c (alignment s) \<and> n * b + 24 \<le> c \<longrightarrow> r \<le> c) \<and>
           sequenceSizes s b n = Inr (n * b + 24, r))
    \<or> (\<forall>c. isAligned c (alignment s) \<and> n * b + 24 \<le> c \<longrightarrow> 2 ^ 64 \<le> c) \<and>
        sequenceSizes s b n = Inl (Die ''Out of memory.  Unable to allocate sequence'')"
proof (cases "n * b + 24 + (alignment s - 1) < 2 ^ 64")
  case True
  then have lt: "n * b + 24 + (alignment s - 1) < 18446744073709551616" by simp
  have "align (n * b + 24) (alignment s) < 2 ^ 64"
    using align_less [OF assms lt] True is_power2_pos [OF assms] by simp
  then show ?thesis
    using True sequenceSizes_exact [OF assms, of b n] align_aligned [OF assms lt] align_ge [OF assms lt]
      align_least [OF assms lt] by auto
next
  case False
  have "2 ^ 64 \<le> c" if "isAligned c (alignment s)" "n * b + 24 \<le> c" for c
  proof (rule ccontr)
    assume c: "\<not> 2 ^ 64 \<le> c"
    obtain k where k: "k < 64" "alignment s = 2 ^ k" using assms by (auto simp: is_power2_def)
    have "(2::nat) ^ k dvd 2 ^ 64" using k by (intro le_imp_power_dvd) simp
    then have "isAligned (2 ^ 64) (alignment s)" unfolding isAligned_iff_dvd k .
    then have "c + alignment s \<le> 2 ^ 64" using isAligned_less_add [OF that(1)] c by simp
    then show False using that(2) False is_power2_pos [OF assms] by simp
  qed
  then show ?thesis using False sequenceSizes_exact [OF assms, of b n] by simp
qed

theorem sequenceSizes_witness:
  "sequenceSizes (state0\<lparr>alignment := 8\<rparr>) 12 3 = Inr (60, 64)"
proof -
  have "r = 64" if "isAligned r 8" "60 \<le> r" "r \<le> 64" for r
    using that unfolding isAligned_def by presburger
  then show ?thesis
    using sequenceSizes_spec [of "state0\<lparr>alignment := 8\<rparr>" 3 12] is_power2_numeral(2)
    by (auto simp: isAligned_def dest: spec [of _ 64])
qed

section \<open>The object\<close>

lemma sequence_length_addr: "a + 24 - 8 - 8 = a + (8::nat)"
  by simp

lemma bogusSlots_eq: "bogusSlots ps s = s\<lparr>mem := storeAll ps BOGUS_OBJPTR (mem s)\<rparr>"
  by (induction ps arbitrary: s) (simp_all add: bogusSlots_def write64_def)

text \<open>The addresses of the slots, as the loops compute them and as the graph counts them.\<close>

definition newSlots :: "GC_objectType \<Rightarrow> nat \<Rightarrow> pointer \<Rightarrow> pointer list" where
  "newSlots t n p =
     (if 1 \<le> numObjptrs t \<and> 0 < n then
        (let lastp = p + n * (bytesNonObjptrs t + numObjptrs t * 8)
         in if 0 = bytesNonObjptrs t then objptrSteps p lastp
            else elementSteps (bytesNonObjptrs t) (numObjptrs t * 8) p lastp)
      else [])"

lemma newSlots_eq: "newSlots t n p = sequenceObjptrs (bytesNonObjptrs t) (numObjptrs t) p n"
proof (cases "1 \<le> numObjptrs t \<and> 0 < n")
  case True
  then show ?thesis
    using objptrSteps_sequence [of p n "numObjptrs t"] elementSteps_eq [of "bytesNonObjptrs t" "numObjptrs t" p n]
    by (cases "bytesNonObjptrs t = 0") (simp_all add: newSlots_def Let_def)
next
  case False
  then show ?thesis by (cases "numObjptrs t = 0") (simp_all add: newSlots_def sequenceObjptrs_def)
qed

lemma newSlots_range:
  assumes "x \<in> set (newSlots t n p)"
  shows "p \<le> x" "x + 8 \<le> p + n * (bytesNonObjptrs t + numObjptrs t * 8)"
proof -
  let ?e = "bytesNonObjptrs t + numObjptrs t * 8"
  obtain i j where ij: "i < n" "j < numObjptrs t" "x = p + i * ?e + bytesNonObjptrs t + j * 8"
    using assms by (auto simp: newSlots_eq set_sequenceObjptrs)
  have "Suc i * ?e \<le> n * ?e" using ij by (intro mult_le_mono1) simp
  moreover have "j * 8 + 8 \<le> numObjptrs t * 8" using ij by simp
  ultimately show "x + 8 \<le> p + n * ?e" using ij(3) by simp
  show "p \<le> x" using ij(3) by simp
qed

lemma newSlots_set:
  assumes "typeOf s p = t" "elems s p = n"
  shows "set (newSlots t n p) = slotAddr s p ` {..<numSlots s p}"
proof (rule set_eqI)
  fix x
  let ?o = "numObjptrs t" and ?b = "bytesNonObjptrs t"
  have slot: "slotAddr s p k = p + k div ?o * (?b + ?o * 8) + ?b + k mod ?o * 8" for k
    using assms by (simp add: slotAddr_def Let_def elemSize_def)
  have num: "numSlots s p = n * ?o" using assms by (simp add: numSlots_def)
  have "x \<in> slotAddr s p ` {..<numSlots s p} \<longleftrightarrow> (\<exists>i<n. \<exists>j<?o. x = p + i * (?b + ?o * 8) + ?b + j * 8)"
  proof
    assume "x \<in> slotAddr s p ` {..<numSlots s p}"
    then obtain k where k: "k < n * ?o" "x = slotAddr s p k" using num by auto
    then have "0 < ?o" by (cases "?o = 0") simp_all
    with k have "k div ?o < n" "k mod ?o < ?o" by (simp_all add: less_mult_imp_div_less)
    then show "\<exists>i<n. \<exists>j<?o. x = p + i * (?b + ?o * 8) + ?b + j * 8" using k(2) slot by blast
  next
    assume "\<exists>i<n. \<exists>j<?o. x = p + i * (?b + ?o * 8) + ?b + j * 8"
    then obtain i j where ij: "i < n" "j < ?o" "x = p + i * (?b + ?o * 8) + ?b + j * 8" by auto
    have "Suc i * ?o \<le> n * ?o" using ij by (intro mult_le_mono1) simp
    then have "i * ?o + j < numSlots s p" using ij num by simp
    moreover have "x = slotAddr s p (i * ?o + j)" using ij by (simp add: slot)
    ultimately show "x \<in> slotAddr s p ` {..<numSlots s p}" by blast
  qed
  then show "x \<in> set (newSlots t n p) \<longleftrightarrow> x \<in> slotAddr s p ` {..<numSlots s p}"
    by (simp only: newSlots_eq set_sequenceObjptrs)
qed

text \<open>The bytes of a new sequence: counter, length, header, and the same value in each slot.\<close>

definition sequenceMem :: "pointer \<Rightarrow> nat \<Rightarrow> 64 word \<Rightarrow> pointer list \<Rightarrow> mem \<Rightarrow> mem" where
  "sequenceMem a n h slots m =
     storeAll slots BOGUS_OBJPTR (store64 (store64 (store64 m a 0) (a + 8) (word_of_nat n)) (a + 16) h)"

lemma sequenceMem_metadata:
  assumes "\<forall>x\<in>set slots. a + 24 \<le> x"
  shows "load64 (sequenceMem a n h slots m) a = 0"
    "load64 (sequenceMem a n h slots m) (a + 8) = word_of_nat n"
    "load64 (sequenceMem a n h slots m) (a + 16) = h"
proof -
  have "\<forall>x\<in>set slots. apart a x \<and> apart (a + 8) x \<and> apart (a + 16) x"
    using assms by (auto simp: apart_def)
  then show "load64 (sequenceMem a n h slots m) a = 0"
    "load64 (sequenceMem a n h slots m) (a + 8) = word_of_nat n"
    "load64 (sequenceMem a n h slots m) (a + 16) = h"
    by (simp_all add: sequenceMem_def storeAll_load load64_store64_disjoint)
qed

lemma sequenceMem_outside:
  assumes "b < a \<or> a + sz \<le> b" "24 \<le> sz" "\<forall>x\<in>set slots. a \<le> x \<and> x + 8 \<le> a + sz"
  shows "sequenceMem a n h slots m b = m b"
proof -
  have "\<forall>x\<in>set slots. b < x \<or> x + 8 \<le> b" using assms by fastforce
  then have "sequenceMem a n h slots m b
      = store64 (store64 (store64 m a 0) (a + 8) (word_of_nat n)) (a + 16) h b"
    unfolding sequenceMem_def by (rule storeAll_outside)
  also have "\<dots> = m b" using assms(1,2) by (auto simp: store64_other)
  finally show ?thesis .
qed

text \<open>A state whose memory holds such a sequence.\<close>

lemma new_sequence:
  fixes s :: GC_state
  assumes t: "splitHeader s h = Inr t" "tag t = SEQUENCE_TAG" "numObjptrs t \<le> 2048" "h AND COUNTER_MASK = 0"
    and n: "n < 2 ^ 64" and a: "a + 24 < 2 ^ 64"
    and m: "mem s = sequenceMem a n h (newSlots t n (a + 24)) m0"
  shows "object_ok s (a + 24)" "getHeader s (a + 24) = h" "getSequenceLength s (a + 24) = n"
    "typeOf s (a + 24) = t" "elems s (a + 24) = n"
    "\<forall>k<numSlots s (a + 24). load64 (mem s) (slotAddr s (a + 24) k) = BOGUS_OBJPTR"
    "succs s (a + 24) = {}"
proof -
  let ?p = "a + 24" and ?slots = "newSlots t n (a + 24)"
  have ix: "typeIndexOfHeader h < length (objectTypes s)" "objectTypes s ! typeIndexOfHeader h = t"
    using t(1) by (auto simp: splitHeader_def Let_def split: if_splits)
  have md: "load64 (mem s) a = 0" "load64 (mem s) (a + 8) = word_of_nat n" "load64 (mem s) (a + 16) = h"
    unfolding m by (rule sequenceMem_metadata, use newSlots_range(1) in blast)+
  have addr: "getHeaderp ?p = a + 16" "getSequenceLengthp ?p = a + 8" "getSequenceCounterp ?p = a"
    by (simp_all add: getHeaderp_def getSequenceLengthp_def getSequenceCounterp_def)
  have u: "unat (word_of_nat n :: 64 word) = n" using n by (intro unat_of_nat_small) simp
  show h: "getHeader s ?p = h" unfolding getHeader_def addr by (rule md(3))
  show l: "getSequenceLength s ?p = n" unfolding getSequenceLength_def addr md(2) by (rule u)
  have c: "getSequenceCounter s ?p = 0" unfolding getSequenceCounter_def addr md(1) by simp
  show ty: "typeOf s ?p = t" using ix by (simp add: typeOf_def h)
  show e: "elems s ?p = n" using t(2) l by (simp add: elems_def ty)
  show "object_ok s ?p" using t ix a c by (simp add: object_ok_def h ty metaBytes_def)
  show bogus: "\<forall>k<numSlots s ?p. load64 (mem s) (slotAddr s ?p k) = BOGUS_OBJPTR"
  proof (intro allI impI)
    fix k assume k: "k < numSlots s ?p"
    have "\<forall>x\<in>set ?slots. x = slotAddr s ?p k \<or> apart (slotAddr s ?p k) x"
      unfolding newSlots_set [OF ty e] using slot_apart [OF k] by (metis imageE lessThan_iff)
    moreover have "slotAddr s ?p k \<in> set ?slots" unfolding newSlots_set [OF ty e] using k by blast
    ultimately show "load64 (mem s) (slotAddr s ?p k) = BOGUS_OBJPTR"
      unfolding m sequenceMem_def by (intro storeAll_inside) auto
  qed
  have "\<not> isPointer 1" by code_simp
  then show "succs s ?p = {}" using bogus by (auto simp: succs_def follows_def)
qed

lemma sequenceSpace_room:
  assumes "if oldGenSequenceSize (controls s) \<le> aligned then hasHeapBytesFree s aligned ens
           else hasHeapBytesFree s 0 (wrap (aligned + ens))"
  shows "sequenceSpace os s ens aligned =
    Inr (if oldGenSequenceSize (controls s) \<le> aligned
         then cumul_upd (\<lambda>c. c\<lparr>bytesAllocated := wrap (bytesAllocated c + aligned)\<rparr>)
                (heap_upd (\<lambda>h. h\<lparr>oldGenSize := wrap (oldGenSize h + aligned)\<rparr>) s)
         else s\<lparr>frontier := frontier s + aligned\<rparr>,
         if oldGenSequenceSize (controls s) \<le> aligned then heapStart (heap s) + oldGenSize (heap s)
         else frontier s)"
  using assms by (simp add: sequenceSpace_def Let_def not_le split: if_splits)

lemma GC_sequenceAllocate_eq:
  assumes "splitHeader s h = Inr t"
    and "sequenceSizes s (bytesNonObjptrs t + numObjptrs t * 8) n = Inr (sz, aligned)"
    and "sz = n * (bytesNonObjptrs t + numObjptrs t * 8) + 24"
    and "sequenceSpace os s ens aligned = Inr (s1, a)" "mem s1 = mem s"
    and "\<not> (isOn (profiling s1) \<and> prof_kind (profiling s1) = PROFILE_ALLOC)"
  shows "GC_sequenceAllocate os s ens n h
    = Inr (s1\<lparr>mem := sequenceMem a n h (newSlots t n (a + 24)) (mem s)\<rparr>, a + 24)"
proof -
  have "a + sz = a + 24 + n * (bytesNonObjptrs t + numObjptrs t * 8)" using assms(3) by simp
  moreover have "GC_profileAllocInc (s1\<lparr>mem := m\<rparr>) x = Inr (s1\<lparr>mem := m\<rparr>)" for m x
    using assms(6) by (auto simp: GC_profileAllocInc_def)
  ultimately show ?thesis
    using assms(1,2,4,5) by (auto simp: GC_sequenceAllocate_def Let_def bogusSlots_eq write64_def
        sequenceMem_def newSlots_def add.assoc)
qed

text \<open>
  C8: The object that \<open>GC_sequenceAllocate\<close> makes where there is room, in the old generation when
  it is large and at the frontier otherwise, is well typed: its header is the one asked for,
  it has the length asked for, a counter of 0 and no mark, it is an object in the sense of
  the marking theorems, it covers just the bytes its size says, and every pointer slot of every
  element holds the bogus pointer, so that no collection follows it anywhere. No
  other byte of memory changes, and the free space moves by the aligned size.
\<close>

theorem GC_sequenceAllocate_object:
  fixes s :: GC_state
  assumes t: "splitHeader s h = Inr t" "tag t = SEQUENCE_TAG" "numObjptrs t \<le> 2048" "h AND COUNTER_MASK = 0"
    and size: "sequenceSizes s (bytesNonObjptrs t + numObjptrs t * 8) n = Inr (sz, aligned)"
    and n: "n < 2 ^ 64" "is_power2 (alignment s)"
    and room: "if oldGenSequenceSize (controls s) \<le> aligned then hasHeapBytesFree s aligned ens
               else hasHeapBytesFree s 0 (wrap (aligned + ens))"
    and off: "\<not> (isOn (profiling s) \<and> prof_kind (profiling s) = PROFILE_ALLOC)"
    and a: "a = (if oldGenSequenceSize (controls s) \<le> aligned then heapStart (heap s) + oldGenSize (heap s)
                 else frontier s)" "a + 24 < 2 ^ 64"
  shows "\<exists>s'. GC_sequenceAllocate os s ens n h = Inr (s', a + 24) \<and>
    object_ok s' (a + 24) \<and> getHeader s' (a + 24) = h \<and> getSequenceLength s' (a + 24) = n \<and>
    (\<forall>k<numSlots s' (a + 24). load64 (mem s') (slotAddr s' (a + 24) k) = BOGUS_OBJPTR) \<and>
    succs s' (a + 24) = {} \<and> extent s' (a + 24) = {a..<a + sz} \<and>
    (\<forall>b. b \<notin> {a..<a + sz} \<longrightarrow> mem s' b = mem s b) \<and>
    (if oldGenSequenceSize (controls s) \<le> aligned
     then oldGenSize (heap s') = wrap (oldGenSize (heap s) + aligned) \<and> frontier s' = frontier s
     else oldGenSize (heap s') = oldGenSize (heap s) \<and> frontier s' = frontier s + aligned)"
proof -
  let ?p = "a + 24"
  have sz: "sz = n * (bytesNonObjptrs t + numObjptrs t * 8) + 24"
    using size unfolding sequenceSizes_exact [OF n(2)] by (auto split: if_splits)
  obtain s1 where s1: "sequenceSpace os s ens aligned = Inr (s1, a)"
    and f: "mem s1 = mem s" "objectTypes s1 = objectTypes s" "profiling s1 = profiling s"
      "if oldGenSequenceSize (controls s) \<le> aligned
       then oldGenSize (heap s1) = wrap (oldGenSize (heap s) + aligned) \<and> frontier s1 = frontier s
       else oldGenSize (heap s1) = oldGenSize (heap s) \<and> frontier s1 = frontier s + aligned"
    using sequenceSpace_room [OF room] a(1) by (auto simp: upd_defs split: if_splits)
  define s' where "s' = s1\<lparr>mem := sequenceMem a n h (newSlots t n ?p) (mem s)\<rparr>"
  have run: "GC_sequenceAllocate os s ens n h = Inr (s', ?p)"
    unfolding s'_def using GC_sequenceAllocate_eq [OF t(1) size sz s1 f(1)] off f(3) by simp
  have t': "splitHeader s' h = Inr t" using t(1) f(2) by (auto simp: s'_def splitHeader_def Let_def split: if_splits)
  have m: "mem s' = sequenceMem a n h (newSlots t n ?p) (mem s)" by (simp add: s'_def)
  note new = new_sequence [OF t' t(2-4) n(1) a(2) m]
  have "?p + n * (bytesNonObjptrs t + numObjptrs t * 8) = a + sz" using sz by simp
  moreover have "extent s' ?p = {a..<?p + n * (bytesNonObjptrs t + numObjptrs t * 8)}"
    using t(2) by (simp add: extent_def metaBytes_def new(4,5) elemSize_def)
  ultimately have "extent s' ?p = {a..<a + sz}" by (simp only:)
  moreover have "mem s' b = mem s b" if "b \<notin> {a..<a + sz}" for b
    unfolding m using that newSlots_range [of _ t n ?p] sz by (intro sequenceMem_outside [of _ _ sz]) fastforce+
  moreover have "heap s' = heap s1" "frontier s' = frontier s1" by (simp_all add: s'_def)
  ultimately show ?thesis using run new f(4) by auto
qed

text \<open>Three elements of 4 bytes and two pointers each, at the frontier.\<close>

definition sequenceExample :: GC_state where
  "sequenceExample = state0\<lparr>alignment := 8, frontier := 4096, limitPlusSlop := 8192,
     heap := GC_heap0\<lparr>heapStart := 4096, nursery := 4096, heapSize := 16384\<rparr>,
     controls := (controls state0)\<lparr>oldGenSequenceSize := 1048576\<rparr>,
     objectTypes := [\<lparr>tag = SEQUENCE_TAG, hasIdentity = True, bytesNonObjptrs = 4, numObjptrs = 2\<rparr>]\<rparr>"

theorem GC_sequenceAllocate_witness:
  "\<forall>os. \<exists>s'. GC_sequenceAllocate os sequenceExample 0 3 1 = Inr (s', 4120) \<and> succs s' 4120 = {}
     \<and> frontier s' = 4184"
proof
  fix os
  let ?t = "\<lparr>tag = SEQUENCE_TAG, hasIdentity = True, bytesNonObjptrs = 4, numObjptrs = 2\<rparr>"
  have "alignment sequenceExample = 8" by (simp add: sequenceExample_def)
  then have "sequenceSizes sequenceExample (bytesNonObjptrs ?t + numObjptrs ?t * 8) 3 = Inr (84, 88)"
    using sequenceSizes_exact [of sequenceExample "bytesNonObjptrs ?t + numObjptrs ?t * 8" 3] is_power2_numeral(2)
    by (simp add: align_eq_div)
  moreover have "typeIndexOfHeader 1 = 0" by code_simp
  then have "splitHeader sequenceExample 1 = Inr ?t" by (simp add: splitHeader_def sequenceExample_def)
  moreover have "(1::64 word) AND COUNTER_MASK = 0" by simp
  moreover have "hasHeapBytesFree sequenceExample 0 (wrap (88 + 0))"
    by (simp add: hasHeapBytesFree_def sequenceExample_def zero_defs wrap_def wrap_sub_def)
  moreover have "\<not> (isOn (profiling sequenceExample) \<and> prof_kind (profiling sequenceExample) = PROFILE_ALLOC)"
    "\<not> oldGenSequenceSize (controls sequenceExample) \<le> 88" "frontier sequenceExample = 4096"
    by (simp_all add: sequenceExample_def zero_defs)
  ultimately have "\<exists>s'. GC_sequenceAllocate os sequenceExample 0 3 1 = Inr (s', 4096 + 24) \<and>
      succs s' (4096 + 24) = {} \<and> frontier s' = 4096 + 88"
    using GC_sequenceAllocate_object [of sequenceExample 1 ?t 3 84 88 0 4096 os] is_power2_numeral(2)
      \<open>alignment sequenceExample = 8\<close> by (simp only: if_False GC_objectType.select_convs) auto
  then show "\<exists>s'. GC_sequenceAllocate os sequenceExample 0 3 1 = Inr (s', 4120) \<and> succs s' 4120 = {}
      \<and> frontier s' = 4184" by simp
qed

end
