(* ===== verification/World.thy ===== *)
theory World
  imports GarbageCollection
begin

text \<open>
  Saving the heap to a file and loading it (\<open>world.c\<close>), and the first heap
  (\<open>init-world.c\<close>). The functions the compiler generates for the global variables are
  parameters, as are the address of the program's code and of the collector state.
\<close>

section \<open>Parameters\<close>

record Program =
  gcStateFn :: pointer
  gcStateAddr :: pointer
  saveGlobals :: "GC_state \<Rightarrow> byte list option"
  loadGlobals :: "GC_state \<Rightarrow> cfile \<Rightarrow> (GC_state \<times> cfile) option"

section \<open>Loading\<close>

text \<open>\<open>until (readChar (f) == '\\000')\<close>; each turn takes a byte of the file.\<close>

fun skipText :: "nat \<Rightarrow> cfile \<Rightarrow> cfile res" where
  "skipText 0 f = Inl OutOfFuel"
| "skipText (Suc n) f =
     bindE (readChar f) (\<lambda>(c, f). if of_char c = (0::nat) then Inr f else skipText n f)"

definition storeBytes :: "pointer \<Rightarrow> byte list \<Rightarrow> GC_state \<Rightarrow> GC_state" where
  "storeBytes p bs s = s\<lparr>mem := (\<lambda>a. if p \<le> a \<and> a < p + length bs then bs ! (a - p) else mem s a)\<rparr>"

definition loadBytes :: "GC_state \<Rightarrow> pointer \<Rightarrow> nat \<Rightarrow> byte list" where
  "loadBytes s p n = map (\<lambda>i. mem s (p + i)) [0..<n]"

definition fread_mem :: "pointer \<Rightarrow> nat \<Rightarrow> GC_state \<times> cfile \<Rightarrow> (GC_state \<times> cfile) res" where
  "fread_mem p n = (\<lambda>(s, f). bindE (fread_safe n f) (\<lambda>(bs, f). Inr (storeBytes p bs s, f)))"

text \<open>The checks of the program, and the fields before the heap.\<close>

definition loadWorldHeader :: "Program \<Rightarrow> GC_state \<Rightarrow> cfile \<Rightarrow> (GC_state \<times> cfile \<times> pointer) res" where
  "loadWorldHeader prog s f =
     bindE (skipText (length f + 1) f) (\<lambda>f.
     bindE (readUint32 f) (\<lambda>(mg, f).
     if unat (magic s) \<noteq> mg then Inl (Die ''Invalid world: wrong magic number.'')
     else
     bindE (readPointer f) (\<lambda>(fn, f).
     if gcStateFn prog \<noteq> fn then Inl (Die ''Invalid world: wrong code address'')
     else
     bindE (readPointer f) (\<lambda>(sp, f).
     if gcStateAddr prog \<noteq> sp then Inl (Die ''Invalid world: wrong static-data address'')
     else
     bindE (readPointer f) (\<lambda>(start, f).
     bindE (readSize f) (\<lambda>(old, f).
     bindE (readUint32 f) (\<lambda>(atomic, f).
     bindE (readObjptr f) (\<lambda>(cfc, f).
     bindE (readObjptr f) (\<lambda>(ct, f).
     bindE (readObjptr f) (\<lambda>(sht, f).
       let s = heap_upd (\<lambda>h. h\<lparr>oldGenSize := old\<rparr>) s;
           s = s\<lparr>atomicState := word_of_nat atomic\<rparr>;
           s = write64 (callFromCHandlerThreadp s) cfc s;
           s = set_currentThread ct s;
           s = write64 (signalHandlerThreadp s) sht s
       in Inr (s, f, start)))))))))))"

text \<open>
  The result of \<open>createHeap\<close> is not looked at: when no memory is found the heap stays at 0
  and its bytes are read there.
\<close>

definition loadWorldFromFILE :: "OS \<Rightarrow> Program \<Rightarrow> GC_state \<Rightarrow> cfile \<Rightarrow> GC_state res" where
  "loadWorldFromFILE os prog s f =
     bindE (loadWorldHeader prog s f) (\<lambda>(s, f, start).
     bindE (sizeofHeapDesired s (oldGenSize (heap s)) 0) (\<lambda>desired.
     bindE (createHeap os s (heap s) desired (oldGenSize (heap s))) (\<lambda>(s, h, _).
       let s = setCardMapAndCrossMap (s\<lparr>heap := h\<rparr>);
           sh = staticHeaps s
       in bindE (fread_mem (staticStart (mutableHeap sh)) (staticSize (mutableHeap sh)) (s, f)) (\<lambda>sf.
          bindE (fread_mem (staticStart (rootHeap sh)) (staticSize (rootHeap sh)) sf) (\<lambda>(s, f).
          bindE (fread_mem (heapStart (heap s)) (oldGenSize (heap s)) (s, f)) (\<lambda>(s, f).
            case loadGlobals prog s f of
              None \<Rightarrow> Inl (Die ''Invalid world: failed to load globals.'')
            | Some (s, f) \<Rightarrow>
                if f \<noteq> [] then Inl (Die ''Invalid world: unexpected data at end of file.'')
                else
                  bindE (translateHeap s start (heapStart (heap s)) (oldGenSize (heap s))) (\<lambda>s.
                  bindE (setGCStateCurrentHeap s 0 0) (\<lambda>s.
                    Inr (setGCStateCurrentThreadAndStack s)))))))))"

text \<open>The files of the disk, by name; \<open>fopen_safe\<close> stops the program.\<close>

definition loadWorldFromFileName ::
  "OS \<Rightarrow> Program \<Rightarrow> (string \<Rightarrow> cfile option) \<Rightarrow> GC_state \<Rightarrow> string \<Rightarrow> GC_state res" where
  "loadWorldFromFileName os prog disk s fileName =
     (case disk fileName of
        None \<Rightarrow> Inl (Die ''fopen failed'')
      | Some f \<Rightarrow> loadWorldFromFILE os prog s f)"

section \<open>Saving\<close>

definition worldText :: "GC_state \<Rightarrow> byte list" where
  "worldText s =
     map of_char (''Heap file created by MLton.'' @ [CHR 0x0A] @ ''heap.start = ''
       @ ''0x'' @ showHexPad 16 (heapStart (heap s)) @ [CHR 0x0A] @ ''bytesLive = ''
       @ showDec (lm_bytesLive (lastMajorStatistics s)) @ [CHR 0x0A]) @ [0]"

text \<open>The blocks that are written, in their order.\<close>

definition worldBlocks :: "Program \<Rightarrow> GC_state \<Rightarrow> byte list list" where
  "worldBlocks prog s =
     [worldText s,
      bytesLE 4 (unat (magic s)),
      bytesLE 8 (gcStateFn prog),
      bytesLE 8 (gcStateAddr prog),
      bytesLE 8 (heapStart (heap s)),
      bytesLE 8 (oldGenSize (heap s)),
      bytesLE 4 (unat (atomicState s)),
      bytesLE 8 (unat (callFromCHandlerThread s)),
      bytesLE 8 (unat (currentThread s)),
      bytesLE 8 (unat (signalHandlerThread s)),
      loadBytes s (staticStart (mutableHeap (staticHeaps s))) (staticSize (mutableHeap (staticHeaps s))),
      loadBytes s (staticStart (rootHeap (staticHeaps s))) (staticSize (rootHeap (staticHeaps s))),
      loadBytes s (heapStart (heap s)) (oldGenSize (heap s))]"

text \<open>Writing stops at the first block that the operating system does not take.\<close>

fun writeBlocks :: "(byte list \<Rightarrow> bool) \<Rightarrow> byte list list \<Rightarrow> cfile \<Rightarrow> cfile option" where
  "writeBlocks fwriteOk [] f = Some f"
| "writeBlocks fwriteOk (b # bs) f = (if fwriteOk b then writeBlocks fwriteOk bs (f @ b) else None)"

definition saveWorldToFILE ::
  "OS \<Rightarrow> Program \<Rightarrow> (byte list \<Rightarrow> bool) \<Rightarrow> GC_state \<Rightarrow> (GC_state \<times> cfile option) res" where
  "saveWorldToFILE os prog fwriteOk s =
     bindE (performGC os s 0 0 True True) (\<lambda>s.
       Inr (s, case writeBlocks fwriteOk (worldBlocks prog s) [] of
                 None \<Rightarrow> None
               | Some f \<Rightarrow> (case saveGlobals prog s of None \<Rightarrow> None | Some g \<Rightarrow> Some (f @ g))))"

definition GC_saveWorld ::
  "OS \<Rightarrow> Program \<Rightarrow> bool \<Rightarrow> (byte list \<Rightarrow> bool) \<Rightarrow> bool \<Rightarrow> GC_state \<Rightarrow> (GC_state \<times> cfile option) res" where
  "GC_saveWorld os prog fopenOk fwriteOk fcloseOk s =
     (let s = enter s
      in if \<not> fopenOk then Inr (leave (s\<lparr>saveWorldStatus := False\<rparr>), None)
         else
           bindE (saveWorldToFILE os prog fwriteOk s) (\<lambda>(s, f).
             let ok = (f \<noteq> None \<and> fcloseOk)
             in Inr (leave (s\<lparr>saveWorldStatus := ok\<rparr>), if ok then f else None)))"

definition GC_getSaveWorldStatus :: "GC_state \<Rightarrow> bool" where
  "GC_getSaveWorldStatus s = saveWorldStatus s"

section \<open>The first heap\<close>

definition sizeofInitialBytesLive :: "GC_state \<Rightarrow> nat" where
  "sizeofInitialBytesLive s =
     wrap (staticSize (dynamicHeap (staticHeaps s))
           + (sizeofStackWithMetaData s (sizeofStackInitialReserved s) + sizeofThread s))"

definition initWorld :: "OS \<Rightarrow> GC_state \<Rightarrow> GC_state res" where
  "initWorld os s =
     (let s = lastMajor_upd (\<lambda>m. m\<lparr>lm_bytesLive := sizeofInitialBytesLive s\<rparr>) s;
          live = lm_bytesLive (lastMajorStatistics s)
      in bindE (sizeofHeapDesired s live 0) (\<lambda>desired.
         bindE (createHeap os s (heap s) desired live) (\<lambda>(s, h, _).
           let s = setCardMapAndCrossMap (s\<lparr>heap := h\<rparr>);
               start = alignFrontier s (heapStart (heap s));
               dyn = dynamicHeap (staticHeaps s);
               s = s\<lparr>frontier := start, limitPlusSlop := heapStart (heap s) + heapSize (heap s)\<rparr>;
               s = s\<lparr>limit := wrap_sub (limitPlusSlop s) GC_HEAP_LIMIT_SLOP\<rparr>
           in bindE (GC_memcpy (mem s) (staticStart dyn) start (staticSize dyn)) (\<lambda>m.
                let s = s\<lparr>mem := m, frontier := start + staticSize dyn\<rparr>
                in bindE (translateHeap s (staticStart dyn) start (staticSize dyn)) (\<lambda>s.
                     let s = heap_upd (\<lambda>h. h\<lparr>oldGenSize := wrap_sub (frontier s) (heapStart h)\<rparr>) s
                     in bindE (setGCStateCurrentHeap s 0 0) (\<lambda>s.
                        bindE (newThread os s (sizeofStackInitialReserved s)) (\<lambda>(s, thread).
                          Inr (switchToThread
                                 (pointerToObjptr (thread - offsetofThread s) (heapStart (heap s))) s))))))))"

end
