(* ===== verification/Init.thy ===== *)
theory Init
  imports World
begin

text \<open>
  The start of the program (\<open>init.c\<close>): the defaults, the arguments between \<open>@MLton\<close> and
  \<open>--\<close>, the checks of the ratios, and the first heap or the saved one.
\<close>

section \<open>Parameters\<close>

text \<open>
  The conversions of text to numbers (they give the number and the text behind it; the
  number is none when it is not finite), the files and the sizes of the machine.
\<close>

record Env =
  strtof :: "string \<Rightarrow> double \<times> string"
  strtod :: "string \<Rightarrow> double option \<times> string"
  fopenOk :: "string \<Rightarrow> bool"
  disk :: "string \<Rightarrow> cfile option"
  GC_pageSize :: nat
  GC_physMem :: nat

section \<open>Values of arguments\<close>

definition stringToBool :: "string \<Rightarrow> bool res" where
  "stringToBool s =
     (if s = ''false'' then Inr False else if s = ''true'' then Inr True
      else Inl (Die ''Invalid @MLton bool''))"

definition stringToFloat :: "Env \<Rightarrow> string \<Rightarrow> double res" where
  "stringToFloat env s =
     (let (f, endptr) = strtof env s
      in if endptr = s then Inl (Die ''Invalid @MLton float'') else Inr f)"

definition unitFactor :: "char \<Rightarrow> nat option" where
  "unitFactor c =
     (if c = CHR ''g'' \<or> c = CHR ''G'' then Some (1024 * 1024 * 1024)
      else if c = CHR ''k'' \<or> c = CHR ''K'' then Some 1024
      else if c = CHR ''m'' \<or> c = CHR ''M'' then Some (1024 * 1024)
      else None)"

text \<open>\<open>(size_t)d\<close>; the cast of a double that does not fit is undefined.\<close>

definition castToSize :: "double \<Rightarrow> nat res" where
  "castToSize d = (if 0 \<le> d \<and> d < 2 ^ 64 then Inr (size_of_dbl d) else Inl Undefined)"

definition stringToBytes :: "Env \<Rightarrow> string \<Rightarrow> nat res" where
  "stringToBytes env s =
     (let bad = Inl (Die ''Invalid @MLton memory amount''); (d, endptr) = strtod env s
      in if endptr = s then bad
         else
           (case endptr of
              [] \<Rightarrow> bad
            | c # endptr \<Rightarrow>
                (case (unitFactor c, d) of
                   (Some factor, Some d) \<Rightarrow>
                     (let d = dbl (d * dbl_of_size factor)
                      in if endptr = [] \<and> 0 \<le> d \<and> d \<le> dbl_of_size SIZE_MAX then castToSize d else bad)
                 | _ \<Rightarrow> bad)))"

section \<open>The arguments\<close>

definition controls_upd :: "(GC_controls \<Rightarrow> GC_controls) \<Rightarrow> GC_state \<Rightarrow> GC_state" where
  "controls_upd f s = s\<lparr>controls := f (controls s)\<rparr>"

definition ratios_upd :: "(GC_ratios \<Rightarrow> GC_ratios) \<Rightarrow> GC_state \<Rightarrow> GC_state" where
  "ratios_upd f s = controls_upd (\<lambda>c. c\<lparr>ratios := f (ratios c)\<rparr>) s"

text \<open>
  One turn of the inner loop: the state, the name of the world to load, and the arguments
  that are left; or the end of the \<open>@MLton\<close> arguments, or the end of the program.
\<close>

datatype argResult =
    Continue GC_state "string option" "string list"
  | Stop GC_state "string option" "string list"
  | Exit string

definition withArgument ::
  "string \<Rightarrow> string \<Rightarrow> string list \<Rightarrow> (string \<Rightarrow> string list \<Rightarrow> argResult res) \<Rightarrow> argResult res" where
  "withArgument a name rest k =
     (case rest of
        [] \<Rightarrow> Inl (Die (''@MLton '' @ name @ '' missing argument.''))
      | v # rest \<Rightarrow> if v = ''--'' then Inl (Die (''@MLton '' @ name @ '' missing argument.'')) else k v rest)"

definition greaterThanOne :: "double \<Rightarrow> bool" where "greaterThanOne x \<longleftrightarrow> 1 < x"
definition betweenZeroAndOne :: "double \<Rightarrow> bool" where "betweenZeroAndOne x \<longleftrightarrow> 0 \<le> x \<and> x \<le> 1"
definition anyRatio :: "double \<Rightarrow> bool" where "anyRatio x \<longleftrightarrow> True"

definition ratioOption ::
  "Env \<Rightarrow> string \<Rightarrow> string \<Rightarrow> (double \<Rightarrow> bool) \<Rightarrow> (double \<Rightarrow> GC_state \<Rightarrow> GC_state) \<Rightarrow> GC_state \<Rightarrow> string option
   \<Rightarrow> string list \<Rightarrow> argResult res" where
  "ratioOption env a name ok upd s w rest =
     withArgument a name rest (\<lambda>v rest.
       bindE (stringToFloat env v) (\<lambda>x.
         if ok x then Inr (Continue (upd x s) w rest)
         else Inl (Die (''@MLton '' @ name @ '' argument out of range.''))))"

text \<open>The mapping of the address space of Cygwin has no effect on this platform.\<close>

definition processArg3 ::
  "Env \<Rightarrow> nat \<Rightarrow> string \<Rightarrow> string list \<Rightarrow> GC_state \<Rightarrow> string option \<Rightarrow> argResult res" where
  "processArg3 env idx a rest s w =
     (if a = ''use-mmap'' then
        withArgument a ''use-mmap'' rest (\<lambda>v rest. bindE (stringToBool v) (\<lambda>_. Inr (Continue s w rest)))
      else if a = ''--'' then Inr (Stop s w rest)
      else if idx > 1 then Inl (Die (''Strange @MLton arg: '' @ a))
      else Inr (Stop s w (a # rest)))"

definition processArg2 ::
  "Env \<Rightarrow> nat \<Rightarrow> string \<Rightarrow> string list \<Rightarrow> GC_state \<Rightarrow> string option \<Rightarrow> argResult res" where
  "processArg2 env idx a rest s w =
     (if a = ''max-heap'' then
       withArgument a ''max-heap'' rest (\<lambda>v rest.
         bindE (stringToBytes env v) (\<lambda>b. Inr (Continue (controls_upd (\<lambda>c. c\<lparr>maxHeap := align b (2 * pageSize (sysvals s))\<rparr>) s) w rest)))
     else if a = ''may-page-heap'' then
       withArgument a ''may-page-heap'' rest (\<lambda>v rest.
         bindE (stringToBool v) (\<lambda>b. Inr (Continue (controls_upd (\<lambda>c. c\<lparr>mayPageHeap := b\<rparr>) s) w rest)))
     else if a = ''no-load-world'' then
       Inr (Continue (controls_upd (\<lambda>c. c\<lparr>mayLoadWorld := False\<rparr>) s) w rest)
     else if a = ''nursery-ratio'' then
       ratioOption env a ''nursery-ratio'' greaterThanOne (\<lambda>x. ratios_upd (nursery_ratio_update (\<lambda>_. x))) s w rest
     else if a = ''ram-slop'' then
       ratioOption env a ''ram-slop'' anyRatio (\<lambda>x. ratios_upd (ramSlop_update (\<lambda>_. x))) s w rest
     else if a = ''show-sources'' then
       Inr (Exit (showSources s))
     else if a = ''stop'' then
       Inr (Continue (controls_upd (\<lambda>c. c\<lparr>mayProcessAtMLton := False\<rparr>) s) w rest)
     else if a = ''stack-current-grow-ratio'' then
       ratioOption env a ''stack-current-grow-ratio'' greaterThanOne (\<lambda>x. ratios_upd (stackCurrentGrow_update (\<lambda>_. x))) s w rest
     else if a = ''stack-current-max-reserved-ratio'' then
       ratioOption env a ''stack-current-max-reserved-ratio'' greaterThanOne (\<lambda>x. ratios_upd (stackCurrentMaxReserved_update (\<lambda>_. x))) s w rest
     else if a = ''stack-current-permit-reserved-ratio'' then
       ratioOption env a ''stack-current-permit-reserved-ratio'' greaterThanOne (\<lambda>x. ratios_upd (stackCurrentPermitReserved_update (\<lambda>_. x))) s w rest
     else if a = ''stack-current-shrink-ratio'' then
       ratioOption env a ''stack-current-shrink-ratio'' betweenZeroAndOne (\<lambda>x. ratios_upd (stackCurrentShrink_update (\<lambda>_. x))) s w rest
     else if a = ''stack-max-reserved-ratio'' then
       ratioOption env a ''stack-max-reserved-ratio'' greaterThanOne (\<lambda>x. ratios_upd (stackMaxReserved_update (\<lambda>_. x))) s w rest
     else if a = ''stack-shrink-ratio'' then
       ratioOption env a ''stack-shrink-ratio'' betweenZeroAndOne (\<lambda>x. ratios_upd (stackShrink_update (\<lambda>_. x))) s w rest
     else processArg3 env idx a rest s w)"

definition processArg ::
  "Env \<Rightarrow> nat \<Rightarrow> string \<Rightarrow> string list \<Rightarrow> GC_state \<Rightarrow> string option \<Rightarrow> argResult res" where
  "processArg env idx a rest s w =
     (if a = ''copy-generational-ratio'' then
       ratioOption env a ''copy-generational-ratio'' greaterThanOne (\<lambda>x. ratios_upd (copyGenerational_update (\<lambda>_. x))) s w rest
     else if a = ''copy-ratio'' then
       ratioOption env a ''copy-ratio'' greaterThanOne (\<lambda>x. ratios_upd (copy_ratio_update (\<lambda>_. x))) s w rest
     else if a = ''fixed-heap'' then
       withArgument a ''fixed-heap'' rest (\<lambda>v rest.
         bindE (stringToBytes env v) (\<lambda>b. Inr (Continue (controls_upd (\<lambda>c. c\<lparr>fixedHeap := align b (2 * pageSize (sysvals s))\<rparr>) s) w rest)))
     else if a = ''gc-messages'' then
       Inr (Continue (controls_upd (\<lambda>c. c\<lparr>messages := True\<rparr>) s) w rest)
     else if a = ''gc-summary'' then
       Inr (Continue (controls_upd (\<lambda>c. c\<lparr>summary := True\<rparr>) s) w rest)
     else if a = ''gc-summary-file'' then
       withArgument a ''gc-summary-file'' rest (\<lambda>v rest.
         if fopenOk env v then Inr (Continue (controls_upd (\<lambda>c. c\<lparr>summary := True, summaryFile := v\<rparr>) s) w rest)
         else Inl (Die ''Invalid @MLton gc-summary-file''))
     else if a = ''grow-ratio'' then
       ratioOption env a ''grow-ratio'' greaterThanOne (\<lambda>x. ratios_upd (grow_ratio_update (\<lambda>_. x))) s w rest
     else if a = ''hash-cons'' then
       ratioOption env a ''hash-cons'' betweenZeroAndOne (\<lambda>x. ratios_upd (hashCons_ratio_update (\<lambda>_. x))) s w rest
     else if a = ''live-ratio'' then
       ratioOption env a ''live-ratio'' greaterThanOne (\<lambda>x. ratios_upd (live_ratio_update (\<lambda>_. x))) s w rest
     else if a = ''load-world'' then
       (if \<not> mayLoadWorld (controls s) then Inl (Die ''May not load world.'')
         else withArgument a ''load-world'' rest (\<lambda>v rest. Inr (Continue (s\<lparr>amOriginal := False\<rparr>) (Some v) rest)))
     else if a = ''mark-compact-generational-ratio'' then
       ratioOption env a ''mark-compact-generational-ratio'' greaterThanOne (\<lambda>x. ratios_upd (markCompactGenerational_update (\<lambda>_. x))) s w rest
     else if a = ''mark-compact-ratio'' then
       ratioOption env a ''mark-compact-ratio'' greaterThanOne (\<lambda>x. ratios_upd (markCompact_update (\<lambda>_. x))) s w rest
     else processArg2 env idx a rest s w)"

datatype argsResult = Args GC_state "string option" "string list" | Exited string

text \<open>
  The two loops; \<open>argc\<close> is the number of all arguments, so that the index of an argument is
  \<open>argc\<close> less the number of those from it on. Each turn takes an argument.
\<close>

fun processAtMLtonLoop :: "nat \<Rightarrow> Env \<Rightarrow> nat \<Rightarrow> bool \<Rightarrow> GC_state \<Rightarrow> string option \<Rightarrow> string list \<Rightarrow> argsResult res" where
  "processAtMLtonLoop 0 env argc inner s w args = Inl OutOfFuel"
| "processAtMLtonLoop (Suc n) env argc inner s w args =
     (if inner then
        (case args of
           [] \<Rightarrow> Inl (Die ''Missing -- at end of @MLton args.'')
         | a # rest \<Rightarrow>
             bindE (processArg env (argc - length args) a rest s w) (\<lambda>r.
               case r of
                 Continue s w rest \<Rightarrow> processAtMLtonLoop n env argc True s w rest
               | Stop s w rest \<Rightarrow> processAtMLtonLoop n env argc False s w rest
               | Exit out \<Rightarrow> Inr (Exited out)))
      else
        (if mayProcessAtMLton (controls s) \<and> args \<noteq> [] \<and> hd args = ''@MLton''
         then processAtMLtonLoop n env argc True s w (tl args)
         else Inr (Args s w args)))"

definition processAtMLton :: "Env \<Rightarrow> GC_state \<Rightarrow> nat \<Rightarrow> string list \<Rightarrow> string option \<Rightarrow> argsResult res" where
  "processAtMLton env s start argv w =
     processAtMLtonLoop (2 * length argv + 2) env (length argv) False s w (drop start argv)"

section \<open>Defaults\<close>

definition defaultRatios :: GC_ratios where
  "defaultRatios = \<lparr>copy_ratio = 4, copyGenerational = 4, grow_ratio = 8, hashCons_ratio = 0, live_ratio = 8,
     markCompact = flt (104 / 100), markCompactGenerational = 8, nursery_ratio = 10, ramSlop = 1 / 2,
     stackCurrentGrow = 2, stackCurrentMaxReserved = 32, stackCurrentPermitReserved = 4,
     stackCurrentShrink = 1 / 2, stackMaxReserved = 8, stackShrink = 1 / 2\<rparr>"

definition initControls :: "GC_controls \<Rightarrow> GC_controls" where
  "initControls c = c\<lparr>fixedHeap := 0, maxHeap := 0, mayLoadWorld := True, mayPageHeap := False,
     mayProcessAtMLton := True, messages := False, oldGenSequenceSize := 0x100000, ratios := defaultRatios,
     summary := False, summaryFile := ''stderr''\<rparr>"

definition initCumulativeStatistics :: "GC_cumulativeStatistics \<Rightarrow> GC_cumulativeStatistics" where
  "initCumulativeStatistics c = c\<lparr>bytesAllocated := 0, bytesCopied := 0, bytesCopiedMinor := 0,
     bytesHashConsed := 0, bytesMarkCompacted := 0, bytesScannedMinor := 0, bytesStackAllocated := 0,
     maxBytesLive := 0, maxHeapSize := 0, maxPauseTime := 0, maxStackSize := 0, maxRegionBytesLive := 0,
     numCardsMarked := 0, numCopyingGCs := 0, numHashConsGCs := 0, numMarkCompactGCs := 0, numMinorGCs := 0,
     ru_gc := rusageZero, ru_gcCopying := rusageZero, ru_gcMarkCompact := rusageZero, ru_gcMinor := rusageZero\<rparr>"

text \<open>The fields the code sets before it looks at the arguments.\<close>

definition initFields :: "Env \<Rightarrow> GC_state \<Rightarrow> GC_state" where
  "initFields env s =
     (let s = s\<lparr>amInGC := True, amOriginal := True, atomicState := 0\<rparr>;
          s = write64 (callFromCHandlerThreadp s) BOGUS_OBJPTR s;
          s = controls_upd initControls s;
          s = cumul_upd initCumulativeStatistics s;
          s = set_currentThread BOGUS_OBJPTR s;
          s = s\<lparr>hashConsDuringGC := False, heap := initHeap (heap s),
                lastMajorStatistics := \<lparr>lm_bytesHashConsed = 0, lm_bytesLive = 0, lm_kind = GC_COPYING,
                                        lm_numMinorGCs = 0\<rparr>\<rparr>;
          s = set_savedThread BOGUS_OBJPTR s;
          s = s\<lparr>secondaryHeap := initHeap (secondaryHeap s)\<rparr>;
          s = write64 (signalHandlerThreadp s) BOGUS_OBJPTR s
      in s\<lparr>signalsInfo := \<lparr>amInSignalHandler = False, gcSignalHandled = False, gcSignalPending = False,
                           signalIsPending = False, signalsHandled = {}, signalsPending = {}\<rparr>,
           sysvals := (sysvals s)\<lparr>pageSize := GC_pageSize env, physMem := GC_physMem env\<rparr>,
           weaks := 0, saveWorldStatus := True\<rparr>)"

definition initRegion :: "OS \<Rightarrow> GC_state \<Rightarrow> GC_state res" where
  "initRegion os s =
     (let s = s\<lparr>regionBufferSize := 8 * 1024 * 1024\<rparr>
      in case GC_mmapAnon os s 0 (regionBufferSize s) of
           (s, None) \<Rightarrow> Inl (Die ''Out of memory.  Unable to allocate'')
         | (s, Some buf) \<Rightarrow>
             (let start = alignFrontier s buf
              in if start = SIZE_MAX then Inl (Die ''Cannot allocate region buffer'')
                 else Inr (s\<lparr>regionBuffer := start, regionTop := start, regionBase := start\<rparr>)))"

section \<open>The memory of the machine\<close>

definition ramSize :: "GC_state \<Rightarrow> nat res" where
  "ramSize s =
     (let page = pageSize (sysvals s)
      in bindE (castToSize (dbl (ramSlop (ratios (controls s)) * dbl_of_size (physMem (sysvals s))))) (\<lambda>b.
           Inr (min (alignMax b page) (alignMaxDown SIZE_MAX page))))"

definition checkControls :: "GC_state \<Rightarrow> unit res" where
  "checkControls s =
     (let c = controls s; r = ratios c
      in if fixedHeap c > 0 \<and> maxHeap c > 0 then Inl (Die ''Cannot use both fixed-heap and max-heap.'')
         else if \<not> (markCompact r \<le> copy_ratio r \<and> copy_ratio r \<le> live_ratio r) then
           Inl (Die ''Ratios must satisfy mark-compact-ratio <= copy-ratio <= live-ratio.'')
         else if \<not> stackCurrentPermitReserved r \<le> stackCurrentMaxReserved r then
           Inl (Die ''Ratios must satisfy stack-current-permit-reserved <= stack-current-max-reserved.'')
         else Inr ())"

text \<open>The heap, and the frames of a loaded stack that were entered before it was saved.\<close>

definition initHeapOrWorld :: "OS \<Rightarrow> Program \<Rightarrow> Env \<Rightarrow> GC_state \<Rightarrow> string option \<Rightarrow> GC_state res" where
  "initHeapOrWorld os prog env s w =
     (if amOriginal s then initWorld os s
      else
        (case w of
           None \<Rightarrow> Inl Undefined
         | Some name \<Rightarrow>
             bindE (loadWorldFromFileName os prog (disk env) s name) (\<lambda>s.
               if isOn (profiling s) \<and> prof_stack (profiling s)
               then bindE (foreachStackFrame (s, ()) enterFrameForProfiling) (\<lambda>(s, _). Inr s)
               else Inr s)))"

definition GC_init ::
  "OS \<Rightarrow> Program \<Rightarrow> Env \<Rightarrow> string list \<Rightarrow> GC_state \<Rightarrow> string list \<Rightarrow> (string + GC_state \<times> string list) res" where
  "GC_init os prog env atMLtons s argv =
     bindE (initRegion os (initFields env s)) (\<lambda>s.
     if \<not> isAligned (pageSize (sysvals s)) CARD_SIZE then Inl (Die ''Page size must be a multiple of card size.'')
     else
     bindE (processAtMLton env s 0 atMLtons None) (\<lambda>r.
     case r of Exited out \<Rightarrow> Inr (Inl out)
     | Args s w _ \<Rightarrow>
     bindE (processAtMLton env s 1 argv w) (\<lambda>r.
     case r of Exited out \<Rightarrow> Inr (Inl out)
     | Args s w rest \<Rightarrow>
     bindE (checkControls s) (\<lambda>_.
     bindE (ramSize s) (\<lambda>ramBytes.
       let s = s\<lparr>sysvals := (sysvals s)\<lparr>ram := ramBytes\<rparr>\<rparr>
       in bindE (initProfiling os s) (\<lambda>s.
          bindE (initHeapOrWorld os prog env s w) (\<lambda>s.
            Inr (Inr (s\<lparr>amInGC := False\<rparr>, rest)))))))))"

end
