(* ===== verification/Arguments.thy ===== *)
theory Arguments
  imports Init
begin

text \<open>
  What the arguments between \<open>@MLton\<close> and \<open>--\<close> can do to the controls (\<open>init.c\<close>): reading them
  ends, takes a prefix of the arguments, and keeps every ratio in the range the collector
  relies on.
\<close>

section \<open>Controls in range\<close>

definition ratiosInRange :: "GC_ratios \<Rightarrow> bool" where
  "ratiosInRange r \<longleftrightarrow>
     list_all greaterThanOne
       [copy_ratio r, copyGenerational r, grow_ratio r, live_ratio r, markCompact r, markCompactGenerational r,
        nursery_ratio r, stackCurrentGrow r, stackCurrentMaxReserved r, stackCurrentPermitReserved r, stackMaxReserved r] \<and>
     list_all betweenZeroAndOne [hashCons_ratio r, stackCurrentShrink r, stackShrink r]"

definition controlsInRange :: "GC_state \<Rightarrow> bool" where
  "controlsInRange s \<longleftrightarrow>
     ratiosInRange (ratios (controls s)) \<and>
     isAligned (fixedHeap (controls s)) (2 * pageSize (sysvals s)) \<and>
     isAligned (maxHeap (controls s)) (2 * pageSize (sysvals s))"

text \<open>The state of the reading: a world to load has a name.\<close>

definition reading_ok :: "nat \<Rightarrow> GC_state \<Rightarrow> string option \<Rightarrow> bool" where
  "reading_ok page s w \<longleftrightarrow>
     controlsInRange s \<and> (\<not> amOriginal s \<longrightarrow> w \<noteq> None) \<and> pageSize (sysvals s) = page \<and> is_power2 (2 * page)"

definition taken :: "string list \<Rightarrow> string list \<Rightarrow> bool" where
  "taken args rest \<longleftrightarrow> (\<exists>xs. xs \<noteq> [] \<and> args = xs @ rest)"

definition arg_ok :: "nat \<Rightarrow> string list \<Rightarrow> argResult res \<Rightarrow> bool" where
  "arg_ok page args r \<longleftrightarrow>
     (case r of
        Inl e \<Rightarrow> e \<noteq> OutOfFuel
      | Inr (Continue s w rest) \<Rightarrow> reading_ok page s w \<and> taken args rest
      | Inr (Stop s w rest) \<Rightarrow> reading_ok page s w \<and> (rest = args \<or> taken args rest)
      | Inr (Exit out) \<Rightarrow> True)"

lemma taken_simps [simp]: "taken (a # rest) rest" "taken (a # v # rest) rest"
  unfolding taken_def by (rule exI [of _ "[a]"], simp, rule exI [of _ "[a, v]"], simp)

lemma taken_trans: "taken a b \<Longrightarrow> taken b c \<Longrightarrow> taken a c"
  unfolding taken_def by (metis append.assoc append_is_Nil_conv)

lemma taken_length: "taken a b \<Longrightarrow> length b < length a"
  by (auto simp: taken_def)

lemma arg_ok_simps [simp]:
  "arg_ok page args (Inl (Die m))" "arg_ok page args (Inl Undefined)" "arg_ok page args (Inr (Exit out))"
  "arg_ok page args (Inr (Continue s w rest)) \<longleftrightarrow> reading_ok page s w \<and> taken args rest"
  "arg_ok page args (Inr (Stop s w rest)) \<longleftrightarrow> reading_ok page s w \<and> (rest = args \<or> taken args rest)"
  by (simp_all add: arg_ok_def)

section \<open>One argument\<close>

lemma withArgument_ok:
  assumes "\<And>v rest'. rest = v # rest' \<Longrightarrow> arg_ok page (a # rest) (k v rest')"
  shows "arg_ok page (a # rest) (withArgument a name rest k)"
  using assms by (auto simp: withArgument_def split: list.splits)

lemma stringToBool_ok:
  assumes "\<And>b. arg_ok page args (f b)"
  shows "arg_ok page args (bindE (stringToBool v) f)"
  using assms by (simp add: stringToBool_def)

lemma stringToBytes_ok:
  assumes "\<And>b. arg_ok page args (f b)"
  shows "arg_ok page args (bindE (stringToBytes env v) f)"
proof -
  have "stringToBytes env v = Inl (Die m) \<or> stringToBytes env v = Inl Undefined \<or> (\<exists>b. stringToBytes env v = Inr b)"
    if "m = ''Invalid @MLton memory amount''" for m
    unfolding that stringToBytes_def castToSize_def Let_def
    by (simp split: prod.split list.split option.split)
  then show ?thesis using assms by fastforce
qed

lemma ratioOption_ok:
  assumes "reading_ok page s w"
    and "\<And>x. ok x \<Longrightarrow> reading_ok page (upd x s) w"
  shows "arg_ok page (a # rest) (ratioOption env a name ok upd s w rest)"
  unfolding ratioOption_def
proof (rule withArgument_ok)
  fix v rest' assume "rest = v # rest'"
  then show "arg_ok page (a # rest) (bindE (stringToFloat env v) (\<lambda>x.
      if ok x then Inr (Continue (upd x s) w rest') else Inl (Die (''@MLton '' @ name @ '' argument out of range.''))))"
    using assms by (simp add: stringToFloat_def split_beta)
qed

lemmas reading_defs = reading_ok_def controlsInRange_def ratiosInRange_def ratios_upd_def controls_upd_def

lemma ratio_updates:
  assumes "reading_ok page s w" "greaterThanOne x"
  shows "reading_ok page (ratios_upd (copy_ratio_update (\<lambda>_. x)) s) w"
    "reading_ok page (ratios_upd (copyGenerational_update (\<lambda>_. x)) s) w"
    "reading_ok page (ratios_upd (grow_ratio_update (\<lambda>_. x)) s) w"
    "reading_ok page (ratios_upd (live_ratio_update (\<lambda>_. x)) s) w"
    "reading_ok page (ratios_upd (markCompact_update (\<lambda>_. x)) s) w"
    "reading_ok page (ratios_upd (markCompactGenerational_update (\<lambda>_. x)) s) w"
    "reading_ok page (ratios_upd (nursery_ratio_update (\<lambda>_. x)) s) w"
    "reading_ok page (ratios_upd (stackCurrentGrow_update (\<lambda>_. x)) s) w"
    "reading_ok page (ratios_upd (stackCurrentMaxReserved_update (\<lambda>_. x)) s) w"
    "reading_ok page (ratios_upd (stackCurrentPermitReserved_update (\<lambda>_. x)) s) w"
    "reading_ok page (ratios_upd (stackMaxReserved_update (\<lambda>_. x)) s) w"
  using assms by (auto simp: reading_defs)

lemma fraction_updates:
  assumes "reading_ok page s w" "betweenZeroAndOne x"
  shows "reading_ok page (ratios_upd (hashCons_ratio_update (\<lambda>_. x)) s) w"
    "reading_ok page (ratios_upd (stackCurrentShrink_update (\<lambda>_. x)) s) w"
    "reading_ok page (ratios_upd (stackShrink_update (\<lambda>_. x)) s) w"
  using assms by (auto simp: reading_defs)

lemma align_multiple: "is_power2 b \<Longrightarrow> isAligned (align a b) b"
proof -
  assume b: "is_power2 b"
  have "wrap (a + (b - 1)) < 18446744073709551616" by (simp add: wrap_def)
  then have "align a b = wrap (a + (b - 1)) - wrap (a + (b - 1)) mod b"
    unfolding align_def by (rule and_neg_is_power2 [OF b])
  then show ?thesis by (simp add: isAligned_iff_dvd)
qed

lemma flag_updates:
  assumes "reading_ok page s w"
  shows "reading_ok page (ratios_upd (ramSlop_update (\<lambda>_. x)) s) w"
    "reading_ok page (controls_upd (\<lambda>c. c\<lparr>maxHeap := align b (2 * pageSize (sysvals s))\<rparr>) s) w"
    "reading_ok page (controls_upd (\<lambda>c. c\<lparr>fixedHeap := align b (2 * pageSize (sysvals s))\<rparr>) s) w"
    "reading_ok page (controls_upd (\<lambda>c. c\<lparr>mayPageHeap := p\<rparr>) s) w"
    "reading_ok page (controls_upd (\<lambda>c. c\<lparr>mayLoadWorld := p\<rparr>) s) w"
    "reading_ok page (controls_upd (\<lambda>c. c\<lparr>mayProcessAtMLton := p\<rparr>) s) w"
    "reading_ok page (controls_upd (\<lambda>c. c\<lparr>messages := p\<rparr>) s) w"
    "reading_ok page (controls_upd (\<lambda>c. c\<lparr>summary := p\<rparr>) s) w"
    "reading_ok page (controls_upd (\<lambda>c. c\<lparr>summary := p, summaryFile := f\<rparr>) s) w"
    "reading_ok page (s\<lparr>amOriginal := False\<rparr>) (Some f)"
  using assms align_multiple [of "2 * page" b] by (auto simp: reading_defs)

lemma arg_ok_if:
  assumes "arg_ok page args x" "arg_ok page args y"
  shows "arg_ok page args (if c then x else y)"
  using assms by simp

lemmas option_intros = arg_ok_if ratioOption_ok withArgument_ok stringToBool_ok stringToBytes_ok

lemma processArg3_ok: "reading_ok page s w \<Longrightarrow> arg_ok page (a # rest) (processArg3 env idx a rest s w)"
  unfolding processArg3_def by (intro option_intros) simp_all

lemma processArg2_ok: "reading_ok page s w \<Longrightarrow> arg_ok page (a # rest) (processArg2 env idx a rest s w)"
  unfolding processArg2_def
  by (intro option_intros processArg3_ok) (simp_all add: ratio_updates fraction_updates flag_updates)

lemma processArg_ok: "reading_ok page s w \<Longrightarrow> arg_ok page (a # rest) (processArg env idx a rest s w)"
  unfolding processArg_def
  by (intro option_intros processArg2_ok) (simp_all add: ratio_updates fraction_updates flag_updates)

section \<open>All arguments\<close>

text \<open>
  The number of turns left: two for each argument, as one that is not of the runtime is looked
  at twice, and one more inside of \<open>@MLton\<close>.
\<close>

lemma processAtMLtonLoop_ok:
  assumes "reading_ok page s w" "2 * length args + (if inner then 1 else 0) < n"
  shows "case processAtMLtonLoop n env argc inner s w args of
      Inl e \<Rightarrow> e \<noteq> OutOfFuel
    | Inr (Args s' w' rest) \<Rightarrow> reading_ok page s' w' \<and> (rest = args \<or> taken args rest)
    | Inr (Exited out) \<Rightarrow> True"
  using assms
proof (induction n arbitrary: inner s w args)
  case (Suc n)
  show ?case
  proof (cases inner)
    case False
    show ?thesis
    proof (cases "mayProcessAtMLton (controls s) \<and> args \<noteq> [] \<and> hd args = ''@MLton''")
      case True
      then obtain a rest where args: "args = a # rest" by (cases args) auto
      then show ?thesis
        using Suc.IH [of s w rest True] Suc.prems False True taken_trans [of args rest]
        by (auto split: sum.splits argsResult.splits)
    next
      case no: False
      then have "processAtMLtonLoop (Suc n) env argc inner s w args = Inr (Args s w args)"
        using False by auto
      then show ?thesis using Suc.prems by simp
    qed
  next
    case True
    show ?thesis
    proof (cases args)
      case (Cons a rest)
      let ?r = "processArg env (argc - length args) a rest s w"
      have ok: "arg_ok page args ?r" unfolding Cons by (rule processArg_ok [OF Suc.prems(1)])
      consider e where "?r = Inl e" | s' w' rest' where "?r = Inr (Continue s' w' rest')"
        | s' w' rest' where "?r = Inr (Stop s' w' rest')" | out where "?r = Inr (Exit out)"
        by (metis argResult.exhaust sum.exhaust)
      then show ?thesis
      proof cases
        case (2 s' w' rest')
        then show ?thesis
          using ok Suc.IH [of s' w' rest' True] Suc.prems True Cons taken_length [of args rest'] taken_trans [of args rest']
          by (auto split: sum.splits argsResult.splits)
      next
        case (3 s' w' rest')
        then show ?thesis
          using ok Suc.IH [of s' w' rest' False] Suc.prems True Cons taken_length [of args rest'] taken_trans [of args rest']
          by (auto split: sum.splits argsResult.splits)
      qed (use True Cons ok in \<open>auto simp: arg_ok_def\<close>)
    qed (use True in simp)
  qed
qed simp

text \<open>
  C20: Reading the runtime's arguments ends for every list of arguments and every conversion of
  text to numbers: with a message, or with the output of \<open>show-sources\<close>, or
  with a state and the arguments that are left, which are the end of the given ones. Then all ratios are in the
  range the collector relies on (those that scale sizes up are above 1, the shrink ratios and
  \<open>hash-cons\<close> between 0 and 1), \<open>fixed-heap\<close> and \<open>max-heap\<close> are multiples of two pages, and a
  state that is to be loaded has the name of a file, so that the start of the program never
  looks for a world without one. Only \<open>ram-slop\<close> is not checked.
\<close>

theorem processAtMLton_ok:
  assumes "controlsInRange s" "amOriginal s \<or> w \<noteq> None" "is_power2 (2 * pageSize (sysvals s))"
  shows "case processAtMLton env s start argv w of
      Inl e \<Rightarrow> e \<noteq> OutOfFuel
    | Inr (Args s' w' rest) \<Rightarrow>
        controlsInRange s' \<and> (amOriginal s' \<or> w' \<noteq> None) \<and> (\<exists>read. drop start argv = read @ rest)
    | Inr (Exited out) \<Rightarrow> True"
proof -
  have "reading_ok (pageSize (sysvals s)) s w" using assms by (auto simp: reading_ok_def)
  moreover have "2 * length (drop start argv) + (if False then 1 else 0) < 2 * length argv + 2" by simp
  ultimately show ?thesis
    unfolding processAtMLton_def
    using processAtMLtonLoop_ok [of _ s w "drop start argv" False "2 * length argv + 2" env "length argv"]
    by (auto simp: reading_ok_def taken_def simp del: processAtMLtonLoop.simps split: sum.splits argsResult.splits)
qed

lemma default_controls_ok:
  "controlsInRange (state0\<lparr>controls := initControls GC_controls0, sysvals := GC_sysvals0\<lparr>pageSize := 4096\<rparr>\<rparr>)"
proof -
  have "(1::rat) < flt (104 / 100)" by code_simp
  then show ?thesis
    by (simp add: controlsInRange_def ratiosInRange_def initControls_def defaultRatios_def greaterThanOne_def
        betweenZeroAndOne_def)
qed

theorem processAtMLton_witness:
  "\<forall>env. processAtMLton env
      (state0\<lparr>controls := initControls GC_controls0, sysvals := GC_sysvals0\<lparr>pageSize := 4096\<rparr>\<rparr>) 1
      [''prog'', ''@MLton'', ''live-ratio'', ''2.0'', ''fixed-heap'', ''64k'', ''--'', ''x''] (Some ''world'') \<noteq> Inl OutOfFuel"
proof
  fix env
  let ?s = "state0\<lparr>controls := initControls GC_controls0, sysvals := GC_sysvals0\<lparr>pageSize := 4096\<rparr>\<rparr>"
  have "is_power2 (2 * pageSize (sysvals ?s))" unfolding is_power2_def by (intro exI [of _ 13]) simp
  then show "processAtMLton env ?s 1
      [''prog'', ''@MLton'', ''live-ratio'', ''2.0'', ''fixed-heap'', ''64k'', ''--'', ''x''] (Some ''world'') \<noteq> Inl OutOfFuel"
    using processAtMLton_ok [OF default_controls_ok, where w = "Some ''world''" and env = env and start = 1
        and argv = "[''prog'', ''@MLton'', ''live-ratio'', ''2.0'', ''fixed-heap'', ''64k'', ''--'', ''x'']"] by (auto split: sum.splits)
qed

end
