(* ===== verification/CopyGraph.thy ===== *)
theory CopyGraph
  imports Forward ObjectGraph
begin

text \<open>
  Objects as the copying collector sees them: the parts of an object that \<open>forwardObjptr\<close>
  copies, the slots of an object that hold object pointers (those of a stack are in its frames),
  and how \<open>foreachObjptrInObject\<close> visits the slots of a copy while the visits change them.
\<close>

section \<open>The frames of a stack as a list\<close>

function frameIndices :: "GC_state \<Rightarrow> pointer \<Rightarrow> pointer \<Rightarrow> nat list" where
  "frameIndices s bottom topp =
     (if topp > bottom then
        (let i = getFrameIndexFromReturnAddress s (load64 (mem s) (topp - GC_RETURNADDRESS_SIZE));
             z = frame_size (frameInfos s ! i)
         in if z = 0 then [] else i # frameIndices s bottom (topp - z))
      else [])"
  by pat_completeness auto
termination by (relation "measure (\<lambda>(_, bottom, topp). topp)") auto

declare frameIndices.simps [simp del]

lemma frames_indices: "frames s bottom is topp \<Longrightarrow> frameIndices s bottom topp = is"
proof (induction rule: frames.induct)
  case frames_Nil
  show ?case by (simp add: frameIndices.simps)
next
  case (frames_Cons "is" topp i)
  have "bottom < topp + frame_size (frameInfos s ! i)"
    using frames_bottom_le [OF frames_Cons.hyps(1)] frames_Cons.hyps(3) by linarith
  then show ?case
    using frames_Cons.hyps(3,4) frames_Cons.IH by (subst frameIndices.simps) (simp add: Let_def)
qed

text \<open>Where the slots and the return addresses of frames are, relative to the stack object.\<close>

fun frameSlots :: "GC_frameInfo list \<Rightarrow> nat list \<Rightarrow> nat \<Rightarrow> nat list" where
  "frameSlots fis [] n = []"
| "frameSlots fis (i # is) n =
     (let n' = n - frame_size (fis ! i) in map (\<lambda>off. n' + off) (offsets (fis ! i)) @ frameSlots fis is n')"

fun frameReturns :: "GC_frameInfo list \<Rightarrow> nat list \<Rightarrow> nat \<Rightarrow> nat list" where
  "frameReturns fis [] n = []"
| "frameReturns fis (i # is) n =
     (n - GC_RETURNADDRESS_SIZE) # frameReturns fis is (n - frame_size (fis ! i))"

lemma frameSlots_ge:
  "frames s (p + k) is (p + n) \<Longrightarrow> o' \<in> set (frameSlots (frameInfos s) is n) \<Longrightarrow> k \<le> o'"
proof (induction "is" arbitrary: n)
  case (Cons i "is")
  from Cons.prems(1) obtain t where t: "p + n = t + frame_size (frameInfos s ! i)" "frames s (p + k) is t"
    by (auto simp: frames_Cons_iff)
  have "p + k \<le> t" by (rule frames_bottom_le [OF t(2)])
  moreover from this t(1) have n: "t = p + (n - frame_size (frameInfos s ! i))" by linarith
  ultimately have "k \<le> n - frame_size (frameInfos s ! i)" by linarith
  then show ?case using Cons.prems(2) Cons.IH t(2) unfolding n by (auto simp: Let_def)
qed simp

lemma frameReturns_bounds:
  "frames s (p + k) is (p + n) \<Longrightarrow> r \<in> set (frameReturns (frameInfos s) is n) \<Longrightarrow> k \<le> r \<and> r + 8 \<le> n"
proof (induction "is" arbitrary: n)
  case (Cons i "is")
  from Cons.prems(1) obtain t where t: "p + n = t + frame_size (frameInfos s ! i)" "frames s (p + k) is t"
    "8 \<le> frame_size (frameInfos s ! i)"
    by (auto simp: frames_Cons_iff)
  have "p + k \<le> t" by (rule frames_bottom_le [OF t(2)])
  moreover from this t(1) have n: "t = p + (n - frame_size (frameInfos s ! i))" by linarith
  ultimately have k: "k \<le> n - frame_size (frameInfos s ! i)" "k + 8 \<le> n"
    "n - frame_size (frameInfos s ! i) \<le> n" using t(1,3) by linarith+
  consider "r = n - 8" | "r \<in> set (frameReturns (frameInfos s) is (n - frame_size (frameInfos s ! i)))"
    using Cons.prems(2) by auto
  then show ?case
  proof cases
    case 2
    then show ?thesis using Cons.IH [of "n - frame_size (frameInfos s ! i)"] t(2) k(3) unfolding n by auto
  qed (use k in auto)
qed simp

section \<open>The parts of an object\<close>

definition plan :: "GC_state \<Rightarrow> pointer \<Rightarrow> GC_state \<times> nat \<times> nat \<times> nat" where
  "plan s p = (case forwardSizes s p (typeOf s p) of Inr x \<Rightarrow> x | Inl _ \<Rightarrow> (s, 0, 0, 0))"

text \<open>The memory after a stack was shrunk, and the bytes before, of, and behind the data.\<close>

definition srcMem :: "GC_state \<Rightarrow> pointer \<Rightarrow> mem" where
  "srcMem s p = mem (fst (plan s p))"

definition metaB :: "GC_state \<Rightarrow> pointer \<Rightarrow> nat" where
  "metaB s p = fst (snd (plan s p))"

definition dataB :: "GC_state \<Rightarrow> pointer \<Rightarrow> nat" where
  "dataB s p = fst (snd (snd (plan s p)))"

definition skipB :: "GC_state \<Rightarrow> pointer \<Rightarrow> nat" where
  "skipB s p = snd (snd (snd (plan s p)))"

definition totalB :: "GC_state \<Rightarrow> pointer \<Rightarrow> nat" where
  "totalB s p = metaB s p + dataB s p + skipB s p"

definition slotOffs :: "GC_state \<Rightarrow> pointer \<Rightarrow> nat list" where
  "slotOffs s p =
     (let t = typeOf s p
      in case tag t of
           NORMAL_TAG \<Rightarrow> map (\<lambda>j. bytesNonObjptrs t + j * OBJPTR_SIZE) [0..<numObjptrs t]
         | SEQUENCE_TAG \<Rightarrow> sequenceObjptrs (bytesNonObjptrs t) (numObjptrs t) 0 (getSequenceLength s p)
         | STACK_TAG \<Rightarrow> frameSlots (frameInfos s) (frameIndices s (getStackBottom s p) (getStackTop s p))
                          (sizeof_GC_stack + stack_used s p)
         | WEAK_TAG \<Rightarrow> [])"

definition stackReturns :: "GC_state \<Rightarrow> pointer \<Rightarrow> nat list" where
  "stackReturns s p = frameReturns (frameInfos s) (frameIndices s (getStackBottom s p) (getStackTop s p))
     (sizeof_GC_stack + stack_used s p)"

text \<open>
  An object the collector can copy: a valid header with a type of the table; a sequence whose counter
  is 0 and whose size does not wrap; a stack made of frames, that keeps its used bytes when
  it is shrunk; no live weak pointer. Its slots are apart, and so are the return addresses of a stack
  from them.
\<close>

definition copyable :: "GC_state \<Rightarrow> pointer \<Rightarrow> bool" where
  "copyable s p \<longleftrightarrow>
     (let t = typeOf s p
      in splitHeader s (getHeader s p) = Inr t \<and> \<not> hasFwdPtr s p \<and>
         (\<exists>x. forwardSizes s p t = Inr x) \<and>
         metaB s p \<le> p \<and> p + dataB s p < 18446744073709551616 \<and>
         (tag t = SEQUENCE_TAG \<longrightarrow> getSequenceCounter s p = 0 \<and>
            getSequenceLength s p * (bytesNonObjptrs t + numObjptrs t * OBJPTR_SIZE) \<le> SIZE_MAX) \<and>
         (tag t = WEAK_TAG \<longrightarrow> numObjptrs t = 0) \<and>
         (tag t = STACK_TAG \<longrightarrow>
            (\<exists>is. frames s (getStackBottom s p) is (getStackTop s p)) \<and>
            stack_used s p \<le> unat (load64 (srcMem s p) (p + 16)) \<and>
            (\<forall>r\<in>set (stackReturns s p). \<forall>k\<in>set (slotOffs s p). apart r k)) \<and>
         (\<forall>k\<in>set (slotOffs s p). k + 8 \<le> dataB s p) \<and> sorted_wrt apart (slotOffs s p))"

section \<open>Visits that change what they visit\<close>

text \<open>
  The contract of a closure \<open>f\<close> and a condition \<open>P\<close> on the slots that are still to be visited and
  the state: from a state where the next slot is \<open>a\<close>, the visit of \<open>a\<close> leads to one for the other slots.
\<close>

locale slot_visit =
  fixes f :: "'e foreachObjptrFun" and P :: "pointer list \<Rightarrow> 'e foreachState \<Rightarrow> bool"
  assumes visit: "P (a # l) st \<Longrightarrow> \<exists>st'. callIfIsObjptr f st a = Inr st' \<and> P l st'"
begin

lemma visit_all: "P (l @ r) st \<Longrightarrow> \<exists>st'. foldE (callIfIsObjptr f) l st = Inr st' \<and> P r st'"
proof (induction l arbitrary: st)
  case (Cons a l)
  then obtain st1 where "callIfIsObjptr f st a = Inr st1" "P (l @ r) st1" using visit by fastforce
  then show ?case using Cons.IH by simp
qed simp

lemma visit_frames:
  assumes "frames s (p + k) is (p + n)" "P (map ((+) q) (frameSlots (frameInfos s) is n) @ r) st"
    and tabs: "\<And>l st. P l st \<Longrightarrow> same_tables s (fst st)"
    and rets: "\<And>l st i. P l st \<Longrightarrow> i \<in> set (frameReturns (frameInfos s) is n) \<Longrightarrow>
                 load64 (mem (fst st)) (q + i) = load64 (mem s) (p + i)"
  shows "\<exists>st'. foreachObjptrInFrames f (q + k) (q + n) st = Inr st' \<and> P r st'"
  using assms(1,2) rets
proof (induction "is" arbitrary: n st)
  case Nil
  then have "n = k" by (simp add: frames_Nil_iff)
  with Nil show ?case by (simp add: foreachObjptrInFrames.simps)
next
  case (Cons i "is")
  let ?z = "frame_size (frameInfos s ! i)"
  from Cons.prems(1) obtain t where t: "p + n = t + ?z" "frames s (p + k) is t" "i < length (frameInfos s)"
    "8 \<le> ?z" "getFrameIndexFromReturnAddress s (load64 (mem s) (p + n - 8)) = i"
    by (auto simp: frames_Cons_iff)
  have "p + k \<le> t" by (rule frames_bottom_le [OF t(2)])
  with t(1) have n: "t = p + (n - ?z)" "k + 8 \<le> n" "?z \<le> n" using t(4) by linarith+
  have "same_tables s (fst st)" by (rule tabs [OF Cons.prems(2)])
  moreover have "load64 (mem (fst st)) (q + n - 8) = load64 (mem s) (p + n - 8)"
    using Cons.prems(3) [OF Cons.prems(2), of "n - 8"] n(2) by simp
  ultimately have fi: "getFrameInfoFromReturnAddress (fst st) (load64 (mem (fst st)) (q + n - 8)) = Inr (frameInfos s ! i)"
    using t(3,5) by (simp add: getFrameInfoFromReturnAddress_def getFrameInfoFromFrameIndex_def
        getFrameIndexFromReturnAddress_def same_tables_def)
  define b where "b = q + n - ?z"
  have b: "b = q + (n - ?z)" using n(3) by (simp add: b_def)
  have "P (map (\<lambda>off. b + off) (offsets (frameInfos s ! i)) @
      (map ((+) q) (frameSlots (frameInfos s) is (n - ?z)) @ r)) st"
    using Cons.prems(2) by (simp add: Let_def b comp_def add.assoc)
  from visit_all [OF this] obtain st1 where
    st1: "foldE (callIfIsObjptr f) (map (\<lambda>off. b + off) (offsets (frameInfos s ! i))) st = Inr st1"
    "P (map ((+) q) (frameSlots (frameInfos s) is (n - ?z)) @ r) st1"
    by blast
  have "\<exists>st'. foreachObjptrInFrames f (q + k) (q + (n - ?z)) st1 = Inr st' \<and> P r st'"
    using t(2) st1(2) Cons.prems(3) unfolding n(1) by (intro Cons.IH) auto
  then show ?case
    using st1(1) fi n(2) t(4)
    by (subst foreachObjptrInFrames.simps) (simp add: Let_def flip: b b_def)
qed

end

section \<open>The parts by the kind of object\<close>

lemma copyableD:
  assumes "copyable s p"
  shows "splitHeader s (getHeader s p) = Inr (typeOf s p)" "\<not> hasFwdPtr s p" "metaB s p \<le> p"
    "p + dataB s p < 18446744073709551616" "\<And>k. k \<in> set (slotOffs s p) \<Longrightarrow> k + 8 \<le> dataB s p"
    "sorted_wrt apart (slotOffs s p)"
    "forwardSizes s p (typeOf s p) = Inr (fst (plan s p), metaB s p, dataB s p, skipB s p)"
  using assms by (auto simp: copyable_def Let_def plan_def metaB_def dataB_def skipB_def)

lemma parts_plain:
  assumes "copyable s p" "tag (typeOf s p) = NORMAL_TAG \<or> tag (typeOf s p) = WEAK_TAG"
  shows "srcMem s p = mem s" "metaB s p = 8" "skipB s p = 0"
    "dataB s p = bytesNonObjptrs (typeOf s p) + numObjptrs (typeOf s p) * 8"
  using copyableD(7) [OF assms(1)] assms(2) by (auto simp: forwardSizes_def srcMem_def)

lemma parts_sequence:
  assumes "copyable s p" "tag (typeOf s p) = SEQUENCE_TAG"
  shows "srcMem s p = mem s" "metaB s p = 24" "skipB s p = 0"
    "dataB s p = sizeofSequenceNoMetaData s (getSequenceLength s p) (bytesNonObjptrs (typeOf s p))
       (numObjptrs (typeOf s p))"
    "getSequenceCounter s p = 0"
    "getSequenceLength s p * (bytesNonObjptrs (typeOf s p) + numObjptrs (typeOf s p) * 8) \<le> SIZE_MAX"
  using copyableD(7) [OF assms(1)] assms by (auto simp: forwardSizes_def srcMem_def copyable_def Let_def)

lemma set_stack_reserved_used: "stack_used (set_stack_reserved p n s) p = stack_used s p"
  by (simp add: stack_used_def set_stack_reserved_def mem_simps)

lemma parts_stack:
  assumes "copyable s p" "tag (typeOf s p) = STACK_TAG"
  shows "metaB s p = 8" "dataB s p = 32 + stack_used s p"
    "dataB s p + skipB s p = 32 + unat (load64 (srcMem s p) (p + 16))"
    "\<And>a. a < p + 16 \<or> p + 24 \<le> a \<Longrightarrow> srcMem s p a = mem s a"
    "\<exists>is. frames s (getStackBottom s p) is (getStackTop s p)"
    "\<And>r k. r \<in> set (stackReturns s p) \<Longrightarrow> k \<in> set (slotOffs s p) \<Longrightarrow> apart r k"
proof -
  obtain n where n: "sizeofStackShrinkReserved s p (getStackCurrent s = p) = Inr n"
    using copyableD(7) [OF assms(1)] assms(2) by (auto simp: forwardSizes_def Let_def)
  define u where "u = (if n < stack_reserved s p then set_stack_reserved p n s else s)"
  have us: "stack_used u p = stack_used s p" by (simp add: u_def set_stack_reserved_used)
  have f: "fst (plan s p) = u" and m: "metaB s p = 8" and d: "dataB s p = 32 + stack_used s p"
    and k: "skipB s p = wrap_sub (stack_reserved u p) (stack_used s p)"
    using copyableD(7) [OF assms(1)] assms(2) n us by (auto simp: forwardSizes_def Let_def u_def [symmetric])
  have src: "srcMem s p = mem u" by (simp add: srcMem_def f)
  have r: "stack_used s p \<le> unat (load64 (srcMem s p) (p + 16))"
    "\<exists>is. frames s (getStackBottom s p) is (getStackTop s p)"
    "\<forall>r\<in>set (stackReturns s p). \<forall>k\<in>set (slotOffs s p). apart r k"
    using assms by (simp_all add: copyable_def Let_def)
  have "stack_reserved u p < 18446744073709551616" by (simp add: stack_reserved_def unat_lt_64)
  then show "dataB s p + skipB s p = 32 + unat (load64 (srcMem s p) (p + 16))"
    using r(1) d k src by (simp add: stack_reserved_def wrap_sub_eq)
  show "srcMem s p a = mem s a" if "a < p + 16 \<or> p + 24 \<le> a" for a
    using that unfolding src u_def by (auto simp: set_stack_reserved_def store64_other)
  show "metaB s p = 8" "dataB s p = 32 + stack_used s p" by (rule m, rule d)
  show "\<exists>is. frames s (getStackBottom s p) is (getStackTop s p)" by (rule r(2))
  show "apart r k" if "r \<in> set (stackReturns s p)" "k \<in> set (slotOffs s p)" for r k using r(3) that by blast
qed

lemma srcMem_other:
  assumes "copyable s p" "a < p + 16 \<or> p + 24 \<le> a \<or> tag (typeOf s p) \<noteq> STACK_TAG"
  shows "srcMem s p a = mem s a"
  using parts_plain(1) [OF assms(1)] parts_sequence(1) [OF assms(1)] parts_stack(4) [OF assms(1)] assms(2)
  by (cases "tag (typeOf s p)") auto

lemma metaB_ge: "copyable s p \<Longrightarrow> 8 \<le> metaB s p"
  using parts_plain(2) [of s p] parts_sequence(2) [of s p] parts_stack(1) [of s p]
  by (cases "tag (typeOf s p)") auto

section \<open>Visiting a copy\<close>

text \<open>The bytes of the object at \<open>q\<close> are those of the object \<open>p\<close>, apart from the slots.\<close>

definition image_of :: "GC_state \<Rightarrow> pointer \<Rightarrow> mem \<Rightarrow> pointer \<Rightarrow> bool" where
  "image_of s p m q \<longleftrightarrow>
     (\<forall>i<metaB s p + dataB s p. (\<forall>k\<in>set (slotOffs s p). i < metaB s p + k \<or> metaB s p + k + 8 \<le> i) \<longrightarrow>
        m (q - metaB s p + i) = srcMem s p (p - metaB s p + i))"

lemma load64_shift:
  assumes "\<And>i. i < 8 \<Longrightarrow> m (a + i) = m' (b + i)"
  shows "load64 m a = load64 m' b"
proof -
  have "load_le m a k = load_le m' b k" if "\<And>i. i < k \<Longrightarrow> m (a + i) = m' (b + i)" for k a b
    using that
  proof (induction k arbitrary: a b)
    case (Suc k)
    have "load_le m (Suc a) k = load_le m' (Suc b) k"
      using Suc.prems [of "Suc i" for i] by (intro Suc.IH) simp
    then show ?case using Suc.prems [of 0] by simp
  qed simp
  then show ?thesis using assms unfolding load64_def by metis
qed

lemma image_load:
  assumes "image_of s p m q" "j + 8 \<le> metaB s p + dataB s p"
    and "\<And>k. k \<in> set (slotOffs s p) \<Longrightarrow> j + 8 \<le> metaB s p + k \<or> metaB s p + k + 8 \<le> j"
  shows "load64 m (q - metaB s p + j) = load64 (srcMem s p) (p - metaB s p + j)"
proof (rule load64_shift)
  fix i :: nat assume i: "i < 8"
  have "m (q - metaB s p + (j + i)) = srcMem s p (p - metaB s p + (j + i))"
  proof (rule assms(1) [unfolded image_of_def, rule_format])
    show "j + i < metaB s p + dataB s p" using assms(2) i by linarith
    show "j + i < metaB s p + k \<or> metaB s p + k + 8 \<le> j + i" if "k \<in> set (slotOffs s p)" for k
      using assms(3) [OF that] i by linarith
  qed
  then show "m (q - metaB s p + j + i) = srcMem s p (p - metaB s p + j + i)" by (simp add: add.assoc)
qed

lemma image_data:
  assumes "image_of s p m q" "metaB s p \<le> p" "metaB s p \<le> q" "i + 8 \<le> dataB s p"
    and "\<And>k. k \<in> set (slotOffs s p) \<Longrightarrow> apart i k"
  shows "load64 m (q + i) = load64 (srcMem s p) (p + i)"
  using image_load [OF assms(1), of "metaB s p + i"] assms(2-5) by (fastforce simp: apart_def)

lemma image_header:
  assumes "image_of s p m q" "copyable s p" "metaB s p \<le> q"
  shows "load64 m (q - 8) = getHeader s p"
proof -
  have m: "8 \<le> metaB s p" "metaB s p \<le> p" using assms(2) by (auto intro: metaB_ge copyableD(3))
  then have "load64 m (q - metaB s p + (metaB s p - 8)) = load64 (srcMem s p) (p - metaB s p + (metaB s p - 8))"
    by (intro image_load [OF assms(1)]) auto
  moreover have "load64 (srcMem s p) (p - 8) = load64 (mem s) (p - 8)"
    using m by (intro load64_cong srcMem_other [OF assms(2)]) auto
  ultimately show ?thesis using m assms(3) by (simp add: getHeader_def getHeaderp_def)
qed

lemma image_sequence:
  assumes "image_of s p m q" "copyable s p" "metaB s p \<le> q" "tag (typeOf s p) = SEQUENCE_TAG"
  shows "load64 m (q - 16) = word_of_nat (getSequenceLength s p)" "load64 m (q - 24) = 0"
proof -
  note m = parts_sequence [OF assms(2,4)]
  have "load64 m (q - 24 + j) = load64 (mem s) (p - 24 + j)" if "j \<le> 16" for j
    using image_load [OF assms(1), of j] that m by auto
  from this [of 0] this [of 8] show "load64 m (q - 16) = word_of_nat (getSequenceLength s p)" "load64 m (q - 24) = 0"
    using m assms(3) copyableD(3) [OF assms(2)]
    by (simp_all add: getSequenceLength_def getSequenceLengthp_def getSequenceCounter_def getSequenceCounterp_def
        unsigned_eq_0_iff)
qed

lemma sequenceObjptrs_shift: "sequenceObjptrs bno npo a n = map ((+) a) (sequenceObjptrs bno npo 0 n)"
  by (simp add: sequenceObjptrs_def map_concat comp_def add.assoc)

lemma stack_slot_ge:
  assumes "copyable s p" "tag (typeOf s p) = STACK_TAG" "k \<in> set (slotOffs s p)"
  shows "32 \<le> k"
proof -
  obtain "is" where f: "frames s (p + 32) is (p + (32 + stack_used s p))"
    using parts_stack(5) [OF assms(1,2)] by (auto simp: getStackBottom_def getStackTop_def add.assoc)
  then have "k \<in> set (frameSlots (frameInfos s) is (32 + stack_used s p))"
    using assms(2,3) frames_indices [OF f]
    by (simp add: slotOffs_def getStackBottom_def getStackTop_def add.assoc)
  then show ?thesis by (rule frameSlots_ge [OF f])
qed

lemma image_stack:
  assumes "image_of s p m q" "copyable s p" "metaB s p \<le> q" "tag (typeOf s p) = STACK_TAG"
  shows "load64 m (q + 24) = load64 (mem s) (p + 24)" "load64 m (q + 16) = load64 (srcMem s p) (p + 16)"
    "r \<in> set (stackReturns s p) \<Longrightarrow> load64 m (q + r) = load64 (mem s) (p + r)"
proof -
  note st = parts_stack [OF assms(2,4)]
  have d: "load64 m (q + i) = load64 (srcMem s p) (p + i)"
    if "i + 8 \<le> dataB s p" "\<And>k. k \<in> set (slotOffs s p) \<Longrightarrow> apart i k" for i
    using image_data [OF assms(1) copyableD(3) [OF assms(2)] assms(3) that] .
  have sl: "apart i k" if "i + 8 \<le> 32" "k \<in> set (slotOffs s p)" for i k
    using stack_slot_ge [OF assms(2,4) that(2)] that(1) by (auto simp: apart_def)
  have o: "load64 (srcMem s p) (p + i) = load64 (mem s) (p + i)" if "24 \<le> i" for i
    using that by (intro load64_cong st(4)) auto
  show "load64 m (q + 24) = load64 (mem s) (p + 24)" using d [of 24] sl o st(2) by simp
  show "load64 m (q + 16) = load64 (srcMem s p) (p + 16)" using d [of 16] sl st(2) by simp
  show "load64 m (q + r) = load64 (mem s) (p + r)" if r: "r \<in> set (stackReturns s p)"
  proof -
    obtain "is" where f: "frames s (p + 32) is (p + (32 + stack_used s p))"
      using st(5) by (auto simp: getStackBottom_def getStackTop_def add.assoc)
    have "r \<in> set (frameReturns (frameInfos s) is (32 + stack_used s p))"
      using r frames_indices [OF f] by (simp add: stackReturns_def getStackBottom_def getStackTop_def add.assoc)
    then have "32 \<le> r" "r + 8 \<le> dataB s p" using frameReturns_bounds [OF f] st(2) by auto
    then show ?thesis using d [of r] o [of r] st(6) [OF r] by simp
  qed
qed

context slot_visit
begin

text \<open>
  While the visits keep the image of \<open>p\<close> at \<open>q\<close>, the traversal of the copy visits the slots
  of \<open>p\<close> there and ends behind the copy.
\<close>

lemma visit_object:
  assumes ok: "copyable s p" and P: "P (map ((+) q) (slotOffs s p) @ r) st" and q: "metaB s p \<le> q"
    and inv: "\<And>l st. P l st \<Longrightarrow> same_tables s (fst st) \<and> image_of s p (mem (fst st)) q"
  shows "\<exists>st'. foreachObjptrInObject st q f w = Inr (st', q + dataB s p + skipB s p) \<and> P r st'"
proof -
  let ?t = "typeOf s p" and ?s = "fst st"
  have st: "same_tables s ?s" "image_of s p (mem ?s) q" using inv [OF P] by auto
  have ty: "objectTypes ?s = objectTypes s" "alignment ?s = alignment s"
    using st(1) by (simp_all add: same_tables_def)
  have "getHeader ?s q = getHeader s p" using image_header [OF st(2) ok q] by (simp add: getHeader_def getHeaderp_def)
  then have hd: "splitHeader ?s (getHeader ?s q) = Inr ?t"
    using copyableD(1) [OF ok] ty(1) by (simp add: splitHeader_def Let_def split: if_splits)
  obtain st' where st': "foldE (callIfIsObjptr f) (map ((+) q) (slotOffs s p)) st = Inr st'" "P r st'"
    using visit_all [OF P] by blast
  show ?thesis
  proof (cases "tag ?t")
    case NORMAL_TAG
    have "map ((+) q) (slotOffs s p) = objptrSteps (q + bytesNonObjptrs ?t) (q + bytesNonObjptrs ?t + numObjptrs ?t * 8)"
      unfolding slotOffs_def objptrSteps_add using NORMAL_TAG by (simp add: Let_def add.assoc)
    moreover have "length (objptrSteps a (a + n * 8)) = n" for a n by (simp add: objptrSteps_add)
    ultimately show ?thesis
      using st' hd NORMAL_TAG parts_plain [OF ok] by (simp add: foreachObjptrInObject_def Let_def)
  next
    case WEAK_TAG
    have "numObjptrs ?t = 0" using ok WEAK_TAG by (simp add: copyable_def Let_def)
    then show ?thesis
      using st' hd WEAK_TAG parts_plain [OF ok]
      by (simp add: foreachObjptrInObject_def Let_def slotOffs_def)
  next
    case SEQUENCE_TAG
    note m = parts_sequence [OF ok SEQUENCE_TAG]
    have len: "getSequenceLength ?s q = getSequenceLength s p"
      using image_sequence(1) [OF st(2) ok q SEQUENCE_TAG]
      by (simp add: getSequenceLength_def getSequenceLengthp_def)
    have "sizeofSequenceNoMetaData ?s n b k = sizeofSequenceNoMetaData s n b k" for n b k
      using ty(2) by (simp add: sizeofSequenceNoMetaData_def alignWithExtra_def)
    moreover have "map ((+) q) (slotOffs s p)
        = sequenceObjptrs (bytesNonObjptrs ?t) (numObjptrs ?t) q (getSequenceLength s p)"
      using SEQUENCE_TAG sequenceObjptrs_shift [of _ _ q] by (simp add: slotOffs_def Let_def)
    ultimately show ?thesis
      using st' sequence_visit [OF hd SEQUENCE_TAG, of f w] m by (simp add: len)
  next
    case STACK_TAG
    note m = parts_stack [OF ok STACK_TAG] and i = image_stack [OF _ ok q STACK_TAG]
    let ?n = "32 + stack_used s p"
    obtain "is" where f: "frames s (p + 32) is (p + ?n)"
      using m(5) by (auto simp: getStackBottom_def getStackTop_def add.assoc)
    have eq: "slotOffs s p = frameSlots (frameInfos s) is ?n" "stackReturns s p = frameReturns (frameInfos s) is ?n"
      using frames_indices [OF f] STACK_TAG
      by (simp_all add: slotOffs_def stackReturns_def getStackBottom_def getStackTop_def add.assoc)
    have "\<exists>st'. foreachObjptrInFrames f (q + 32) (q + ?n) st = Inr st' \<and> P r st'"
    proof (rule visit_frames [OF f])
      show "P (map ((+) q) (frameSlots (frameInfos s) is ?n) @ r) st" using P by (simp add: eq)
      show "same_tables s (fst st)" if "P l st" for l st using inv [OF that] by blast
      show "load64 (mem (fst st)) (q + j) = load64 (mem s) (p + j)"
        if "P l st" "j \<in> set (frameReturns (frameInfos s) is ?n)" for l st j
        using i(3) [of "mem (fst st)"] inv [OF that(1)] that(2) by (simp add: eq)
    qed
    then obtain st1 where st1: "foreachObjptrInFrames f (q + 32) (q + ?n) st = Inr st1" "P r st1" by blast
    have "stack_used ?s q = stack_used s p" using i(1) [OF st(2)] by (simp add: stack_used_def)
    moreover have "stack_reserved (fst st1) q = unat (load64 (srcMem s p) (p + 16))"
      using i(2) [of "mem (fst st1)"] inv [OF st1(2)] by (simp add: stack_reserved_def)
    ultimately show ?thesis
      using st1 hd STACK_TAG m(2,3)
      by (simp add: foreachObjptrInObject_def Let_def getStackBottom_def getStackTop_def add.assoc)
  qed
qed

end

section \<open>Forwarding in a state that has changed elsewhere\<close>

text \<open>What the collector reads of the state beside the memory.\<close>

definition same_env :: "GC_state \<Rightarrow> GC_state \<Rightarrow> bool" where
  "same_env s t \<longleftrightarrow> same_tables s t \<and> controls t = controls s \<and> heap t = heap s
     \<and> secondaryHeap t = secondaryHeap s \<and> frontier t = frontier s \<and> weaks t = weaks s
     \<and> globals t = globals s \<and> globalsLength t = globalsLength s \<and> staticHeaps t = staticHeaps s
     \<and> regionBuffer t = regionBuffer s \<and> regionTop t = regionTop s
     \<and> callFromCHandlerThreadp t = callFromCHandlerThreadp s \<and> currentThreadp t = currentThreadp s
     \<and> savedThreadp t = savedThreadp s \<and> signalHandlerThreadp t = signalHandlerThreadp s
     \<and> mutatorMarksCards t = mutatorMarksCards s \<and> sysvals t = sysvals s"

lemma same_env_trans: "same_env s t \<Longrightarrow> same_env t u \<Longrightarrow> same_env s u"
  by (simp add: same_env_def same_tables_def)

lemma same_env_mem [simp]: "same_env s (s\<lparr>mem := m\<rparr>)" "same_env s (write64 a v s)" "same_env s s"
  by (simp_all add: same_env_def same_tables_def write64_def)

lemma stack_local:
  assumes "copyable s p" "tag (typeOf s p) = STACK_TAG" "same_env s s'"
    and "\<And>a. p - metaB s p \<le> a \<Longrightarrow> a < p + dataB s p \<Longrightarrow> mem s' a = mem s a"
  shows "stack_used s' p = stack_used s p" "stack_reserved s' p = stack_reserved s p"
    "sizeofStackShrinkReserved s' p c = sizeofStackShrinkReserved s p c"
proof -
  note st = parts_stack [OF assms(1,2)]
  have l: "load64 (mem s') a = load64 (mem s) a" if "p \<le> a" "a + 8 \<le> p + 32 + stack_used s p" for a
    using that st(2) by (intro load64_cong assms(4)) auto
  show u: "stack_used s' p = stack_used s p" and r: "stack_reserved s' p = stack_reserved s p"
    using l [of "p + 24"] l [of "p + 16"] by (simp_all add: stack_used_def stack_reserved_def)
  have "getStackTopFrameSize s' p = getStackTopFrameSize s p"
    using l [of "p + 32 + stack_used s p - 8"] assms(3)
    by (simp add: getStackTopFrameSize_def getStackTopFrameInfo_def getStackTopFrameIndex_def getStackTop_def
        getStackBottom_def getFrameInfoFromFrameIndex_def getFrameIndexFromReturnAddress_def u
        same_env_def same_tables_def)
  then have "sizeofStackMinimumReserved s' p = sizeofStackMinimumReserved s p"
    using assms(3) by (simp add: sizeofStackMinimumReserved_def sizeofStackSlop_def alignStackReserved_def
        alignWithExtra_def u same_env_def same_tables_def)
  then show "sizeofStackShrinkReserved s' p c = sizeofStackShrinkReserved s p c"
    using assms(3) by (simp add: sizeofStackShrinkReserved_def Let_def alignStackReserved_def alignWithExtra_def u r
        same_env_def same_tables_def)
qed

lemma forwardSizes_local:
  assumes ok: "copyable s p" and env: "same_env s s'"
    and bytes: "\<And>a. p - metaB s p \<le> a \<Longrightarrow> a < p + dataB s p \<Longrightarrow> mem s' a = mem s a"
    and cur: "getStackCurrent s' = p \<longleftrightarrow> getStackCurrent s = p"
  shows "splitHeader s' (getHeader s' p) = Inr (typeOf s p)" "\<not> hasFwdPtr s' p"
    "\<exists>m. forwardSizes s' p (typeOf s p) = Inr (s'\<lparr>mem := m\<rparr>, metaB s p, dataB s p, skipB s p)
      \<and> (\<forall>a. p - metaB s p \<le> a \<and> a < p + dataB s p \<longrightarrow> m a = srcMem s p a)
      \<and> (\<forall>a. (tag (typeOf s p) = STACK_TAG \<longrightarrow> outside a 1 (p + 16) 8) \<longrightarrow> m a = mem s' a)"
proof -
  have m: "8 \<le> metaB s p" "metaB s p \<le> p" using metaB_ge [OF ok] copyableD(3) [OF ok] by auto
  have h: "getHeader s' p = getHeader s p"
    unfolding getHeader_def getHeaderp_def using m by (intro load64_cong bytes) auto
  show "splitHeader s' (getHeader s' p) = Inr (typeOf s p)"
    using copyableD(1) [OF ok] env by (simp add: h splitHeader_def Let_def same_env_def same_tables_def split: if_splits)
  show "\<not> hasFwdPtr s' p" using copyableD(2) [OF ok] by (simp add: hasFwdPtr_def h)
  let ?C = "\<exists>m. forwardSizes s' p (typeOf s p) = Inr (s'\<lparr>mem := m\<rparr>, metaB s p, dataB s p, skipB s p)
      \<and> (\<forall>a. p - metaB s p \<le> a \<and> a < p + dataB s p \<longrightarrow> m a = srcMem s p a)
      \<and> (\<forall>a. (tag (typeOf s p) = STACK_TAG \<longrightarrow> outside a 1 (p + 16) 8) \<longrightarrow> m a = mem s' a)"
  have plain: ?C if "forwardSizes s' p (typeOf s p) = Inr (s', metaB s p, dataB s p, skipB s p)"
      "tag (typeOf s p) \<noteq> STACK_TAG"
    using that bytes srcMem_other [OF ok] by (intro exI [of _ "mem s'"]) auto
  show ?C
  proof (cases "tag (typeOf s p)")
    case NORMAL_TAG
    with parts_plain [OF ok] show ?C by (intro plain) (auto simp: forwardSizes_def)
  next
    case WEAK_TAG
    with parts_plain [OF ok] show ?C by (intro plain) (auto simp: forwardSizes_def)
  next
    case SEQUENCE_TAG
    note ps = parts_sequence [OF ok SEQUENCE_TAG]
    have "getSequenceLength s' p = getSequenceLength s p"
      unfolding getSequenceLength_def getSequenceLengthp_def using m ps(2)
      by (intro arg_cong [where f = unat] load64_cong bytes) auto
    with ps SEQUENCE_TAG env show ?C
      by (intro plain) (auto simp: forwardSizes_def sizeofSequenceNoMetaData_def alignWithExtra_def
          same_env_def same_tables_def)
  next
    case STACK_TAG
    note st = parts_stack [OF ok STACK_TAG] and l = stack_local [OF ok STACK_TAG env bytes]
    obtain n where n: "sizeofStackShrinkReserved s p (getStackCurrent s = p) = Inr n"
      using copyableD(7) [OF ok] STACK_TAG by (auto simp: forwardSizes_def Let_def)
    define g where "g v = (if n < stack_reserved s p then set_stack_reserved p n v else v)" for v
    have u: "stack_used (g v) p = stack_used v p" for v by (simp add: g_def set_stack_reserved_used)
    have r: "stack_reserved (g s') p = stack_reserved (g s) p"
      using l(2) by (simp add: g_def stack_reserved_def set_stack_reserved_def)
    have fs: "forwardSizes s' p (typeOf s p) =
        Inr (g s', 8, 32 + stack_used s p, wrap_sub (stack_reserved (g s') p) (stack_used s p))"
      using n STACK_TAG l cur u [of s'] by (simp add: forwardSizes_def Let_def g_def)
    have f: "forwardSizes s p (typeOf s p) =
        Inr (g s, 8, 32 + stack_used s p, wrap_sub (stack_reserved (g s) p) (stack_used s p))"
      using n STACK_TAG u [of s] by (simp add: forwardSizes_def Let_def g_def)
    then have src: "srcMem s p = mem (g s)" "skipB s p = wrap_sub (stack_reserved (g s) p) (stack_used s p)"
      by (simp_all add: srcMem_def skipB_def plan_def)
    have "g s' = s'\<lparr>mem := mem (g s')\<rparr>" by (simp add: g_def set_stack_reserved_def write64_def)
    moreover have "mem (g s') a = srcMem s p a" if "p - metaB s p \<le> a" "a < p + dataB s p" for a
      using bytes [OF that] by (auto simp: src g_def set_stack_reserved_def store64_def store_le_byte)
    moreover have "mem (g s') a = mem s' a" if "outside a 1 (p + 16) 8" for a
      using that by (auto simp: g_def set_stack_reserved_def outside_def store64_other)
    ultimately show ?C
      using fs r src st(1,2) STACK_TAG by (intro exI [of _ "mem (g s')"]) auto
  qed
qed

text \<open>One step of forwarding: the object is copied, its old header forwards to the copy, and the slot follows.\<close>

lemma forwardObjptr_copies:
  assumes ok: "copyable s p" and env: "same_env s s'"
    and bytes: "\<And>a. p - metaB s p \<le> a \<Longrightarrow> a < p + dataB s p \<Longrightarrow> mem s' a = mem s a"
    and cur: "getStackCurrent s' = p \<longleftrightarrow> getStackCurrent s = p"
    and p: "unat (load64 (mem s') opp) = p"
    and apart: "p + dataB s p \<le> fs_back fs \<or> fs_back fs + (metaB s p + dataB s p) \<le> p - metaB s p"
  shows "\<exists>m. forwardObjptr (s', fs) opp =
      Inr (write64 opp (word_of_nat (fs_back fs + metaB s p)) (s'\<lparr>mem := m\<rparr>), fs\<lparr>fs_back := fs_back fs + totalB s p\<rparr>)
    \<and> (\<forall>i<metaB s p + dataB s p. m (fs_back fs + i) = srcMem s p (p - metaB s p + i))
    \<and> load64 m (p - 8) = word_of_nat (fs_back fs + metaB s p)
    \<and> (\<forall>a. outside a 1 (fs_back fs) (metaB s p + dataB s p) \<and> outside a 1 (p - 8) 8
          \<and> (tag (typeOf s p) = STACK_TAG \<longrightarrow> outside a 1 (p + 16) 8) \<longrightarrow> m a = mem s' a)"
proof -
  let ?b = "fs_back fs" and ?m = "metaB s p" and ?d = "dataB s p"
  define v where "v = (word_of_nat (?b + ?m) :: 64 word)"
  have m: "8 \<le> ?m" "?m \<le> p" using metaB_ge [OF ok] copyableD(3) [OF ok] by auto
  note loc = forwardSizes_local [OF ok env bytes cur]
  obtain m1 where m1: "forwardSizes s' p (typeOf s p) = Inr (s'\<lparr>mem := m1\<rparr>, ?m, ?d, skipB s p)"
    "\<And>a. p - ?m \<le> a \<Longrightarrow> a < p + ?d \<Longrightarrow> m1 a = srcMem s p a"
    "\<And>a. (tag (typeOf s p) = STACK_TAG \<longrightarrow> outside a 1 (p + 16) 8) \<Longrightarrow> m1 a = mem s' a"
    using loc(3) by blast
  define m2 where "m2 = copy_block m1 (p - ?m) ?b (?m + ?d)"
  have cp: "GC_memcpy m1 (p - ?m) ?b (?m + ?d) = Inr m2"
    using apart m by (auto simp: GC_memcpy_def m2_def)
  have weak: "\<not> (tag (typeOf s p) = WEAK_TAG \<and> numObjptrs (typeOf s p) = 1)"
    using ok by (auto simp: copyable_def Let_def)
  define m3 where "m3 = store64 m2 (p - 8) v"
  have get: "load64 m3 (p - 8) = v" by (simp add: m3_def)
  have run: "forwardObjptr (s', fs) opp = Inr (write64 opp v (s'\<lparr>mem := m3\<rparr>), fs\<lparr>fs_back := ?b + totalB s p\<rparr>)"
    using loc(1,2) m1(1) cp weak get
    by (auto simp: forwardObjptr_def Let_def p getFwdPtrp_def getFwdPtr_def getHeaderp_def totalB_def write64_def
        m3_def v_def simp del: of_nat_add)
  have "m3 (?b + i) = srcMem s p (p - ?m + i)" if "i < ?m + ?d" for i
  proof -
    have "?b + i < p - 8 \<or> p - 8 + 8 \<le> ?b + i" using apart m that by linarith
    then have "m3 (?b + i) = m1 (p - ?m + i)" using that by (simp add: m3_def store64_other m2_def copy_block_def)
    also have "\<dots> = srcMem s p (p - ?m + i)" using that m by (intro m1(2)) auto
    finally show ?thesis .
  qed
  moreover have "m3 a = mem s' a" if "outside a 1 ?b (?m + ?d)" "outside a 1 (p - 8) 8"
      "tag (typeOf s p) = STACK_TAG \<longrightarrow> outside a 1 (p + 16) 8" for a
  proof -
    have "a < p - 8 \<or> p - 8 + 8 \<le> a" using that(2) m by (auto simp: outside_def)
    then have "m3 a = m1 a" using that(1) by (auto simp: m3_def store64_other m2_def copy_block_def outside_def)
    with m1(3) [OF that(3)] show ?thesis by simp
  qed
  ultimately show ?thesis using run get unfolding v_def by blast
qed

end
