(* ===== verification/Cheney.thy ===== *)
theory Cheney
  imports CopyGraph
begin

text \<open>
  A major copying collection (\<open>majorCheneyCopyGC\<close>) copies exactly the objects that are
  reachable from the roots, stacks included, and the copies make the same graph. The invariant
  relates the memory to the one at the start by the list of the objects copied so far, each with
  its new address.
\<close>

section \<open>Live objects\<close>

definition rootAddrs :: "GC_state \<Rightarrow> pointer list" where
  "rootAddrs s = map (\<lambda>i. globals s + i * OBJPTR_SIZE) [0..<globalsLength s] @
     [callFromCHandlerThreadp s, currentThreadp s, savedThreadp s, signalHandlerThreadp s]"

text \<open>The object pointers that \<open>forwardObjptrIfInHeap\<close> follows.\<close>

definition inHeap :: "GC_state \<Rightarrow> objptr \<Rightarrow> bool" where
  "inHeap s v \<longleftrightarrow> isObjptr v \<and> heapStart (heap s) \<le> unat v \<and> unat v \<le> frontier s"

inductive_set live :: "GC_state \<Rightarrow> pointer set" for s where
  live_root: "a \<in> set (rootAddrs s) \<Longrightarrow> inHeap s (load64 (mem s) a) \<Longrightarrow> unat (load64 (mem s) a) \<in> live s"
| live_slot: "p \<in> live s \<Longrightarrow> k \<in> set (slotOffs s p) \<Longrightarrow> inHeap s (load64 (mem s) (p + k)) \<Longrightarrow>
    unat (load64 (mem s) (p + k)) \<in> live s"

definition toBase :: "GC_state \<Rightarrow> pointer" where
  "toBase s = alignFrontier s (heapStart (secondaryHeap s))"

text \<open>
  The state a collection starts from: live objects are copyable, lie in the heap and do not overlap; the other heap
  has room for them and is elsewhere; the roots are words outside of both (and of the maps
  behind the other heap); the current thread is an object with its stack in a slot; there are no
  objects in the static root heap and the region buffer and no linked weak objects.
\<close>

definition heapEnd :: "GC_heap \<Rightarrow> pointer" where
  "heapEnd h = heapStart h + heapSize h"

definition mapBytes :: "GC_state \<Rightarrow> nat" where
  "mapBytes s = sizeofCardMap s (heapSize (secondaryHeap s)) + sizeofCrossMap s (heapSize (secondaryHeap s))"

definition live_ok :: "GC_state \<Rightarrow> bool" where
  "live_ok s \<longleftrightarrow> finite (live s) \<and>
     (\<forall>p\<in>live s. copyable s p \<and> totalB s p mod 4 = 0 \<and>
        heapStart (heap s) + metaB s p \<le> p \<and> p + dataB s p \<le> heapEnd (heap s)) \<and>
     (\<forall>p\<in>live s. \<forall>q\<in>live s. p \<noteq> q \<longrightarrow> p + dataB s p + metaB s q \<le> q \<or> q + dataB s q + metaB s p \<le> p)"

definition roots_ok :: "GC_state \<Rightarrow> bool" where
  "roots_ok s \<longleftrightarrow> sorted_wrt apart (rootAddrs s) \<and>
     (\<forall>a\<in>set (rootAddrs s). outside a 8 (heapStart (heap s)) (heapSize (heap s)) \<and>
        outside a 8 (heapStart (secondaryHeap s)) (heapSize (secondaryHeap s) + mapBytes s)) \<and>
     staticStart (rootHeap (staticHeaps s)) + staticSize (rootHeap (staticHeaps s))
       \<le> alignFrontier s (staticStart (rootHeap (staticHeaps s))) \<and>
     regionTop s \<le> alignFrontier s (regionBuffer s) \<and> weaks s = 0"

definition spaces_ok :: "GC_state \<Rightarrow> bool" where
  "spaces_ok s \<longleftrightarrow>
     (heapEnd (heap s) \<le> heapStart (secondaryHeap s) \<or> heapEnd (secondaryHeap s) \<le> heapStart (heap s)) \<and>
     heapEnd (secondaryHeap s) < 18446744073709551616 \<and>
     heapStart (secondaryHeap s) \<le> toBase s \<and> toBase s mod 4 = 0 \<and>
     toBase s + (\<Sum>p\<in>live s. totalB s p) \<le> heapEnd (secondaryHeap s)"

definition thread_ok :: "GC_state \<Rightarrow> bool" where
  "thread_ok s \<longleftrightarrow> inHeap s (currentThread s) \<and>
     (let th = unat (currentThread s)
      in tag (typeOf s th) = NORMAL_TAG \<and> offsetofThread s + 16 \<in> set (slotOffs s th))"

definition copy_ready :: "GC_state \<Rightarrow> bool" where
  "copy_ready s \<longleftrightarrow> live_ok s \<and> roots_ok s \<and> spaces_ok s \<and> thread_ok s"

section \<open>The copies\<close>

text \<open>The objects copied so far, from \<open>a\<close> to \<open>b\<close>, each with the address of its copy.\<close>

fun laid :: "GC_state \<Rightarrow> pointer \<Rightarrow> (pointer \<times> pointer) list \<Rightarrow> pointer \<Rightarrow> bool" where
  "laid s a [] b \<longleftrightarrow> a = b"
| "laid s a ((p, q) # ps) b \<longleftrightarrow> q = a + metaB s p \<and> laid s (a + totalB s p) ps b"

lemma laid_append: "laid s a (ps @ qs) b \<longleftrightarrow> (\<exists>c. laid s a ps c \<and> laid s c qs b)"
  by (induction ps arbitrary: a) auto

lemma laid_sum: "laid s a ps b \<Longrightarrow> b = a + (\<Sum>x\<leftarrow>ps. totalB s (fst x))"
  by (induction s a ps b rule: laid.induct) auto

lemma laid_bounds:
  "laid s a ps b \<Longrightarrow> (p, q) \<in> set ps \<Longrightarrow> a + metaB s p \<le> q \<and> q + dataB s p + skipB s p \<le> b"
proof (induction ps arbitrary: a)
  case (Cons x ps)
  obtain p' q' where x: "x = (p', q')" by (cases x)
  show ?case
  proof (cases "(p, q) = x")
    case True
    then show ?thesis using Cons.prems(1) laid_sum [of s "a + totalB s p'" ps b] by (auto simp: x totalB_def)
  next
    case False
    then show ?thesis using Cons.prems Cons.IH [of "a + totalB s p'"] by (auto simp: x)
  qed
qed simp

lemma laid_apart:
  "laid s a ps b \<Longrightarrow> sorted_wrt (\<lambda>(p, q) (p', q'). q + dataB s p + metaB s p' \<le> q') ps"
proof (induction ps arbitrary: a)
  case (Cons x ps)
  obtain p q where x: "x = (p, q)" by (cases x)
  have l: "q = a + metaB s p" "laid s (a + totalB s p) ps b" using Cons.prems by (auto simp: x)
  have "q + dataB s p + metaB s p' \<le> q'" if "(p', q') \<in> set ps" for p' q'
    using laid_bounds [OF l(2) that] l(1) by (simp add: totalB_def)
  then show ?case using Cons.IH [OF l(2)] by (auto simp: x)
qed simp

lemma laid_mod4:
  assumes "laid s a ps b" "a mod 4 = 0" "\<And>p q. (p, q) \<in> set ps \<Longrightarrow> totalB s p mod 4 = 0 \<and> metaB s p mod 4 = 0"
  shows "(p, q) \<in> set ps \<Longrightarrow> q mod 4 = 0"
  using assms
proof (induction ps arbitrary: a)
  case (Cons x ps)
  obtain p' q' where x: "x = (p', q')" by (cases x)
  have "totalB s p' mod 4 = 0" "metaB s p' mod 4 = 0" using Cons.prems(4) [of p' q'] by (auto simp: x)
  then have m: "(a + totalB s p') mod 4 = 0" "(a + metaB s p') mod 4 = 0" using Cons.prems(3) by presburger+
  show ?case
  proof (cases "(p, q) = x")
    case True
    then show ?thesis using Cons.prems(2) m(2) by (auto simp: x)
  next
    case False
    then show ?thesis using Cons.prems m(1) by (intro Cons.IH [of "a + totalB s p'"]) (auto simp: x)
  qed
qed simp

section \<open>The invariant of the collection\<close>

text \<open>Where a value points after the collection, for the map \<open>\<phi>\<close> from objects to their copies.\<close>

definition relocate :: "GC_state \<Rightarrow> (pointer \<Rightarrow> pointer) \<Rightarrow> objptr \<Rightarrow> objptr" where
  "relocate s \<phi> v = (if inHeap s v then word_of_nat (\<phi> (unat v)) else v)"

definition copyAt :: "(pointer \<times> pointer) list \<Rightarrow> pointer \<Rightarrow> pointer" where
  "copyAt ps p = the (map_of ps p)"

text \<open>The roots and the slots of the copies, each with the address its value is from.\<close>

definition copySlots :: "GC_state \<Rightarrow> (pointer \<times> pointer) list \<Rightarrow> (pointer \<times> pointer) set" where
  "copySlots s ps = {(a, a) |a. a \<in> set (rootAddrs s)} \<union>
     {(q + k, p + k) |p q k. (p, q) \<in> set ps \<and> k \<in> set (slotOffs s p)}"

text \<open>
  \<open>D\<close> are the slots that have been visited, \<open>ps\<close> the objects that have been copied: visited slots have new
  values, other slots the old ones; the rest of each copy is as the object was; objects that
  are not copied are untouched, and the old header of a copied one forwards to the copy.
\<close>

definition cheney_inv ::
  "GC_state \<Rightarrow> pointer set \<Rightarrow> (pointer \<times> pointer) list \<Rightarrow> GC_state \<times> GC_forwardState \<Rightarrow> bool" where
  "cheney_inv s D ps st \<longleftrightarrow>
     (let t = fst st; m = mem t; C = fst ` set ps
      in same_env s t \<and> laid s (toBase s) ps (fs_back (snd st)) \<and> distinct (map fst ps) \<and> C \<subseteq> live s \<and>
         D \<subseteq> fst ` copySlots s ps \<and>
         (\<forall>p\<in>live s - C. \<forall>a. p - metaB s p \<le> a \<and> a < p + dataB s p \<longrightarrow> m a = mem s a) \<and>
         (\<forall>(p, q)\<in>set ps. load64 m (p - 8) = word_of_nat q \<and> image_of s p m q \<and>
            (tag (typeOf s p) \<noteq> STACK_TAG \<longrightarrow> (\<forall>a. p \<le> a \<and> a < p + dataB s p \<longrightarrow> m a = mem s a))) \<and>
         (\<forall>(a, b)\<in>copySlots s ps.
            if a \<in> D then load64 m a = relocate s (copyAt ps) (load64 (mem s) b) \<and>
              (inHeap s (load64 (mem s) b) \<longrightarrow> unat (load64 (mem s) b) \<in> C)
            else load64 m a = load64 (mem s) b) \<and>
         (\<forall>a. outside a 1 (heapStart (heap s)) (heapSize (heap s)) \<and>
            outside a 1 (toBase s) (fs_back (snd st) - toBase s) \<and>
            (\<forall>r\<in>set (rootAddrs s). outside a 1 r 8) \<longrightarrow> m a = mem s a))"

lemma cheney_invD:
  assumes "cheney_inv s D ps st"
  shows "same_env s (fst st)" "laid s (toBase s) ps (fs_back (snd st))" "distinct (map fst ps)"
    "fst ` set ps \<subseteq> live s" "D \<subseteq> fst ` copySlots s ps"
    "\<And>p a. p \<in> live s \<Longrightarrow> p \<notin> fst ` set ps \<Longrightarrow> p - metaB s p \<le> a \<Longrightarrow> a < p + dataB s p \<Longrightarrow> mem (fst st) a = mem s a"
    "\<And>p q. (p, q) \<in> set ps \<Longrightarrow> load64 (mem (fst st)) (p - 8) = word_of_nat q"
    "\<And>p q. (p, q) \<in> set ps \<Longrightarrow> image_of s p (mem (fst st)) q"
    "\<And>p q a. (p, q) \<in> set ps \<Longrightarrow> tag (typeOf s p) \<noteq> STACK_TAG \<Longrightarrow> p \<le> a \<Longrightarrow> a < p + dataB s p \<Longrightarrow>
       mem (fst st) a = mem s a"
    "\<And>a b. (a, b) \<in> copySlots s ps \<Longrightarrow> a \<in> D \<Longrightarrow> load64 (mem (fst st)) a = relocate s (copyAt ps) (load64 (mem s) b)"
    "\<And>a b. (a, b) \<in> copySlots s ps \<Longrightarrow> a \<in> D \<Longrightarrow> inHeap s (load64 (mem s) b) \<Longrightarrow>
       unat (load64 (mem s) b) \<in> fst ` set ps"
    "\<And>a b. (a, b) \<in> copySlots s ps \<Longrightarrow> a \<notin> D \<Longrightarrow> load64 (mem (fst st)) a = load64 (mem s) b"
    "\<And>a. outside a 1 (heapStart (heap s)) (heapSize (heap s)) \<Longrightarrow>
       outside a 1 (toBase s) (fs_back (snd st) - toBase s) \<Longrightarrow>
       \<forall>r\<in>set (rootAddrs s). outside a 1 r 8 \<Longrightarrow> mem (fst st) a = mem s a"
proof -
  note i = assms [unfolded cheney_inv_def Let_def]
  show "same_env s (fst st)" "laid s (toBase s) ps (fs_back (snd st))" "distinct (map fst ps)"
    "fst ` set ps \<subseteq> live s" "D \<subseteq> fst ` copySlots s ps"
    using i by blast+
  show "mem (fst st) a = mem s a" if "p \<in> live s" "p \<notin> fst ` set ps" "p - metaB s p \<le> a" "a < p + dataB s p" for p a
    using i that by blast
  show "load64 (mem (fst st)) (p - 8) = word_of_nat q" "image_of s p (mem (fst st)) q" if "(p, q) \<in> set ps" for p q
    using i that by blast+
  show "mem (fst st) a = mem s a"
    if "(p, q) \<in> set ps" "tag (typeOf s p) \<noteq> STACK_TAG" "p \<le> a" "a < p + dataB s p" for p q a
    using i that by blast
  have sl: "\<forall>(a, b)\<in>copySlots s ps.
      if a \<in> D then load64 (mem (fst st)) a = relocate s (copyAt ps) (load64 (mem s) b) \<and>
        (inHeap s (load64 (mem s) b) \<longrightarrow> unat (load64 (mem s) b) \<in> fst ` set ps)
      else load64 (mem (fst st)) a = load64 (mem s) b"
    using i by blast
  show "load64 (mem (fst st)) a = relocate s (copyAt ps) (load64 (mem s) b)" if "(a, b) \<in> copySlots s ps" "a \<in> D" for a b
    using bspec [OF sl that(1)] that(2) by simp
  show "unat (load64 (mem s) b) \<in> fst ` set ps"
    if "(a, b) \<in> copySlots s ps" "a \<in> D" "inHeap s (load64 (mem s) b)" for a b
    using bspec [OF sl that(1)] that(2,3) by simp
  show "load64 (mem (fst st)) a = load64 (mem s) b" if "(a, b) \<in> copySlots s ps" "a \<notin> D" for a b
    using bspec [OF sl that(1)] that(2) by simp
  show "mem (fst st) a = mem s a" if "outside a 1 (heapStart (heap s)) (heapSize (heap s))"
      "outside a 1 (toBase s) (fs_back (snd st) - toBase s)" "\<forall>r\<in>set (rootAddrs s). outside a 1 r 8" for a
    using i that by blast
qed

lemma cheney_invI:
  assumes "same_env s t" "laid s (toBase s) ps (fs_back fs)" "distinct (map fst ps)"
    "fst ` set ps \<subseteq> live s" "D \<subseteq> fst ` copySlots s ps"
    and old: "\<And>p a. p \<in> live s \<Longrightarrow> p \<notin> fst ` set ps \<Longrightarrow> p - metaB s p \<le> a \<Longrightarrow> a < p + dataB s p \<Longrightarrow> mem t a = mem s a"
    and fwd: "\<And>p q. (p, q) \<in> set ps \<Longrightarrow> load64 (mem t) (p - 8) = word_of_nat q \<and> image_of s p (mem t) q"
    and body: "\<And>p q a. (p, q) \<in> set ps \<Longrightarrow> tag (typeOf s p) \<noteq> STACK_TAG \<Longrightarrow> p \<le> a \<Longrightarrow> a < p + dataB s p \<Longrightarrow>
       mem t a = mem s a"
    and visited: "\<And>a b. (a, b) \<in> copySlots s ps \<Longrightarrow> a \<in> D \<Longrightarrow>
       load64 (mem t) a = relocate s (copyAt ps) (load64 (mem s) b) \<and>
       (inHeap s (load64 (mem s) b) \<longrightarrow> unat (load64 (mem s) b) \<in> fst ` set ps)"
    and rest: "\<And>a b. (a, b) \<in> copySlots s ps \<Longrightarrow> a \<notin> D \<Longrightarrow> load64 (mem t) a = load64 (mem s) b"
    and frame: "\<And>a. outside a 1 (heapStart (heap s)) (heapSize (heap s)) \<Longrightarrow>
       outside a 1 (toBase s) (fs_back fs - toBase s) \<Longrightarrow>
       \<forall>r\<in>set (rootAddrs s). outside a 1 r 8 \<Longrightarrow> mem t a = mem s a"
  shows "cheney_inv s D ps (t, fs)"
proof -
  have "\<forall>(p, q)\<in>set ps. load64 (mem t) (p - 8) = word_of_nat q \<and> image_of s p (mem t) q \<and>
      (tag (typeOf s p) \<noteq> STACK_TAG \<longrightarrow> (\<forall>a. p \<le> a \<and> a < p + dataB s p \<longrightarrow> mem t a = mem s a))"
    using fwd body by blast
  moreover have "\<forall>(a, b)\<in>copySlots s ps.
      if a \<in> D then load64 (mem t) a = relocate s (copyAt ps) (load64 (mem s) b) \<and>
        (inHeap s (load64 (mem s) b) \<longrightarrow> unat (load64 (mem s) b) \<in> fst ` set ps)
      else load64 (mem t) a = load64 (mem s) b"
    using visited rest by (auto split: if_splits)
  ultimately show ?thesis
    unfolding cheney_inv_def Let_def fst_conv snd_conv using assms(1-5) old frame by blast
qed

section \<open>Where things are\<close>

lemma live_okD:
  assumes "copy_ready s" "p \<in> live s"
  shows "copyable s p" "heapStart (heap s) + metaB s p \<le> p" "p + dataB s p \<le> heapEnd (heap s)" "totalB s p mod 4 = 0"
    "8 \<le> metaB s p" "metaB s p mod 4 = 0"
    "\<And>q. q \<in> live s \<Longrightarrow> p \<noteq> q \<Longrightarrow> p + dataB s p + metaB s q \<le> q \<or> q + dataB s q + metaB s p \<le> p"
proof -
  show c: "copyable s p" using assms by (simp add: copy_ready_def live_ok_def)
  show "8 \<le> metaB s p" by (rule metaB_ge [OF c])
  show "metaB s p mod 4 = 0"
    using parts_plain(2) [OF c] parts_sequence(2) [OF c] parts_stack(1) [OF c] by (cases "tag (typeOf s p)") auto
qed (use assms in \<open>auto simp: copy_ready_def live_ok_def\<close>)

lemma root_okD:
  assumes "copy_ready s" "a \<in> set (rootAddrs s)"
  shows "outside a 8 (heapStart (heap s)) (heapSize (heap s))"
    "outside a 8 (heapStart (secondaryHeap s)) (heapSize (secondaryHeap s) + mapBytes s)"
  using assms by (simp_all add: copy_ready_def roots_ok_def)

text \<open>The copies lie in the other heap.\<close>

lemma cheney_room:
  assumes "copy_ready s" "cheney_inv s D ps st"
  shows "toBase s \<le> fs_back (snd st)" "fs_back (snd st) \<le> heapEnd (secondaryHeap s)"
    "p \<in> live s \<Longrightarrow> p \<notin> fst ` set ps \<Longrightarrow> fs_back (snd st) + totalB s p \<le> heapEnd (secondaryHeap s)"
proof -
  note i = cheney_invD [OF assms(2)]
  have fin: "finite (live s)" and sp: "toBase s + (\<Sum>p\<in>live s. totalB s p) \<le> heapEnd (secondaryHeap s)"
    using assms(1) by (simp_all add: copy_ready_def live_ok_def spaces_ok_def)
  have sum: "fs_back (snd st) = toBase s + (\<Sum>p\<in>fst ` set ps. totalB s p)"
    using laid_sum [OF i(2)] sum_list_distinct_conv_sum_set [OF i(3), of "totalB s"] by (simp add: comp_def)
  show "toBase s \<le> fs_back (snd st)" by (simp add: sum)
  have "(\<Sum>p\<in>fst ` set ps. totalB s p) \<le> (\<Sum>p\<in>live s. totalB s p)" by (rule sum_mono2 [OF fin i(4)]) simp
  then show "fs_back (snd st) \<le> heapEnd (secondaryHeap s)" using sum sp by linarith
  show "fs_back (snd st) + totalB s p \<le> heapEnd (secondaryHeap s)" if "p \<in> live s" "p \<notin> fst ` set ps"
  proof -
    have "(\<Sum>p\<in>fst ` set ps. totalB s p) + totalB s p = (\<Sum>p\<in>insert p (fst ` set ps). totalB s p)"
      using that(2) by (simp add: add.commute)
    also have "\<dots> \<le> (\<Sum>p\<in>live s. totalB s p)" using that(1) i(4) by (intro sum_mono2 [OF fin]) auto
    finally show ?thesis using sum sp by linarith
  qed
qed

lemma copy_place:
  assumes "copy_ready s" "cheney_inv s D ps st" "(p, q) \<in> set ps"
  shows "p \<in> live s" "toBase s + metaB s p \<le> q" "q + dataB s p + skipB s p \<le> fs_back (snd st)"
    "q mod 4 = 0" "q < 18446744073709551616" "metaB s p \<le> q"
    "heapStart (secondaryHeap s) + metaB s p \<le> q" "q + dataB s p \<le> heapEnd (secondaryHeap s)"
proof -
  note i = cheney_invD [OF assms(2)]
  have sp: "heapStart (secondaryHeap s) \<le> toBase s" "toBase s mod 4 = 0" "heapEnd (secondaryHeap s) < 18446744073709551616"
    using assms(1) by (simp_all add: copy_ready_def spaces_ok_def)
  have lv: "p \<in> live s" if "(p, q) \<in> set ps" for p q using i(4) that by force
  show "p \<in> live s" by (rule lv [OF assms(3)])
  show b: "toBase s + metaB s p \<le> q" "q + dataB s p + skipB s p \<le> fs_back (snd st)"
    using laid_bounds [OF i(2) assms(3)] by blast+
  then show "heapStart (secondaryHeap s) + metaB s p \<le> q" "q + dataB s p \<le> heapEnd (secondaryHeap s)"
    "q < 18446744073709551616" "metaB s p \<le> q"
    using sp cheney_room(2) [OF assms(1,2)] by linarith+
  show "q mod 4 = 0"
    by (rule laid_mod4 [OF i(2) sp(2) _ assms(3)]) (use live_okD(4,6) [OF assms(1) lv] in blast)
qed

lemma copies_apart:
  assumes "cheney_inv s D ps st" "(p, q) \<in> set ps" "(p', q') \<in> set ps" "p \<noteq> p'"
  shows "q + dataB s p + metaB s p' \<le> q' \<or> q' + dataB s p' + metaB s p \<le> q"
proof -
  let ?P = "\<lambda>(p, q) (p', q'). q + dataB s p + metaB s p' \<le> q'"
  have "sorted_wrt ?P ps" by (rule laid_apart [OF cheney_invD(2) [OF assms(1)]])
  then have "?P x y \<or> ?P y x" if "x \<in> set ps" "y \<in> set ps" "x \<noteq> y" for x y
    using that by (metis in_set_conv_nth nat_neq_iff sorted_wrt_iff_nth_less)
  from this [OF assms(2,3)] show ?thesis using assms(4) by auto
qed

lemma copy_unique:
  "cheney_inv s D ps st \<Longrightarrow> (p, q) \<in> set ps \<Longrightarrow> (p, q') \<in> set ps \<Longrightarrow> q = q'"
  using cheney_invD(3) eq_key_imp_eq_value by metis

lemma copyAt_eq: "cheney_inv s D ps st \<Longrightarrow> (p, q) \<in> set ps \<Longrightarrow> copyAt ps p = q"
  using cheney_invD(3) by (simp add: copyAt_def)

lemma sorted_apart: "sorted_wrt apart l \<Longrightarrow> a \<in> set l \<Longrightarrow> b \<in> set l \<Longrightarrow> a \<noteq> b \<Longrightarrow> apart a b"
  by (induction l) (auto simp: apart_def)

lemma copySlots_cases:
  assumes "(a, b) \<in> copySlots s ps"
  obtains (root) "a \<in> set (rootAddrs s)" "b = a"
    | (copy) p q k where "(p, q) \<in> set ps" "k \<in> set (slotOffs s p)" "a = q + k" "b = p + k"
  using assms unfolding copySlots_def by blast

text \<open>The words of the slots: outside of the heap that is collected, and one slot apart from another.\<close>

lemma slot_place:
  assumes "copy_ready s" "cheney_inv s D ps st" "(a, b) \<in> copySlots s ps"
  shows "outside a 8 (heapStart (heap s)) (heapSize (heap s))"
    "a \<in> set (rootAddrs s) \<or> toBase s \<le> a \<and> a + 8 \<le> fs_back (snd st)"
proof -
  have sp: "heapEnd (heap s) \<le> heapStart (secondaryHeap s) \<or> heapEnd (secondaryHeap s) \<le> heapStart (heap s)"
    using assms(1) by (simp add: copy_ready_def spaces_ok_def)
  from assms(3) have "outside a 8 (heapStart (heap s)) (heapSize (heap s)) \<and>
      (a \<in> set (rootAddrs s) \<or> toBase s \<le> a \<and> a + 8 \<le> fs_back (snd st))"
  proof (cases rule: copySlots_cases)
    case root
    then show ?thesis using root_okD(1) [OF assms(1)] by blast
  next
    case (copy p q k)
    note c = copy_place [OF assms(1,2) copy(1)]
    have "k + 8 \<le> dataB s p" using copyableD(5) [OF live_okD(1) [OF assms(1) c(1)] copy(2)] .
    then show ?thesis using sp c(2,3,7,8) unfolding copy(3) outside_def heapEnd_def by linarith
  qed
  then show "outside a 8 (heapStart (heap s)) (heapSize (heap s))"
    "a \<in> set (rootAddrs s) \<or> toBase s \<le> a \<and> a + 8 \<le> fs_back (snd st)" by blast+
qed

lemma slots_apart:
  assumes "copy_ready s" "cheney_inv s D ps st" "(a, b) \<in> copySlots s ps" "(a', b') \<in> copySlots s ps"
  shows "(a, b) = (a', b') \<or> apart a a'"
proof -
  have rc: "apart r a" if "r \<in> set (rootAddrs s)" "toBase s \<le> a" "a + 8 \<le> fs_back (snd st)" for r a
  proof -
    have "heapStart (secondaryHeap s) \<le> toBase s" using assms(1) by (simp add: copy_ready_def spaces_ok_def)
    then show ?thesis
      using root_okD(2) [OF assms(1) that(1)] that(2,3) cheney_room(2) [OF assms(1,2)]
      by (auto simp: outside_def apart_def heapEnd_def)
  qed
  have cp: "toBase s \<le> q + k" "q + k + 8 \<le> fs_back (snd st)" "k + 8 \<le> dataB s p" "p \<in> live s"
    if "(p, q) \<in> set ps" "k \<in> set (slotOffs s p)" for p q k
  proof -
    note c = copy_place [OF assms(1,2) that(1)]
    show "p \<in> live s" by (rule c(1))
    show k: "k + 8 \<le> dataB s p" using copyableD(5) [OF live_okD(1) [OF assms(1) c(1)] that(2)] .
    show "toBase s \<le> q + k" "q + k + 8 \<le> fs_back (snd st)" using k c(2,3) by linarith+
  qed
  have sym: "apart x y = apart y x" for x y by (auto simp: apart_def)
  from assms(3) show ?thesis
  proof (cases rule: copySlots_cases)
    case root
    note r = root
    from assms(4) show ?thesis
    proof (cases rule: copySlots_cases)
      case root
      have "sorted_wrt apart (rootAddrs s)" using assms(1) by (simp add: copy_ready_def roots_ok_def)
      then show ?thesis using sorted_apart r root by blast
    next
      case (copy p q k)
      then show ?thesis using rc [OF r(1)] cp(1,2) [OF copy(1,2)] by blast
    qed
  next
    case (copy p q k)
    note c = copy
    from assms(4) show ?thesis
    proof (cases rule: copySlots_cases)
      case root
      then show ?thesis using rc [OF root(1)] cp(1,2) [OF c(1,2)] sym c(3) by blast
    next
      case (copy p' q' k')
      show ?thesis
      proof (cases "p = p'")
        case True
        have q: "q = q'" using copy_unique [OF assms(2) c(1)] copy(1) True by blast
        have "sorted_wrt apart (slotOffs s p)"
          using copyableD(6) [OF live_okD(1) [OF assms(1) cp(4) [OF c(1,2)]]] .
        then have "k = k' \<or> apart k k'" using sorted_apart c(2) copy(2) True by blast
        then show ?thesis using c(3,4) copy(3,4) True q by (auto simp: apart_def)
      next
        case False
        then show ?thesis
          using copies_apart [OF assms(2) c(1) copy(1) False] cp(3) [OF c(1,2)] cp(3) [OF copy(1,2)] c(3) copy(3)
          by (auto simp: apart_def)
      qed
    qed
  qed
qed

section \<open>One step\<close>

text \<open>A slot whose object is copied gets its new value.\<close>

lemma cheney_write:
  assumes ready: "copy_ready s" and inv: "cheney_inv s D ps (t, fs)"
    and sl: "(a, b) \<in> copySlots s ps" "a \<notin> D"
    and closed: "inHeap s (load64 (mem s) b) \<Longrightarrow> unat (load64 (mem s) b) \<in> fst ` set ps"
  shows "cheney_inv s (insert a D) ps (write64 a (relocate s (copyAt ps) (load64 (mem s) b)) t, fs)"
proof -
  let ?v = "relocate s (copyAt ps) (load64 (mem s) b)"
  let ?m = "store64 (mem t) a ?v"
  note i = cheney_invD [OF inv, unfolded fst_conv snd_conv]
  note pl = slot_place [OF ready inv sl(1), unfolded snd_conv]
  have out: "?m c = mem t c" if "outside a 8 c 1" for c
    using that by (auto simp: outside_def store64_other)
  have heap: "?m c = mem t c" if "heapStart (heap s) \<le> c" "c < heapEnd (heap s)" for c
    using pl(1) that by (intro out) (auto simp: outside_def heapEnd_def)
  have heap64: "load64 ?m c = load64 (mem t) c" if "heapStart (heap s) \<le> c" "c + 8 \<le> heapEnd (heap s)" for c
    using that by (intro load64_cong heap) auto
  have slot: "load64 ?m c = load64 (mem t) c" if "(c, d) \<in> copySlots s ps" "(c, d) \<noteq> (a, b)" for c d
    using slots_apart [OF ready inv sl(1) that(1)] that(2) by (auto simp: apart_def mem_simps)
  have only: "d = b" if "(a, d) \<in> copySlots s ps" for d
    using slots_apart [OF ready inv sl(1) that] by (auto simp: apart_def)
  show ?thesis
  proof (rule cheney_invI)
    show "same_env s (write64 a ?v t)" using i(1) same_env_trans same_env_mem(2) by blast
    show "insert a D \<subseteq> fst ` copySlots s ps" using i(5) sl(1) by force
    show "mem (write64 a ?v t) c = mem s c"
      if "p \<in> live s" "p \<notin> fst ` set ps" "p - metaB s p \<le> c" "c < p + dataB s p" for p c
      using i(6) [OF that] heap [of c] live_okD(2,3) [OF ready that(1)] that(3,4) by simp
    show "load64 (mem (write64 a ?v t)) (p - 8) = word_of_nat q \<and> image_of s p (mem (write64 a ?v t)) q"
      if pq: "(p, q) \<in> set ps" for p q
    proof
      note c = copy_place [OF ready inv pq]
      note l = live_okD [OF ready c(1)]
      show "load64 (mem (write64 a ?v t)) (p - 8) = word_of_nat q"
        using i(7) [OF pq] heap64 [of "p - 8"] l(2,3,5) by simp
      show "image_of s p (mem (write64 a ?v t)) q"
        unfolding image_of_def
      proof (intro allI impI)
        fix j assume j: "j < metaB s p + dataB s p"
          "\<forall>k\<in>set (slotOffs s p). j < metaB s p + k \<or> metaB s p + k + 8 \<le> j"
        have "outside a 8 (q - metaB s p + j) 1"
          using sl(1)
        proof (cases rule: copySlots_cases)
          case root
          have "heapStart (secondaryHeap s) \<le> q - metaB s p + j" "q - metaB s p + j < heapEnd (secondaryHeap s)"
            using c(6-8) j(1) by linarith+
          then show ?thesis using root_okD(2) [OF ready root(1)] by (auto simp: outside_def heapEnd_def)
        next
          case (copy p' q' k)
          show ?thesis
          proof (cases "p = p'")
            case True
            then have "q = q'" using copy_unique [OF inv pq] copy(1) by blast
            moreover have "j < metaB s p + k \<or> metaB s p + k + 8 \<le> j" using j(2) copy(2) True by blast
            ultimately show ?thesis using c(6) unfolding copy(3) outside_def by linarith
          next
            case False
            have "k + 8 \<le> dataB s p'"
              using copyableD(5) [OF live_okD(1) [OF ready copy_place(1) [OF ready inv copy(1)]] copy(2)] .
            then show ?thesis
              using copies_apart [OF inv pq copy(1) False] c(6) j(1) unfolding copy(3) outside_def by linarith
          qed
        qed
        then show "mem (write64 a ?v t) (q - metaB s p + j) = srcMem s p (p - metaB s p + j)"
          using i(8) [OF pq] j out unfolding image_of_def write64_mem by simp
      qed
    qed
    show "mem (write64 a ?v t) c = mem s c"
      if "(p, q) \<in> set ps" "tag (typeOf s p) \<noteq> STACK_TAG" "p \<le> c" "c < p + dataB s p" for p q c
      using i(9) [OF that] heap [of c] live_okD(2,3) [OF ready copy_place(1) [OF ready inv that(1)]] that(3,4) by simp
    show "load64 (mem (write64 a ?v t)) c = relocate s (copyAt ps) (load64 (mem s) d) \<and>
        (inHeap s (load64 (mem s) d) \<longrightarrow> unat (load64 (mem s) d) \<in> fst ` set ps)"
      if "(c, d) \<in> copySlots s ps" "c \<in> insert a D" for c d
    proof (cases "c = a")
      case True
      then have "d = b" using only that(1) by blast
      then show ?thesis using True closed by auto
    next
      case False
      then have "c \<in> D" using that(2) by simp
      then show ?thesis using slot [OF that(1)] False i(10,11) [OF that(1)] by simp
    qed
    show "load64 (mem (write64 a ?v t)) c = load64 (mem s) d" if "(c, d) \<in> copySlots s ps" "c \<notin> insert a D" for c d
      using slot [OF that(1)] that(2) i(12) [OF that(1)] by simp
    show "mem (write64 a ?v t) c = mem s c" if "outside c 1 (heapStart (heap s)) (heapSize (heap s))"
        "outside c 1 (toBase s) (fs_back fs - toBase s)" "\<forall>r\<in>set (rootAddrs s). outside c 1 r 8" for c
    proof -
      have "outside a 8 c 1" using pl(2) that(2,3) by (auto simp: outside_def)
      then show ?thesis using i(13) [OF that] out by simp
    qed
  qed (use i in blast)+
qed

text \<open>An object is copied to the end of the copies; its slots have still to be visited.\<close>

lemma cheney_copy:
  assumes ready: "copy_ready s" and inv: "cheney_inv s D ps (t, fs)"
    and p: "p \<in> live s" "p \<notin> fst ` set ps"
    and img: "\<And>i. i < metaB s p + dataB s p \<Longrightarrow> m (fs_back fs + i) = srcMem s p (p - metaB s p + i)"
    and hdr: "load64 m (p - 8) = word_of_nat (fs_back fs + metaB s p)"
    and oth: "\<And>a. outside a 1 (fs_back fs) (metaB s p + dataB s p) \<Longrightarrow> outside a 1 (p - 8) 8 \<Longrightarrow>
          (tag (typeOf s p) = STACK_TAG \<Longrightarrow> outside a 1 (p + 16) 8) \<Longrightarrow> m a = mem t a"
  shows "cheney_inv s D (ps @ [(p, fs_back fs + metaB s p)])
    (t\<lparr>mem := m\<rparr>, fs\<lparr>fs_back := fs_back fs + totalB s p\<rparr>)"
proof -
  let ?b = "fs_back fs" and ?q = "fs_back fs + metaB s p" and ?ps = "ps @ [(p, fs_back fs + metaB s p)]"
  note i = cheney_invD [OF inv, unfolded fst_conv snd_conv]
  note l = live_okD [OF ready p(1)]
  note room = cheney_room [OF ready inv, unfolded snd_conv]
  have sp: "heapEnd (heap s) \<le> heapStart (secondaryHeap s) \<or> heapEnd (secondaryHeap s) \<le> heapStart (heap s)"
    "heapStart (secondaryHeap s) \<le> toBase s"
    using ready by (simp_all add: copy_ready_def spaces_ok_def)
  have to: "heapStart (secondaryHeap s) \<le> ?b" "?b + totalB s p \<le> heapEnd (secondaryHeap s)"
    using sp(2) room(1) room(3) [OF p] by linarith+
  have d32: "tag (typeOf s p) = STACK_TAG \<Longrightarrow> 24 \<le> dataB s p" using parts_stack(2) [OF l(1)] by simp
  have inh: "m a = mem t a" if "heapStart (heap s) \<le> a" "a < heapEnd (heap s)" "outside a 1 (p - 8) 8"
      "tag (typeOf s p) = STACK_TAG \<Longrightarrow> outside a 1 (p + 16) 8" for a
    using that sp to by (intro oth) (auto simp: outside_def totalB_def)
  have inh': "m a = mem t a" if "heapStart (heap s) \<le> a" "a < heapEnd (heap s)" "a < p - metaB s p \<or> p + dataB s p \<le> a" for a
    using that l(2,5) d32 by (intro inh) (auto simp: outside_def)
  have off: "m a = mem t a" if "a < ?b \<or> ?b + totalB s p \<le> a" "a < heapStart (heap s) \<or> heapEnd (heap s) \<le> a" for a
    using that l(2,3,5) d32 by (intro oth) (auto simp: outside_def totalB_def)
  have word: "load64 m a = load64 (mem t) a" if "a + 8 \<le> ?b \<or> ?b + totalB s p \<le> a"
      "a + 8 \<le> heapStart (heap s) \<or> heapEnd (heap s) \<le> a" for a
    using that by (intro load64_cong off) auto
  have oldslot: "load64 m a = load64 (mem t) a" if sl: "(a, b) \<in> copySlots s ps" for a b
  proof (rule word)
    show "a + 8 \<le> heapStart (heap s) \<or> heapEnd (heap s) \<le> a"
      using slot_place(1) [OF ready inv sl] by (auto simp: outside_def heapEnd_def)
    show "a + 8 \<le> ?b \<or> ?b + totalB s p \<le> a"
      using slot_place(2) [OF ready inv sl, unfolded snd_conv]
    proof
      assume "a \<in> set (rootAddrs s)"
      then show ?thesis using root_okD(2) [OF ready, of a] to by (auto simp: outside_def heapEnd_def)
    qed simp
  qed
  have sls: "copySlots s ?ps = copySlots s ps \<union> (\<lambda>k. (?q + k, p + k)) ` set (slotOffs s p)"
    by (auto simp: copySlots_def)
  have kd: "k + 8 \<le> dataB s p" if "k \<in> set (slotOffs s p)" for k by (rule copyableD(5) [OF l(1) that])
  have fresh: "?q + k \<notin> fst ` copySlots s ps" if k: "k \<in> set (slotOffs s p)" for k
  proof
    assume "?q + k \<in> fst ` copySlots s ps"
    then obtain b where b: "(?q + k, b) \<in> copySlots s ps" by force
    have "outside r 8 (heapStart (secondaryHeap s)) (heapSize (secondaryHeap s))" if "r \<in> set (rootAddrs s)" for r
      using root_okD(2) [OF ready that] by (auto simp: outside_def)
    then show False
      using slot_place(2) [OF ready inv b, unfolded snd_conv] to kd [OF k]
      by (force simp: outside_def heapEnd_def totalB_def)
  qed
  have new: "load64 m (?q + k) = load64 (mem s) (p + k)" if k: "k \<in> set (slotOffs s p)" for k
  proof -
    have "load64 m (?q + k) = load64 (srcMem s p) (p + k)"
    proof (rule load64_shift)
      fix j :: nat assume "j < 8"
      then show "m (?q + k + j) = srcMem s p (p + k + j)"
        using img [of "metaB s p + (k + j)"] kd [OF k] l(2) by (simp add: add.assoc)
    qed
    moreover have "load64 (srcMem s p) (p + k) = load64 (mem s) (p + k)"
      using stack_slot_ge [OF l(1) _ k] by (intro load64_cong srcMem_other [OF l(1)]) force
    ultimately show ?thesis by simp
  qed
  have reloc: "relocate s (copyAt ?ps) v = relocate s (copyAt ps) v"
    if "inHeap s v \<longrightarrow> unat v \<in> fst ` set ps" for v
    using that p(2) by (auto simp: relocate_def copyAt_def map_add_def map_of_eq_None_iff split: option.splits)
  show ?thesis
  proof (rule cheney_invI)
    show "same_env s (t\<lparr>mem := m\<rparr>)" using i(1) same_env_trans same_env_mem(1) by blast
    show "laid s (toBase s) ?ps (fs_back (fs\<lparr>fs_back := ?b + totalB s p\<rparr>))"
      using i(2) by (auto simp: laid_append)
    show "distinct (map fst ?ps)" using i(3) p(2) by simp
    show "fst ` set ?ps \<subseteq> live s" using i(4) p(1) by simp
    show "D \<subseteq> fst ` copySlots s ?ps" using i(5) unfolding sls by blast
    show "mem (t\<lparr>mem := m\<rparr>) a = mem s a"
      if "p' \<in> live s" "p' \<notin> fst ` set ?ps" "p' - metaB s p' \<le> a" "a < p' + dataB s p'" for p' a
    proof -
      have n: "p' \<noteq> p" "p' \<notin> fst ` set ps" using that(2) by auto
      note l' = live_okD [OF ready that(1)]
      have "m a = mem t a" using l'(2,3) l'(7) [OF p(1) n(1)] l(2) that(3,4) by (intro inh') linarith+
      then show ?thesis using i(6) [OF that(1) n(2) that(3,4)] by simp
    qed
    show "load64 (mem (t\<lparr>mem := m\<rparr>)) (p' - 8) = word_of_nat q' \<and> image_of s p' (mem (t\<lparr>mem := m\<rparr>)) q'"
      if pq: "(p', q') \<in> set ?ps" for p' q'
    proof (cases "(p', q') \<in> set ps")
      case True
      note c = copy_place [OF ready inv True]
      note l' = live_okD [OF ready c(1)]
      have n: "p' \<noteq> p" using True p(2) by force
      have "load64 m (p' - 8) = load64 (mem t) (p' - 8)"
        using l'(2,3,5) l'(7) [OF p(1) n] l(2) by (intro load64_cong inh') linarith+
      moreover have "m (q' - metaB s p' + j) = mem t (q' - metaB s p' + j)" if "j < metaB s p' + dataB s p'" for j
        using that c(3,6,7,8) sp to by (intro off) (auto simp: heapEnd_def)
      ultimately show ?thesis using i(7,8) [OF True] by (simp add: image_of_def)
    next
      case False
      then have "p' = p" "q' = ?q" using pq by auto
      then show ?thesis using hdr img by (simp add: image_of_def)
    qed
    show "mem (t\<lparr>mem := m\<rparr>) a = mem s a"
      if pq: "(p', q') \<in> set ?ps" and tg: "tag (typeOf s p') \<noteq> STACK_TAG" and a: "p' \<le> a" "a < p' + dataB s p'" for p' q' a
    proof (cases "(p', q') \<in> set ps")
      case True
      note l' = live_okD [OF ready copy_place(1) [OF ready inv True]]
      have "p' \<noteq> p" using True p(2) by force
      then have "m a = mem t a" using l'(2,3) l'(7) [OF p(1)] l(2) a by (intro inh') linarith+
      then show ?thesis using i(9) [OF True tg a] by simp
    next
      case False
      then have "p' = p" using pq by auto
      then have "m a = mem t a" using a tg l(2,3,5) by (intro inh) (auto simp: outside_def)
      then show ?thesis using i(6) [OF p, of a] a \<open>p' = p\<close> by simp
    qed
    show "load64 (mem (t\<lparr>mem := m\<rparr>)) a = relocate s (copyAt ?ps) (load64 (mem s) b) \<and>
        (inHeap s (load64 (mem s) b) \<longrightarrow> unat (load64 (mem s) b) \<in> fst ` set ?ps)"
      if sl: "(a, b) \<in> copySlots s ?ps" and a: "a \<in> D" for a b
    proof -
      have "(a, b) \<in> copySlots s ps" using sl fresh i(5) a unfolding sls by force
      then show ?thesis using oldslot reloc i(10,11) [OF _ a] by simp
    qed
    show "load64 (mem (t\<lparr>mem := m\<rparr>)) a = load64 (mem s) b" if sl: "(a, b) \<in> copySlots s ?ps" and a: "a \<notin> D" for a b
      using sl oldslot i(12) [OF _ a] new unfolding sls by auto
    show "mem (t\<lparr>mem := m\<rparr>) a = mem s a" if "outside a 1 (heapStart (heap s)) (heapSize (heap s))"
        "outside a 1 (toBase s) (fs_back (fs\<lparr>fs_back := ?b + totalB s p\<rparr>) - toBase s)"
        "\<forall>r\<in>set (rootAddrs s). outside a 1 r 8" for a
    proof -
      have "a < ?b \<or> ?b + totalB s p \<le> a" "outside a 1 (toBase s) (?b - toBase s)"
        using that(2) room(1) by (auto simp: outside_def)
      moreover have "a < heapStart (heap s) \<or> heapEnd (heap s) \<le> a"
        using that(1) by (auto simp: outside_def heapEnd_def)
      ultimately show ?thesis using off i(13) [OF that(1) _ that(3)] by simp
    qed
  qed
qed

text \<open>The state always tells whether a stack that has not been copied yet is the current one.\<close>

lemma getStackCurrent_inv:
  assumes ready: "copy_ready s" and inv: "cheney_inv s D ps (t, fs)" and p: "p \<in> live s" "p \<notin> fst ` set ps"
  shows "getStackCurrent t = p \<longleftrightarrow> getStackCurrent s = p"
proof -
  note i = cheney_invD [OF inv, unfolded fst_conv snd_conv]
  define th where "th = unat (currentThread s)"
  define k where "k = offsetofThread s + 16"
  define v where "v = load64 (mem s) (th + k)"
  have c: "currentThreadp s \<in> set (rootAddrs s)" by (simp add: rootAddrs_def)
  have th: "inHeap s (load64 (mem s) (currentThreadp s))" "tag (typeOf s th) = NORMAL_TAG" "k \<in> set (slotOffs s th)"
    using ready by (simp_all add: copy_ready_def thread_ok_def th_def k_def Let_def currentThread_def)
  have lv: "th \<in> live s" using live_root [OF c th(1)] by (simp add: th_def currentThread_def)
  note l = live_okD [OF ready lv]
  have kd: "k + 8 \<le> dataB s th" by (rule copyableD(5) [OF l(1) th(3)])
  have cur: "getStackCurrent u = unat (load64 (mem u) (unat (load64 (mem u) (currentThreadp s)) + k))"
    if "same_env s u" for u
    using that by (simp add: getStackCurrent_def getStackCurrentObjptr_def thread_stack_def getThreadCurrent_def
        getThreadCurrentObjptr_def currentThread_def same_env_def same_tables_def k_def offsetofThread_def sizeofThread_def
        add.assoc)
  have s: "getStackCurrent s = unat v"
    using cur [of s] by (simp add: v_def th_def currentThread_def)
  have rs: "(currentThreadp s, currentThreadp s) \<in> copySlots s ps" using c by (simp add: copySlots_def)
  show ?thesis
  proof (cases "currentThreadp s \<in> D")
    case False
    then have "load64 (mem t) (currentThreadp s) = currentThread s"
      using i(12) [OF rs] by (simp add: currentThread_def)
    moreover have "load64 (mem t) (th + k) = v"
      unfolding v_def
    proof (rule load64_cong)
      fix a assume a: "th + k \<le> a" "a < th + k + 8"
      show "mem t a = mem s a"
      proof (cases "th \<in> fst ` set ps")
        case True
        then obtain q where "(th, q) \<in> set ps" by force
        then show ?thesis using i(9) [of th q a] th(2) a kd by simp
      qed (use i(6) [OF lv] a kd in auto)
    qed
    ultimately show ?thesis using cur [OF i(1)] s by (simp add: th_def)
  next
    case True
    have dom: "th \<in> fst ` set ps" using i(11) [OF rs True th(1)] by (simp add: th_def currentThread_def)
    then obtain q where q: "(th, q) \<in> set ps" by force
    have "unat (word_of_nat q :: 64 word) = q"
      using copy_place(5) [OF ready inv q] by (simp add: unat_of_nat_small)
    then have t: "getStackCurrent t = unat (load64 (mem t) (q + k))"
      using cur [OF i(1)] i(10) [OF rs True] th(1) copyAt_eq [OF inv q]
      by (simp add: relocate_def th_def currentThread_def)
    have sl: "(q + k, th + k) \<in> copySlots s ps" using q th(3) by (auto simp: copySlots_def)
    show ?thesis
    proof (cases "q + k \<in> D \<and> inHeap s v")
      case True
      then have "unat v \<in> fst ` set ps" using i(11) [OF sl] by (simp add: v_def)
      then obtain q2 where q2: "(unat v, q2) \<in> set ps" by force
      note c2 = copy_place [OF ready inv q2]
      have "load64 (mem t) (q + k) = word_of_nat q2"
        using i(10) [OF sl] True copyAt_eq [OF inv q2] by (simp add: relocate_def v_def)
      then have "getStackCurrent t = q2" using t c2(5) by (simp add: unat_of_nat_small)
      moreover have "q2 \<noteq> p"
      proof -
        have "heapEnd (heap s) \<le> heapStart (secondaryHeap s) \<or> heapEnd (secondaryHeap s) \<le> heapStart (heap s)"
          using ready by (simp add: copy_ready_def spaces_ok_def)
        then show ?thesis
          using c2(7,8) live_okD(5) [OF ready c2(1)] live_okD(2,3,5) [OF ready p(1)] by linarith
      qed
      moreover have "getStackCurrent s \<noteq> p" using s q2 p(2) by force
      ultimately show ?thesis by simp
    next
      case False
      then have "load64 (mem t) (q + k) = v"
        using i(10,12) [OF sl] by (cases "q + k \<in> D") (auto simp: relocate_def v_def)
      then show ?thesis using s t by simp
    qed
  qed
qed

lemma inHeap_env: "same_env s t \<Longrightarrow> inHeap t v = inHeap s v"
  by (simp add: inHeap_def same_env_def)

lemma slot_live:
  assumes "cheney_inv s D ps st" "(a, b) \<in> copySlots s ps" "inHeap s (load64 (mem s) b)"
  shows "unat (load64 (mem s) b) \<in> live s"
  using assms(2)
proof (cases rule: copySlots_cases)
  case (copy p q k)
  then have "p \<in> live s" using cheney_invD(4) [OF assms(1)] by force
  then show ?thesis using copy live_slot assms(3) by blast
qed (use live_root assms(3) in blast)

text \<open>The visit of a slot.\<close>

lemma cheney_step:
  assumes ready: "copy_ready s" and inv: "cheney_inv s D ps st"
    and sl: "(a, b) \<in> copySlots s ps" "a \<notin> D"
  shows "\<exists>qs st'. callIfIsObjptr forwardObjptrIfInHeap st a = Inr st' \<and> cheney_inv s (insert a D) (ps @ qs) st'"
proof -
  obtain t fs where st: "st = (t, fs)" by (cases st)
  note i = cheney_invD [OF inv [unfolded st], unfolded fst_conv snd_conv]
  define v where "v = load64 (mem s) b"
  have a: "load64 (mem t) a = v" using i(12) [OF sl] by (simp add: v_def)
  have env: "heap t = heap s" "frontier t = frontier s" using i(1) by (simp_all add: same_env_def)
  note wr = cheney_write [OF ready _ _ sl(2)]
  show ?thesis
  proof (cases "inHeap s v")
    case False
    have "write64 a v t = t" using store64_load [of "mem t" a] a by (simp add: write64_def)
    then have "cheney_inv s (insert a D) ps st"
      using wr [OF inv [unfolded st] sl(1)] False by (simp add: v_def relocate_def st)
    moreover have "callIfIsObjptr forwardObjptrIfInHeap st a = Inr st"
      using False by (auto simp: callIfIsObjptr_def forwardObjptrIfInHeap_def st a env inHeap_def Let_def)
    ultimately show ?thesis by (intro exI [of _ "[]"]) auto
  next
    case True
    define p where "p = unat v"
    have lv: "p \<in> live s" using slot_live [OF inv sl(1)] True by (simp add: v_def p_def)
    note l = live_okD [OF ready lv]
    have call: "callIfIsObjptr forwardObjptrIfInHeap st a = forwardObjptr (t, fs) a"
      using True by (auto simp: callIfIsObjptr_def forwardObjptrIfInHeap_def st a env inHeap_def Let_def)
    show ?thesis
    proof (cases "p \<in> fst ` set ps")
      case True
      then obtain q where q: "(p, q) \<in> set ps" by force
      note c = copy_place [OF ready inv q]
      have h: "load64 (mem t) (p - 8) = word_of_nat q" by (rule i(7) [OF q])
      then have "hasFwdPtr t p" using even_word [OF c(4,5)] by (simp add: hasFwdPtr_def getHeader_def getHeaderp_def)
      then have "forwardObjptr (t, fs) a = Inr (write64 a (word_of_nat q) t, fs)"
        using forward_again [of t p a fs] a h by (simp add: p_def getFwdPtr_def getFwdPtrp_def getHeaderp_def)
      moreover have "cheney_inv s (insert a D) ps (write64 a (word_of_nat q) t, fs)"
        using wr [OF inv [unfolded st] sl(1)] True \<open>inHeap s v\<close> copyAt_eq [OF inv q] by (simp add: v_def relocate_def p_def)
      ultimately show ?thesis using call by (intro exI [of _ "[]"]) auto
    next
      case False
      have sp: "heapEnd (heap s) \<le> heapStart (secondaryHeap s) \<or> heapEnd (secondaryHeap s) \<le> heapStart (heap s)"
        "heapStart (secondaryHeap s) \<le> toBase s"
        using ready by (simp_all add: copy_ready_def spaces_ok_def)
      note room = cheney_room [OF ready inv, unfolded st snd_conv]
      let ?q = "fs_back fs + metaB s p" and ?fs = "fs\<lparr>fs_back := fs_back fs + totalB s p\<rparr>"
      obtain m where m: "forwardObjptr (t, fs) a = Inr (write64 a (word_of_nat ?q) (t\<lparr>mem := m\<rparr>), ?fs)"
        "\<forall>i<metaB s p + dataB s p. m (fs_back fs + i) = srcMem s p (p - metaB s p + i)"
        "load64 m (p - 8) = word_of_nat ?q"
        "\<forall>a. outside a 1 (fs_back fs) (metaB s p + dataB s p) \<and> outside a 1 (p - 8) 8
            \<and> (tag (typeOf s p) = STACK_TAG \<longrightarrow> outside a 1 (p + 16) 8) \<longrightarrow> m a = mem t a"
      proof -
        have "p + dataB s p \<le> fs_back fs \<or> fs_back fs + (metaB s p + dataB s p) \<le> p - metaB s p"
          using sp room(1) room(3) [OF lv False] l(2,3) unfolding totalB_def by linarith
        from forwardObjptr_copies [OF l(1) i(1) i(6) [OF lv False] getStackCurrent_inv [OF ready inv [unfolded st] lv False] _ this, of a]
        show ?thesis using that a by (auto simp: p_def)
      qed
      let ?ps = "ps @ [(p, ?q)]"
      have inv': "cheney_inv s D ?ps (t\<lparr>mem := m\<rparr>, ?fs)"
        using m(2-4) by (intro cheney_copy [OF ready inv [unfolded st] lv False]) auto
      have "copyAt ?ps p = ?q" by (rule copyAt_eq [OF inv']) simp
      then have v: "relocate s (copyAt ?ps) v = word_of_nat ?q" using True by (simp add: relocate_def p_def)
      have "(a, b) \<in> copySlots s ?ps" using sl(1) by (auto simp: copySlots_def)
      from wr [OF inv' this, folded v_def, unfolded v]
      have "cheney_inv s (insert a D) ?ps (write64 a (word_of_nat ?q) (t\<lparr>mem := m\<rparr>), ?fs)"
        by (simp add: p_def)
      then show ?thesis using call m(1) by (intro exI [of _ "[(p, ?q)]"]) auto
    qed
  qed
qed

section \<open>The scan\<close>

text \<open>The slots \<open>l\<close> of the roots or of copies in \<open>xs\<close> are all that is left of \<open>X\<close> to be visited.\<close>

definition toVisit ::
  "GC_state \<Rightarrow> (pointer \<times> pointer) list \<Rightarrow> pointer set \<Rightarrow> pointer list \<Rightarrow> GC_state \<times> GC_forwardState \<Rightarrow> bool" where
  "toVisit s xs X l st \<longleftrightarrow> copy_ready s \<and> distinct l \<and> X \<subseteq> fst ` copySlots s xs \<and>
     (\<exists>D ys. cheney_inv s D (xs @ ys) st \<and> D \<union> set l = X \<and> D \<inter> set l = {})"

lemma copySlots_append: "copySlots s (xs @ ys) = copySlots s xs \<union> copySlots s ys"
  by (auto simp: copySlots_def)

interpretation fwdVisit: slot_visit forwardObjptrIfInHeap "toVisit s xs X" for s xs X
proof unfold_locales
  fix a l and st :: "GC_state \<times> GC_forwardState"
  assume v: "toVisit s xs X (a # l) st"
  then obtain D ys where r: "copy_ready s" and d: "cheney_inv s D (xs @ ys) st" "D \<union> set (a # l) = X" "D \<inter> set (a # l) = {}"
    and l: "distinct (a # l)" and X: "X \<subseteq> fst ` copySlots s xs"
    unfolding toVisit_def by blast
  obtain b where b: "(a, b) \<in> copySlots s (xs @ ys)" using X d(2) by (force simp: copySlots_append)
  obtain qs st' where st': "callIfIsObjptr forwardObjptrIfInHeap st a = Inr st'"
    "cheney_inv s (insert a D) ((xs @ ys) @ qs) st'"
    using cheney_step [OF r d(1) b] d(3) by auto
  have "toVisit s xs X l st'"
    unfolding toVisit_def
  proof (intro conjI exI)
    show "cheney_inv s (insert a D) (xs @ (ys @ qs)) st'" using st'(2) by simp
  qed (use r d(2,3) l X in auto)
  then show "\<exists>st'. callIfIsObjptr forwardObjptrIfInHeap st a = Inr st' \<and> toVisit s xs X l st'"
    using st'(1) by blast
qed

lemma sorted_apart_distinct: "sorted_wrt apart l \<Longrightarrow> distinct l"
  by (induction l) (auto simp: apart_def)

text \<open>The scan of one copy visits its slots and goes on behind it.\<close>

lemma cheney_object:
  assumes ready: "copy_ready s" and inv: "cheney_inv s (fst ` copySlots s xs) (xs @ (p, q) # ys) st"
  shows "\<exists>zs st'. foreachObjptrInObject st q forwardObjptrIfInHeap w = Inr (st', q + dataB s p + skipB s p)
    \<and> cheney_inv s (fst ` copySlots s (xs @ [(p, q)])) (xs @ (p, q) # ys @ zs) st'"
proof -
  let ?ps = "xs @ (p, q) # ys" and ?l = "map ((+) q) (slotOffs s p)"
  let ?X = "fst ` copySlots s (xs @ [(p, q)])"
  have pq: "(p, q) \<in> set ?ps" by simp
  note c = copy_place [OF ready inv pq]
  note l = live_okD [OF ready c(1)]
  have one: "fst ` copySlots s [(p, q)] = set (rootAddrs s) \<union> set ?l" by (force simp: copySlots_def)
  have rts: "set (rootAddrs s) \<subseteq> fst ` copySlots s xs" by (force simp: copySlots_def)
  have X: "fst ` copySlots s xs \<union> set ?l = ?X"
    unfolding copySlots_append image_Un one using rts by blast
  have dis: "fst ` copySlots s xs \<inter> set ?l = {}"
  proof (rule ccontr)
    assume "fst ` copySlots s xs \<inter> set ?l \<noteq> {}"
    then obtain a where "a \<in> fst ` copySlots s xs" "a \<in> set ?l" by blast
    then obtain k b where ab: "(a, b) \<in> copySlots s xs" "a = q + k" "k \<in> set (slotOffs s p)" by force
    have k: "k + 8 \<le> dataB s p" by (rule copyableD(5) [OF l(1) ab(3)])
    from ab(1) show False
    proof (cases rule: copySlots_cases)
      case root
      then show False using root_okD(2) [OF ready root(1)] c(7,8) k ab(2) by (auto simp: outside_def heapEnd_def)
    next
      case (copy p' q' k')
      have p': "(p', q') \<in> set ?ps" "p \<noteq> p'" using copy(1) cheney_invD(3) [OF inv] by force+
      have "k' + 8 \<le> dataB s p'"
        by (rule copyableD(5) [OF live_okD(1) [OF ready copy_place(1) [OF ready inv p'(1)]] copy(2)])
      then show False using copies_apart [OF inv pq p'] k copy(3) ab(2) by linarith
    qed
  qed
  have "distinct (slotOffs s p)" by (rule sorted_apart_distinct [OF copyableD(6) [OF l(1)]])
  then have "distinct ?l" by (simp add: distinct_map)
  moreover have "?X \<subseteq> fst ` copySlots s ?ps" by (auto simp: copySlots_def)
  ultimately have P: "toVisit s ?ps ?X (?l @ []) st"
    unfolding toVisit_def using ready inv X dis by (intro conjI exI [of _ "fst ` copySlots s xs"] exI [of _ "[]"]) auto
  have keep: "same_tables s (fst st) \<and> image_of s p (mem (fst st)) q" if v: "toVisit s ?ps ?X l st" for l st
  proof -
    obtain D zs where i: "cheney_inv s D (?ps @ zs) st" using v unfolding toVisit_def by blast
    show ?thesis using cheney_invD(1,8) [OF i] by (simp add: same_env_def)
  qed
  have "\<exists>st'. foreachObjptrInObject st q forwardObjptrIfInHeap w = Inr (st', q + dataB s p + skipB s p)
      \<and> toVisit s ?ps ?X [] st'"
    by (rule fwdVisit.visit_object [OF l(1) P c(6)]) (rule keep)
  then obtain st' where st': "foreachObjptrInObject st q forwardObjptrIfInHeap w = Inr (st', q + dataB s p + skipB s p)"
    "toVisit s ?ps ?X [] st'"
    by blast
  from st'(2) obtain zs where "cheney_inv s ?X (?ps @ zs) st'" by (auto simp: toVisit_def)
  then show ?thesis using st'(1) by auto
qed

lemma advance_to_copy:
  assumes ready: "copy_ready s" and inv: "cheney_inv s D ps st" and pq: "(p, q) \<in> set ps"
  shows "advanceToObjectData (fst st) (q - metaB s p) = q"
proof -
  note c = copy_place [OF ready inv pq]
  note l = live_okD [OF ready c(1)]
  note img = cheney_invD(8) [OF inv pq]
  show ?thesis
  proof (cases "tag (typeOf s p) = SEQUENCE_TAG")
    case True
    then show ?thesis
      using image_sequence(2) [OF img l(1) c(6) True] parts_sequence(2) [OF l(1) True] c(6)
      by (simp add: advanceToObjectData_def)
  next
    case False
    then have m: "metaB s p = 8"
      using parts_plain(2) [OF l(1)] parts_stack(1) [OF l(1)] by (cases "tag (typeOf s p)") auto
    have "getHeader s p \<noteq> 0" using copyableD(2) [OF l(1)] by (auto simp: hasFwdPtr_def)
    then show ?thesis using image_header [OF img l(1) c(6)] m c(6) by (simp add: advanceToObjectData_def)
  qed
qed

text \<open>
  The loop: \<open>xs\<close> is scanned, \<open>ys\<close> lies before the end \<open>b\<close> that was read last. Two units of fuel for each live
  object that is not scanned are enough.
\<close>

lemma cheney_scan:
  assumes "copy_ready s" "cheney_inv s (fst ` copySlots s xs) (xs @ ys @ zs) st"
    and "laid s (toBase s) xs front" "laid s front ys b"
    and "2 * (card (live s) - length xs) + (if ys = [] then 1 else 0) < n"
  shows "\<exists>ps st' q. foreachObjptrInRangeLoop n st front b (\<lambda>st. fs_back (snd st)) forwardObjptrIfInHeap w = Inr (st', q)
    \<and> cheney_inv s (fst ` copySlots s ps) ps st'"
  using assms
proof (induction n arbitrary: xs ys zs st front b)
  case (Suc n)
  note ready = Suc.prems(1) and inv = Suc.prems(2)
  note i = cheney_invD [OF inv]
  show ?case
  proof (cases ys)
    case Nil
    then have b: "b = front" using Suc.prems(4) by simp
    obtain c where "laid s (toBase s) xs c" "laid s c zs (fs_back (snd st))"
      using i(2) Nil by (auto simp: laid_append)
    then have zs: "laid s front zs (fs_back (snd st))"
      using laid_sum Suc.prems(3) by metis
    show ?thesis
    proof (cases zs)
      case Nil
      then have "fs_back (snd st) = front" using zs by simp
      then show ?thesis using inv \<open>ys = []\<close> Nil by (auto simp: b Let_def)
    next
      case (Cons z zs')
      obtain p q where z: "z = (p, q)" by (cases z)
      have pq: "(p, q) \<in> set (xs @ ys @ zs)" using Cons z by simp
      have "front < fs_back (snd st)"
        using laid_bounds [OF zs, of p q] Cons z live_okD(5) [OF ready copy_place(1) [OF ready inv pq]] by simp
      moreover have "cheney_inv s (fst ` copySlots s xs) (xs @ zs @ []) st" using inv Nil by simp
      then have "\<exists>ps st' q. foreachObjptrInRangeLoop n st front (fs_back (snd st)) (\<lambda>st. fs_back (snd st))
          forwardObjptrIfInHeap w = Inr (st', q) \<and> cheney_inv s (fst ` copySlots s ps) ps st'"
        by (rule Suc.IH [OF ready _ Suc.prems(3) zs]) (use \<open>ys = []\<close> Cons Suc.prems(5) in simp)
      ultimately show ?thesis by (simp add: b Let_def)
    qed
  next
    case (Cons y ys')
    obtain p q where y: "y = (p, q)" by (cases y)
    have pq: "(p, q) \<in> set (xs @ ys @ zs)" using Cons y by simp
    have q: "q = front + metaB s p" and ys': "laid s (front + totalB s p) ys' b"
      using Suc.prems(4) by (auto simp: Cons y)
    have lt: "front < b" using laid_bounds [OF Suc.prems(4), of p q] live_okD(5) [OF ready copy_place(1) [OF ready inv pq]]
      by (simp add: Cons y)
    have adv: "advanceToObjectData (fst st) front = q" using advance_to_copy [OF ready inv pq] q by simp
    have "cheney_inv s (fst ` copySlots s xs) (xs @ (p, q) # (ys' @ zs)) st" using inv by (simp add: Cons y)
    from cheney_object [OF ready this] obtain zs' st1 where
      r: "foreachObjptrInObject st q forwardObjptrIfInHeap w = Inr (st1, q + dataB s p + skipB s p)"
      "cheney_inv s (fst ` copySlots s (xs @ [(p, q)])) (xs @ (p, q) # (ys' @ zs) @ zs') st1"
      by blast
    then have st1: "cheney_inv s (fst ` copySlots s (xs @ [(p, q)])) ((xs @ [(p, q)]) @ ys' @ (zs @ zs')) st1" by simp
    have e: "q + dataB s p + skipB s p = front + totalB s p" by (simp add: q totalB_def)
    have xs': "laid s (toBase s) (xs @ [(p, q)]) (front + totalB s p)"
      using Suc.prems(3) q by (auto simp: laid_append)
    have "length (xs @ [(p, q)]) \<le> card (live s)"
    proof -
      have "distinct (map fst (xs @ [(p, q)]))" "fst ` set (xs @ [(p, q)]) \<subseteq> live s"
        using i(3,4) by (auto simp: Cons y)
      moreover have "finite (live s)" using ready by (simp add: copy_ready_def live_ok_def)
      ultimately show ?thesis by (metis card_mono distinct_card length_map list.set_map)
    qed
    then have "2 * (card (live s) - length (xs @ [(p, q)])) + (if ys' = [] then 1 else 0) < n"
      using Suc.prems(5) Cons by auto
    from Suc.IH [OF ready st1 xs' ys' this] show ?thesis
      using lt adv r(1) e by simp
  qed
qed simp

section \<open>The whole collection\<close>

lemma copySlots_Nil: "fst ` copySlots s [] = set (rootAddrs s)"
  by (force simp: copySlots_def)

lemma cheney_start:
  assumes "same_env s t" "mem t = mem s" "fs_back fs = toBase s"
  shows "cheney_inv s {} [] (t, fs)"
  by (rule cheney_invI) (use assms in \<open>auto simp: copySlots_def\<close>)

lemma toVisit_env: "toVisit s xs X l st \<Longrightarrow> same_env s (fst st)"
  unfolding toVisit_def using cheney_invD(1) by blast

lemma range_empty: "back st \<le> front \<Longrightarrow> foreachObjptrInRange n st front back f w = Inr (st, front)"
  by (simp add: foreachObjptrInRange_def Let_def)

lemma cheney_roots:
  assumes ready: "copy_ready s" and inv: "cheney_inv s {} [] st"
  shows "\<exists>ps st'. foreachGlobalObjptr st forwardObjptrIfInHeap = Inr st'
    \<and> cheney_inv s (fst ` copySlots s []) ps st'"
proof -
  let ?P = "toVisit s [] (set (rootAddrs s))" and ?f = forwardObjptrIfInHeap
  let ?g = "map (\<lambda>i. globals s + i * 8) [0..<globalsLength s]"
  have ro: "sorted_wrt apart (rootAddrs s)"
    "staticStart (rootHeap (staticHeaps s)) + staticSize (rootHeap (staticHeaps s))
       \<le> alignFrontier s (staticStart (rootHeap (staticHeaps s)))" "regionTop s \<le> alignFrontier s (regionBuffer s)"
    using ready by (simp_all add: copy_ready_def roots_ok_def)
  have al: "alignFrontier t a = alignFrontier s a" if "same_env s t" for t a
    using that by (simp add: alignFrontier_def alignWithExtra_def same_env_def same_tables_def)
  have "?P (rootAddrs s) st"
    unfolding toVisit_def copySlots_Nil using ready inv sorted_apart_distinct [OF ro(1)]
    by (intro conjI exI [of _ "{}"] exI [of _ "[]"]) auto
  then have P: "?P (?g @ [callFromCHandlerThreadp s, currentThreadp s, savedThreadp s, signalHandlerThreadp s]) st"
    by (simp only: rootAddrs_def)
  obtain st1 where st1: "foldE (callIfIsObjptr ?f) ?g st = Inr st1"
    "?P [callFromCHandlerThreadp s, currentThreadp s, savedThreadp s, signalHandlerThreadp s] st1"
    using fwdVisit.visit_all [OF P] by blast
  note e1 = toVisit_env [OF st1(2)]
  have "foreachObjptrInStaticHeap st1 (rootHeap (staticHeaps (fst st1))) ?f True = Inr st1"
    using ro(2) e1 al [OF e1]
    by (simp add: foreachObjptrInStaticHeap_def Let_def range_empty same_env_def)
  moreover have "foreachObjptrInRegionBuffer st1 ?f True = Inr st1"
    using ro(3) e1 al [OF e1] by (simp add: foreachObjptrInRegionBuffer_def Let_def range_empty same_env_def)
  moreover obtain st2 where st2: "callIfIsObjptr ?f st1 (callFromCHandlerThreadp s) = Inr st2"
    "?P [currentThreadp s, savedThreadp s, signalHandlerThreadp s] st2"
    using fwdVisit.visit [OF st1(2)] by blast
  moreover obtain st3 where st3: "callIfIsObjptr ?f st2 (currentThreadp s) = Inr st3"
    "?P [savedThreadp s, signalHandlerThreadp s] st3"
    using fwdVisit.visit [OF st2(2)] by blast
  moreover obtain st4 where st4: "callIfIsObjptr ?f st3 (savedThreadp s) = Inr st4" "?P [signalHandlerThreadp s] st4"
    using fwdVisit.visit [OF st3(2)] by blast
  moreover obtain st5 where st5: "callIfIsObjptr ?f st4 (signalHandlerThreadp s) = Inr st5" "?P [] st5"
    using fwdVisit.visit [OF st4(2)] by blast
  moreover have "globals (fst st) = globals s" "globalsLength (fst st) = globalsLength s"
    using cheney_invD(1) [OF inv] by (simp_all add: same_env_def)
  ultimately have "foreachGlobalObjptr st ?f = Inr st5"
    using st1(1) e1 toVisit_env [OF st2(2)] toVisit_env [OF st3(2)] toVisit_env [OF st4(2)]
    by (simp add: foreachGlobalObjptr_def same_env_def)
  moreover obtain ys where "cheney_inv s (set (rootAddrs s)) ys st5" using st5(2) by (auto simp: toVisit_def)
  ultimately show ?thesis unfolding copySlots_Nil by blast
qed

text \<open>When every slot has been visited, exactly the live objects are copied.\<close>

lemma cheney_complete:
  assumes inv: "cheney_inv s (fst ` copySlots s ps) ps st"
  shows "fst ` set ps = live s"
proof
  show "fst ` set ps \<subseteq> live s" by (rule cheney_invD(4) [OF inv])
  have closed: "unat (load64 (mem s) b) \<in> fst ` set ps" if "(a, b) \<in> copySlots s ps" "inHeap s (load64 (mem s) b)" for a b
    using cheney_invD(11) [OF inv that(1) _ that(2)] that(1) by force
  show "live s \<subseteq> fst ` set ps"
  proof
    fix p assume "p \<in> live s"
    then show "p \<in> fst ` set ps"
    proof (induction rule: live.induct)
      case (live_root a)
      then show ?case using closed [of a a] by (auto simp: copySlots_def)
    next
      case (live_slot p k)
      then obtain q where "(p, q) \<in> set ps" by force
      then have "(q + k, p + k) \<in> copySlots s ps" using live_slot.hyps(2) by (auto simp: copySlots_def)
      then show ?case using closed live_slot.hyps(3) by blast
    qed
  qed
qed

lemma setCardMapAndCrossMap_mem:
  assumes "outside a 1 (heapEnd (heap u)) (sizeofCardMap u (heapSize (heap u)) + sizeofCrossMap u (heapSize (heap u)))"
  shows "mem (setCardMapAndCrossMap u) a = mem u a"
proof (cases "mutatorMarksCards u")
  case True
  have sz: "sizeofCardMap (u\<lparr>generationalMaps := g\<rparr>) n = sizeofCardMap u n"
    "sizeofCrossMap (u\<lparr>generationalMaps := g\<rparr>) n = sizeofCrossMap u n" for g n
    by (simp_all add: sizeofCardMap_def sizeofCrossMap_def)
  show ?thesis
    using assms True
    by (auto simp: setCardMapAndCrossMap_def Let_def maps_upd_def setCardMapAbsolute_def clearCardMapAndCrossMap_def
        clearCardMap_def clearCrossMap_def fill_block_def lenofCardMap_def lenofCrossMap_def sz outside_def heapEnd_def)
qed (simp add: setCardMapAndCrossMap_def maps_upd_def)

lemma stopDetailed_mem: "mem (stopDetailed os ru acc upd s) = mem s"
  by (auto simp: stopDetailed_def stopTiming_def Let_def cumul_upd_def)

lemma majorCheneyCopyDone_mem:
  assumes "outside a 1 (heapEnd (secondaryHeap u)) (mapBytes u)"
  shows "mem (majorCheneyCopyDone os ru fs u) a = mem u a"
proof -
  define h where "h = secondaryHeap u\<lparr>oldGenSize := fs_back fs - heapStart (secondaryHeap u)\<rparr>"
  define c where "c = (cumulativeStatistics u)\<lparr>bytesCopied := bytesCopied (cumulativeStatistics u) + oldGenSize h\<rparr>"
  let ?u = "u\<lparr>cumulativeStatistics := c, secondaryHeap := heap u, heap := h\<rparr>"
  have "mem (majorCheneyCopyDone os ru fs u) a = mem (setCardMapAndCrossMap ?u) a"
    by (simp add: majorCheneyCopyDone_def Let_def stopDetailed_mem lastMajor_upd_def swapHeapsForCheneyCopy_def
        secondaryHeap_upd_def cumul_upd_def h_def c_def)
  also have "\<dots> = mem u a"
    by (subst setCardMapAndCrossMap_mem)
      (use assms in \<open>simp_all add: h_def heapEnd_def mapBytes_def sizeofCardMap_def sizeofCrossMap_def split: if_splits\<close>)
  finally show ?thesis .
qed

text \<open>The copy of \<open>p\<close> at \<open>\<phi> p\<close>: pointers lead to copies, everything else is as it was.\<close>

definition copy_of :: "GC_state \<Rightarrow> mem \<Rightarrow> (pointer \<Rightarrow> pointer) \<Rightarrow> pointer \<Rightarrow> bool" where
  "copy_of s m \<phi> p \<longleftrightarrow> image_of s p m (\<phi> p) \<and>
     (\<forall>k\<in>set (slotOffs s p). load64 m (\<phi> p + k) = relocate s \<phi> (load64 (mem s) (p + k)))"

text \<open>The copies of all live objects: they fill the other heap from its start and do not overlap.\<close>

definition copied_to :: "GC_state \<Rightarrow> GC_state \<Rightarrow> (pointer \<Rightarrow> pointer) \<Rightarrow> bool" where
  "copied_to s t \<phi> \<longleftrightarrow>
     (\<forall>p\<in>live s. copy_of s (mem t) \<phi> p \<and> toBase s + metaB s p \<le> \<phi> p \<and>
        \<phi> p + dataB s p + skipB s p \<le> heapStart (heap t) + oldGenSize (heap t)) \<and>
     (\<forall>p\<in>live s. \<forall>q\<in>live s. p \<noteq> q \<longrightarrow>
        \<phi> p + dataB s p + metaB s q \<le> \<phi> q \<or> \<phi> q + dataB s q + metaB s p \<le> \<phi> p) \<and>
     (\<forall>a\<in>set (rootAddrs s). load64 (mem t) a = relocate s \<phi> (load64 (mem s) a)) \<and>
     heapStart (heap t) + oldGenSize (heap t) = toBase s + (\<Sum>p\<in>live s. totalB s p)"

lemma cheney_run:
  assumes ready: "copy_ready s"
  shows "\<exists>ps u fs ru. majorCheneyCopyGC os s = Inr (majorCheneyCopyDone os ru fs (u\<lparr>weaks := 0\<rparr>))
    \<and> cheney_inv s (fst ` copySlots s ps) ps (u, fs)"
proof -
  obtain s0 ru where s0: "startDetailed os s = (s0, ru)" by (cases "startDetailed os s")
  define s1 where "s1 = cumul_upd (\<lambda>c. c\<lparr>numCopyingGCs := numCopyingGCs c + 1\<rparr>) s0"
  define fs where "fs = \<lparr>amInMinorGC = False, fs_back = toBase s, toStart = heapStart (secondaryHeap s),
                          toLimit = heapStart (secondaryHeap s) + heapSize (secondaryHeap s)\<rparr>"
  have e: "same_env s s1" "mem s1 = mem s"
    using s0 by (auto simp: s1_def cumul_upd_def startDetailed_def startTiming_def same_env_def same_tables_def
        split: if_splits)
  have base: "alignFrontier s1 (heapStart (secondaryHeap s)) = toBase s"
    using e(1) by (simp add: toBase_def alignFrontier_def alignWithExtra_def same_env_def same_tables_def)
  have sec: "secondaryHeap s1 = secondaryHeap s" using e(1) by (simp add: same_env_def)
  let ?f = forwardObjptrIfInHeap and ?n = "heapSize (secondaryHeap s) + 2"
  have start: "cheney_inv s {} [] (s1, fs)" by (rule cheney_start [OF e]) (simp add: fs_def)
  from cheney_roots [OF ready start] obtain ps st where
    g: "foreachGlobalObjptr (s1, fs) ?f = Inr st" "cheney_inv s (fst ` copySlots s []) ps st" by blast
  have "8 * card (live s) \<le> (\<Sum>p\<in>live s. totalB s p)"
    using sum_bounded_below [of "live s" 8 "totalB s"] live_okD(5) [OF ready]
    by (force simp: totalB_def mult.commute)
  moreover have "heapStart (secondaryHeap s) \<le> toBase s" "toBase s + (\<Sum>p\<in>live s. totalB s p) \<le> heapEnd (secondaryHeap s)"
    using ready by (simp_all add: copy_ready_def spaces_ok_def)
  ultimately have fuel: "2 * card (live s) < ?n" unfolding heapEnd_def by linarith
  obtain qs u fs' q where r: "foreachObjptrInRange ?n st (toBase s) (\<lambda>st. fs_back (snd st)) ?f True = Inr ((u, fs'), q)"
    and inv: "cheney_inv s (fst ` copySlots s qs) qs (u, fs')"
  proof (cases "toBase s < fs_back (snd st)")
    case True
    have l: "laid s (toBase s) ps (fs_back (snd st))" by (rule cheney_invD(2) [OF g(2)])
    then have "ps \<noteq> []" using True by auto
    then show ?thesis
      using cheney_scan [OF ready, of "[]" ps "[]" st "toBase s" "fs_back (snd st)" ?n True] g(2) l fuel True that
      by (auto simp: foreachObjptrInRange_def Let_def)
  next
    case False
    have "laid s (toBase s) ps (fs_back (snd st))" by (rule cheney_invD(2) [OF g(2)])
    then have "ps = []"
      using False live_okD(5) [OF ready] cheney_invD(4) [OF g(2)] laid_sum [of s "toBase s" ps "fs_back (snd st)"]
      by (cases ps) (force simp: totalB_def)+
    then show ?thesis
      using that [of "fst st" "snd st" "toBase s" "[]"] False g(2) range_empty [of "\<lambda>st. fs_back (snd st)" st "toBase s"] by auto
  qed
  have "weaks u = 0"
    using cheney_invD(1) [OF inv] ready by (simp add: same_env_def copy_ready_def roots_ok_def)
  then have "updateWeaksForCheneyCopy ?n u = Inr (u\<lparr>weaks := 0\<rparr>)"
    by (simp add: updateWeaksForCheneyCopy_def numeral_2_eq_2)
  then have "majorCheneyCopyGC os s = Inr (majorCheneyCopyDone os ru fs' (u\<lparr>weaks := 0\<rparr>))"
    unfolding majorCheneyCopyGC_def Let_def s0 prod.case s1_def [symmetric] sec base
    using g(1) r by (simp add: fs_def)
  then show ?thesis using inv by blast
qed

text \<open>
  C2: A major copying collection, from any state with room for the live objects, ends, and leaves a copy of the
  graph of the live objects: there is a map from the live objects to their copies, which do not overlap and
  fill the other heap from its start; a copy has the bytes of its object (of a stack those after it was shrunk),
  with every object pointer into the old heap replaced by that to the copy, in objects, in the frames of stacks, and in the roots;
  exactly the live objects are copied, however they are shared; and no byte outside of
  the two heaps and the roots is changed.
\<close>

theorem majorCheneyCopyGC_copies:
  assumes ready: "copy_ready s"
  shows "\<exists>t \<phi>. majorCheneyCopyGC os s = Inr t \<and> copied_to s t \<phi>
    \<and> (\<forall>a. outside a 1 (heapStart (heap s)) (heapSize (heap s))
          \<and> outside a 1 (heapStart (secondaryHeap s)) (heapSize (secondaryHeap s) + mapBytes s)
          \<and> (\<forall>r\<in>set (rootAddrs s). outside a 1 r 8) \<longrightarrow> mem t a = mem s a)"
proof -
  obtain ps u fs ru where run: "majorCheneyCopyGC os s = Inr (majorCheneyCopyDone os ru fs (u\<lparr>weaks := 0\<rparr>))"
    and inv: "cheney_inv s (fst ` copySlots s ps) ps (u, fs)"
    using cheney_run [OF ready] by blast
  let ?t = "majorCheneyCopyDone os ru fs (u\<lparr>weaks := 0\<rparr>)" and ?\<phi> = "copyAt ps"
  note i = cheney_invD [OF inv, unfolded fst_conv snd_conv] and room = cheney_room [OF ready inv, unfolded snd_conv]
  have env: "secondaryHeap u = secondaryHeap s" "mapBytes (u\<lparr>weaks := 0\<rparr>) = mapBytes s"
    using i(1) by (simp_all add: same_env_def mapBytes_def sizeofCardMap_def sizeofCrossMap_def)
  have base: "heapStart (secondaryHeap s) \<le> toBase s" using ready by (simp add: copy_ready_def spaces_ok_def)
  have fin: "heapStart (heap ?t) + oldGenSize (heap ?t) = fs_back fs"
    using room(1) base by (simp add: majorCheneyCopyDone_fields env(1))
  have keep: "mem ?t a = mem u a" if "outside a 1 (heapEnd (secondaryHeap s)) (mapBytes s)" for a
    using majorCheneyCopyDone_mem [of a "u\<lparr>weaks := 0\<rparr>"] that env by simp
  have to: "mem ?t a = mem u a" if "toBase s \<le> a" "a < fs_back fs" for a
    using that room(2) by (intro keep) (simp add: outside_def)
  have slot: "load64 (mem ?t) a = relocate s ?\<phi> (load64 (mem s) b)" if sl: "(a, b) \<in> copySlots s ps" for a b
  proof -
    have "load64 (mem ?t) a = load64 (mem u) a"
      using slot_place(2) [OF ready inv sl]
    proof
      assume "a \<in> set (rootAddrs s)"
      then show ?thesis
        using root_okD(2) [OF ready, of a] by (intro load64_cong keep) (auto simp: outside_def heapEnd_def)
    next
      assume "toBase s \<le> a \<and> a + 8 \<le> fs_back (snd (u, fs))"
      then show ?thesis by (intro load64_cong to) auto
    qed
    then show ?thesis using i(10) [OF sl] sl by force
  qed
  have copies: "fst ` set ps = live s" by (rule cheney_complete [OF inv])
  have pair: "(p, ?\<phi> p) \<in> set ps" if "p \<in> live s" for p
    using that copies copyAt_eq [OF inv] by (metis (no_types, lifting) imageE prod.collapse)
  have "copy_of s (mem ?t) ?\<phi> p" if p: "p \<in> live s" for p
    unfolding copy_of_def
  proof
    note c = copy_place [OF ready inv pair [OF p], unfolded snd_conv]
    show "image_of s p (mem ?t) (?\<phi> p)"
      using i(8) [OF pair [OF p]] c(2,3) by (auto simp: image_of_def to)
    show "\<forall>k\<in>set (slotOffs s p). load64 (mem ?t) (?\<phi> p + k) = relocate s ?\<phi> (load64 (mem s) (p + k))"
    proof
      fix k assume "k \<in> set (slotOffs s p)"
      then have "(?\<phi> p + k, p + k) \<in> copySlots s ps" using pair [OF p] unfolding copySlots_def by blast
      then show "load64 (mem ?t) (?\<phi> p + k) = relocate s ?\<phi> (load64 (mem s) (p + k))" by (rule slot)
    qed
  qed
  moreover have "toBase s + metaB s p \<le> ?\<phi> p \<and> ?\<phi> p + dataB s p + skipB s p \<le> fs_back fs" if "p \<in> live s" for p
    using copy_place(2,3) [OF ready inv pair [OF that]] by simp
  moreover have "?\<phi> p + dataB s p + metaB s q \<le> ?\<phi> q \<or> ?\<phi> q + dataB s q + metaB s p \<le> ?\<phi> p"
    if "p \<in> live s" "q \<in> live s" "p \<noteq> q" for p q
    using copies_apart [OF inv pair [OF that(1)] pair [OF that(2)] that(3)] .
  moreover have "load64 (mem ?t) a = relocate s ?\<phi> (load64 (mem s) a)" if "a \<in> set (rootAddrs s)" for a
    using slot [of a a] that by (simp add: copySlots_def)
  moreover have "fs_back fs = toBase s + (\<Sum>p\<in>live s. totalB s p)"
    using laid_sum [OF i(2)] sum_list_distinct_conv_sum_set [OF i(3), of "totalB s"] copies by (simp add: comp_def)
  ultimately have "copied_to s ?t ?\<phi>" unfolding copied_to_def fin by simp
  moreover have "mem ?t a = mem s a" if "outside a 1 (heapStart (heap s)) (heapSize (heap s))"
      "outside a 1 (heapStart (secondaryHeap s)) (heapSize (secondaryHeap s) + mapBytes s)"
      "\<forall>r\<in>set (rootAddrs s). outside a 1 r 8" for a
  proof -
    have "mem ?t a = mem u a" using that(2) by (intro keep) (auto simp: outside_def heapEnd_def)
    also have "\<dots> = mem s a"
      using that(2) base room(1,2) by (intro i(13) that(1,3)) (auto simp: outside_def heapEnd_def)
    finally show ?thesis .
  qed
  ultimately show ?thesis using run by blast
qed

text \<open>
  A heap at 4096 with a cell at 4104 that points to itself and to the current thread at 4136, whose
  stack at 4168, of 64 reserved bytes, has one frame with a pointer to the cell. A global holds the cell.
\<close>

definition cheney_example :: GC_state where
  "cheney_example = state0\<lparr>alignment := 8, maxFrameSize := 16,
     objectTypes := [\<lparr>tag = NORMAL_TAG, hasIdentity = True, bytesNonObjptrs = 8, numObjptrs = 2\<rparr>,
                     \<lparr>tag = NORMAL_TAG, hasIdentity = True, bytesNonObjptrs = 16, numObjptrs = 1\<rparr>,
                     \<lparr>tag = STACK_TAG, hasIdentity = False, bytesNonObjptrs = 0, numObjptrs = 0\<rparr>],
     frameInfos := [\<lparr>frame_kind = CONT_FRAME, offsets = [0], frame_size = 16, sourceSeqIndex = 0\<rparr>],
     heap := GC_heap0\<lparr>heapStart := 4096, heapSize := 4096\<rparr>,
     secondaryHeap := GC_heap0\<lparr>heapStart := 65536, heapSize := 4096\<rparr>, frontier := 8192,
     globals := 1024, globalsLength := 1, callFromCHandlerThreadp := 2048, currentThreadp := 2056,
     savedThreadp := 2064, signalHandlerThreadp := 2072,
     mem := store64 (store64 (store64 (store64 (store64 (store64 (store64 (store64 (store64 (store64 (store64
       (store64 (store64 (store64 (store64 (\<lambda>_. 0) 1024 4104) 2048 1) 2056 4136) 2064 1) 2072 1)
       4096 1) 4104 42) 4112 4104) 4120 4136) 4128 3) 4152 4168) 4160 5) 4184 64) 4192 16) 4200 4104\<rparr>"

lemma cheney_example_loads [simp]:
  "load64 (mem cheney_example) 1024 = 4104" "load64 (mem cheney_example) 2048 = 1"
  "load64 (mem cheney_example) 2056 = 4136" "load64 (mem cheney_example) 2064 = 1"
  "load64 (mem cheney_example) 2072 = 1" "load64 (mem cheney_example) 4096 = 1"
  "load64 (mem cheney_example) 4104 = 42" "load64 (mem cheney_example) 4112 = 4104"
  "load64 (mem cheney_example) 4120 = 4136" "load64 (mem cheney_example) 4128 = 3"
  "load64 (mem cheney_example) 4152 = 4168" "load64 (mem cheney_example) 4160 = 5"
  "load64 (mem cheney_example) 4184 = 64" "load64 (mem cheney_example) 4192 = 16"
  "load64 (mem cheney_example) 4200 = 4104"
  by (simp_all add: cheney_example_def mem_simps)

lemma cheney_example_fields [simp]:
  "alignment cheney_example = 8" "maxFrameSize cheney_example = 16" "heapStart (heap cheney_example) = 4096"
  "heapSize (heap cheney_example) = 4096" "heapStart (secondaryHeap cheney_example) = 65536"
  "heapSize (secondaryHeap cheney_example) = 4096" "frontier cheney_example = 8192"
  "currentThreadp cheney_example = 2056" "weaks cheney_example = 0" "mutatorMarksCards cheney_example = False"
  "staticStart (rootHeap (staticHeaps cheney_example)) = 0" "staticSize (rootHeap (staticHeaps cheney_example)) = 0"
  "regionTop cheney_example = 0" "frameInfos cheney_example =
     [\<lparr>frame_kind = CONT_FRAME, offsets = [0], frame_size = 16, sourceSeqIndex = 0\<rparr>]"
  "getFrameIndexFromReturnAddress cheney_example ra = 0" "ratios (controls cheney_example) = GC_ratios0"
  "rootAddrs cheney_example = [1024, 2048, 2056, 2064, 2072]"
  by (simp_all add: cheney_example_def zero_defs getFrameIndexFromReturnAddress_def rootAddrs_def)

lemma cheney_example_types:
  "splitHeader cheney_example (getHeader cheney_example p) = Inr (typeOf cheney_example p)"
    if "p \<in> {4104, 4136, 4168}" for p
  using that by (auto simp: cheney_example_def splitHeader_def typeOf_def getHeader_def getHeaderp_def
      typeIndexOfHeader_def mem_simps)

lemma cheney_example_typeOf [simp]:
  "typeOf cheney_example 4104 = \<lparr>tag = NORMAL_TAG, hasIdentity = True, bytesNonObjptrs = 8, numObjptrs = 2\<rparr>"
  "typeOf cheney_example 4136 = \<lparr>tag = NORMAL_TAG, hasIdentity = True, bytesNonObjptrs = 16, numObjptrs = 1\<rparr>"
  "typeOf cheney_example 4168 = \<lparr>tag = STACK_TAG, hasIdentity = False, bytesNonObjptrs = 0, numObjptrs = 0\<rparr>"
  by (simp_all add: typeOf_def getHeader_def getHeaderp_def typeIndexOfHeader_def)
    (simp_all add: cheney_example_def)

lemma cheney_example_stack [simp]:
  "stack_used cheney_example 4168 = 16" "stack_reserved cheney_example 4168 = 64"
  by (simp_all add: stack_used_def stack_reserved_def)

lemma cheney_example_frames: "frames cheney_example 4200 [0] 4216"
  using frames.frames_Cons [OF frames.frames_Nil, of 0 cheney_example 4200] by simp

lemma cheney_example_slots [simp]:
  "slotOffs cheney_example 4104 = [8, 16]" "slotOffs cheney_example 4136 = [16]" "slotOffs cheney_example 4168 = [32]"
  "stackReturns cheney_example 4168 = [40]"
  using frames_indices [OF cheney_example_frames]
  by (simp_all add: slotOffs_def stackReturns_def getStackBottom_def getStackTop_def upt_rec)

lemma cheney_example_current:
  "offsetofThread cheney_example = 0" "getStackCurrent cheney_example = 4168"
proof -
  have al: "alignment_ok cheney_example" by (simp add: alignment_ok_def is_power2_numeral isAligned_def)
  show "offsetofThread cheney_example = 0" by (rule sizeofThread_eq(2) [OF al])
  then show "getStackCurrent cheney_example = 4168"
    by (simp add: getStackCurrent_def getStackCurrentObjptr_def getThreadCurrent_def
        getThreadCurrentObjptr_def thread_stack_def currentThread_def)
qed

text \<open>With all ratios 0 the stack shrinks to what it needs: the used bytes and the slop.\<close>

lemma cheney_example_shrink: "sizeofStackShrinkReserved cheney_example 4168 True = Inr 32"
proof -
  have al: "align 72 8 = 72" by (simp add: align_eq_div is_power2_numeral)
  have al': "alignStackReserved cheney_example 32 = 32"
    by (simp add: alignStackReserved_def alignWithExtra_def al wrap_sub_eq)
  have "getStackTopFrameSize cheney_example 4168 = Inr 16"
    by (simp add: getStackTopFrameSize_def getStackTopFrameInfo_def getStackTopFrameIndex_def
        getFrameInfoFromFrameIndex_def)
  then have m: "sizeofStackMinimumReserved cheney_example 4168 = Inr 32"
    by (simp add: sizeofStackMinimumReserved_def sizeofStackSlop_def al' wrap_sub_eq)
  have "0 \<le> dbl_of_size 4611686018427387903"
    unfolding dbl_of_size_def by (intro rnd_nonneg of_nat_0_le_iff)
  then have "\<not> dbl_of_size 4611686018427387903 < 0" by (rule leD)
  then have "clampReserved 0 = size_of_dbl 0"
    unfolding clampReserved_def by (rule if_not_P)
  then have c: "clampReserved 0 = 0" by (simp add: size_of_dbl_def)
  have z: "size_of_dbl 0 = 0" by (simp add: size_of_dbl_def)
  show ?thesis
    by (simp add: sizeofStackShrinkReserved_def Let_def m c z GC_ratios0_def al')
qed

lemma cheney_example_plan:
  "forwardSizes cheney_example 4104 (typeOf cheney_example 4104) = Inr (cheney_example, 8, 24, 0)"
  "forwardSizes cheney_example 4136 (typeOf cheney_example 4136) = Inr (cheney_example, 8, 24, 0)"
  "forwardSizes cheney_example 4168 (typeOf cheney_example 4168) =
     Inr (set_stack_reserved 4168 32 cheney_example, 8, 48, 16)"
proof -
  have "stack_reserved (set_stack_reserved 4168 32 cheney_example) 4168 = 32"
    by (simp add: stack_reserved_def set_stack_reserved_def)
  then show "forwardSizes cheney_example 4168 (typeOf cheney_example 4168) =
      Inr (set_stack_reserved 4168 32 cheney_example, 8, 48, 16)"
    by (simp add: forwardSizes_def Let_def cheney_example_current cheney_example_shrink set_stack_reserved_used
        wrap_def wrap_sub_def)
qed (simp_all add: forwardSizes_def)

lemma cheney_example_parts [simp]:
  "metaB cheney_example 4104 = 8" "dataB cheney_example 4104 = 24" "totalB cheney_example 4104 = 32"
  "metaB cheney_example 4136 = 8" "dataB cheney_example 4136 = 24" "totalB cheney_example 4136 = 32"
  "metaB cheney_example 4168 = 8" "dataB cheney_example 4168 = 48" "totalB cheney_example 4168 = 72"
  by (simp_all add: metaB_def dataB_def skipB_def totalB_def plan_def cheney_example_plan
      del: cheney_example_typeOf)

lemma cheney_example_copyable: "p \<in> {4104, 4136, 4168} \<Longrightarrow> copyable cheney_example p"
proof -
  assume p: "p \<in> {4104, 4136, 4168}"
  have src: "load64 (srcMem cheney_example 4168) 4184 = 32"
    by (simp add: srcMem_def plan_def cheney_example_plan set_stack_reserved_def del: cheney_example_typeOf)
  have fr: "\<exists>is. frames cheney_example (getStackBottom cheney_example 4168) is (getStackTop cheney_example 4168)"
    using cheney_example_frames by (auto simp: getStackBottom_def getStackTop_def)
  have h: "\<not> hasFwdPtr cheney_example p"
    using p by (auto simp: hasFwdPtr_def getHeader_def getHeaderp_def)
  have f: "\<exists>x. forwardSizes cheney_example p (typeOf cheney_example p) = Inr x" using p cheney_example_plan by auto
  show ?thesis
    unfolding copyable_def Let_def using p cheney_example_types [OF p] h f src fr
    by (auto simp: apart_def)
qed

lemma cheney_example_live: "live cheney_example \<subseteq> {4104, 4136, 4168}"
proof
  fix p assume "p \<in> live cheney_example"
  then show "p \<in> {4104, 4136, 4168}"
    by (induction rule: live.induct) (auto simp: inHeap_def isObjptr_iff)
qed

lemma cheney_example_ready: "copy_ready cheney_example"
proof -
  have fin: "finite (live cheney_example)" by (rule finite_subset [OF cheney_example_live]) simp
  have "(\<Sum>p\<in>live cheney_example. totalB cheney_example p) \<le> (\<Sum>p\<in>{4104, 4136, 4168}. totalB cheney_example p)"
    by (rule sum_mono2 [OF _ cheney_example_live]) simp_all
  then have sum: "(\<Sum>p\<in>live cheney_example. totalB cheney_example p) \<le> 136" by simp
  have al: "align 65544 8 = 65544" by (simp add: align_eq_div is_power2_numeral)
  have base: "toBase cheney_example = 65536" by (simp add: toBase_def alignFrontier_def alignWithExtra_def al wrap_def wrap_sub_def)
  have "live_ok cheney_example"
    unfolding live_ok_def heapEnd_def
    using fin cheney_example_live cheney_example_copyable by (auto dest!: subsetD [OF cheney_example_live])
  moreover have "roots_ok cheney_example"
    by (simp add: roots_ok_def mapBytes_def sizeofCardMap_def sizeofCrossMap_def outside_def apart_def)
  moreover have "spaces_ok cheney_example"
    using sum by (simp add: spaces_ok_def base heapEnd_def)
  moreover have "thread_ok cheney_example"
    by (simp add: thread_ok_def currentThread_def inHeap_def isObjptr_iff cheney_example_current)
  ultimately show ?thesis by (simp add: copy_ready_def)
qed

theorem majorCheneyCopyGC_copies_witness:
  "\<forall>os. \<exists>t q. majorCheneyCopyGC os cheney_example = Inr t \<and> load64 (mem t) 1024 = word_of_nat q
     \<and> load64 (mem t) (q + 8) = word_of_nat q \<and> load64 (mem t) q = 42"
proof
  fix os
  obtain t \<phi> where t: "majorCheneyCopyGC os cheney_example = Inr t" "copied_to cheney_example t \<phi>"
    using majorCheneyCopyGC_copies [OF cheney_example_ready] by blast
  have lv: "4104 \<in> live cheney_example"
    using live_root [of 1024 cheney_example] by (simp add: inHeap_def isObjptr_iff)
  then have c: "copy_of cheney_example (mem t) \<phi> 4104" "8 \<le> \<phi> 4104"
    using t(2) by (auto simp: copied_to_def)
  have "load64 (mem t) 1024 = word_of_nat (\<phi> 4104)"
    using t(2) by (simp add: copied_to_def relocate_def inHeap_def isObjptr_iff)
  moreover have "load64 (mem t) (\<phi> 4104 + 8) = word_of_nat (\<phi> 4104)"
    using c(1) by (simp add: copy_of_def relocate_def inHeap_def isObjptr_iff)
  moreover have "load64 (mem t) (\<phi> 4104 + 0) = load64 (srcMem cheney_example 4104) (4104 + 0)"
    using c by (intro image_data) (auto simp: copy_of_def apart_def)
  ultimately show "\<exists>t q. majorCheneyCopyGC os cheney_example = Inr t \<and> load64 (mem t) 1024 = word_of_nat q
     \<and> load64 (mem t) (q + 8) = word_of_nat q \<and> load64 (mem t) q = 42"
    using t(1) parts_plain(1) [of cheney_example 4104] cheney_example_copyable by auto
qed

end
