(* ===== verification/WordOps.thy ===== *)
theory WordOps
  imports Prelude
begin

text \<open>
  The primitive operations on machine words (\<open>basis/Word/Word-ops.h\<close>), for a width that is
  a type variable: each macro of the file is instantiated at 8, 16, 32 and 64 bits. The
  signed variants read their operands as two's complement numbers. Division by zero, the
  quotient that overflows and a shift by the width or more are undefined in C.
\<close>

section \<open>Operators\<close>

definition Word_andb :: "'a::len word \<Rightarrow> 'a word \<Rightarrow> 'a word" where "Word_andb w1 w2 = w1 AND w2"
definition Word_orb :: "'a::len word \<Rightarrow> 'a word \<Rightarrow> 'a word" where "Word_orb w1 w2 = w1 OR w2"
definition Word_xorb :: "'a::len word \<Rightarrow> 'a word \<Rightarrow> 'a word" where "Word_xorb w1 w2 = w1 XOR w2"
definition Word_notb :: "'a::len word \<Rightarrow> 'a word" where "Word_notb w = NOT w"
definition Word_equal :: "'a::len word \<Rightarrow> 'a word \<Rightarrow> bool" where "Word_equal w1 w2 \<longleftrightarrow> w1 = w2"

text \<open>\<open>S\<close> for signed, \<open>U\<close> for unsigned.\<close>

datatype signedness = S | U

definition val :: "signedness \<Rightarrow> 'a::len word \<Rightarrow> int" where
  "val k w = (case k of S \<Rightarrow> sint w | U \<Rightarrow> uint w)"

definition Word_ge :: "signedness \<Rightarrow> 'a::len word \<Rightarrow> 'a word \<Rightarrow> bool" where "Word_ge k w1 w2 \<longleftrightarrow> val k w1 \<ge> val k w2"
definition Word_gt :: "signedness \<Rightarrow> 'a::len word \<Rightarrow> 'a word \<Rightarrow> bool" where "Word_gt k w1 w2 \<longleftrightarrow> val k w1 > val k w2"
definition Word_le :: "signedness \<Rightarrow> 'a::len word \<Rightarrow> 'a word \<Rightarrow> bool" where "Word_le k w1 w2 \<longleftrightarrow> val k w1 \<le> val k w2"
definition Word_lt :: "signedness \<Rightarrow> 'a::len word \<Rightarrow> 'a word \<Rightarrow> bool" where "Word_lt k w1 w2 \<longleftrightarrow> val k w1 < val k w2"

section \<open>Arithmetic with overflow\<close>

text \<open>
  \<open>__builtin_add_overflow\<close> and its kin: the operation on the operands as mathematical
  integers, the result cut to the width, and whether the cut changed its value.
\<close>

definition fits :: "signedness \<Rightarrow> 'a::len itself \<Rightarrow> int \<Rightarrow> bool" where
  "fits k t i \<longleftrightarrow>
     (case k of S \<Rightarrow> - (2 ^ (LENGTH('a) - 1)) \<le> i \<and> i < 2 ^ (LENGTH('a) - 1) | U \<Rightarrow> 0 \<le> i \<and> i < 2 ^ LENGTH('a))"

definition builtin_overflow ::
  "(int \<Rightarrow> int \<Rightarrow> int) \<Rightarrow> signedness \<Rightarrow> 'a::len word \<Rightarrow> 'a word \<Rightarrow> 'a word \<times> bool" where
  "builtin_overflow f k w1 w2 =
     (let i = f (val k w1) (val k w2) in (word_of_int i, \<not> fits k TYPE('a) i))"

definition Word_add :: "'a::len word \<Rightarrow> 'a word \<Rightarrow> 'a word" where
  "Word_add w1 w2 = fst (builtin_overflow (+) U w1 w2)"
definition Word_addCheckP :: "signedness \<Rightarrow> 'a::len word \<Rightarrow> 'a word \<Rightarrow> bool" where
  "Word_addCheckP k w1 w2 = snd (builtin_overflow (+) k w1 w2)"
definition Word_addAndCheck :: "signedness \<Rightarrow> 'a::len word \<Rightarrow> 'a word \<Rightarrow> 'a word \<times> bool" where
  "Word_addAndCheck k w1 w2 = builtin_overflow (+) k w1 w2"

definition Word_sub :: "'a::len word \<Rightarrow> 'a word \<Rightarrow> 'a word" where
  "Word_sub w1 w2 = fst (builtin_overflow (-) U w1 w2)"
definition Word_subCheckP :: "signedness \<Rightarrow> 'a::len word \<Rightarrow> 'a word \<Rightarrow> bool" where
  "Word_subCheckP k w1 w2 = snd (builtin_overflow (-) k w1 w2)"
definition Word_subAndCheck :: "signedness \<Rightarrow> 'a::len word \<Rightarrow> 'a word \<Rightarrow> 'a word \<times> bool" where
  "Word_subAndCheck k w1 w2 = builtin_overflow (-) k w1 w2"

definition Word_mul :: "signedness \<Rightarrow> 'a::len word \<Rightarrow> 'a word \<Rightarrow> 'a word" where
  "Word_mul k w1 w2 = fst (builtin_overflow (*) k w1 w2)"
definition Word_mulCheckP :: "signedness \<Rightarrow> 'a::len word \<Rightarrow> 'a word \<Rightarrow> bool" where
  "Word_mulCheckP k w1 w2 = snd (builtin_overflow (*) k w1 w2)"
definition Word_mulAndCheck :: "signedness \<Rightarrow> 'a::len word \<Rightarrow> 'a word \<Rightarrow> 'a word \<times> bool" where
  "Word_mulAndCheck k w1 w2 = builtin_overflow (*) k w1 w2"

definition Word_neg :: "'a::len word \<Rightarrow> 'a word" where
  "Word_neg w = fst (builtin_overflow (-) U 0 w)"
definition Word_negCheckP :: "signedness \<Rightarrow> 'a::len word \<Rightarrow> bool" where
  "Word_negCheckP k w = snd (builtin_overflow (-) k 0 w)"
definition Word_negAndCheck :: "signedness \<Rightarrow> 'a::len word \<Rightarrow> 'a word \<times> bool" where
  "Word_negAndCheck k w = builtin_overflow (-) k 0 w"

section \<open>Division\<close>

text \<open>
  C's division truncates toward zero. Operands of 8 and 16 bits are promoted, so that the
  quotient that overflows is defined for them, and cut to the width.
\<close>

definition tdiv :: "int \<Rightarrow> int \<Rightarrow> int" where
  "tdiv i j = sgn i * sgn j * (\<bar>i\<bar> div \<bar>j\<bar>)"

definition trem :: "int \<Rightarrow> int \<Rightarrow> int" where
  "trem i j = i - j * tdiv i j"

definition Word_quot :: "signedness \<Rightarrow> 'a::len word \<Rightarrow> 'a word \<Rightarrow> 'a word res" where
  "Word_quot k w1 w2 =
     (if w2 = 0 \<or> (32 \<le> LENGTH('a) \<and> \<not> fits k TYPE('a) (tdiv (val k w1) (val k w2))) then Inl Undefined
      else Inr (word_of_int (tdiv (val k w1) (val k w2))))"

definition Word_rem :: "signedness \<Rightarrow> 'a::len word \<Rightarrow> 'a word \<Rightarrow> 'a word res" where
  "Word_rem k w1 w2 =
     (if w2 = 0 \<or> (32 \<le> LENGTH('a) \<and> \<not> fits k TYPE('a) (tdiv (val k w1) (val k w2))) then Inl Undefined
      else Inr (word_of_int (trem (val k w1) (val k w2))))"

section \<open>Shifts and rotations\<close>

text \<open>
  Words of 8 and 16 bits are promoted to \<open>int\<close>, of 32 bits, before they are shifted; so a
  shift is defined up to the width of the promoted operand.
\<close>

definition shiftWidth :: "'a::len itself \<Rightarrow> nat" where
  "shiftWidth t = max 32 LENGTH('a)"

definition cshl :: "'a::len word \<Rightarrow> nat \<Rightarrow> 'a word res" where
  "cshl w n = (if n < shiftWidth TYPE('a) then Inr (push_bit n w) else Inl Undefined)"

definition cshr :: "'a::len word \<Rightarrow> nat \<Rightarrow> 'a word res" where
  "cshr w n = (if n < shiftWidth TYPE('a) then Inr (drop_bit n w) else Inl Undefined)"

definition Word_lshift :: "'a::len word \<Rightarrow> 32 word \<Rightarrow> 'a word res" where
  "Word_lshift w1 w2 = cshl w1 (unat w2)"

definition Word_rshift :: "signedness \<Rightarrow> 'a::len word \<Rightarrow> 32 word \<Rightarrow> 'a word res" where
  "Word_rshift k w1 w2 =
     (case k of U \<Rightarrow> cshr w1 (unat w2)
      | S \<Rightarrow> if unat w2 < shiftWidth TYPE('a) then Inr (signed_drop_bit (unat w2) w1) else Inl Undefined)"

text \<open>The difference \<open>size - w2\<close> is of 32 bits without sign.\<close>

definition Word_rol :: "'a::len word \<Rightarrow> 32 word \<Rightarrow> 'a word res" where
  "Word_rol w1 w2 =
     bindE (cshr w1 (unat (word_of_nat LENGTH('a) - w2))) (\<lambda>a.
     bindE (cshl w1 (unat w2)) (\<lambda>b. Inr (a OR b)))"

definition Word_ror :: "'a::len word \<Rightarrow> 32 word \<Rightarrow> 'a word res" where
  "Word_ror w1 w2 =
     bindE (cshr w1 (unat w2)) (\<lambda>a.
     bindE (cshl w1 (unat (word_of_nat LENGTH('a) - w2))) (\<lambda>b. Inr (a OR b)))"

section \<open>The operations are what SML's words need\<close>

lemma fits_val:
  fixes t :: "'a::len itself"
  shows "fits k t i \<longleftrightarrow> val k (word_of_int i :: 'a word) = i"
proof (cases k)
  case S
  have "0 < LENGTH('a)" by simp
  then show ?thesis
    by (simp add: S fits_def val_def sint_word_ariths signed_of_int signed_take_bit_int_eq_self_iff)
next
  case U
  then show ?thesis by (simp add: fits_def val_def unsigned_of_int take_bit_int_eq_self_iff)
qed

lemma builtin_overflow_check:
  "\<not> snd (builtin_overflow f k w1 w2) \<longleftrightarrow>
     val k (fst (builtin_overflow f k w1 w2)) = f (val k w1) (val k w2)"
  by (simp add: builtin_overflow_def Let_def fits_val)

text \<open>
  C36: The checked operations: the overflow flag is off exactly when the word of the result
  stands for the mathematical sum, difference, product or negation, signed and unsigned.
\<close>

theorem checked_operations:
  "(\<not> snd (Word_addAndCheck k a b) \<longleftrightarrow> val k (fst (Word_addAndCheck k a b)) = val k a + val k b)
   \<and> (\<not> snd (Word_subAndCheck k a b) \<longleftrightarrow> val k (fst (Word_subAndCheck k a b)) = val k a - val k b)
   \<and> (\<not> snd (Word_mulAndCheck k a b) \<longleftrightarrow> val k (fst (Word_mulAndCheck k a b)) = val k a * val k b)
   \<and> (\<not> snd (Word_negAndCheck k a) \<longleftrightarrow> val k (fst (Word_negAndCheck k a)) = - val k a)"
proof -
  have "val k (0 :: 'a word) = 0" by (cases k) (simp_all add: val_def)
  then show ?thesis
    by (simp add: Word_addAndCheck_def Word_subAndCheck_def Word_mulAndCheck_def Word_negAndCheck_def
        builtin_overflow_check)
qed

lemma trem_eq: "j \<noteq> 0 \<Longrightarrow> trem i j = sgn i * (\<bar>i\<bar> mod \<bar>j\<bar>)"
proof -
  assume j: "j \<noteq> 0"
  have "j * tdiv i j = sgn i * (\<bar>j\<bar> * (\<bar>i\<bar> div \<bar>j\<bar>))"
    by (simp add: tdiv_def abs_sgn mult.assoc mult.left_commute)
  moreover have "i = sgn i * (\<bar>j\<bar> * (\<bar>i\<bar> div \<bar>j\<bar>) + \<bar>i\<bar> mod \<bar>j\<bar>)"
    by (simp only: mult_div_mod_eq sgn_mult_abs)
  then have "i = sgn i * (\<bar>j\<bar> * (\<bar>i\<bar> div \<bar>j\<bar>)) + sgn i * (\<bar>i\<bar> mod \<bar>j\<bar>)"
    by (simp only: distrib_left)
  ultimately show ?thesis unfolding trem_def by linarith
qed

lemma trem_bounds:
  assumes "j \<noteq> 0"
  shows "\<bar>trem i j\<bar> < \<bar>j\<bar>" "trem i j = 0 \<or> sgn (trem i j) = sgn i" "\<bar>trem i j\<bar> \<le> \<bar>i\<bar>"
proof -
  define m where "m = \<bar>i\<bar> mod \<bar>j\<bar>"
  have m: "0 \<le> m" "m < \<bar>j\<bar>" "m \<le> \<bar>i\<bar>"
    using assms by (simp_all add: m_def zmod_le_nonneg_dividend)
  have "trem i j = sgn i * m" using assms by (simp add: trem_eq m_def)
  then show "\<bar>trem i j\<bar> < \<bar>j\<bar>" "trem i j = 0 \<or> sgn (trem i j) = sgn i" "\<bar>trem i j\<bar> \<le> \<bar>i\<bar>"
    using assms m by (auto simp: abs_mult sgn_mult sgn_if)
qed

text \<open>
  Division truncates toward zero with the remainder of the sign of the dividend: when
  quotient and remainder are defined, the quotient fits, and the dividend is the quotient
  times the divisor plus the remainder, which is smaller than the divisor. They are
  undefined exactly for the divisor 0 and, at 32 and 64 bits, for a quotient that overflows.
\<close>

theorem quot_rem_division:
  fixes a b :: "'a::len word"
  assumes "b \<noteq> 0" "fits k TYPE('a) (tdiv (val k a) (val k b))"
  shows "\<exists>q r. Word_quot k a b = Inr q \<and> Word_rem k a b = Inr r
    \<and> val k a = val k q * val k b + val k r \<and> \<bar>val k r\<bar> < \<bar>val k b\<bar>
    \<and> (val k r = 0 \<or> sgn (val k r) = sgn (val k a))"
proof -
  have "sint b = 0 \<Longrightarrow> b = 0" using signed_word_eqI [of b 0] by simp
  then have b: "val k b \<noteq> 0" using assms(1) by (cases k) (auto simp: val_def uint_0_iff)
  define q where "q = tdiv (val k a) (val k b)"
  define r where "r = trem (val k a) (val k b)"
  have d: "val k a = q * val k b + r" by (simp add: q_def r_def trem_def)
  note rb = trem_bounds [OF b, of "val k a", folded r_def]
  have "fits k TYPE('a) (val k a)" by (simp add: fits_val) (cases k, simp_all add: val_def)
  then have "fits k TYPE('a) r"
    using rb(2,3) unfolding fits_def by (cases k) (auto simp: sgn_if split: if_splits)
  then have v: "val k (word_of_int q :: 'a word) = q" "val k (word_of_int r :: 'a word) = r"
    using assms(2) by (simp_all add: fits_val q_def)
  have "Word_quot k a b = Inr (word_of_int q)" "Word_rem k a b = Inr (word_of_int r)"
    using assms by (simp_all add: Word_quot_def Word_rem_def q_def r_def)
  then show ?thesis
    using d rb(1,2) v by (intro exI [of _ "word_of_int q"] exI [of _ "word_of_int r"]) simp
qed

theorem quot_rem_witness:
  "Word_quot S (- 7 :: 8 word) 2 = Inr (- 3) \<and> Word_rem S (- 7 :: 8 word) 2 = Inr (- 1)
   \<and> (\<exists>q r. Word_quot S (- 7 :: 8 word) 2 = Inr q \<and> Word_rem S (- 7 :: 8 word) 2 = Inr r
      \<and> - 7 = val S q * 2 + val S r)"
proof -
  have v: "val S (- 7 :: 8 word) = - 7" "val S (2 :: 8 word) = 2" by (simp_all add: val_def)
  have "fits S TYPE(8) (tdiv (- 7) 2)" by (simp add: fits_def tdiv_def)
  then show ?thesis
    using quot_rem_division [of "2 :: 8 word" S "- 7"] by (simp add: v Word_quot_def Word_rem_def tdiv_def trem_def)
qed

text \<open>
  Rotation: for a count between 1 and the width less 1 the two shifts make the rotation
  of the word, to the left and to the right, and the one undoes the other.
\<close>

theorem rol_ror_rotate:
  fixes w :: "'a::len word"
  assumes "0 < unat n" "unat n < LENGTH('a)" "LENGTH('a) \<le> 64"
  shows "Word_rol w n = Inr (word_rotl (unat n) w) \<and> Word_ror w n = Inr (word_rotr (unat n) w)
    \<and> bindE (Word_rol w n) (\<lambda>v. Word_ror v n) = Inr w"
proof -
  let ?n = "unat n"
  have d: "unat (word_of_nat LENGTH('a) - n) = LENGTH('a) - ?n"
  proof -
    have l: "unat (word_of_nat LENGTH('a) :: 32 word) = LENGTH('a)" using assms(3) by (simp add: unat_of_nat)
    then have "n \<le> word_of_nat LENGTH('a)" using assms(2) by (simp add: word_le_nat_alt)
    then show ?thesis by (simp add: unat_sub l)
  qed
  have r: "Word_rol v n = Inr (word_rotl ?n v)" "Word_ror v n = Inr (word_rotr ?n v)" for v :: "'a word"
  proof -
    have s: "?n < shiftWidth TYPE('a)" "LENGTH('a) - ?n < shiftWidth TYPE('a)"
      using assms by (auto simp: shiftWidth_def)
    have "drop_bit (LENGTH('a) - ?n) v OR push_bit ?n v = word_rotl ?n v"
    proof (rule bit_word_eqI)
      fix i assume i: "i < LENGTH('a)"
      show "bit (drop_bit (LENGTH('a) - ?n) v OR push_bit ?n v) i = bit (word_rotl ?n v) i"
      proof (cases "i < ?n")
        case True
        have "i + (LENGTH('a) - ?n) < LENGTH('a)" using True assms(2) by linarith
        then show ?thesis using i True assms(2)
          by (simp add: bit_word_rotl_iff bit_or_iff bit_drop_bit_eq bit_push_bit_iff add.commute)
      next
        case False
        have "(i + (LENGTH('a) - ?n)) mod LENGTH('a) = i - ?n" using False i assms(2)
          by (simp add: le_mod_geq)
        then show ?thesis using i False assms(2)
          by (auto simp: bit_word_rotl_iff bit_or_iff bit_drop_bit_eq bit_push_bit_iff dest: bit_imp_le_length)
      qed
    qed
    then show "Word_rol v n = Inr (word_rotl ?n v)" by (simp add: Word_rol_def d cshr_def cshl_def s)
    have "drop_bit ?n v OR push_bit (LENGTH('a) - ?n) v = word_rotr ?n v"
    proof (rule bit_word_eqI)
      fix i assume i: "i < LENGTH('a)"
      show "bit (drop_bit ?n v OR push_bit (LENGTH('a) - ?n) v) i = bit (word_rotr ?n v) i"
      proof (cases "i + ?n < LENGTH('a)")
        case True
        then have "\<not> LENGTH('a) - ?n \<le> i" using assms(2) by linarith
        then show ?thesis using True i assms(2)
          by (simp add: bit_word_rotr_iff bit_or_iff bit_drop_bit_eq bit_push_bit_iff add.commute)
      next
        case False
        have "(i + ?n) mod LENGTH('a) = i - (LENGTH('a) - ?n)" using False i assms(2)
          by (simp add: le_mod_geq)
        then show ?thesis using i False assms(2)
          by (auto simp: bit_word_rotr_iff bit_or_iff bit_drop_bit_eq bit_push_bit_iff dest: bit_imp_le_length)
      qed
    qed
    then show "Word_ror v n = Inr (word_rotr ?n v)" by (simp add: Word_ror_def d cshr_def cshl_def s)
  qed
  then show ?thesis by simp
qed

theorem rol_ror_witness:
  "Word_rol (0x81 :: 8 word) 1 = Inr 3 \<and> bindE (Word_rol (0x81 :: 8 word) 1) (\<lambda>v. Word_ror v 1) = Inr 0x81"
proof -
  have "Word_rol (0x81 :: 8 word) 1 = Inr 3" by (simp add: Word_rol_def cshr_def cshl_def shiftWidth_def)
  moreover have "0 < unat (1 :: 32 word)" "unat (1 :: 32 word) < LENGTH(8)" "LENGTH(8) \<le> (64 :: nat)" by simp_all
  note rol_ror_rotate [OF this, of "0x81"]
  ultimately show ?thesis by blast
qed

text \<open>
  Rotation by 0 is undefined at 32 and 64 bits, where the other shift is by the whole
  width; at 8 and 16 bits the promotion makes it the word itself.
\<close>

theorem rol_by_zero:
  "Word_rol (w32 :: 32 word) 0 = Inl Undefined \<and> Word_ror w32 0 = Inl Undefined
   \<and> Word_rol (w64 :: 64 word) 0 = Inl Undefined \<and> Word_ror w64 0 = Inl Undefined
   \<and> Word_rol (w8 :: 8 word) 0 = Inr w8 \<and> Word_ror w8 0 = Inr w8
   \<and> Word_rol (w16 :: 16 word) 0 = Inr w16 \<and> Word_ror w16 0 = Inr w16"
  by (simp add: Word_rol_def Word_ror_def cshr_def cshl_def shiftWidth_def drop_bit_word_beyond)

end
