(* ===== verification/Coerce.thy ===== *)
theory Coerce
  imports WordOps Floats Memory
begin

text \<open>
  Conversions between words and reals (\<open>basis/coerce.h\<close>, \<open>basis/coerce.c\<close>), arithmetic on C pointers
  (\<open>basis/cpointer.h\<close>), the rounding mode of the x87 and SSE units (\<open>basis/Real/IEEEReal.c\<close>) and the
  byte order of the network (\<open>basis/Net/Net.c\<close>, on a little-endian machine).
\<close>

section \<open>Words and reals\<close>

text \<open>
  \<open>(t)x\<close> for a word \<open>x\<close> read as signed or unsigned, and a target of any width; for a real \<open>x\<close> the conversion cuts
  off the fraction, and is undefined where the result does not fit.
\<close>

definition Word_extd :: "signedness \<Rightarrow> 'a::len word \<Rightarrow> 'b::len word" where
  "Word_extd k w = word_of_int (val k w)"

definition truncate_real :: "double \<Rightarrow> int" where
  "truncate_real x = (if 0 \<le> x then \<lfloor>x\<rfloor> else - \<lfloor>- x\<rfloor>)"

definition Real_rndToWord :: "signedness \<Rightarrow> double \<Rightarrow> 'b::len word res" where
  "Real_rndToWord k x =
     (let i = truncate_real x in if fits k TYPE('b) i then Inr (word_of_int i) else Inl Undefined)"

definition Word_rndToReal32 :: "signedness \<Rightarrow> 'a::len word \<Rightarrow> double" where
  "Word_rndToReal32 k w = flt (of_int (val k w))"

definition Word_rndToReal64 :: "signedness \<Rightarrow> 'a::len word \<Rightarrow> double" where
  "Word_rndToReal64 k w = dbl (of_int (val k w))"

text \<open>Between reals: widening is exact, narrowing rounds (the range of exponents aside).\<close>

definition Real64_rndToReal32 :: "double \<Rightarrow> double" where
  "Real64_rndToReal32 x = flt x"

lemma Word_extd_same:
  assumes "LENGTH('a::len) \<le> LENGTH('b::len)"
  shows "val k (Word_extd k (w :: 'a word) :: 'b word) = val k w"
proof (cases k)
  case S
  have "(2::int) ^ (LENGTH('a) - 1) \<le> 2 ^ (LENGTH('b) - 1)" using assms by (intro power_increasing) simp_all
  then have "- (2 ^ (LENGTH('b) - 1)) \<le> sint w" "sint w < 2 ^ (LENGTH('b) - 1)"
    using sint_greater_eq [of w] sint_less [of w] unfolding One_nat_def by linarith+
  then have "sint w = signed_take_bit (LENGTH('b) - 1) (sint w)"
    by (intro signed_take_bit_int_eq_self [symmetric])
  then have "sint (word_of_int (sint w) :: 'b word) = sint w" unfolding sint_sbintrunc' by (rule sym)
  then show ?thesis unfolding S Word_extd_def val_def by (simp only: signedness.case)
next
  case U
  have "uint w < 2 ^ LENGTH('a)" by (rule uint_bounded)
  also have "\<dots> \<le> (2::int) ^ LENGTH('b)" using assms by (intro power_increasing) simp_all
  finally have "uint (word_of_int (uint w) :: 'b word) = uint w" unfolding uint_word_of_int by simp
  then show ?thesis unfolding U Word_extd_def val_def by (simp only: signedness.case)
qed

section \<open>Pointers of C\<close>

definition CPointer_add :: "pointer \<Rightarrow> nat \<Rightarrow> pointer" where "CPointer_add p s = wrap (p + s)"
definition CPointer_sub :: "pointer \<Rightarrow> nat \<Rightarrow> pointer" where "CPointer_sub p s = wrap_sub p s"
definition CPointer_diff :: "pointer \<Rightarrow> pointer \<Rightarrow> nat" where "CPointer_diff p1 p2 = wrap_sub p1 p2"
definition CPointer_equal :: "pointer \<Rightarrow> pointer \<Rightarrow> bool" where "CPointer_equal p1 p2 \<longleftrightarrow> p1 = p2"
definition CPointer_lt :: "pointer \<Rightarrow> pointer \<Rightarrow> bool" where "CPointer_lt p1 p2 \<longleftrightarrow> p1 < p2"
definition CPointer_fromWord :: "64 word \<Rightarrow> pointer" where "CPointer_fromWord x = unat x"
definition CPointer_toWord :: "pointer \<Rightarrow> 64 word" where "CPointer_toWord p = word_of_nat p"

lemma CPointer_fromWord_toWord: "CPointer_toWord (CPointer_fromWord x) = x"
  by (simp add: CPointer_fromWord_def CPointer_toWord_def)

section \<open>The rounding mode\<close>

text \<open>The control words of the x87 and SSE units, the second on 64-bit machines.\<close>

record fpuState =
  fpuControl :: "16 word"
  sseControl :: "32 word"

definition fegetround :: "fpuState \<Rightarrow> 32 word" where
  "fegetround c = ucast (drop_bit 10 (fpuControl c AND 0x0C00))"

text \<open>\<open>fpuControl |= mode << FPU_ROUNDING_CONTROL_SHIFT\<close> computes in \<open>int\<close> and stores 16 bits.\<close>

definition fesetround :: "32 word \<Rightarrow> fpuState \<Rightarrow> fpuState" where
  "fesetround m c = c\<lparr>fpuControl := fpuControl c AND NOT 0x0C00 OR ucast (push_bit 10 m),
                      sseControl := sseControl c AND NOT 0x6000 OR push_bit 13 m\<rparr>"

section \<open>Byte order\<close>

definition Net_htonl :: "32 word \<Rightarrow> 32 word" where
  "Net_htonl w = push_bit 24 (w AND 0xFF) OR push_bit 8 (w AND 0xFF00)
     OR drop_bit 8 (w AND 0xFF0000) OR drop_bit 24 w"

definition Net_htons :: "16 word \<Rightarrow> 16 word" where
  "Net_htons w = push_bit 8 (w AND 0xFF) OR drop_bit 8 w"

definition Net_ntohl :: "32 word \<Rightarrow> 32 word" where "Net_ntohl = Net_htonl"
definition Net_ntohs :: "16 word \<Rightarrow> 16 word" where "Net_ntohs = Net_htons"

text \<open>A mode below 4 is read back, and only the bits of the mode change.\<close>

lemma mode_masks: "(0x0C00 :: 16 word) = push_bit 10 (mask 2)" "(0x6000 :: 32 word) = push_bit 13 (mask 2)"
  by (simp_all add: mask_eq_exp_minus_1)

lemma fegetround_fesetround:
  assumes "m < 4"
  shows "fegetround (fesetround m c) = m"
    "fpuControl (fesetround m c) AND NOT 0x0C00 = fpuControl c AND NOT 0x0C00"
    "sseControl (fesetround m c) AND NOT 0x6000 = sseControl c AND NOT 0x6000"
proof -
  have "m = take_bit 2 m" using assms by (simp add: take_bit_eq_mod word_mod_def word_less_def)
  then have m: "bit m n \<Longrightarrow> n < 2" for n by (metis bit_take_bit_iff)
  show "fegetround (fesetround m c) = m"
    by (rule bit_word_eqI)
       (auto simp: fegetround_def fesetround_def mode_masks bit_simps dest: m)
  show "fpuControl (fesetround m c) AND NOT 0x0C00 = fpuControl c AND NOT 0x0C00"
    by (rule bit_word_eqI) (auto simp: fesetround_def mode_masks bit_simps dest: m)
  show "sseControl (fesetround m c) AND NOT 0x6000 = sseControl c AND NOT 0x6000"
    by (rule bit_word_eqI) (auto simp: fesetround_def mode_masks bit_simps dest: m)
qed

end
