(* ===== verification/Invariant.thy ===== *)
theory Invariant
  imports GarbageCollection
begin

text \<open>
  The invariant of the collector (\<open>invariant.c\<close>), which builds with assertions evaluate after each
  collection, as a function that stops at the first assertion that does not hold; and that
  dividing up the heap (\<open>setGCStateCurrentHeap\<close>) establishes what it says of the heap.
\<close>

section \<open>The assertions\<close>

definition assertIsObjptrInFromSpaceOrImmutableMutableOrRootStaticHeap :: "unit foreachObjptrFun" where
  "assertIsObjptrInFromSpaceOrImmutableMutableOrRootStaticHeap st opp =
     (let s = fst st; op = load64 (mem s) opp
      in bindE (asserting (isObjptrInFromSpace s op \<or> isObjptrInImmutableMutableOrRootStaticHeap s op)) (\<lambda>_.
         if \<not> (isObjptrInFromSpace s op \<or> isObjptrInImmutableMutableOrRootStaticHeap s op)
         then Inl (Die ''gc.c: assertIsObjptrInFromSpace'')
         else Inr st))"

definition assertIsObjptrInImmutableMutableOrRootStaticHeap :: "unit foreachObjptrFun" where
  "assertIsObjptrInImmutableMutableOrRootStaticHeap st opp =
     bindE (asserting (isObjptrInImmutableMutableOrRootStaticHeap (fst st) (load64 (mem (fst st)) opp))) (\<lambda>_. Inr st)"

definition frameInfoOk :: "GC_state \<Rightarrow> GC_frameInfo \<Rightarrow> bool" where
  "frameInfoOk s fi \<longleftrightarrow>
     (0 < frame_size fi \<longrightarrow> frame_size fi \<le> maxFrameSize s \<and> list_all (\<lambda>x. x < frame_size fi) (offsets fi))"

definition cardMapOk :: "GC_state \<Rightarrow> bool" where
  "cardMapOk s \<longleftrightarrow>
     (let g = generationalMaps s; h = heap s
      in mutatorMarksCards s \<longrightarrow>
         cardMap g = wrap (cardMapAbsolute g + pointerToCardMapIndexAbsolute (heapStart h)) \<and>
         wrap (cardMapAbsolute g + pointerToCardMapIndexAbsolute (heapStart h + heapSize h - 1))
           < cardMap g + cardMapLength g)"

text \<open>The old generation, the free space and the nursery of the heap.\<close>

definition heapDivided :: "GC_state \<Rightarrow> bool" where
  "heapDivided s \<longleftrightarrow>
     (let h = heap s
      in isFrontierAligned s (heapStart h + oldGenSize h) \<and> isFrontierAligned s (nursery h) \<and>
         isFrontierAligned s (frontier s) \<and>
         heapStart h + oldGenSize h \<le> nursery h \<and> nursery h \<le> heapStart h + heapSize h \<and>
         nursery h \<le> frontier s \<and>
         (heapSize h \<noteq> 0 \<longrightarrow> frontier s \<le> limitPlusSlop s
            \<and> limit s = wrap_sub (limitPlusSlop s) GC_HEAP_LIMIT_SLOP \<and> hasHeapBytesFree s 0 0))"

definition heapPlaced :: "GC_state \<Rightarrow> bool" where
  "heapPlaced s \<longleftrightarrow> isAligned (heapSize (heap s)) (pageSize (sysvals s)) \<and> isAligned (heapStart (heap s)) CARD_SIZE"

definition currentStackOk :: "GC_state \<Rightarrow> bool" where
  "currentStackOk s \<longleftrightarrow>
     (let stack = getStackCurrent s
      in isStackReservedAligned s (stack_reserved s stack) \<and>
         GC_state.stackBottom s = getStackBottom s stack \<and> GC_state.stackTop s = getStackTop s stack \<and>
         GC_state.stackLimit s = getStackLimit s stack \<and> GC_state.stackBottom s \<le> GC_state.stackTop s \<and>
         stack_used s stack = sizeofGCStateCurrentStackUsed s \<and> stack_used s stack \<le> stack_reserved s stack)"

text \<open>The pointers of the static heaps, the roots and the heap.\<close>

definition invariantForPointers :: "GC_state \<Rightarrow> unit res" where
  "invariantForPointers s =
     (let static = assertIsObjptrInImmutableMutableOrRootStaticHeap;
          any = assertIsObjptrInFromSpaceOrImmutableMutableOrRootStaticHeap;
          st = (s, ()); h = heap s; back = heapStart h + oldGenSize h
      in bindE (foreachObjptrInStaticHeap st (immutableHeap (staticHeaps s)) static False) (\<lambda>_.
         bindE (foreachObjptrInStaticHeap st (mutableHeap (staticHeaps s)) static False) (\<lambda>_.
         bindE (foreachObjptrInStaticHeap st (rootHeap (staticHeaps s)) any False) (\<lambda>_.
         bindE (foreachGlobalObjptr st any) (\<lambda>_.
         bindE (foreachObjptrInRange (oldGenSize h + 1) st (alignFrontier s (heapStart h)) (\<lambda>_. back) any False) (\<lambda>_.
         bindE (foreachObjptrInRange (frontier s - nursery h + 1) st (nursery h) (\<lambda>st. frontier (fst st)) any False)
           (\<lambda>_. Inr ())))))))"

definition invariantForGC :: "GC_state \<Rightarrow> bool res" where
  "invariantForGC s =
     bindE (asserting (list_all (frameInfoOk s) (frameInfos s))) (\<lambda>_.
     bindE (asserting (cardMapOk s)) (\<lambda>_.
     bindE (asserting (heapPlaced s)) (\<lambda>_.
     bindE (asserting (heapDivided s)) (\<lambda>_.
     bindE (asserting (heapStart (secondaryHeap s) = 0 \<or> heapSize (heap s) = heapSize (secondaryHeap s))) (\<lambda>_.
     bindE (invariantForPointers s) (\<lambda>_.
     bindE (asserting (currentStackOk s)) (\<lambda>_. Inr True)))))))"

definition invariantForMutator :: "GC_state \<Rightarrow> bool \<Rightarrow> bool \<Rightarrow> bool res" where
  "invariantForMutator s front stack =
     bindE (asserting (front \<longrightarrow> invariantForMutatorFrontier s)) (\<lambda>_.
     bindE (if stack then bindE (invariantForMutatorStack s) asserting else Inr ()) (\<lambda>_.
     bindE (invariantForGC s) (\<lambda>ok. bindE (asserting ok) (\<lambda>_. Inr True))))"

section \<open>Dividing up the heap\<close>

lemma alignFrontier_spec:
  assumes "is_power2 (alignment s)" "p + alignment s + 8 < 18446744073709551616"
  shows "p \<le> alignFrontier s p" "isFrontierAligned s (alignFrontier s p)"
    "isFrontierAligned s q \<Longrightarrow> p \<le> q \<Longrightarrow> alignFrontier s p \<le> q"
proof -
  let ?a = "align (p + 8) (alignment s)"
  have b: "p + 8 + (alignment s - 1) < 18446744073709551616" using assms(2) by simp
  note al = align_ge [OF assms(1) b] align_aligned [OF assms(1) b] align_less [OF assms(1) b]
  have "wrap (p + 8) = p + 8" using assms(2) by (simp add: wrap_def)
  then have f: "alignFrontier s p = ?a - 8"
    unfolding alignFrontier_def alignWithExtra_def using al(1,3) assms(2) by (simp add: wrap_sub_eq)
  show "p \<le> alignFrontier s p" using al(1) f by simp
  show "isFrontierAligned s (alignFrontier s p)" using al(1,2) by (simp add: isFrontierAligned_def f)
  show "alignFrontier s p \<le> q" if "isFrontierAligned s q" "p \<le> q"
    using align_least [OF assms(1) b, of "q + 8"] that by (simp add: isFrontierAligned_def f)
qed

lemma isFrontierAligned_cong: "alignment t = alignment s \<Longrightarrow> isFrontierAligned t p = isFrontierAligned s p"
  by (simp add: isFrontierAligned_def)

text \<open>The division with a given nursery.\<close>

definition divideAt :: "GC_state \<Rightarrow> bool \<Rightarrow> pointer \<Rightarrow> GC_state \<Rightarrow> bool" where
  "divideAt s minor n t \<longleftrightarrow>
     heap t = (heap s)\<lparr>nursery := n\<rparr> \<and> frontier t = n \<and> canMinor t = minor \<and> alignment t = alignment s \<and>
     limitPlusSlop t = heapStart (heap s) + heapSize (heap s) \<and>
     limit t = wrap_sub (heapStart (heap s) + heapSize (heap s)) GC_HEAP_LIMIT_SLOP"

lemma setGCStateCurrentHeap_cases:
  assumes fits: "oldGenSize (heap s) + old \<le> heapSize (heap s)" "heapStart (heap s) + heapSize (heap s) < 18446744073709551616"
  defines "n \<equiv> heapSize (heap s) - (oldGenSize (heap s) + old)" and "L \<equiv> heapStart (heap s) + heapSize (heap s)"
  shows "(case setGCStateCurrentHeap s old new of
      Inr t \<Rightarrow> new \<le> n \<and> divideAt s False (heapStart (heap s) + oldGenSize (heap s) + old) t
        \<or> new \<le> wrap_sub L (alignFrontier s (L - n div 2)) \<and> divideAt s True (alignFrontier s (L - n div 2)) t
    | Inl e \<Rightarrow> (\<exists>m. e = Die m) \<and> n < new)"
proof -
  let ?s = "s\<lparr>limitPlusSlop := L, limit := wrap_sub L GC_HEAP_LIMIT_SLOP\<rparr>"
  have n: "wrap_sub (heapSize (heap s)) (wrap (oldGenSize (heap s) + old)) = n"
    unfolding n_def using fits by (simp add: wrap_sub_eq wrap_def)
  have l: "wrap_sub L n = heapStart (heap s) + oldGenSize (heap s) + old"
    using fits by (simp add: wrap_sub_eq L_def n_def)
  have h: "wrap_sub L (n div 2) = L - n div 2"
    using fits by (intro wrap_sub_eq) (simp_all add: L_def n_def)
  have af: "alignFrontier (s\<lparr>limitPlusSlop := a, limit := b\<rparr>) p = alignFrontier s p" for a b p
    by (simp add: alignFrontier_def alignWithExtra_def)
  show ?thesis
    unfolding setGCStateCurrentHeap_def Let_def n
    by (auto simp: n l h af L_def [symmetric] divideAt_def heap_upd_def clearCardMap_def useGenerational_def Let_def
        split: if_splits)
qed

lemma divided:
  assumes d: "divideAt s minor p t" and L: "L = heapStart (heap s) + heapSize (heap s)" "L < 18446744073709551616"
    and p: "heapStart (heap s) + oldGenSize (heap s) \<le> p" "p \<le> L"
    and room: "oldGenSize (heap s) + old + (if minor then 2 else 1) * (L - p) \<le> heapSize (heap s)" "new \<le> L - p"
    and al: "isFrontierAligned s (heapStart (heap s) + oldGenSize (heap s))" "isFrontierAligned s p"
  shows "heapDivided t" "hasHeapBytesFree t old new" "heap t = (heap s)\<lparr>nursery := frontier t\<rparr>"
proof -
  have f: "wrap_sub L p = L - p" using p L by (simp add: wrap_sub_eq)
  have w: "wrap (oldGenSize (heap s) + k + (if minor then 2 else 1) * (L - p))
      = oldGenSize (heap s) + k + (if minor then 2 else 1) * (L - p)" if "k \<le> old" for k
    using room(1) L that by (intro wrap_small) (simp split: if_splits)
  have free: "hasHeapBytesFree t k b" if "k \<le> old" "b \<le> L - p" for k b
    using d f w [OF that(1)] room that L(1) by (simp add: hasHeapBytesFree_def divideAt_def Let_def)
  show "hasHeapBytesFree t old new" using free [of old new] room by simp
  show "heap t = (heap s)\<lparr>nursery := frontier t\<rparr>" using d by (simp add: divideAt_def)
  have fa: "isFrontierAligned t q = isFrontierAligned s q" for q
    using d by (intro isFrontierAligned_cong) (simp add: divideAt_def)
  show "heapDivided t"
    unfolding heapDivided_def fa Let_def using d al p free [of 0 0] L(1) by (simp add: divideAt_def)
qed

text \<open>
  C11: \<open>setGCStateCurrentHeap\<close>, at the end of every collection, divides up the heap so that the
  part of \<open>invariantForGC\<close> on the heap holds, with the plain nursery and with the generational
  one: frontier and limits aligned and in order, and the requested bytes free in the old generation and
  in the nursery, counting the nursery twice where a minor collection may copy it. It stops with
  a message just when the nursery cannot hold the request.
\<close>

theorem setGCStateCurrentHeap_divides:
  assumes al: "is_power2 (alignment s)"
    and fits: "oldGenSize (heap s) + old \<le> heapSize (heap s)"
      "heapStart (heap s) + heapSize (heap s) + alignment s + 8 < 2 ^ 64"
    and ends: "isFrontierAligned s (heapStart (heap s) + oldGenSize (heap s))"
      "isFrontierAligned s (heapStart (heap s) + oldGenSize (heap s) + old)"
      "isFrontierAligned s (heapStart (heap s) + heapSize (heap s))"
  shows "case setGCStateCurrentHeap s old new of
      Inr t \<Rightarrow> heapDivided t \<and> hasHeapBytesFree t old new \<and> heap t = (heap s)\<lparr>nursery := frontier t\<rparr>
    | Inl e \<Rightarrow> (\<exists>m. e = Die m) \<and> heapSize (heap s) - (oldGenSize (heap s) + old) < new"
proof -
  define L n where "L = heapStart (heap s) + heapSize (heap s)" and "n = heapSize (heap s) - (oldGenSize (heap s) + old)"
  have bound: "L < 18446744073709551616" "L - n div 2 + alignment s + 8 < 18446744073709551616"
    using fits(2) by (simp_all add: L_def)
  note cases = setGCStateCurrentHeap_cases [OF fits(1), of new, folded L_def n_def, OF bound(1)]
  note g = alignFrontier_spec [OF al bound(2)]
  let ?g = "alignFrontier s (L - n div 2)"
  have gL: "?g \<le> L" using g(3) [OF ends(3)] by (simp add: L_def)
  show ?thesis
  proof (cases "setGCStateCurrentHeap s old new")
    case (Inl e)
    then show ?thesis using cases by (simp add: n_def)
  next
    case (Inr t)
    consider "new \<le> n" "divideAt s False (heapStart (heap s) + oldGenSize (heap s) + old) t"
      | "new \<le> wrap_sub L ?g" "divideAt s True ?g t"
      using cases Inr by auto
    then show ?thesis
    proof cases
      case 1
      note d = divided [OF 1(2) L_def bound(1), of old new]
      show ?thesis unfolding Inr sum.case
        using fits(1) 1(1) by (intro conjI d) (simp_all add: ends L_def n_def)
    next
      case 2
      have "L - (L - k) \<le> k" for k by arith
      then have half: "L - ?g \<le> n div 2" using diff_le_mono2 [OF g(1), of L] order_trans by blast
      have sum: "oldGenSize (heap s) + old + n = heapSize (heap s)" using fits(1) by (simp add: n_def)
      have "oldGenSize (heap s) + old + 2 * (L - ?g) \<le> heapSize (heap s)"
        unfolding sum [symmetric] using half by simp
      moreover have "heapStart (heap s) + oldGenSize (heap s) \<le> ?g"
        using g(1) fits(1) by (simp add: L_def n_def)
      moreover have "new \<le> L - ?g" using 2(1) gL bound(1) by (simp add: wrap_sub_eq)
      ultimately show ?thesis unfolding Inr sum.case
        using divided [OF 2(2) L_def bound(1), of old new] gL ends(1) g(2) by simp
    qed
  qed
qed

text \<open>A heap of 64 kilobytes, 32 of them live, that is divided for minor collections.\<close>

definition divide_example :: GC_state where
  "divide_example = state0\<lparr>alignment := 8, mutatorMarksCards := True,
     heap := GC_heap0\<lparr>heapStart := 65536, heapSize := 65536, oldGenSize := 32768, withMapsSize := 73728\<rparr>,
     lastMajorStatistics := (lastMajorStatistics state0)\<lparr>lm_bytesLive := 32768, lm_kind := GC_MARK_COMPACT\<rparr>,
     controls := GC_controls0\<lparr>ratios := GC_ratios0\<lparr>nursery_ratio := 10\<rparr>\<rparr>\<rparr>"

theorem setGCStateCurrentHeap_witness:
  "\<exists>t. setGCStateCurrentHeap divide_example 256 1024 = Inr t \<and> heapDivided t \<and> hasHeapBytesFree t 256 1024"
proof -
  have "case setGCStateCurrentHeap divide_example 256 1024 of
      Inr t \<Rightarrow> heapDivided t \<and> hasHeapBytesFree t 256 1024 \<and> heap t = (heap divide_example)\<lparr>nursery := frontier t\<rparr>
    | Inl e \<Rightarrow> (\<exists>m. e = Die m) \<and> heapSize (heap divide_example) - (oldGenSize (heap divide_example) + 256) < 1024"
    by (rule setGCStateCurrentHeap_divides)
       (simp_all add: divide_example_def is_power2_numeral isFrontierAligned_def isAligned_def zero_defs)
  moreover have "heapSize (heap divide_example) - (oldGenSize (heap divide_example) + 256) = 32512"
    by (simp add: divide_example_def zero_defs)
  ultimately show ?thesis by (auto split: sum.splits)
qed

end
