(* ===== verification/Mingw.thy ===== *)
theory Mingw
  imports Coerce Rusage ToString
begin

text \<open>
  The emulation of POSIX on Windows (\<open>platform/mingw.c\<close>) as far as it has logic of its own: the clock, the
  timers, limits, usage, signal sets and handlers, processes, pipes, errors of sockets. Answers of the
  Windows interface are parameters. A call that fails gives \<open>Inl\<close> of the \<open>errno\<close> it sets, beside the
  \<open>error\<close> of calls that do not return; \<open>long\<close> has 32 bits on Windows.
\<close>

datatype errno = EINVAL | ENOMEM | EPERM | EFAULT | ECHILD | EEXIST | ENFILE | EBADF | ENOENT

type_synonym 'a posix = "errno + 'a"

text \<open>Signed arithmetic that overflows is undefined; a conversion to \<open>long\<close> keeps the low 32 bits.\<close>

definition int32 :: "int \<Rightarrow> int res" where
  "int32 x = (if fits S TYPE(32) x then Inr x else Inl Undefined)"

definition int64 :: "int \<Rightarrow> int res" where
  "int64 x = (if fits S TYPE(64) x then Inr x else Inl Undefined)"

definition toLong :: "int \<Rightarrow> int" where
  "toLong x = sint (word_of_int x :: 32 word)"

section \<open>The clock\<close>

text \<open>
  The static variables of \<open>gettimeofday\<close>, and what the Windows clocks say during a call: the counter and the
  system time (in units of 100 ns since 1601) at the first call ever and at this one.
\<close>

record WinTime =
  frequency :: int
  baseCounter :: int
  baseMicroSeconds :: int

record WinReading =
  first_counter :: int
  first_fileTime :: "64 word"
  now_counter :: int
  now_fileTime :: "64 word"

abbreviation (input) EPOCHFILETIME :: int where "EPOCHFILETIME \<equiv> 116444736000000000"

text \<open>A time of the system is below \<open>2 ^ 63\<close>, so that the difference does not overflow.\<close>

definition fileTimeMicros :: "64 word \<Rightarrow> int" where
  "fileTimeMicros ft = (sint ft - EPOCHFILETIME) sdiv 10"

definition initTime :: "int \<Rightarrow> WinReading \<Rightarrow> WinTime \<Rightarrow> WinTime res" where
  "initTime freq r w =
     (if frequency w = 0 then
        (if freq = 0 then Inl (Die ''no high resolution clock'')
         else Inr \<lparr>frequency = freq, baseCounter = first_counter r,
                   baseMicroSeconds = fileTimeMicros (first_fileTime r)\<rparr>)
      else Inr w)"

text \<open>The time by the performance counter, in doubles.\<close>

definition counterMicros :: "WinTime \<Rightarrow> int \<Rightarrow> int" where
  "counterMicros w delta =
     (let deltaMicroseconds = dbl (of_int delta);
          deltaMicroseconds = dbl (deltaMicroseconds / dbl (of_int (frequency w)));
          deltaMicroseconds = dbl (deltaMicroseconds * 1000000)
      in truncate_real (dbl (dbl (of_int (baseMicroSeconds w)) + deltaMicroseconds)))"

text \<open>With a fast counter: detect that it has wrapped, and rebase before it does.\<close>

definition rebaseTime :: "WinReading \<Rightarrow> int \<Rightarrow> int \<Rightarrow> WinTime \<Rightarrow> int \<times> WinTime" where
  "rebaseTime r delta nowMicroSeconds w =
     (if frequency w div 2 ^ 32 = 0 then (nowMicroSeconds, w)
      else
        (let nowLowRes = fileTimeMicros (now_fileTime r);
             (nowMicroSeconds, w) =
               (if nowMicroSeconds + 1000000 < nowLowRes
                then (nowLowRes, w\<lparr>baseCounter := now_counter r, baseMicroSeconds := nowLowRes\<rparr>)
                else (nowMicroSeconds, w))
         in if delta div 2 ^ 48 mod 2 ^ 16 \<noteq> 0
            then (nowMicroSeconds, w\<lparr>baseCounter := now_counter r, baseMicroSeconds := nowMicroSeconds\<rparr>)
            else (nowMicroSeconds, w)))"

definition gettimeofday :: "int \<Rightarrow> WinReading \<Rightarrow> WinTime \<Rightarrow> (timeval \<times> WinTime) res" where
  "gettimeofday freq r w =
     bindE (initTime freq r w) (\<lambda>w.
     bindE (int64 (now_counter r - baseCounter w)) (\<lambda>delta.
     bindE (int64 (counterMicros w delta)) (\<lambda>nowMicroSeconds.
       let (nowMicroSeconds, w) = rebaseTime r delta nowMicroSeconds w
       in Inr (\<lparr>tv_sec = toLong (nowMicroSeconds sdiv million),
                tv_usec = toLong (nowMicroSeconds smod million)\<rparr>, w))))"

section \<open>Timers\<close>

text \<open>
  The state of the timers, with the calls of the Windows interface made so far; a handle is a
  number, and \<open>None\<close> is \<open>NULL\<close>.
\<close>

datatype itimer = ITIMER_REAL | ITIMER_VIRT | ITIMER_PROF

datatype winTimerCall =
    TimeBeginPeriod | CreateTimerQueue | CreatePrioTimer | DuplicateMainThread
  | DeleteTimerQueueTimer "nat option" | CreateTimerQueueTimer itimer nat nat

record WinTimers =
  mainThread :: "nat option"
  timerQueue :: "nat option"
  realTimer :: "nat option"
  virtTimer :: "nat option"
  profTimer :: "nat option"
  timerCalls :: "winTimerCall list"

record WinTimerOS =
  w_createQueue :: "nat option"
  w_mainThread :: "nat option"
  w_createTimer :: "nat option"

record itimerval =
  it_interval :: timeval
  it_value :: timeval

definition timerCall :: "winTimerCall \<Rightarrow> WinTimers \<Rightarrow> WinTimers" where
  "timerCall c t = t\<lparr>timerCalls := timerCalls t @ [c]\<rparr>"

definition timerOf :: "itimer \<Rightarrow> WinTimers \<Rightarrow> nat option" where
  "timerOf i t = (case i of ITIMER_REAL \<Rightarrow> realTimer t | ITIMER_VIRT \<Rightarrow> virtTimer t | ITIMER_PROF \<Rightarrow> profTimer t)"

definition setTimer :: "itimer \<Rightarrow> nat option \<Rightarrow> WinTimers \<Rightarrow> WinTimers" where
  "setTimer i h t =
     (case i of ITIMER_REAL \<Rightarrow> t\<lparr>realTimer := h\<rparr> | ITIMER_VIRT \<Rightarrow> t\<lparr>virtTimer := h\<rparr>
      | ITIMER_PROF \<Rightarrow> t\<lparr>profTimer := h\<rparr>)"

definition initTimerQueue :: "WinTimerOS \<Rightarrow> WinTimers \<Rightarrow> (unit posix \<times> WinTimers) res" where
  "initTimerQueue os t =
     (if mainThread t = None then
        (let t = timerCall TimeBeginPeriod t;
             t = timerCall CreateTimerQueue (t\<lparr>timerQueue := w_createQueue os\<rparr>)
         in if timerQueue t = None then Inr (Inl ENOMEM, t)
            else
              (let t = timerCall CreatePrioTimer t;
                   t = timerCall DuplicateMainThread (t\<lparr>mainThread := w_mainThread os\<rparr>)
               in if mainThread t = None then Inl (Die ''Cannot get handle to initial thread'')
                  else Inr (Inr (), t)))
      else Inr (Inr (), t))"

text \<open>Milliseconds in \<open>long\<close> arithmetic, stored in an unsigned word of 32 bits.\<close>

definition timerMillis :: "timeval \<Rightarrow> nat res" where
  "timerMillis tv =
     bindE (int32 (tv_sec tv * 1000)) (\<lambda>s.
     bindE (int32 (tv_usec tv + 999)) (\<lambda>u.
     bindE (int32 (s + u sdiv 1000)) (\<lambda>ms. Inr (unat (word_of_int ms :: 32 word)))))"

definition MLTimer :: "WinTimerOS \<Rightarrow> itimer \<Rightarrow> itimerval \<Rightarrow> WinTimers \<Rightarrow> (unit posix \<times> WinTimers) res" where
  "MLTimer os i v t =
     bindE (initTimerQueue os t) (\<lambda>(r, t).
       case r of
         Inl e \<Rightarrow> Inr (Inl e, t)
       | Inr _ \<Rightarrow>
           bindE (timerMillis (it_value v)) (\<lambda>dueTime.
           bindE (timerMillis (it_interval v)) (\<lambda>period.
             let t = setTimer i None (timerCall (DeleteTimerQueueTimer (timerOf i t)) t)
             in if dueTime = 0 then Inr (Inr (), t)
                else
                  (let t = timerCall (CreateTimerQueueTimer i dueTime period) t
                   in case w_createTimer os of
                        None \<Rightarrow> Inr (Inl ENOMEM, t)
                      | Some h \<Rightarrow> Inr (Inr (), setTimer i (Some h) t)))))"

definition setitimer ::
  "WinTimerOS \<Rightarrow> int \<Rightarrow> itimerval \<Rightarrow> bool \<Rightarrow> WinTimers \<Rightarrow> (unit posix \<times> WinTimers) res" where
  "setitimer os which v ovalue t =
     (if ovalue then Inl (Die ''setitimer doesn't support retrieving old state'')
      else if which = 0 then MLTimer os ITIMER_REAL v t
      else if which = 1 then MLTimer os ITIMER_VIRT v t
      else if which = 2 then MLTimer os ITIMER_PROF v t
      else Inr (Inl EINVAL, t))"

definition alarm :: "WinTimerOS \<Rightarrow> int \<Rightarrow> WinTimers \<Rightarrow> (unit posix \<times> WinTimers) res" where
  "alarm os secs t =
     setitimer os 0 \<lparr>it_interval = \<lparr>tv_sec = 0, tv_usec = 0\<rparr>, it_value = \<lparr>tv_sec = secs, tv_usec = 0\<rparr>\<rparr> False t"

section \<open>Limits and usage\<close>

record rlimit =
  rlim_cur :: nat
  rlim_max :: nat

abbreviation (input) RLIM_NLIMITS :: nat where "RLIM_NLIMITS \<equiv> 7"

text \<open>The table of limits, and whether it is set up.\<close>

type_synonym rlimits = "bool \<times> rlimit list"

definition initRlimits :: "rlimits \<Rightarrow> rlimits" where
  "initRlimits rl =
     (if fst rl then rl else (True, replicate RLIM_NLIMITS \<lparr>rlim_cur = 0, rlim_max = 4294967295\<rparr>))"

definition getrlimit :: "int \<Rightarrow> rlimits \<Rightarrow> rlimit posix \<times> rlimits" where
  "getrlimit resource rl =
     (let rl = initRlimits rl
      in if resource < 0 \<or> resource \<ge> int RLIM_NLIMITS then (Inl EINVAL, rl)
         else (Inr (snd rl ! nat resource), rl))"

definition setrlimit :: "int \<Rightarrow> rlimit \<Rightarrow> rlimits \<Rightarrow> unit posix \<times> rlimits" where
  "setrlimit resource rlp rl =
     (let rl = initRlimits rl
      in if resource < 0 \<or> resource \<ge> int RLIM_NLIMITS then (Inl EINVAL, rl)
         else
           (let i = nat resource; l = snd rl ! i
            in if rlim_cur rlp < rlim_max l
               then (Inr (), (fst rl, (snd rl)[i := l\<lparr>rlim_cur := rlim_cur rlp, rlim_max := rlim_max rlp\<rparr>]))
               else (Inl EPERM, rl)))"

text \<open>The times of the process, in units of 100 ns, as pairs of 32-bit words, if Windows gives them.\<close>

definition fileTime :: "32 word \<times> 32 word \<Rightarrow> 64 word" where
  "fileTime t = (let usecs = push_bit 32 (ucast (fst t)) in usecs OR ucast (snd t))"

definition usageOf :: "32 word \<times> 32 word \<Rightarrow> timeval" where
  "usageOf t =
     (let usecs = fileTime t div 10
      in \<lparr>tv_sec = toLong (uint (usecs div 1000000)), tv_usec = toLong (uint (usecs mod 1000000))\<rparr>)"

definition getrusage :: "((32 word \<times> 32 word) \<times> (32 word \<times> 32 word)) option \<Rightarrow> int \<Rightarrow> rusage posix" where
  "getrusage processTimes who =
     (if who = - 1 then Inr \<lparr>ru_utime = \<lparr>tv_sec = 0, tv_usec = 0\<rparr>, ru_stime = \<lparr>tv_sec = 0, tv_usec = 0\<rparr>\<rparr>
      else if who \<noteq> 0 then Inl EINVAL
      else
        (case processTimes of
           None \<Rightarrow> Inl EFAULT
         | Some (kernel_time, user_time) \<Rightarrow> Inr \<lparr>ru_utime = usageOf user_time, ru_stime = usageOf kernel_time\<rparr>))"

section \<open>Signals\<close>

abbreviation (input) NSIG :: int where "NSIG \<equiv> 32"

type_synonym sigset_t = "32 word"

definition SIGTOMASK :: "int \<Rightarrow> sigset_t res" where
  "SIGTOMASK sn = (if sn - 1 < 0 \<or> sn - 1 \<ge> 31 then Inl Undefined else Inr (push_bit (nat (sn - 1)) 1))"

definition sigaddset :: "sigset_t \<Rightarrow> int \<Rightarrow> sigset_t posix res" where
  "sigaddset st signum =
     (if signum < 0 \<or> signum \<ge> NSIG then Inr (Inl EINVAL)
      else bindE (SIGTOMASK signum) (\<lambda>m. Inr (Inr (st OR m))))"

definition sigdelset :: "sigset_t \<Rightarrow> int \<Rightarrow> sigset_t posix res" where
  "sigdelset st signum =
     (if signum < 0 \<or> signum \<ge> NSIG then Inr (Inl EINVAL)
      else bindE (SIGTOMASK signum) (\<lambda>m. Inr (Inr (st AND NOT m))))"

definition sigemptyset :: "sigset_t" where
  "sigemptyset = 0"

definition sigfillset :: "sigset_t" where
  "sigfillset = NOT 0"

definition sigismember :: "sigset_t \<Rightarrow> int \<Rightarrow> bool posix res" where
  "sigismember st signum =
     (if signum < 0 \<or> signum \<ge> NSIG then Inr (Inl EINVAL)
      else bindE (SIGTOMASK signum) (\<lambda>m. Inr (Inr (st AND m \<noteq> 0))))"

text \<open>The mask of the process: the new one, if there is an argument for it; \<open>-1\<close> without an \<open>errno\<close> is \<open>None\<close>.\<close>

definition sigprocmask :: "int \<Rightarrow> sigset_t option \<Rightarrow> sigset_t \<Rightarrow> unit option \<times> sigset_t" where
  "sigprocmask how st blocked =
     (case st of
        None \<Rightarrow> (Some (), blocked)
      | Some st \<Rightarrow>
          if how = 1 then (Some (), blocked OR st)
          else if how = 2 then (Some (), blocked AND NOT st)
          else if how = 0 then (Some (), st)
          else (None, blocked))"

text \<open>
  Handlers; those of the three timers are kept here, others by \<open>signal\<close> of the C library, which
  refuses some signals (the parameter says which it takes) with \<open>SIG_ERR\<close>.
\<close>

datatype sighandler = SIG_DFL | SIG_IGN | SIG_ERR | Handler nat

record sigHandlers =
  SIGALRM_handler :: sighandler
  SIGVTAM_handler :: sighandler
  SIGPROF_handler :: sighandler
  otherHandlers :: "int \<Rightarrow> sighandler"

definition c_signal :: "(int \<Rightarrow> bool) \<Rightarrow> int \<Rightarrow> sighandler \<Rightarrow> sigHandlers \<Rightarrow> sighandler \<times> sigHandlers" where
  "c_signal takes signum a h =
     (if takes signum then (otherHandlers h signum, h\<lparr>otherHandlers := (otherHandlers h)(signum := a)\<rparr>)
      else (SIG_ERR, h))"

definition sigaction ::
  "(int \<Rightarrow> bool) \<Rightarrow> int \<Rightarrow> sighandler option \<Rightarrow> sigHandlers \<Rightarrow> sighandler posix \<times> sigHandlers" where
  "sigaction takes signum newact h =
     (let put = (\<lambda>old. case newact of None \<Rightarrow> old | Some a \<Rightarrow> a)
      in if signum < 0 \<or> signum \<ge> NSIG then (Inl EINVAL, h)
         else if signum = 9 \<or> signum = 16 then (Inl EINVAL, h)
         else if signum = 14 then (Inr (SIGALRM_handler h), h\<lparr>SIGALRM_handler := put (SIGALRM_handler h)\<rparr>)
         else if signum = 29 then (Inr (SIGVTAM_handler h), h\<lparr>SIGVTAM_handler := put (SIGVTAM_handler h)\<rparr>)
         else if signum = 30 then (Inr (SIGPROF_handler h), h\<lparr>SIGPROF_handler := put (SIGPROF_handler h)\<rparr>)
         else
           (let (old, h) = c_signal takes signum (case newact of None \<Rightarrow> SIG_DFL | Some a \<Rightarrow> a) h;
                h = (if newact = None then snd (c_signal takes signum old h) else h)
            in (Inr old, h)))"

text \<open>A timer goes off: nothing, the end of the program, or the handler with its signal.\<close>

definition timerSignal :: "sighandler \<Rightarrow> int \<Rightarrow> string \<Rightarrow> (nat \<times> int) option res" where
  "timerSignal h sig msg =
     (case h of
        SIG_IGN \<Rightarrow> Inr None
      | SIG_DFL \<Rightarrow> Inl (Die msg)
      | SIG_ERR \<Rightarrow> Inl Undefined
      | Handler f \<Rightarrow> Inr (Some (f, sig)))"

definition MLton_SIGALRM :: "sigHandlers \<Rightarrow> (nat \<times> int) option res" where
  "MLton_SIGALRM h = timerSignal (SIGALRM_handler h) 14 ''alarm''"

definition MLton_SIGVTAM :: "sigHandlers \<Rightarrow> (nat \<times> int) option res" where
  "MLton_SIGVTAM h = timerSignal (SIGVTAM_handler h) 29 ''vtalarm''"

definition MLton_SIGPROF :: "sigHandlers \<Rightarrow> (nat \<times> int) option res" where
  "MLton_SIGPROF h = timerSignal (SIGPROF_handler h) 30 ''sigprof''"

section \<open>Processes, pipes, files, environment\<close>

abbreviation (input) SIGNALLED_BIT :: "32 word" where "SIGNALLED_BIT \<equiv> 0x80000000"

text \<open>\<open>kill\<close> ends a process with an exit code (the parameter says if Windows does it) that \<open>waitpid\<close> finds.\<close>

definition kill :: "bool \<Rightarrow> 32 word \<Rightarrow> (32 word) posix" where
  "kill terminated sig = (if terminated then Inr (SIGNALLED_BIT OR sig) else Inl ECHILD)"

datatype waitResult = WAIT_OBJECT_0 | WAIT_TIMEOUT | WAIT_FAILED

definition waitpid :: "(nat \<Rightarrow> waitResult) \<Rightarrow> (32 word) option \<Rightarrow> int \<Rightarrow> int \<Rightarrow> (int \<times> (32 word) option) posix" where
  "waitpid waitFor exitCode pid opts =
     (let delay = (if odd opts then 0 else 4294967295)
      in case waitFor delay of
           WAIT_OBJECT_0 \<Rightarrow>
             (case exitCode of None \<Rightarrow> Inl ECHILD | Some status \<Rightarrow> Inr (pid, Some status))
         | WAIT_TIMEOUT \<Rightarrow> Inr (0, None)
         | WAIT_FAILED \<Rightarrow> Inl ECHILD)"

definition WIFEXITED :: "32 word \<Rightarrow> bool" where "WIFEXITED w \<longleftrightarrow> w AND SIGNALLED_BIT = 0"
definition WIFSIGNALED :: "32 word \<Rightarrow> bool" where "WIFSIGNALED w \<longleftrightarrow> w AND SIGNALLED_BIT \<noteq> 0"
definition WEXITSTATUS :: "32 word \<Rightarrow> 32 word" where "WEXITSTATUS w = w AND 0xff"

text \<open>\<open>pipe\<close>: the handles, the descriptors made of them, and what it closes when one cannot be made.\<close>

datatype closing = CloseHandle nat | CloseFd int

definition pipe :: "(nat \<times> nat) option \<Rightarrow> (nat \<Rightarrow> int) \<Rightarrow> (int \<times> int) posix \<times> closing list" where
  "pipe created openHandle =
     (case created of
        None \<Rightarrow> (Inl ENOMEM, [])
      | Some (read_h, write_h) \<Rightarrow>
          (let fd0 = openHandle read_h; fd1 = openHandle write_h
           in if fd0 = - 1 \<or> fd1 = - 1 then
                (Inl ENFILE, [if fd0 = - 1 then CloseHandle read_h else CloseFd fd0,
                              if fd1 = - 1 then CloseHandle write_h else CloseFd fd1])
              else (Inr (fd0, fd1), [])))"

text \<open>\<open>truncate\<close>: the descriptor of the file (\<open>-1\<close> for none), whether \<open>ftruncate\<close> fails; what is returned and closed.\<close>

definition mingw_truncate :: "int \<Rightarrow> int \<Rightarrow> int \<times> closing list" where
  "mingw_truncate fd ftruncate =
     (if fd = - 1 then (- 1, [])
      else if ftruncate < 0 then (- 1, [CloseFd fd])
      else (0, [CloseFd fd]))"

text \<open>\<open>SetEnvironmentVariable\<close> returns nonzero when it succeeds; the code takes that for the failure.\<close>

definition setenv :: "(string \<Rightarrow> string option) \<Rightarrow> (string \<Rightarrow> string \<Rightarrow> int) \<Rightarrow> string \<Rightarrow> string \<Rightarrow> bool \<Rightarrow> unit posix" where
  "setenv env setEnvironmentVariable name v overwrite =
     (if \<not> overwrite \<and> env name \<noteq> None then Inl EEXIST
      else if setEnvironmentVariable name v \<noteq> 0 then Inl ENOMEM
      else Inr ())"

text \<open>The milliseconds (\<open>time_t\<close> has 64 bits) that \<open>nanosleep\<close> and \<open>sleep\<close> hand to \<open>Sleep\<close>.\<close>

definition nanosleepMillis :: "int \<Rightarrow> int \<Rightarrow> nat res" where
  "nanosleepMillis sec nsec =
     bindE (int64 (sec * 1000)) (\<lambda>s.
     bindE (int32 (nsec + 999999)) (\<lambda>n.
     bindE (int64 (s + n sdiv 1000000)) (\<lambda>ms. Inr (unat (word_of_int ms :: 32 word)))))"

definition sleepMillis :: "32 word \<Rightarrow> nat" where
  "sleepMillis seconds = unat (seconds * 1000)"

section \<open>Errors of sockets\<close>

text \<open>
  The constants of Winsock and the values of \<open>errno\<close>, by name; the codes for which the program is stopped,
  with the message.
\<close>

definition socketErrnos :: "(string \<times> string) list" where
  "socketErrnos = [
    (''NO_ERROR'', ''0''), (''WSAEINTR'', ''EINTR''), (''WSAEBADF'', ''EBADF''), (''WSAEACCES'', ''EACCES''),
    (''WSAEFAULT'', ''EFAULT''), (''WSAEINVAL'', ''EINVAL''), (''WSAEMFILE'', ''EMFILE''),
    (''WSAEWOULDBLOCK'', ''EWOULDBLOCK''), (''WSAEINPROGRESS'', ''EINPROGRESS''),
    (''WSAEALREADY'', ''EALREADY''), (''WSAENOTSOCK'', ''ENOTSOCK''),
    (''WSAEDESTADDRREQ'', ''EDESTADDRREQ''), (''WSAEMSGSIZE'', ''EMSGSIZE''),
    (''WSAEPROTOTYPE'', ''EPROTOTYPE''), (''WSAENOPROTOOPT'', ''ENOPROTOOPT''),
    (''WSAEPROTONOSUPPORT'', ''EPROTONOSUPPORT''), (''WSAESOCKTNOSUPPORT'', ''ESOCKTNOSUPPORT''),
    (''WSAEOPNOTSUPP'', ''EOPNOTSUPP''), (''WSAEPFNOSUPPORT'', ''EPFNOSUPPORT''),
    (''WSAEAFNOSUPPORT'', ''EAFNOSUPPORT''), (''WSAEADDRINUSE'', ''EADDRINUSE''),
    (''WSAEADDRNOTAVAIL'', ''EADDRNOTAVAIL''), (''WSAENETDOWN'', ''ENETDOWN''),
    (''WSAENETUNREACH'', ''ENETUNREACH''), (''WSAENETRESET'', ''ENETRESET''),
    (''WSAECONNABORTED'', ''ECONNABORTED''), (''WSAECONNRESET'', ''ECONNRESET''),
    (''WSAENOBUFS'', ''ENOBUFS''), (''WSAEISCONN'', ''EISCONN''), (''WSAENOTCONN'', ''ENOTCONN''),
    (''WSAESHUTDOWN'', ''ESHUTDOWN''), (''WSAETIMEDOUT'', ''ETIMEDOUT''),
    (''WSAECONNREFUSED'', ''ECONNREFUSED''), (''WSAELOOP'', ''ELOOP''),
    (''WSAENAMETOOLONG'', ''ENAMETOOLONG''), (''WSAEHOSTDOWN'', ''EHOSTDOWN''),
    (''WSAEHOSTUNREACH'', ''EHOSTUNREACH''), (''WSAENOTEMPTY'', ''ENOTEMPTY''), (''WSAEDQUOT'', ''EDQUOT''),
    (''WSAESTALE'', ''ESTALE''), (''WSAEREMOTE'', ''EREMOTE''), (''WSAEUSERS'', ''EUSERS''),
    (''WSAECANCELLED'', ''ECANCELED''), (''WSA_E_CANCELLED'', ''ECANCELED''), (''WSAEPROCLIM'', ''EBUSY''),
    (''WSAETOOMANYREFS'', ''ENOMEM''), (''WSAEDISCON'', ''ESHUTDOWN''), (''WSA_E_NO_MORE'', ''EIO''),
    (''WSAENOMORE'', ''EIO''), (''WSASYSCALLFAILURE'', ''EIO'')
    ]"

definition socketFatal :: "(string \<times> string) list" where
  "socketFatal = [
    (''WSASYSNOTREADY'', ''Problem loading winsock''), (''WSAVERNOTSUPPORTED'', ''Problem loading winsock''),
    (''WSANOTINITIALISED'', ''Problem loading winsock''),
    (''WSAEINVALIDPROCTABLE'', ''Problem loading winsock''),
    (''WSAEINVALIDPROVIDER'', ''Problem loading winsock''),
    (''WSAEPROVIDERFAILEDINIT'', ''Problem loading winsock''),
    (''WSASERVICE_NOT_FOUND'', ''Problem loading winsock''),
    (''WSATYPE_NOT_FOUND'', ''Problem loading winsock''),
    (''WSAEREFUSED'', ''Strange winsock specific status code''),
    (''WSAHOST_NOT_FOUND'', ''Strange winsock specific status code''),
    (''WSATRY_AGAIN'', ''Strange winsock specific status code''),
    (''WSANO_RECOVERY'', ''Strange winsock specific status code''),
    (''WSANO_DATA'', ''Strange winsock specific status code'')
    ]"

definition MLton_fixSocketErrno :: "string \<Rightarrow> string res" where
  "MLton_fixSocketErrno status =
     (case map_of socketErrnos status of
        Some e \<Rightarrow> Inr e
      | None \<Rightarrow>
          (case map_of socketFatal status of
             Some msg \<Rightarrow> Inl (Die msg)
           | None \<Rightarrow> Inl (Die ''Unknown winsock status code'')))"

definition strerrorExtensions :: "(string \<times> string) list" where
  "strerrorExtensions = [
    (''EINTR'', ''Interrupted function call''), (''EBADF'', ''Bad file descriptor''),
    (''EACCES'', ''Permission denied''), (''EFAULT'', ''Bad address''), (''EINVAL'', ''Invalid argument''),
    (''EMFILE'', ''Too many open files''), (''EAGAIN'', ''Resource temporarily unavailable''),
    (''EINPROGRESS'', ''Operation in progress''), (''EALREADY'', ''Connection already in progress''),
    (''ENOTSOCK'', ''Not a socket''), (''EDESTADDRREQ'', ''Destination address required''),
    (''EMSGSIZE'', ''Message too long''), (''EPROTOTYPE'', ''Protocol wrong type for socket''),
    (''ENOPROTOOPT'', ''Protocol not available''), (''EPROTONOSUPPORT'', ''Protocol not supported''),
    (''ESOCKTNOSUPPORT'', ''Socket type not supported''),
    (''EOPNOTSUPP'', ''Operation not supported on socket''),
    (''EPFNOSUPPORT'', ''Protocol family not supported''),
    (''EAFNOSUPPORT'', ''Address family not supported''), (''EADDRINUSE'', ''Address already in use''),
    (''EADDRNOTAVAIL'', ''Address not available''), (''ENETDOWN'', ''Network is down''),
    (''ENETUNREACH'', ''Network unreachable''), (''ENETRESET'', ''Connection aborted by network''),
    (''ECONNABORTED'', ''Connection aborted''), (''ECONNRESET'', ''Connection reset''),
    (''ENOBUFS'', ''No buffer space available''), (''EISCONN'', ''Socket is connected''),
    (''ENOTCONN'', ''The socket is not connected''),
    (''ESHUTDOWN'', ''Cannot send after transport endpoint shutdown''),
    (''ETIMEDOUT'', ''Connection timed out''), (''ECONNREFUSED'', ''Connection refused''),
    (''ELOOP'', ''Too many levels of symbolic links''), (''ENAMETOOLONG'', ''Filename too long''),
    (''EHOSTDOWN'', ''Host is down''), (''EHOSTUNREACH'', ''Host is unreachable''),
    (''ENOTEMPTY'', ''Directory not empty''), (''EDQUOT'', ''Disk quota exceeded''),
    (''ESTALE'', ''Stale file handle''), (''EREMOTE'', ''Object is remote''),
    (''EUSERS'', ''Too many users''), (''ECANCELED'', ''Operation canceled'')
    ]"

definition MLton_strerrorExtension :: "string \<Rightarrow> string" where
  "MLton_strerrorExtension code =
     (case map_of strerrorExtensions code of Some msg \<Rightarrow> msg | None \<Rightarrow> ''Unknown error'')"

text \<open>The errors that the C library knows (below \<open>sys_nerr\<close>) it describes itself; the parameter names the others.\<close>

definition MLton_strerror :: "int \<Rightarrow> (int \<Rightarrow> string) \<Rightarrow> (int \<Rightarrow> string) \<Rightarrow> int \<Rightarrow> string" where
  "MLton_strerror sys_nerr c_strerror errnoName code =
     (if code < sys_nerr then c_strerror code else MLton_strerrorExtension (errnoName code))"

text \<open>
  \<open>recv\<close> with \<open>MSG_DONTWAIT\<close> emulated: the socket is made non-blocking for the call, and the error
  of the call survives the call that makes it blocking again. The parameter is the answer of \<open>recv\<close> (with the
  status it sets), given whether the socket is non-blocking; the result has the mode the socket is left in.
\<close>

definition MLton_recv :: "(bool \<Rightarrow> int \<times> nat) \<Rightarrow> bool \<Rightarrow> bool \<Rightarrow> int \<times> nat option \<times> bool" where
  "MLton_recv recv dontWait nonBlocking =
     (let nonBlocking = (if dontWait then True else nonBlocking);
          (ret, status) = recv nonBlocking;
          nonBlocking = (if dontWait then False else nonBlocking)
      in (ret, if ret = - 1 then Some status else None, nonBlocking))"

text \<open>Winsock is started once: whether it is, and how often \<open>WSAStartup\<close> was called.\<close>

definition MLton_initSockets :: "bool \<times> nat \<Rightarrow> bool \<times> nat" where
  "MLton_initSockets i = (if fst i then i else (True, Suc (snd i)))"

section \<open>The name of the system\<close>

datatype processorArchitecture = INTEL | IA64 | AMD64 | PPC | ALPHA | MIPS | ARM | ALPHA64 | OtherArchitecture

definition setMachine :: "processorArchitecture \<Rightarrow> int \<Rightarrow> string" where
  "setMachine arch level =
     (case arch of
        INTEL \<Rightarrow>
          (let level = (if level < 3 then 3 else level);
               level = (if level > 6 then 6 else level)
           in ''i'' @ showInt level @ ''86'')
      | IA64 \<Rightarrow> ''ia64'' | AMD64 \<Rightarrow> ''amd64'' | PPC \<Rightarrow> ''ppc'' | ALPHA \<Rightarrow> ''alpha'' | MIPS \<Rightarrow> ''mips''
      | ARM \<Rightarrow> ''arm'' | ALPHA64 \<Rightarrow> ''alpha64'' | OtherArchitecture \<Rightarrow> ''unknown'')"

datatype platformId = WIN32_NT | WIN32_WINDOWS | WIN32s | OtherPlatform

record OSVERSIONINFOEX =
  dwMajorVersion :: nat
  dwMinorVersion :: nat
  dwPlatformId :: platformId
  workstation :: bool

text \<open>\<open>_WIN64\<close> or not; the architecture matters to 32-bit programs only.\<close>

definition systemNT :: "bool \<Rightarrow> processorArchitecture \<Rightarrow> OSVERSIONINFOEX \<Rightarrow> string" where
  "systemNT win64 arch osv =
     (if win64 then
        (if dwMinorVersion osv = 0 then
           (if dwMajorVersion osv \<le> 6 then (if workstation osv then ''Vista_64'' else ''2008_64'') else ''NTx_64'')
         else if dwMinorVersion osv \<le> 2 then ''XP_64''
         else ''NTx_64'')
      else
        (if dwMinorVersion osv = 0 then
           (if dwMajorVersion osv \<le> 4 then ''NT''
            else if dwMajorVersion osv \<le> 5 then ''2000''
            else if workstation osv then (if arch = AMD64 then ''Vista_WOW64'' else ''Vista'')
            else (if arch = AMD64 then ''2008'' else ''2008_WOW64''))
         else if dwMinorVersion osv \<le> 1 then ''XP''
         else if dwMinorVersion osv \<le> 2 then (if arch = AMD64 then ''XP_WOW64'' else ''2003'')
         else ''NTx''))"

definition setSysname :: "bool \<Rightarrow> processorArchitecture \<Rightarrow> OSVERSIONINFOEX \<Rightarrow> string" where
  "setSysname win64 arch osv =
     (let os =
        (case dwPlatformId osv of
           WIN32_NT \<Rightarrow> systemNT win64 arch osv
         | WIN32_WINDOWS \<Rightarrow>
             (if dwMinorVersion osv = 0 then ''95''
              else if dwMinorVersion osv < 90 then ''98''
              else if dwMinorVersion osv = 90 then ''Me''
              else ''9X'')
         | WIN32s \<Rightarrow> ''31''
         | OtherPlatform \<Rightarrow> ''unknown'')
      in (if win64 then ''MINGW64'' else ''MINGW32'') @ ''_'' @ os @ ''-'' @ showInt (int (dwMajorVersion osv)) @
         ''.'' @ showInt (int (dwMinorVersion osv)))"

text \<open>Windows 7 and 8 have the versions 6.1 and 6.2: to a 64-bit program they are XP.\<close>

lemma setSysname_modern:
  "dwMajorVersion osv = 6 \<Longrightarrow> dwMinorVersion osv \<in> {1, 2} \<Longrightarrow> systemNT True arch osv = ''XP_64''"
  by (auto simp: systemNT_def)

section \<open>The log\<close>

record logState =
  logident :: string
  logopt :: nat
  logfacility :: nat

definition openlog :: "string \<Rightarrow> nat \<Rightarrow> nat \<Rightarrow> logState \<Rightarrow> logState" where
  "openlog ident opt facility l = l\<lparr>logident := ident, logopt := opt, logfacility := facility\<rparr>"

definition severityNames :: "string list" where
  "severityNames = [''debug'', ''informational'', ''notice'', ''warning'', ''error'', ''CRITICAL'', ''ALERT'', ''EMERGENCY'']"

text \<open>The line on the standard error, if there is one.\<close>

definition syslog :: "int \<Rightarrow> int \<Rightarrow> string \<Rightarrow> logState \<Rightarrow> string option" where
  "syslog pid priority msg l =
     (let priority = (if priority < 0 then 0 else priority);
          priority = (if priority > 7 then 7 else priority);
          severity = severityNames ! nat priority
      in if odd (logopt l div 32) then
           Some (if odd (logopt l)
                 then logident l @ ''('' @ showInt pid @ ''): '' @ severity @ '': '' @ msg @ [char_of (10 :: nat)]
                 else logident l @ '': '' @ severity @ '': '' @ msg @ [char_of (10 :: nat)])
         else None)"


section \<open>The clock does not go back\<close>

text \<open>A series of calls.\<close>

fun clockRun :: "int \<Rightarrow> WinReading list \<Rightarrow> WinTime \<Rightarrow> timeval list res" where
  "clockRun freq [] w = Inr []"
| "clockRun freq (r # rs) w =
     bindE (gettimeofday freq r w) (\<lambda>(tv, w). bindE (clockRun freq rs w) (\<lambda>tvs. Inr (tv # tvs)))"

lemma counterMicros_mono:
  assumes "0 \<le> baseMicroSeconds w" "0 < frequency w" "0 \<le> d" "d \<le> e"
  shows "0 \<le> counterMicros w d \<and> counterMicros w d \<le> counterMicros w e"
proof -
  let ?f = "dbl (of_int (frequency w))" and ?b = "dbl (of_int (baseMicroSeconds w))"
  have f: "0 \<le> ?f" and b: "0 \<le> ?b" using assms by (simp_all add: rnd_nonneg)
  have 1: "0 \<le> dbl (of_int d)" "dbl (of_int d) \<le> dbl (of_int e)"
    using assms by (simp_all add: rnd_nonneg rnd_mono)
  have 2: "0 \<le> dbl (dbl (of_int d) / ?f)" "dbl (dbl (of_int d) / ?f) \<le> dbl (dbl (of_int e) / ?f)"
    using 1 f by (simp_all add: rnd_nonneg rnd_mono divide_right_mono)
  have 3: "0 \<le> dbl (dbl (dbl (of_int d) / ?f) * 1000000)"
     "dbl (dbl (dbl (of_int d) / ?f) * 1000000) \<le> dbl (dbl (dbl (of_int e) / ?f) * 1000000)"
    using 2 by (simp_all add: rnd_nonneg rnd_mono)
  have "0 \<le> dbl (?b + dbl (dbl (dbl (of_int d) / ?f) * 1000000))"
     "dbl (?b + dbl (dbl (dbl (of_int d) / ?f) * 1000000)) \<le> dbl (?b + dbl (dbl (dbl (of_int e) / ?f) * 1000000))"
    using 3 b by (simp_all add: rnd_nonneg rnd_mono)
  then show ?thesis unfolding counterMicros_def Let_def truncate_real_def by (simp add: floor_mono)
qed

lemma toLong_small: "0 \<le> x \<Longrightarrow> x < 2147483648 \<Longrightarrow> toLong x = x"
  by (simp add: toLong_def sint_sbintrunc' signed_take_bit_int_eq_self)

text \<open>A call when the clock is set up and the counter slow: the state stays, the time is the counter's.\<close>

definition slow_clock :: "WinTime \<Rightarrow> bool" where
  "slow_clock w \<longleftrightarrow> 0 < frequency w \<and> frequency w < 2 ^ 32 \<and> 0 \<le> baseMicroSeconds w \<and> 0 \<le> baseCounter w"

lemma gettimeofday_slow:
  assumes w: "slow_clock w" and c: "baseCounter w \<le> now_counter r" "now_counter r < 2 ^ 63"
    and y: "counterMicros w (now_counter r - baseCounter w) < 2147483648 * 1000000"
  obtains tv where "gettimeofday freq r w = Inr (tv, w)" "0 \<le> tv_usec tv" "tv_usec tv < 1000000"
    "micros tv = counterMicros w (now_counter r - baseCounter w)"
proof -
  define d where "d = now_counter r - baseCounter w"
  define n where "n = counterMicros w d"
  have d: "0 \<le> d" "d < 2 ^ 63" using c w unfolding d_def slow_clock_def by auto
  then have d': "int64 d = Inr d" by (simp add: int64_def fits_def)
  have n: "0 \<le> n" using counterMicros_mono [of w d d] w d unfolding n_def slow_clock_def by simp
  have n63: "n < 2147483648 * 1000000" using y unfolding n_def d_def .
  then have n': "int64 n = Inr n" using n by (simp add: int64_def fits_def)
  have q: "n sdiv 1000000 = n div 1000000" "n smod 1000000 = n mod 1000000"
    using n truncating_pos by simp_all
  have l: "toLong (n div 1000000) = n div 1000000" "toLong (n mod 1000000) = n mod 1000000"
    using n n63 by (auto intro!: toLong_small)
  have z: "frequency w div 2 ^ 32 = 0" "frequency w \<noteq> 0" using w unfolding slow_clock_def by auto
  have "gettimeofday freq r w = Inr (\<lparr>tv_sec = n div 1000000, tv_usec = n mod 1000000\<rparr>, w)"
    using z d' n' q l d_def [symmetric] n_def [symmetric]
    by (simp add: gettimeofday_def initTime_def rebaseTime_def)
  moreover have "micros \<lparr>tv_sec = n div 1000000, tv_usec = n mod 1000000\<rparr> = n" by (simp add: micros_def)
  ultimately show thesis using that unfolding n_def d_def by fastforce
qed

lemma clockRun_slow:
  assumes w: "slow_clock w" and s: "sorted (map now_counter rs)"
    and c: "\<forall>r \<in> set rs. baseCounter w \<le> now_counter r \<and> now_counter r < 2 ^ 63 \<and>
      counterMicros w (now_counter r - baseCounter w) < 2147483648 * 1000000"
  shows "\<exists>tvs. clockRun freq rs w = Inr tvs \<and> sorted (map micros tvs) \<and> (\<forall>tv \<in> set tvs. tv_ok tv) \<and>
    map micros tvs = map (\<lambda>r. counterMicros w (now_counter r - baseCounter w)) rs"
  using s c
proof (induction rs)
  case Nil
  then show ?case by simp
next
  case (Cons r rs)
  obtain tv where tv: "gettimeofday freq r w = Inr (tv, w)" "0 \<le> tv_usec tv" "tv_usec tv < 1000000"
    "micros tv = counterMicros w (now_counter r - baseCounter w)"
    using gettimeofday_slow [OF w, of r freq thesis] Cons.prems by auto
  obtain tvs where tvs: "clockRun freq rs w = Inr tvs" "sorted (map micros tvs)" "\<forall>tv \<in> set tvs. tv_ok tv"
    "map micros tvs = map (\<lambda>r. counterMicros w (now_counter r - baseCounter w)) rs"
    using Cons by auto
  have "micros tv \<le> t" if t: "t \<in> set (map micros tvs)" for t
  proof -
    from t obtain r' where r': "r' \<in> set rs" "t = counterMicros w (now_counter r' - baseCounter w)"
      unfolding tvs(4) by auto
    have "now_counter r \<le> now_counter r'" "baseCounter w \<le> now_counter r" using r' Cons.prems by auto
    then show ?thesis
      using counterMicros_mono [of w "now_counter r - baseCounter w" "now_counter r' - baseCounter w"] w r' tv(4)
      unfolding slow_clock_def by simp
  qed
  then show ?case using tv tvs by (simp add: tv_ok_def)
qed



section \<open>Timers: a request is never dropped\<close>

definition tv_request :: "timeval \<Rightarrow> bool" where
  "tv_request tv \<longleftrightarrow> 0 \<le> tv_sec tv \<and> tv_sec tv < 2147483 \<and> tv_ok tv"

lemma timerMillis_request:
  assumes "tv_request tv"
  obtains ms where "timerMillis tv = Inr ms" "micros tv \<le> 1000 * int ms" "1000 * int ms < micros tv + 1000"
proof -
  define m where "m = tv_sec tv * 1000 + (tv_usec tv + 999) div 1000"
  have b: "0 \<le> tv_sec tv" "tv_sec tv \<le> 2147482" "0 \<le> tv_usec tv" "tv_usec tv < 1000000"
    using assms by (auto simp: tv_request_def tv_ok_def)
  then have d: "(tv_usec tv + 999) sdiv 1000 = (tv_usec tv + 999) div 1000"
    by (simp add: signed_divide_int_def sgn_if)
  have m: "0 \<le> m" "m < 2147483648" using b unfolding m_def by auto
  have w: "unat (word_of_int m :: 32 word) = nat m"
    using m by (simp add: unat_eq_nat_uint uint_word_of_int)
  have "timerMillis tv = Inr (nat m)"
    using b m d w by (simp add: timerMillis_def int32_def fits_def m_def)
  moreover have "micros tv \<le> 1000 * int (nat m)" "1000 * int (nat m) < micros tv + 1000"
    using m(1) unfolding micros_def m_def by simp_all
  ultimately show thesis using that by blast
qed

lemma timers_simps [simp]:
  "timerOf j (setTimer i h t) = (if j = i then h else timerOf j t)"
  "timerCalls (setTimer i h t) = timerCalls t"
  "timerOf j (timerCall c t) = timerOf j t"
  "timerCalls (timerCall c t) = timerCalls t @ [c]"
  by (cases i; cases j; simp add: timerOf_def setTimer_def timerCall_def)+

text \<open>
  C23: for times of at most 24 days, on a Windows that gives handles, \<open>setitimer\<close> succeeds; a request of zero
  leaves the timer disarmed and starts none; any other request, however short, deletes the timer's old handle and
  arms it again, after the requested time rounded up to less than a millisecond more, with the period so rounded too.
  The other two timers stay.
\<close>

theorem setitimer_arms:
  assumes "tv_request (it_value v)" "tv_request (it_interval v)" "which = 0 \<and> i = ITIMER_REAL \<or> which = 1 \<and> i = ITIMER_VIRT \<or> which = 2 \<and> i = ITIMER_PROF"
    "w_createQueue os \<noteq> None" "w_mainThread os \<noteq> None" "w_createTimer os = Some h"
  shows "\<exists>t' calls. setitimer os which v False t = Inr (Inr (), t') \<and>
    (\<forall>j. j \<noteq> i \<longrightarrow> timerOf j t' = timerOf j t) \<and>
    (if micros (it_value v) = 0 then timerOf i t' = None \<and> timerCalls t' = timerCalls t @ calls @ [DeleteTimerQueueTimer (timerOf i t)]
     else timerOf i t' = Some h \<and> (\<exists>due period.
       timerCalls t' = timerCalls t @ calls @ [DeleteTimerQueueTimer (timerOf i t), CreateTimerQueueTimer i due period] \<and>
       due \<noteq> 0 \<and> micros (it_value v) \<le> 1000 * int due \<and> 1000 * int due < micros (it_value v) + 1000 \<and>
       micros (it_interval v) \<le> 1000 * int period \<and> 1000 * int period < micros (it_interval v) + 1000)) \<and>
    (calls = [] \<longleftrightarrow> mainThread t \<noteq> None)"
proof -
  obtain due where due: "timerMillis (it_value v) = Inr due" "micros (it_value v) \<le> 1000 * int due"
    "1000 * int due < micros (it_value v) + 1000" using timerMillis_request assms(1) by blast
  obtain per where per: "timerMillis (it_interval v) = Inr per" "micros (it_interval v) \<le> 1000 * int per"
    "1000 * int per < micros (it_interval v) + 1000" using timerMillis_request assms(2) by blast
  have z: "due = 0 \<longleftrightarrow> micros (it_value v) = 0"
    using due(2,3) assms(1) by (auto simp: tv_request_def tv_ok_def micros_def)
  define cs where "cs = (if mainThread t = None then [TimeBeginPeriod, CreateTimerQueue, CreatePrioTimer, DuplicateMainThread] else [])"
  define t1 where "t1 = (if mainThread t = None
    then t\<lparr>timerQueue := w_createQueue os, mainThread := w_mainThread os, timerCalls := timerCalls t @ cs\<rparr> else t)"
  have t1: "initTimerQueue os t = Inr (Inr (), t1)" "timerCalls t1 = timerCalls t @ cs"
    using assms(4,5) by (auto simp: t1_def initTimerQueue_def timerCall_def cs_def Let_def)
  have t1': "timerOf j t1 = timerOf j t" for j by (cases j) (simp_all add: t1_def timerOf_def)
  have s: "setitimer os which v False t = MLTimer os i v t" using assms(3) by (auto simp: setitimer_def)
  show ?thesis
  proof (cases "due = 0")
    case True
    then have "setitimer os which v False t =
        Inr (Inr (), setTimer i None (timerCall (DeleteTimerQueueTimer (timerOf i t)) t1))"
      unfolding s MLTimer_def using t1 t1' due per by simp
    then show ?thesis using True z t1(2) t1'
      by (intro exI [of _ "setTimer i None (timerCall (DeleteTimerQueueTimer (timerOf i t)) t1)"] exI [of _ cs])
         (simp add: cs_def)
  next
    case False
    define t2 where "t2 = setTimer i (Some h) (timerCall (CreateTimerQueueTimer i due per)
        (setTimer i None (timerCall (DeleteTimerQueueTimer (timerOf i t)) t1)))"
    have "setitimer os which v False t = Inr (Inr (), t2)"
      unfolding s MLTimer_def t2_def using t1 t1' due per False assms(6) by simp
    moreover have "timerOf j t2 = (if j = i then Some h else timerOf j t)" for j
      by (simp add: t2_def t1')
    moreover have "timerCalls t2 = timerCalls t @ cs @ [DeleteTimerQueueTimer (timerOf i t), CreateTimerQueueTimer i due per]"
      by (simp add: t2_def t1(2))
    ultimately show ?thesis using False z due per
      by (intro exI [of _ t2] exI [of _ cs]) (auto simp: cs_def)
  qed
qed

text \<open>An alarm in three seconds, with a profiling timer running.\<close>

theorem setitimer_arms_witness:
  "\<exists>t'. setitimer \<lparr>w_createQueue = Some 1, w_mainThread = Some 2, w_createTimer = Some 5\<rparr> 0
      \<lparr>it_interval = \<lparr>tv_sec = 0, tv_usec = 0\<rparr>, it_value = \<lparr>tv_sec = 3, tv_usec = 0\<rparr>\<rparr> False
      \<lparr>mainThread = None, timerQueue = None, realTimer = None, virtTimer = None, profTimer = Some 4, timerCalls = []\<rparr> =
        Inr (Inr (), t') \<and> timerOf ITIMER_REAL t' = Some 5 \<and> timerOf ITIMER_PROF t' = Some 4"
proof -
  let ?v = "\<lparr>it_interval = \<lparr>tv_sec = 0, tv_usec = 0\<rparr>, it_value = \<lparr>tv_sec = 3, tv_usec = 0\<rparr>\<rparr>"
  have r: "tv_request (it_value ?v)" "tv_request (it_interval ?v)" by (simp_all add: tv_request_def tv_ok_def)
  have m: "micros (it_value ?v) \<noteq> 0" by (simp add: micros_def)
  have p: "timerOf ITIMER_PROF \<lparr>mainThread = None, timerQueue = None, realTimer = None, virtTimer = None, profTimer = Some 4, timerCalls = []\<rparr> = Some 4"
    by (simp add: timerOf_def)
  have d: "ITIMER_PROF \<noteq> ITIMER_REAL" by simp
  from setitimer_arms [OF r, of 0 ITIMER_REAL
      "\<lparr>w_createQueue = Some 1, w_mainThread = Some 2, w_createTimer = Some 5\<rparr>" 5
      "\<lparr>mainThread = None, timerQueue = None, realTimer = None, virtTimer = None, profTimer = Some 4, timerCalls = []\<rparr>"]
    m p d show ?thesis by auto
qed

section \<open>Sets of signals\<close>

text \<open>The signals in a word.\<close>

definition sigs :: "sigset_t \<Rightarrow> int set" where
  "sigs st = {s. 1 \<le> s \<and> s < NSIG \<and> bit st (nat (s - 1))}"

lemma SIGTOMASK_ok: "1 \<le> s \<Longrightarrow> s < NSIG \<Longrightarrow> SIGTOMASK s = Inr (push_bit (nat (s - 1)) 1)"
  by (simp add: SIGTOMASK_def)

lemma bit_mask_signal:
  "1 \<le> s \<Longrightarrow> s < NSIG \<Longrightarrow> 1 \<le> q \<Longrightarrow> q < NSIG \<Longrightarrow>
    bit (push_bit (nat (s - 1)) 1 :: sigset_t) (nat (q - 1)) \<longleftrightarrow> q = s"
  by (auto simp: bit_exp_iff)

lemma sigs_ops:
  "sigs (a OR b) = sigs a \<union> sigs b" "sigs (a AND b) = sigs a \<inter> sigs b" "sigs (NOT a) = {1..<NSIG} - sigs a"
  "sigs 0 = {}" "sigs (- 1) = {1..<NSIG}"
  by (auto simp: sigs_def bit_or_iff bit_and_iff bit_not_iff)

lemma sigs_range: "x \<in> sigs st \<Longrightarrow> 1 \<le> x \<and> x < NSIG"
  by (simp add: sigs_def)

lemma sigs_mask: "1 \<le> s \<Longrightarrow> s < NSIG \<Longrightarrow> sigs (push_bit (nat (s - 1)) 1) = {s}"
  unfolding sigs_def using bit_mask_signal by auto

lemma sigismember_mask:
  assumes "1 \<le> s" "s < NSIG"
  shows "st AND push_bit (nat (s - 1)) 1 \<noteq> 0 \<longleftrightarrow> s \<in> sigs st"
proof -
  have "st AND push_bit (nat (s - 1)) 1 \<noteq> 0 \<longleftrightarrow> bit st (nat (s - 1))"
    unfolding push_bit_of_1 and_exp_eq_0_iff_not_bit by simp
  then show ?thesis using assms unfolding sigs_def by simp
qed

text \<open>
  C22: on signals that exist, the operations on words of 32 bits are those on sets of signals: adding, deleting,
  membership, the empty and the full set, and the three ways to change the mask of the process; a number that is
  no signal is refused, and 0, which the guards admit, shifts by \<open>-1\<close>.
\<close>

theorem sigset_refines:
  assumes "1 \<le> s" "s < NSIG"
  shows "(\<exists>r. sigaddset st s = Inr (Inr r) \<and> sigs r = insert s (sigs st)) \<and>
    (\<exists>r. sigdelset st s = Inr (Inr r) \<and> sigs r = sigs st - {s}) \<and>
    sigismember st s = Inr (Inr (s \<in> sigs st)) \<and>
    sigs sigemptyset = {} \<and> sigs sigfillset = {1..<NSIG} \<and>
    (\<exists>r. sigprocmask 1 (Some st) blocked = (Some (), r) \<and> sigs r = sigs blocked \<union> sigs st) \<and>
    (\<exists>r. sigprocmask 2 (Some st) blocked = (Some (), r) \<and> sigs r = sigs blocked - sigs st) \<and>
    (\<exists>r. sigprocmask 0 (Some st) blocked = (Some (), r) \<and> sigs r = sigs st) \<and>
    sigaddset st (s - NSIG) = Inr (Inl EINVAL) \<and> sigismember st (s + NSIG) = Inr (Inl EINVAL) \<and>
    sigaddset st 0 = Inl Undefined"
proof -
  have add: "sigaddset st s = Inr (Inr (st OR push_bit (nat (s - 1)) 1))"
    using assms by (simp add: sigaddset_def SIGTOMASK_ok)
  have del: "sigdelset st s = Inr (Inr (st AND NOT (push_bit (nat (s - 1)) 1)))"
    using assms by (simp add: sigdelset_def SIGTOMASK_ok)
  have mem: "sigismember st s = Inr (Inr (s \<in> sigs st))"
    using assms by (simp add: sigismember_def SIGTOMASK_ok sigismember_mask [unfolded push_bit_of_1])
  have zero: "sigaddset st 0 = Inl Undefined" by (simp add: sigaddset_def SIGTOMASK_def)
  have out: "sigaddset st (s - NSIG) = Inr (Inl EINVAL)" "sigismember st (s + NSIG) = Inr (Inl EINVAL)"
    using assms by (simp_all add: sigaddset_def sigismember_def)
  show ?thesis
    unfolding add del mem zero out
    by (auto simp: sigs_ops sigs_mask [unfolded push_bit_of_1] assms sigemptyset_def sigfillset_def sigprocmask_def
      dest: sigs_range)
qed

text \<open>The set with the signal of the alarm only, and a mask with the interrupt.\<close>

theorem sigset_refines_witness:
  "\<exists>r. sigaddset 0 14 = Inr (Inr r) \<and> sigs r = {14} \<and> (\<exists>m. sigprocmask 1 (Some 0) 2 = (Some (), m) \<and> sigs m = sigs 2)"
  using sigset_refines [of 14 0 2] by (simp add: sigs_ops(4))

text \<open>Other round trips: a limit that is set is the one got, a killed process is seen as such.\<close>

lemma setrlimit_getrlimit:
  assumes "setrlimit i l rl = (Inr (), rl')" "length (snd rl) = RLIM_NLIMITS"
  shows "getrlimit i rl' = (Inr l, rl') \<and> (j \<noteq> i \<longrightarrow> fst (getrlimit j rl') = fst (getrlimit j rl))"
  using assms
  by (auto simp: setrlimit_def getrlimit_def initRlimits_def Let_def nth_list_update split: if_splits)

lemma setrlimit_raise: "setrlimit i l rl = (Inr (), rl') \<Longrightarrow> rlim_cur l < rlim_max (snd (initRlimits rl) ! nat i)"
  by (auto simp: setrlimit_def Let_def split: if_splits)

lemma kill_waitpid:
  assumes "kill True sig = Inr status" "sig < 256" "waitFor (if odd opts then 0 else 4294967295) = WAIT_OBJECT_0"
  shows "waitpid waitFor (Some status) pid opts = Inr (pid, Some status) \<and> WIFSIGNALED status \<and>
    \<not> WIFEXITED status \<and> WEXITSTATUS status = sig"
proof -
  have st: "status = SIGNALLED_BIT OR sig" using assms(1) by (simp add: kill_def)
  have "bit status 31" unfolding st by (simp add: bit_or_iff)
  then have "status AND SIGNALLED_BIT \<noteq> 0"
    using and_exp_eq_0_iff_not_bit [of status 31] by simp
  moreover have "status AND 0xff = sig"
  proof -
    have "take_bit 8 (uint sig) = uint sig"
      using assms(2) by (simp add: take_bit_int_eq_self word_less_def)
    then have "uint (take_bit 8 sig) = uint sig" by (simp add: unsigned_take_bit_eq)
    then have "take_bit 8 sig = sig" by (simp only: word_uint_eq_iff)
    then have "sig AND 0xff = sig" by (simp add: take_bit_eq_mask mask_eq_exp_minus_1)
    then show ?thesis unfolding st by (simp add: bit.conj_disj_distrib2)
  qed
  ultimately show ?thesis
    using assms by (auto simp: waitpid_def WIFSIGNALED_def WIFEXITED_def WEXITSTATUS_def Let_def)
qed

end
