(* ===== verification/Network.thy ===== *)
theory Network
  imports Mingw
begin

text \<open>
  Sockets (\<open>basis/Net\<close>): the calls with their handling of errors, addresses of Internet and Unix sockets, waiting for
  descriptors, and entries of the databases of hosts, protocols and services; also the arrays of arguments
  that are handed to a new program (\<open>basis/Posix/Process\<close>, \<open>basis/MLton/Process\<close>). The calls of the system
  are parameters.
\<close>

section \<open>Calls\<close>

text \<open>
  Winsock is started, the call is made (it gives its result and, for \<open>-1\<close>, the status it sets), and the
  status is turned into an \<open>errno\<close>. The state is that of \<open>MLton_initSockets\<close>.
\<close>

definition socketCall :: "int \<times> string \<Rightarrow> bool \<times> nat \<Rightarrow> ((int \<times> string option) \<times> (bool \<times> nat)) res" where
  "socketCall answer i =
     (let i = MLton_initSockets i; (out, status) = answer
      in if out = - 1 then bindE (MLton_fixSocketErrno status) (\<lambda>e. Inr ((out, Some e), i))
         else Inr ((out, None), i))"

text \<open>\<open>linger\<close>: the two numbers are stored also when the call fails and has not filled the structure in.\<close>

record linger =
  l_onoff :: int
  l_linger :: int

definition Socket_Ctl_getSockOptC_Linger ::
  "(int \<times> string) \<times> linger \<times> nat \<Rightarrow> bool \<times> nat \<Rightarrow> ((int \<times> string option) \<times> (int \<times> int) \<times> (bool \<times> nat)) res" where
  "Socket_Ctl_getSockOptC_Linger answer i =
     (let (call, optval, optlen) = answer
      in bindE (asserting (optlen = 8)) (\<lambda>_.
         bindE (socketCall call i) (\<lambda>(r, i). Inr (r, (l_onoff optval, l_linger optval), i))))"

definition Socket_Ctl_setSockOptC_Linger ::
  "(linger \<Rightarrow> int \<times> string) \<Rightarrow> int \<Rightarrow> int \<Rightarrow> bool \<times> nat \<Rightarrow> ((int \<times> string option) \<times> (bool \<times> nat)) res" where
  "Socket_Ctl_setSockOptC_Linger setsockopt onoff lingr i =
     socketCall (setsockopt \<lparr>l_onoff = onoff, l_linger = lingr\<rparr>) i"

text \<open>
  \<open>getNREAD\<close>: the call stores the number where its argument points to, which is the parameter \<open>argp\<close> of the function
  and not the cell that \<open>argp\<close> points to: the cell keeps its value.
\<close>

definition Socket_Ctl_getNREAD :: "int \<times> string \<times> nat \<Rightarrow> pointer \<Rightarrow> (pointer \<Rightarrow> nat) \<Rightarrow> ((int \<times> string option) \<times> (pointer \<Rightarrow> nat)) res" where
  "Socket_Ctl_getNREAD answer argp cells =
     (let (out, status, n) = answer; argp = n
      in if out = - 1 then bindE (MLton_fixSocketErrno status) (\<lambda>e. Inr ((out, Some e), cells))
         else Inr ((out, None), cells))"

section \<open>Addresses\<close>

text \<open>The loop \<open>for (i = 0; i < n; i++) dst[i] = src[i]\<close> on arrays.\<close>

fun copyLoop :: "nat \<Rightarrow> nat \<Rightarrow> 'a list \<Rightarrow> 'a list \<Rightarrow> 'a list res" where
  "copyLoop 0 i src dst = Inr dst"
| "copyLoop (Suc k) i src dst =
     (if i < length src \<and> i < length dst then copyLoop k (Suc i) src (dst[i := src ! i]) else Inl Undefined)"

definition copyBytes :: "nat \<Rightarrow> 'a list \<Rightarrow> 'a list \<Rightarrow> 'a list res" where
  "copyBytes n src dst = copyLoop n 0 src dst"

datatype family = AF_UNIX | AF_INET | AF_other

text \<open>\<open>struct sockaddr_un\<close>; the length of its path is the constant \<open>UNIXSOCK_PATH_MAX\<close> of the system.\<close>

record sockaddr_un =
  sun_family :: family
  sun_path :: "8 word list"

definition Socket_UnixSock_toAddr :: "8 word list \<Rightarrow> nat \<Rightarrow> sockaddr_un \<Rightarrow> sockaddr_un res" where
  "Socket_UnixSock_toAddr path pathlen sa =
     (let sa = sa\<lparr>sun_family := AF_UNIX\<rparr>; maxlen = length (sun_path sa)
      in if pathlen \<le> maxlen then
           bindE (copyBytes pathlen path (sun_path sa)) (\<lambda>p. Inr (sa\<lparr>sun_path := p\<rparr>))
         else
           bindE (copyBytes (maxlen - 1) path (sun_path sa)) (\<lambda>p. Inr (sa\<lparr>sun_path := p[maxlen - 1 := 0]\<rparr>)))"

function pathLenLoop :: "8 word list \<Rightarrow> nat \<Rightarrow> nat" where
  "pathLenLoop p i = (if i < length p \<and> p ! i \<noteq> 0 then pathLenLoop p (Suc i) else i)"
  by pat_completeness auto
termination by (relation "measure (\<lambda>(p, i). length p - i)") auto

declare pathLenLoop.simps [simp del]

definition Socket_UnixSock_pathLen :: "sockaddr_un \<Rightarrow> nat" where
  "Socket_UnixSock_pathLen sa =
     (if sun_path sa ! 0 = 0 then length (sun_path sa) else pathLenLoop (sun_path sa) 0)"

definition Socket_UnixSock_fromAddr :: "sockaddr_un \<Rightarrow> 8 word list \<Rightarrow> nat \<Rightarrow> 8 word list res" where
  "Socket_UnixSock_fromAddr sa path pathlen =
     bindE (asserting (sun_family sa = AF_UNIX)) (\<lambda>_. copyBytes pathlen (sun_path sa) path)"

text \<open>Internet addresses; \<open>fromAddr\<close> leaves its results in static variables.\<close>

record sockaddr_in =
  sin_family :: family
  sin_port :: "16 word"
  sin_addr :: "32 word"

record inetResult =
  fromAddr_port :: "16 word"
  fromAddr_in_addr :: "32 word"

definition Socket_INetSock_toAddr :: "32 word \<Rightarrow> 16 word \<Rightarrow> sockaddr_in \<Rightarrow> sockaddr_in" where
  "Socket_INetSock_toAddr in_addr port sa = sa\<lparr>sin_family := AF_INET, sin_port := port, sin_addr := in_addr\<rparr>"

definition Socket_INetSock_fromAddr :: "sockaddr_in \<Rightarrow> inetResult \<Rightarrow> inetResult res" where
  "Socket_INetSock_fromAddr sa st =
     bindE (asserting (sin_family sa = AF_INET)) (\<lambda>_.
       Inr (st\<lparr>fromAddr_port := sin_port sa, fromAddr_in_addr := sin_addr sa\<rparr>))"

lemma inet_roundtrip:
  "bindE (Socket_INetSock_fromAddr (Socket_INetSock_toAddr a p sa) st) (\<lambda>st. Inr (fromAddr_in_addr st, fromAddr_port st)) = Inr (a, p)"
  by (simp add: Socket_INetSock_toAddr_def Socket_INetSock_fromAddr_def asserting_def)

section \<open>Waiting for descriptors\<close>

text \<open>A set of descriptors is an array of \<open>FD_SETSIZE\<close> bits; other descriptors are not in its bounds.\<close>

abbreviation (input) FD_SETSIZE :: nat where "FD_SETSIZE \<equiv> 1024"

definition FD_SET :: "int \<Rightarrow> bool list \<Rightarrow> bool list res" where
  "FD_SET fd s = (if 0 \<le> fd \<and> nat fd < length s then Inr (s[nat fd := True]) else Inl Undefined)"

definition FD_ISSET :: "int \<Rightarrow> bool list \<Rightarrow> bool res" where
  "FD_ISSET fd s = (if 0 \<le> fd \<and> nat fd < length s then Inr (s ! nat fd) else Inl Undefined)"

definition toFdSet :: "int list \<Rightarrow> bool list option res" where
  "toFdSet v =
     (if v = [] then Inr None
      else bindE (foldE (\<lambda>s fd. FD_SET fd s) v (replicate FD_SETSIZE False)) (\<lambda>s. Inr (Some s)))"

text \<open>The marks in the array of results.\<close>

fun markLoop :: "int list \<Rightarrow> bool list \<Rightarrow> nat \<Rightarrow> int list \<Rightarrow> int list res" where
  "markLoop [] s i arr = Inr arr"
| "markLoop (fd # v) s i arr =
     bindE (FD_ISSET fd s) (\<lambda>b.
       if b then (if i < length arr then markLoop v s (Suc i) (arr[i := 1]) else Inl Undefined)
       else markLoop v s (Suc i) arr)"

definition markReady :: "int list \<Rightarrow> bool list option \<Rightarrow> int list \<Rightarrow> int list res" where
  "markReady v s arr = (case s of None \<Rightarrow> Inr arr | Some s \<Rightarrow> markLoop v s 0 arr)"

text \<open>
  \<open>select\<close> gets the three sets and gives its result, the status it sets, and the sets it leaves.
\<close>

type_synonym fdsets = "bool list option \<times> bool list option \<times> bool list option"

definition Socket_select ::
  "(fdsets \<Rightarrow> int \<times> string \<times> fdsets) \<Rightarrow> int list \<times> int list \<times> int list \<Rightarrow> int list \<times> int list \<times> int list \<Rightarrow>
    ((int \<times> string option) \<times> int list \<times> int list \<times> int list) res" where
  "Socket_select select vecs arrs =
     (let (rv, wv, ev) = vecs; (ra, wa, ea) = arrs in
      bindE (toFdSet rv) (\<lambda>rs. bindE (toFdSet wv) (\<lambda>ws. bindE (toFdSet ev) (\<lambda>es.
        let (out, status, rs, ws, es) = select (rs, ws, es)
        in if out = - 1 then bindE (MLton_fixSocketErrno status) (\<lambda>e. Inr ((out, Some e), arrs))
           else bindE (markReady rv rs ra) (\<lambda>ra. bindE (markReady wv ws wa) (\<lambda>wa. bindE (markReady ev es ea) (\<lambda>ea.
             Inr ((out, None), ra, wa, ea))))))))"

text \<open>\<open>poll\<close>: descriptors and events go in, events come out.\<close>

definition OS_IO_poll :: "((int \<times> int) list \<Rightarrow> int \<times> int list) \<Rightarrow> int list \<Rightarrow> int list \<Rightarrow> nat \<Rightarrow> int list \<Rightarrow> (int \<times> int list) res" where
  "OS_IO_poll poll fds eventss n reventss =
     (if n \<le> length fds \<and> n \<le> length eventss \<and> n \<le> length reventss then
        (let (r, out) = poll (zip (take n fds) (take n eventss))
         in bindE (copyBytes n out reventss) (\<lambda>a. Inr (r, a)))
      else Inl Undefined)"

section \<open>Databases\<close>

text \<open>An array of pointers that ends with \<open>NULL\<close> (\<open>None\<close>), and its length by counting.\<close>

fun countEntries :: "'a option list \<Rightarrow> nat \<Rightarrow> nat res" where
  "countEntries [] num = Inl Undefined"
| "countEntries (x # xs) num = (case x of None \<Rightarrow> Inr num | Some _ \<Rightarrow> countEntries xs (Suc num))"

record hostent =
  h_name :: "string option"
  h_aliases :: "string option list"
  h_length :: nat
  h_addr_list :: "8 word list option list"

definition NetHostDB_getEntryAliasesNum :: "hostent \<Rightarrow> nat res" where
  "NetHostDB_getEntryAliasesNum h = countEntries (h_aliases h) 0"

definition NetHostDB_getEntryAddrsNum :: "hostent \<Rightarrow> nat res" where
  "NetHostDB_getEntryAddrsNum h = countEntries (h_addr_list h) 0"

definition NetHostDB_getEntryAddrsN :: "hostent \<Rightarrow> nat \<Rightarrow> 8 word list \<Rightarrow> 8 word list res" where
  "NetHostDB_getEntryAddrsN h n addr =
     (if n < length (h_addr_list h) then
        (case h_addr_list h ! n of
           None \<Rightarrow> if h_length h = 0 then Inr addr else Inl Undefined
         | Some a \<Rightarrow> copyBytes (h_length h) a addr)
      else Inl Undefined)"

definition NetHostDB_getByName :: "(string \<Rightarrow> hostent option) \<Rightarrow> string \<Rightarrow> bool \<times> nat \<Rightarrow> (bool \<times> hostent option) \<times> (bool \<times> nat)" where
  "NetHostDB_getByName gethostbyname name i =
     (let i = MLton_initSockets i; h = gethostbyname name
      in ((case h of None \<Rightarrow> False | Some h \<Rightarrow> h_name h \<noteq> None, h), i))"

lemma countEntries_spec: "countEntries (map Some xs @ None # ys) n = Inr (n + length xs)"
  by (induction xs arbitrary: n) simp_all

section \<open>Arguments of a new program\<close>

text \<open>
  The last place of the array of arguments, which the caller leaves for it, is \<open>NULL\<close> during the call and restored after it,
  since the call returns only when it fails; so for the environment. The parameter is the call.
\<close>

definition withNull :: "'a option list \<Rightarrow> ('a option list \<times> 'a option) res" where
  "withNull args =
     (if args = [] then Inl Undefined
      else Inr (args[length args - 1 := None], args ! (length args - 1)))"

definition Posix_Process_exece ::
  "(string \<Rightarrow> 'a option list \<Rightarrow> 'a option list \<Rightarrow> int) \<Rightarrow> string \<Rightarrow> 'a option list \<Rightarrow> 'a option list \<Rightarrow>
    (int \<times> 'a option list \<times> 'a option list) res" where
  "Posix_Process_exece execve path args env =
     bindE (withNull args) (\<lambda>(args, aSaved). bindE (withNull env) (\<lambda>(env, eSaved).
       let r = execve path args env
       in Inr (r, args[length args - 1 := aSaved], env[length env - 1 := eSaved])))"

definition Posix_Process_execp ::
  "(string \<Rightarrow> 'a option list \<Rightarrow> int) \<Rightarrow> string \<Rightarrow> 'a option list \<Rightarrow> (int \<times> 'a option list) res" where
  "Posix_Process_execp execvp path args =
     bindE (withNull args) (\<lambda>(args, aSaved).
       let r = execvp path args in Inr (r, args[length args - 1 := aSaved]))"

definition MLton_Process_spawne ::
  "(string \<Rightarrow> 'a option list \<Rightarrow> 'a option list \<Rightarrow> int) option \<Rightarrow> string \<Rightarrow> 'a option list \<Rightarrow> 'a option list \<Rightarrow>
    (int \<times> 'a option list \<times> 'a option list) res" where
  "MLton_Process_spawne spawnve path args env =
     (case spawnve of
        None \<Rightarrow> Inl (Die ''MLton_Process_spawne not implemented'')
      | Some spawnve \<Rightarrow> Posix_Process_exece spawnve path args env)"

definition MLton_Process_spawnp ::
  "(string \<Rightarrow> 'a option list \<Rightarrow> int) option \<Rightarrow> string \<Rightarrow> 'a option list \<Rightarrow> (int \<times> 'a option list) res" where
  "MLton_Process_spawnp spawnvp path args =
     (case spawnvp of
        None \<Rightarrow> Inl (Die ''MLton_Process_spawnp not implemented'')
      | Some spawnvp \<Rightarrow> Posix_Process_execp spawnvp path args)"

lemma update_last: "xs \<noteq> [] \<Longrightarrow> xs[length xs - Suc 0 := x] = butlast xs @ [x]"
  by (cases xs rule: rev_cases) (simp_all add: list_update_append)

lemma update_back: "xs \<noteq> [] \<Longrightarrow> (butlast xs @ [x])[length xs - Suc 0 := xs ! (length xs - Suc 0)] = xs"
  by (cases xs rule: rev_cases) (simp_all add: list_update_append)

lemma exec_restores:
  "args \<noteq> [] \<Longrightarrow> env \<noteq> [] \<Longrightarrow>
    Posix_Process_exece execve path args env = Inr (execve path (butlast args @ [None]) (butlast env @ [None]), args, env)"
  "args \<noteq> [] \<Longrightarrow> Posix_Process_execp execvp path args = Inr (execvp path (butlast args @ [None]), args)"
  by (auto simp: Posix_Process_exece_def Posix_Process_execp_def withNull_def update_last update_back Let_def)

section \<open>Loops over arrays\<close>

lemma copyLoop_spec:
  "i + k \<le> length src \<Longrightarrow> i + k \<le> length dst \<Longrightarrow>
    copyLoop k i src dst = Inr (take i dst @ take k (drop i src) @ drop (i + k) dst)"
proof (induction k arbitrary: i dst)
  case (Suc k)
  then have i: "i < length src" "i < length dst" by simp_all
  then have "copyLoop (Suc k) i src dst = copyLoop k (Suc i) src (dst[i := src ! i])" by simp
  also have "\<dots> = Inr (take (Suc i) (dst[i := src ! i]) @ take k (drop (Suc i) src) @ drop (Suc i + k) (dst[i := src ! i]))"
    using Suc by simp
  also have "take (Suc i) (dst[i := src ! i]) = take i dst @ [src ! i]" using i(2) by (simp add: take_Suc_conv_app_nth)
  also have "drop (Suc i + k) (dst[i := src ! i]) = drop (i + Suc k) dst" by simp
  finally show ?case using i(1) by (simp flip: Cons_nth_drop_Suc)
qed simp

lemma copyBytes_spec:
  "n \<le> length src \<Longrightarrow> n \<le> length dst \<Longrightarrow> copyBytes n src dst = Inr (take n src @ drop n dst)"
  by (simp add: copyBytes_def copyLoop_spec)

lemma pathLenLoop_spec:
  "i + n \<le> length p \<Longrightarrow> (\<And>j. i \<le> j \<Longrightarrow> j < i + n \<Longrightarrow> p ! j \<noteq> 0) \<Longrightarrow> i + n = length p \<or> p ! (i + n) = 0 \<Longrightarrow>
    pathLenLoop p i = i + n"
proof (induction n arbitrary: i)
  case 0
  then show ?case by (subst pathLenLoop.simps) auto
next
  case (Suc n)
  have "i < length p" "p ! i \<noteq> 0" using Suc.prems(1) Suc.prems(2) [of i] by simp_all
  then have "pathLenLoop p i = pathLenLoop p (Suc i)" by (subst pathLenLoop.simps) simp
  also have "\<dots> = Suc i + n" using Suc.prems by (intro Suc.IH) simp_all
  finally show ?case by simp
qed

text \<open>
  C40: the name of a Unix socket, not empty and without null characters, put in a cleared address and taken out again by
  length and bytes, is the name if the address has room for it, also without a null character at its end, and
  else its first characters, one less than there is room.
\<close>

theorem unixSock_roundtrip:
  assumes "sun_path sa = replicate n 0" "2 \<le> n" "path \<noteq> []" "0 \<notin> set path" "length path \<le> length buf"
    "kept = (if length path \<le> n then path else take (n - 1) path)"
  shows "\<exists>sa'. Socket_UnixSock_toAddr path (length path) sa = Inr sa' \<and> length (sun_path sa') = n \<and>
    Socket_UnixSock_pathLen sa' = length kept \<and>
    Socket_UnixSock_fromAddr sa' buf (length kept) = Inr (kept @ drop (length kept) buf)"
proof -
  define p where "p = kept @ replicate (n - length kept) 0"
  have k: "length kept \<le> n" "kept \<noteq> []" "0 \<notin> set kept" "length kept \<le> length path"
    using assms(2-4,6) in_set_takeD [of 0 "n - 1" path] by auto
  have "Socket_UnixSock_toAddr path (length path) sa = Inr (sa\<lparr>sun_family := AF_UNIX, sun_path := p\<rparr>)"
  proof (cases "length path \<le> n")
    case True
    then show ?thesis using assms(1,6) by (simp add: Socket_UnixSock_toAddr_def copyBytes_spec p_def)
  next
    case False
    have "drop (n - 1) (replicate n (0 :: 8 word)) = [0]" using assms(2) by (simp add: drop_replicate)
    then have "copyBytes (n - 1) path (sun_path sa) = Inr (take (n - 1) path @ [0])"
      using False assms(1,2) by (simp add: copyBytes_spec)
    moreover have "(take (n - 1) path @ [0])[n - 1 := 0] = p"
      using False assms(2,6) by (simp add: p_def list_update_append)
    ultimately show ?thesis using False assms(1) by (simp add: Socket_UnixSock_toAddr_def)
  qed
  moreover have "Socket_UnixSock_pathLen (sa\<lparr>sun_family := AF_UNIX, sun_path := p\<rparr>) = length kept"
  proof -
    have nz: "p ! j \<noteq> 0" if "j < length kept" for j
      using that k(3) by (simp add: p_def nth_append) (metis nth_mem)
    have "length kept = length p \<or> p ! length kept = 0"
      using k(1) by (cases "length kept < n") (simp_all add: p_def nth_append)
    then have "pathLenLoop p 0 = length kept"
      using pathLenLoop_spec [of 0 "length kept" p] nz by (simp add: p_def)
    then show ?thesis using nz [of 0] k(2) by (simp add: Socket_UnixSock_pathLen_def)
  qed
  moreover have "copyBytes (length kept) p buf = Inr (kept @ drop (length kept) buf)"
    using k assms(5) by (simp add: copyBytes_spec p_def)
  moreover have "length p = n" using k(1) by (simp add: p_def)
  ultimately show ?thesis by (simp add: Socket_UnixSock_fromAddr_def asserting_def)
qed

text \<open>A name of five characters with room for four.\<close>

theorem unixSock_roundtrip_witness:
  "\<exists>a. Socket_UnixSock_toAddr [1, 2, 3, 4, 5] 5 \<lparr>sun_family = AF_other, sun_path = replicate 4 0\<rparr> = Inr a \<and>
    Socket_UnixSock_pathLen a = 3 \<and> Socket_UnixSock_fromAddr a [9, 9, 9, 9, 9] 3 = Inr [1, 2, 3, 9, 9]"
proof -
  let ?sa = "\<lparr>sun_family = AF_other, sun_path = replicate 4 (0 :: 8 word)\<rparr>"
  have l: "length [1, 2, 3, 4, 5 :: 8 word] = 5" "length [1, 2, 3 :: 8 word] = 3" "drop 3 [9, 9, 9, 9, 9 :: 8 word] = [9, 9]" by simp_all
  have "\<exists>a. Socket_UnixSock_toAddr [1, 2, 3, 4, 5] (length [1, 2, 3, 4, 5 :: 8 word]) ?sa = Inr a \<and> length (sun_path a) = 4 \<and>
      Socket_UnixSock_pathLen a = length [1, 2, 3 :: 8 word] \<and>
      Socket_UnixSock_fromAddr a [9, 9, 9, 9, 9] (length [1, 2, 3 :: 8 word]) = Inr ([1, 2, 3] @ drop (length [1, 2, 3 :: 8 word]) [9, 9, 9, 9, 9])"
    by (rule unixSock_roundtrip) simp_all
  then show ?thesis unfolding l append_Cons append_Nil by blast
qed

section \<open>Sets of descriptors\<close>

definition fd_ok :: "int \<Rightarrow> bool" where
  "fd_ok fd \<longleftrightarrow> 0 \<le> fd \<and> fd < int FD_SETSIZE"

lemma foldE_FD_SET:
  "length s = FD_SETSIZE \<Longrightarrow> \<forall>fd \<in> set v. fd_ok fd \<Longrightarrow>
    \<exists>s'. foldE (\<lambda>s fd. FD_SET fd s) v s = Inr s' \<and> length s' = FD_SETSIZE \<and>
      (\<forall>n < FD_SETSIZE. s' ! n \<longleftrightarrow> s ! n \<or> int n \<in> set v)"
proof (induction v arbitrary: s)
  case (Cons fd v)
  have b: "0 \<le> fd" "nat fd < length s" using Cons.prems by (auto simp: fd_ok_def)
  have fd: "FD_SET fd s = Inr (s[nat fd := True])" using b by (simp add: FD_SET_def)
  obtain s' where s': "foldE (\<lambda>s fd. FD_SET fd s) v (s[nat fd := True]) = Inr s'" "length s' = FD_SETSIZE"
      "\<forall>n < FD_SETSIZE. s' ! n \<longleftrightarrow> s[nat fd := True] ! n \<or> int n \<in> set v"
    using Cons.IH [of "s[nat fd := True]"] Cons.prems by auto
  have "s[nat fd := True] ! n \<longleftrightarrow> s ! n \<or> int n = fd" if "n < FD_SETSIZE" for n
    using that b Cons.prems(1) by (auto simp: nth_list_update)
  then show ?case using fd s' by auto
qed simp

lemma markLoop_spec:
  "length s = FD_SETSIZE \<Longrightarrow> \<forall>fd \<in> set v. fd_ok fd \<Longrightarrow> i + length v \<le> length arr \<Longrightarrow>
    markLoop v s i arr = Inr (take i arr @ map2 (\<lambda>fd a. if s ! nat fd then 1 else a) v (drop i arr) @ drop (i + length v) arr)"
proof (induction v arbitrary: i arr)
  case (Cons fd v)
  have f: "FD_ISSET fd s = Inr (s ! nat fd)" using Cons.prems by (auto simp: FD_ISSET_def fd_ok_def)
  have i: "i < length arr" using Cons.prems(3) by simp
  define arr' where "arr' = (if s ! nat fd then arr[i := 1] else arr)"
  have "markLoop (fd # v) s i arr = markLoop v s (Suc i) arr'" using f i by (simp add: arr'_def)
  also have "\<dots> = Inr (take (Suc i) arr' @ map2 (\<lambda>fd a. if s ! nat fd then 1 else a) v (drop (Suc i) arr') @ drop (Suc i + length v) arr')"
    using Cons by (simp add: arr'_def)
  also have "take (Suc i) arr' = take i arr @ [if s ! nat fd then 1 else arr ! i]"
    using i by (simp add: arr'_def take_Suc_conv_app_nth)
  also have "drop (Suc i) arr' = drop (Suc i) arr" by (simp add: arr'_def)
  also have "drop (Suc i + length v) arr' = drop (Suc i + length v) arr" by (simp add: arr'_def)
  finally show ?case using i by (simp flip: Cons_nth_drop_Suc)
qed simp

text \<open>
  C24: \<open>Socket_select\<close>, for descriptors below \<open>FD_SETSIZE\<close>, hands to the system just the sets of the
  descriptors in the three vectors, with no set for an empty vector, and sets to 1 just those places of the arrays
  whose descriptors the system leaves in the set; a failure changes no array.
\<close>

theorem Socket_select_spec:
  assumes "\<forall>v \<in> {rv, wv, ev}. \<forall>fd \<in> set v. fd_ok fd"
    "length ra = length rv" "length wa = length wv" "length ea = length ev"
    "\<And>rs ws es. (\<forall>(v, s) \<in> {(rv, rs), (wv, ws), (ev, es)}. s = None \<longleftrightarrow> v = []) \<Longrightarrow>
      (\<forall>(v, s) \<in> {(rv, rs), (wv, ws), (ev, es)}. \<forall>b. s = Some b \<longrightarrow> (\<forall>n < FD_SETSIZE. b ! n \<longleftrightarrow> int n \<in> set v)) \<Longrightarrow>
      select (rs, ws, es) = (out, status, map_option (\<lambda>_. R) rs, map_option (\<lambda>_. W) ws, map_option (\<lambda>_. E) es)"
    "out \<noteq> - 1" "length R = FD_SETSIZE" "length W = FD_SETSIZE" "length E = FD_SETSIZE"
  shows "Socket_select select (rv, wv, ev) (ra, wa, ea) = Inr ((out, None),
    map2 (\<lambda>fd a. if R ! nat fd then 1 else a) rv ra,
    map2 (\<lambda>fd a. if W ! nat fd then 1 else a) wv wa,
    map2 (\<lambda>fd a. if E ! nat fd then 1 else a) ev ea)"
proof -
  have set: "\<exists>s. toFdSet v = Inr s \<and> (s = None \<longleftrightarrow> v = []) \<and> (\<forall>b. s = Some b \<longrightarrow> (\<forall>n < FD_SETSIZE. b ! n \<longleftrightarrow> int n \<in> set v))"
    if "v \<in> {rv, wv, ev}" for v
    using foldE_FD_SET [of "replicate FD_SETSIZE False" v] that assms(1) by (auto simp: toFdSet_def)
  obtain rs where rs: "toFdSet rv = Inr rs" "rs = None \<longleftrightarrow> rv = []" "\<forall>b. rs = Some b \<longrightarrow> (\<forall>n < FD_SETSIZE. b ! n \<longleftrightarrow> int n \<in> set rv)"
    using set [of rv] by auto
  obtain ws where ws: "toFdSet wv = Inr ws" "ws = None \<longleftrightarrow> wv = []" "\<forall>b. ws = Some b \<longrightarrow> (\<forall>n < FD_SETSIZE. b ! n \<longleftrightarrow> int n \<in> set wv)"
    using set [of wv] by auto
  obtain es where es: "toFdSet ev = Inr es" "es = None \<longleftrightarrow> ev = []" "\<forall>b. es = Some b \<longrightarrow> (\<forall>n < FD_SETSIZE. b ! n \<longleftrightarrow> int n \<in> set ev)"
    using set [of ev] by auto
  have sel: "select (rs, ws, es) = (out, status, map_option (\<lambda>_. R) rs, map_option (\<lambda>_. W) ws, map_option (\<lambda>_. E) es)"
    by (rule assms(5)) (use rs(2,3) ws(2,3) es(2,3) in blast)+
  have mark: "markReady v (map_option (\<lambda>_. S) s) a = Inr (map2 (\<lambda>fd x. if S ! nat fd then 1 else x) v a)"
    if "s = None \<longleftrightarrow> v = []" "length S = FD_SETSIZE" "length a = length v" "\<forall>fd \<in> set v. fd_ok fd" for v s S a
    using that markLoop_spec [of S v 0 a] by (cases s) (simp_all add: markReady_def)
  show ?thesis
    using assms(1-4,6-9) rs(1,2) ws(1,2) es(1,2) by (simp add: Socket_select_def sel mark)
qed

text \<open>Two descriptors to read from, of which one is ready.\<close>

theorem Socket_select_witness:
  "Socket_select (\<lambda>(r, w, e). (1, ''NO_ERROR'', map_option (\<lambda>_. (replicate 1024 False)[7 := True]) r, map_option (\<lambda>_. replicate 1024 False) w,
      map_option (\<lambda>_. replicate 1024 False) e)) ([5, 7], [], []) ([0, 0], [], []) = Inr ((1, None), [0, 1], [], [])"
proof -
  let ?R = "(replicate 1024 False)[7 := True]" and ?F = "replicate 1024 False"
  have "Socket_select (\<lambda>(r, w, e). (1, ''NO_ERROR'', map_option (\<lambda>_. ?R) r, map_option (\<lambda>_. ?F) w, map_option (\<lambda>_. ?F) e))
      ([5, 7], [], []) ([0, 0], [], []) = Inr ((1, None),
    map2 (\<lambda>fd a. if ?R ! nat fd then 1 else a) [5, 7] [0, 0],
    map2 (\<lambda>fd a. if ?F ! nat fd then 1 else a) [] [], map2 (\<lambda>fd a. if ?F ! nat fd then 1 else a) [] [])"
    by (rule Socket_select_spec [where status = "''NO_ERROR''"]) (simp_all add: fd_ok_def)
  then show ?thesis by simp
qed

end
