(* ===== verification/Windows.thy ===== *)
theory Windows
  imports Mingw
begin

text \<open>
  Memory and processes on Windows (\<open>platform/windows.c\<close>). A heap there is made of several reservations of
  the system, and memory can be given back only by whole reservations: the functions that extend and shrink a heap keep
  the structure that the comment in the code describes. Each address is free, or reserved or committed
  as a part of the reservation that starts at some address (\<open>AllocationBase\<close>). What the calls of the system do
  to these is a parameter, with their documented behaviour as a hypothesis.
\<close>

section \<open>The calls of the system\<close>

type_synonym pages = "nat \<Rightarrow> (nat \<times> bool) option"

datatype memState = MEM_FREE | MEM_RESERVE | MEM_COMMIT

record MEMORY_BASIC_INFORMATION =
  AllocationBase :: nat
  RegionSize :: nat
  State :: memState

text \<open>Each answer may depend on the number of the call. \<open>None\<close> and \<open>False\<close> stand for failure.\<close>

record VirtualOS =
  v_gran :: nat
  v_limit :: nat
  v_reserve :: "nat \<Rightarrow> nat \<Rightarrow> nat \<Rightarrow> pages \<Rightarrow> nat option \<times> pages"
  v_commit :: "nat \<Rightarrow> nat \<Rightarrow> nat \<Rightarrow> pages \<Rightarrow> bool \<times> pages"
  v_release :: "nat \<Rightarrow> nat \<Rightarrow> pages \<Rightarrow> bool \<times> pages"
  v_decommit :: "nat \<Rightarrow> nat \<Rightarrow> nat \<Rightarrow> pages \<Rightarrow> bool \<times> pages"
  v_query :: "nat \<Rightarrow> pages \<Rightarrow> MEMORY_BASIC_INFORMATION option"

record winMem =
  pages :: pages
  vcalls :: nat

definition virtualReserve :: "VirtualOS \<Rightarrow> nat \<Rightarrow> nat \<Rightarrow> winMem \<Rightarrow> nat option \<times> winMem" where
  "virtualReserve os base len m =
     (let (r, f) = v_reserve os (vcalls m) base len (pages m) in (r, \<lparr>pages = f, vcalls = Suc (vcalls m)\<rparr>))"

definition virtualCommit :: "VirtualOS \<Rightarrow> nat \<Rightarrow> nat \<Rightarrow> winMem \<Rightarrow> bool \<times> winMem" where
  "virtualCommit os base len m =
     (let (r, f) = v_commit os (vcalls m) base len (pages m) in (r, \<lparr>pages = f, vcalls = Suc (vcalls m)\<rparr>))"

definition virtualRelease :: "VirtualOS \<Rightarrow> nat \<Rightarrow> winMem \<Rightarrow> bool \<times> winMem" where
  "virtualRelease os base m =
     (let (r, f) = v_release os (vcalls m) base (pages m) in (r, \<lparr>pages = f, vcalls = Suc (vcalls m)\<rparr>))"

definition virtualDecommit :: "VirtualOS \<Rightarrow> nat \<Rightarrow> nat \<Rightarrow> winMem \<Rightarrow> bool \<times> winMem" where
  "virtualDecommit os base len m =
     (let (r, f) = v_decommit os (vcalls m) base len (pages m) in (r, \<lparr>pages = f, vcalls = Suc (vcalls m)\<rparr>))"

section \<open>The memory of a heap\<close>

text \<open>\<open>None\<close> is \<open>(void* )-1\<close>. An assertion that fails is an error.\<close>

definition Windows_mmapAnon :: "VirtualOS \<Rightarrow> nat \<Rightarrow> nat \<Rightarrow> winMem \<Rightarrow> nat option \<times> winMem" where
  "Windows_mmapAnon os base len m =
     (let (res, m) = virtualReserve os base len m
      in case res of
           None \<Rightarrow> (None, m)
         | Some res \<Rightarrow>
             (let (ok, m) = virtualCommit os res len m
              in if ok then (Some res, m) else (None, snd (virtualRelease os res m))))"

fun releaseLoop :: "nat \<Rightarrow> VirtualOS \<Rightarrow> nat \<Rightarrow> nat \<Rightarrow> winMem \<Rightarrow> winMem res" where
  "releaseLoop fuel os base len m =
     (if len = 0 then Inr m
      else
        (case fuel of
           0 \<Rightarrow> Inl OutOfFuel
         | Suc fuel \<Rightarrow>
             (case v_query os base (pages m) of
                None \<Rightarrow> Inl (Die ''VirtualQuery'')
              | Some mi \<Rightarrow>
                  bindE (asserting (State mi = MEM_COMMIT)) (\<lambda>_.
                  bindE (asserting (AllocationBase mi = base)) (\<lambda>_.
                  bindE (asserting (RegionSize mi \<le> len)) (\<lambda>_.
                    let (ok, m) = virtualRelease os base m
                     in if \<not> ok then Inl (Die ''VirtualFree(MEM_RELEASE) failed'')
                        else releaseLoop fuel os (base + RegionSize mi) (len - RegionSize mi) m))))))"

declare releaseLoop.simps [simp del]

definition Windows_release :: "VirtualOS \<Rightarrow> nat \<Rightarrow> nat \<Rightarrow> winMem \<Rightarrow> winMem res" where
  "Windows_release os base len m =
     (if len = 0 then Inr m
      else
        (case v_query os base (pages m) of
           None \<Rightarrow> Inl (Die ''VirtualQuery failed'')
         | Some mi \<Rightarrow>
             bindE (asserting (State mi \<noteq> MEM_FREE)) (\<lambda>_.
             bindE (asserting (RegionSize mi \<le> len)) (\<lambda>_.
                if AllocationBase mi \<noteq> base then
                  (let (ok, m) = virtualDecommit os base (RegionSize mi) m
                   in if \<not> ok then Inl (Die ''VirtualFree(MEM_DECOMMIT)'')
                      else
                        (let mi = (case v_query os base (pages m) of None \<Rightarrow> mi | Some mi \<Rightarrow> mi)
                         in bindE (asserting (State mi = MEM_RESERVE)) (\<lambda>_.
                              if RegionSize mi \<ge> len then Inr m
                              else releaseLoop len os (base + RegionSize mi) (len - RegionSize mi) m)))
                else releaseLoop len os base len m))))"

text \<open>When the query fails, the code goes on with the uninitialised structure.\<close>

definition Windows_extend :: "VirtualOS \<Rightarrow> nat \<Rightarrow> nat \<Rightarrow> winMem \<Rightarrow> (nat option \<times> winMem) res" where
  "Windows_extend os base len m =
     (case v_query os base (pages m) of
        None \<Rightarrow> Inl Undefined
      | Some mi \<Rightarrow>
          (case State mi of
             MEM_FREE \<Rightarrow> Inr (Windows_mmapAnon os base len m)
           | MEM_RESERVE \<Rightarrow>
               bindE (asserting (AllocationBase mi \<le> base)) (\<lambda>_.
                 let fin = base + RegionSize mi
                  in if RegionSize mi > len then
                       (let (ok, m) = virtualCommit os base len m
                        in Inr (if ok then Some base else None, m))
                     else
                       (let (r, m) = Windows_mmapAnon os fin (len - RegionSize mi) m
                        in if r = Some fin then
                             (let (ok, m) = virtualCommit os base (RegionSize mi) m
                              in if ok then Inr (Some base, m)
                                 else Inr (None, snd (virtualRelease os fin m)))
                           else Inr (None, m)))
           | MEM_COMMIT \<Rightarrow> Inr (None, m)))"

section \<open>Processes\<close>

text \<open>
  Handles: \<open>None\<close> is 0. \<open>raw\<close> gives the handle of a descriptor (\<open>-1\<close> and 0 for none), \<open>dup\<close> the
  duplicate; the result has the handles that are closed.
\<close>

definition dupHandle :: "(int \<Rightarrow> int) \<Rightarrow> (int \<Rightarrow> nat option) \<Rightarrow> int \<Rightarrow> nat posix" where
  "dupHandle raw dup fd =
     (if raw fd = - 1 \<or> raw fd = 0 then Inl EBADF
      else case dup (raw fd) of None \<Rightarrow> Inl ENOMEM | Some h \<Rightarrow> Inr h)"

text \<open>\<open>create\<close>: the process and the thread handle of the new process, if it is created. The last error stays in \<open>errno\<close>.\<close>

definition Windows_Process_create ::
  "(int \<Rightarrow> int) \<Rightarrow> (int \<Rightarrow> nat option) \<Rightarrow> (nat \<times> nat) option \<Rightarrow> int \<Rightarrow> int \<Rightarrow> int \<Rightarrow>
    nat posix \<times> nat list" where
  "Windows_Process_create raw dup create stdin stdout stderr =
     (let hs = map (dupHandle raw dup) [stdin, stdout, stderr];
          opened = concat (map (\<lambda>h. case h of Inl _ \<Rightarrow> [] | Inr h \<Rightarrow> [h]) hs);
          errs = concat (map (\<lambda>h. case h of Inl e \<Rightarrow> [e] | Inr _ \<Rightarrow> []) hs)
      in if errs \<noteq> [] then (Inl (last errs), opened)
         else
           (case create of
              None \<Rightarrow> (Inl ENOENT, [])
            | Some (hProcess, hThread) \<Rightarrow> (Inr hProcess, hThread # opened)))"

definition Windows_Process_getexitcode :: "bool \<Rightarrow> (32 word) option \<Rightarrow> (32 word) posix" where
  "Windows_Process_getexitcode waited exitCode =
     (if \<not> waited then Inl ECHILD
      else case exitCode of None \<Rightarrow> Inl ECHILD | Some c \<Rightarrow> Inr c)"

definition Windows_Process_terminate :: "bool \<Rightarrow> 32 word \<Rightarrow> (32 word) posix" where
  "Windows_Process_terminate terminated sig = (if terminated then Inr (0x80000000 OR sig) else Inl ECHILD)"

section \<open>What the system promises\<close>

text \<open>Changes of the pages: a new reservation, its part that is committed or decommitted, and its release.\<close>

definition giveRange :: "nat \<Rightarrow> nat \<Rightarrow> pages \<Rightarrow> pages" where
  "giveRange r n f = (\<lambda>a. if r \<le> a \<and> a < r + n then Some (r, False) else f a)"

definition setCommit :: "bool \<Rightarrow> nat \<Rightarrow> nat \<Rightarrow> pages \<Rightarrow> pages" where
  "setCommit c b n f = (\<lambda>a. if b \<le> a \<and> a < b + n then map_option (\<lambda>(ab, _). (ab, c)) (f a) else f a)"

definition freeBase :: "nat \<Rightarrow> pages \<Rightarrow> pages" where
  "freeBase b f = (\<lambda>a. case f a of Some (ab, c) \<Rightarrow> if ab = b then None else f a | None \<Rightarrow> None)"

definition inLimit :: "VirtualOS \<Rightarrow> pages \<Rightarrow> bool" where
  "inLimit os f \<longleftrightarrow> (\<forall>a \<ge> v_limit os. f a = None)"

definition stateOf :: "(nat \<times> bool) option \<Rightarrow> memState" where
  "stateOf p = (case p of None \<Rightarrow> MEM_FREE | Some (_, c) \<Rightarrow> if c then MEM_COMMIT else MEM_RESERVE)"

text \<open>
  The documentation: a reservation, of aligned and nonempty ranges only, is where it is asked to be and takes free
  addresses; committing needs one reservation and may fail; decommitting and
  releasing do not; a query describes the longest run of alike addresses.
\<close>

definition reserve_ok :: "VirtualOS \<Rightarrow> bool" where
  "reserve_ok os \<longleftrightarrow>
     (\<forall>i b n f. inLimit os f \<and> v_gran os dvd b \<and> v_gran os dvd n \<longrightarrow>
       (case v_reserve os i b n f of
          (None, f') \<Rightarrow> f' = f
        | (Some r, f') \<Rightarrow> 0 < n \<and> 0 < r \<and> (b \<noteq> 0 \<longrightarrow> r = b) \<and> v_gran os dvd r \<and> r + n \<le> v_limit os \<and>
            (\<forall>a. r \<le> a \<and> a < r + n \<longrightarrow> f a = None) \<and> (\<forall>a c. f a \<noteq> Some (r, c)) \<and> f' = giveRange r n f))"

definition commit_ok :: "VirtualOS \<Rightarrow> bool" where
  "commit_ok os \<longleftrightarrow>
     (\<forall>i b n f ab. inLimit os f \<and> 0 < n \<and> (\<forall>a. b \<le> a \<and> a < b + n \<longrightarrow> (\<exists>c. f a = Some (ab, c))) \<longrightarrow>
       (case v_commit os i b n f of (ok, f') \<Rightarrow> f' = (if ok then setCommit True b n f else f)) \<and>
       v_decommit os i b n f = (True, setCommit False b n f))"

definition release_ok :: "VirtualOS \<Rightarrow> bool" where
  "release_ok os \<longleftrightarrow>
     (\<forall>i b f c. inLimit os f \<and> f b = Some (b, c) \<longrightarrow> v_release os i b f = (True, freeBase b f))"

definition query_ok :: "VirtualOS \<Rightarrow> bool" where
  "query_ok os \<longleftrightarrow>
     (\<forall>a f. inLimit os f \<and> a < v_limit os \<longrightarrow>
       (case v_query os a f of
          None \<Rightarrow> False
        | Some mi \<Rightarrow> 0 < RegionSize mi \<and> a + RegionSize mi \<le> v_limit os \<and>
            (\<forall>x. a \<le> x \<and> x < a + RegionSize mi \<longrightarrow> f x = f a) \<and>
            (a + RegionSize mi = v_limit os \<or> f (a + RegionSize mi) \<noteq> f a) \<and>
            State mi = stateOf (f a) \<and> (\<forall>ab c. f a = Some (ab, c) \<longrightarrow> AllocationBase mi = ab)))"

definition virtual_ok :: "VirtualOS \<Rightarrow> bool" where
  "virtual_ok os \<longleftrightarrow> 0 < v_gran os \<and> reserve_ok os \<and> commit_ok os \<and> release_ok os \<and> query_ok os"

section \<open>The structure of a heap\<close>

text \<open>A reservation: \<open>l\<close> committed bytes from its start, then a tail that is reserved only.\<close>

definition block :: "pages \<Rightarrow> nat \<Rightarrow> nat \<Rightarrow> nat \<Rightarrow> bool" where
  "block f b l t \<longleftrightarrow> 0 < l \<and> (\<forall>a. (f a = Some (b, True) \<longleftrightarrow> b \<le> a \<and> a < b + l) \<and>
     (f a = Some (b, False) \<longleftrightarrow> b + l \<le> a \<and> a < b + l + t))"

text \<open>Reservations one after the other, where only the last has a tail.\<close>

fun blocks :: "pages \<Rightarrow> nat \<Rightarrow> nat list \<Rightarrow> nat \<Rightarrow> bool" where
  "blocks f h [] t \<longleftrightarrow> t = 0"
| "blocks f h [l] t \<longleftrightarrow> block f h l t"
| "blocks f h (l # k # ls) t \<longleftrightarrow> block f h l 0 \<and> blocks f (h + l) (k # ls) t"

definition winHeap :: "VirtualOS \<Rightarrow> pages \<Rightarrow> nat \<Rightarrow> nat list \<Rightarrow> nat \<Rightarrow> bool" where
  "winHeap os f h ls t \<longleftrightarrow> inLimit os f \<and> blocks f h ls t \<and> h + sum_list ls + t \<le> v_limit os \<and>
     v_gran os dvd h \<and> (\<forall>l \<in> set ls. v_gran os dvd l) \<and> v_gran os dvd t \<and> 0 < h"

lemma blocks_append:
  "blocks f h (ks @ [l]) t \<longleftrightarrow> blocks f h ks 0 \<and> block f (h + sum_list ks) l t"
proof (induction ks arbitrary: h)
  case (Cons k ks)
  then show ?case by (cases ks) (simp_all add: add.assoc)
qed simp

lemma blocks_split:
  "blocks f h (as @ b # cs) t \<longleftrightarrow> blocks f h as 0 \<and> block f (h + sum_list as) b (if cs = [] then t else 0) \<and>
     blocks f (h + sum_list as + b) cs (if cs = [] then 0 else t)"
proof (cases cs)
  case Nil
  then show ?thesis by (simp add: blocks_append)
next
  case (Cons c cs')
  have "blocks f h (as @ b # c # cs') t \<longleftrightarrow>
    blocks f h (as @ [b]) 0 \<and> blocks f (h + sum_list as + b) (c # cs') t" for h
  proof (induction as arbitrary: h)
    case (Cons a as)
    then show ?case by (cases as) (simp_all add: add.assoc)
  qed simp
  then show ?thesis using Cons by (simp add: blocks_append)
qed

lemma blocks_pos: "blocks f h ls t \<Longrightarrow> l \<in> set ls \<Longrightarrow> 0 < l"
proof (induction f h ls t rule: blocks.induct)
  case (3 f h l k ls t)
  then show ?case by (auto simp: block_def)
qed (auto simp: block_def)

text \<open>Only the bases within the heap matter.\<close>

lemma block_cong: "(\<And>a c. f a = Some (b, c) \<longleftrightarrow> f' a = Some (b, c)) \<Longrightarrow> block f b l t \<longleftrightarrow> block f' b l t"
  by (simp add: block_def)

lemma blocks_cong:
  assumes "blocks f h ls t" "\<And>a b c. h \<le> b \<Longrightarrow> b < h + sum_list ls \<Longrightarrow> f a = Some (b, c) \<longleftrightarrow> f' a = Some (b, c)"
  shows "blocks f' h ls t"
  using assms
proof (induction f h ls t rule: blocks.induct)
  case (2 f h l t)
  then have b: "block f h l t" by simp
  then have "0 < l" by (simp add: block_def)
  then have "f a = Some (h, c) \<longleftrightarrow> f' a = Some (h, c)" for a c using 2(2) [of h] by simp
  then show ?case using b block_cong [of f h f' l t] by simp
next
  case (3 f h l k ls t)
  then have b: "block f h l 0" by simp
  then have "0 < l" by (simp add: block_def)
  then have "f a = Some (h, c) \<longleftrightarrow> f' a = Some (h, c)" for a c using 3(3) [of h] by simp
  then have "block f' h l 0" using b block_cong [of f h f' l 0] by simp
  moreover have "blocks f' (h + l) (k # ls) t" using 3 by simp
  ultimately show ?case by simp
qed simp

text \<open>Every address of the heap belongs to a reservation in it.\<close>

lemma block_base:
  assumes "block f b l t" "b \<le> a" "a < b + l + t"
  obtains c where "f a = Some (b, c)" "0 < l"
proof -
  have "f a = Some (b, True) \<or> f a = Some (b, False)" "0 < l"
    using assms unfolding block_def by (meson not_less)+
  then show thesis using that by blast
qed

lemma blocks_base:
  assumes "blocks f h ls t" "h \<le> a" "a < h + sum_list ls + t"
  shows "\<exists>b c. f a = Some (b, c) \<and> h \<le> b \<and> b < h + sum_list ls \<and> b \<le> a"
  using assms
proof (induction f h ls t rule: blocks.induct)
  case (2 f h l t)
  then obtain c where "f a = Some (h, c)" "0 < l" using block_base [of f h l t a] by auto
  then show ?case using 2(2) by (intro exI [of _ h] exI [of _ c]) simp
next
  case (3 f h l k ls t)
  show ?case
  proof (cases "a < h + l")
    case True
    then obtain c where "f a = Some (h, c)" "0 < l" using block_base [of f h l 0 a] 3 by auto
    then show ?thesis using 3(3) by (intro exI [of _ h] exI [of _ c]) simp
  next
    case False
    then have "\<exists>b c. f a = Some (b, c) \<and> h + l \<le> b \<and> b < h + l + sum_list (k # ls) \<and> b \<le> a" using 3 by simp
    then obtain b c where "f a = Some (b, c)" "h + l \<le> b" "b < h + l + sum_list (k # ls)" "b \<le> a" by blast
    then show ?thesis by (intro exI [of _ b] exI [of _ c]) simp
  qed
qed simp

lemma region_size:
  assumes "virtual_ok os" "inLimit os f" "0 < n" "a + n \<le> v_limit os" "\<forall>x. a \<le> x \<and> x < a + n \<longrightarrow> f x = Some (b, c)"
    "f (a + n) \<noteq> Some (b, c)"
  obtains mi where "v_query os a f = Some mi" "RegionSize mi = n" "AllocationBase mi = b"
    "State mi = (if c then MEM_COMMIT else MEM_RESERVE)"
proof -
  have "a < v_limit os" using assms(3,4) by linarith
  then have q: "case v_query os a f of None \<Rightarrow> False
    | Some mi \<Rightarrow> 0 < RegionSize mi \<and> a + RegionSize mi \<le> v_limit os \<and>
        (\<forall>x. a \<le> x \<and> x < a + RegionSize mi \<longrightarrow> f x = f a) \<and>
        (a + RegionSize mi = v_limit os \<or> f (a + RegionSize mi) \<noteq> f a) \<and>
        State mi = stateOf (f a) \<and> (\<forall>ab c. f a = Some (ab, c) \<longrightarrow> AllocationBase mi = ab)"
    using assms(1,2) unfolding virtual_ok_def query_ok_def by blast
  obtain mi where v: "v_query os a f = Some mi" using q by (cases "v_query os a f") auto
  note mi = q [unfolded v option.case]
  have fa: "f a = Some (b, c)" using assms(3,5) by simp
  have "RegionSize mi = n"
  proof (rule ccontr)
    assume "RegionSize mi \<noteq> n"
    then consider "RegionSize mi < n" | "n < RegionSize mi" by linarith
    then show False
    proof cases
      case 1
      then have "f (a + RegionSize mi) = f a" "a + RegionSize mi \<noteq> v_limit os" using assms(4,5) fa by simp_all
      then show False using mi by blast
    next
      case 2
      then have "f (a + n) = f a" using mi by (meson le_add1 add_less_cancel_left)
      then show False using assms(6) fa by simp
    qed
  qed
  moreover have "State mi = (if c then MEM_COMMIT else MEM_RESERVE)" "AllocationBase mi = b"
    using mi fa by (auto simp only: stateOf_def option.case prod.case)
  ultimately show thesis using that v by blast
qed

section \<open>A new reservation\<close>

lemma commit_laws:
  assumes "virtual_ok os" "inLimit os f" "0 < n" "\<forall>a. b \<le> a \<and> a < b + n \<longrightarrow> (\<exists>c. f a = Some (ab, c))"
  shows "case v_commit os i b n f of (ok, f') \<Rightarrow> f' = (if ok then setCommit True b n f else f)"
    "v_decommit os i b n f = (True, setCommit False b n f)"
proof -
  have c: "commit_ok os" using assms(1) by (simp only: virtual_ok_def)
  note law = c [unfolded commit_ok_def, rule_format, OF conjI [OF assms(2) conjI [OF assms(3)]], of b ab i]
  show "case v_commit os i b n f of (ok, f') \<Rightarrow> f' = (if ok then setCommit True b n f else f)"
    by (rule conjunct1 [OF law [OF assms(4)]])
  show "v_decommit os i b n f = (True, setCommit False b n f)"
    by (rule conjunct2 [OF law [OF assms(4)]])
qed

lemma commit_law:
  assumes "virtual_ok os" "inLimit os f" "0 < n" "\<forall>a. b \<le> a \<and> a < b + n \<longrightarrow> (\<exists>c. f a = Some (ab, c))"
    "v_commit os i b n f = (ok, f')"
  shows "f' = (if ok then setCommit True b n f else f)"
  using commit_laws(1) [OF assms(1-4), of i] unfolding assms(5) prod.case .

lemma freeBase_give:
  "(\<forall>a c. f a \<noteq> Some (r, c)) \<Longrightarrow> (\<forall>a. r \<le> a \<and> a < r + n \<longrightarrow> f a = None) \<Longrightarrow> freeBase r (giveRange r n f) = f"
  by (rule ext) (auto simp: freeBase_def giveRange_def split: option.splits)

lemma mmapAnon_spec:
  assumes os: "virtual_ok os" and f: "inLimit os (pages m)" and dv: "v_gran os dvd base" "v_gran os dvd len"
    and r: "Windows_mmapAnon os base len m = (r, m')"
  shows "case r of None \<Rightarrow> pages m' = pages m
    | Some p \<Rightarrow> 0 < len \<and> 0 < p \<and> (base \<noteq> 0 \<longrightarrow> p = base) \<and> v_gran os dvd p \<and> p + len \<le> v_limit os \<and>
        (\<forall>a. p \<le> a \<and> a < p + len \<longrightarrow> pages m a = None) \<and> (\<forall>a c. pages m a \<noteq> Some (p, c)) \<and>
        pages m' = (\<lambda>a. if p \<le> a \<and> a < p + len then Some (p, True) else pages m a)"
proof -
  obtain q f1 where q: "v_reserve os (vcalls m) base len (pages m) = (q, f1)" by fastforce
  have ok: "case (q, f1) of (None, f') \<Rightarrow> f' = pages m
      | (Some r, f') \<Rightarrow> 0 < len \<and> 0 < r \<and> (base \<noteq> 0 \<longrightarrow> r = base) \<and> v_gran os dvd r \<and> r + len \<le> v_limit os \<and>
          (\<forall>a. r \<le> a \<and> a < r + len \<longrightarrow> pages m a = None) \<and> (\<forall>a c. pages m a \<noteq> Some (r, c)) \<and>
          f' = giveRange r len (pages m)"
  proof -
    have "reserve_ok os" using os by (simp only: virtual_ok_def)
    from this [unfolded reserve_ok_def, rule_format, OF conjI [OF f conjI [OF dv]], of "vcalls m"]
    show ?thesis unfolding q .
  qed
  show ?thesis
  proof (cases q)
    case None
    then show ?thesis using ok r q by (auto simp: Windows_mmapAnon_def virtualReserve_def)
  next
    case (Some p)
    then have p: "0 < len" "0 < p" "base \<noteq> 0 \<longrightarrow> p = base" "v_gran os dvd p" "p + len \<le> v_limit os"
        "\<forall>a. p \<le> a \<and> a < p + len \<longrightarrow> pages m a = None" "\<forall>a c. pages m a \<noteq> Some (p, c)"
        "f1 = giveRange p len (pages m)"
      using ok by auto
    have l1: "inLimit os f1" using f p(5) by (auto simp: inLimit_def p(8) giveRange_def)
    have in1: "\<forall>a. p \<le> a \<and> a < p + len \<longrightarrow> (\<exists>c. f1 a = Some (p, c))" by (auto simp: p(8) giveRange_def)
    obtain okc f2 where c: "v_commit os (Suc (vcalls m)) p len f1 = (okc, f2)" by fastforce
    have c2: "f2 = (if okc then setCommit True p len f1 else f1)"
      using commit_law [OF os l1 p(1) in1 c] .
    have "f1 p = Some (p, False)" using p(1) by (simp add: p(8) giveRange_def)
    then have rel: "v_release os i p f1 = (True, freeBase p f1)" for i
      using os l1 unfolding virtual_ok_def release_ok_def by blast
    show ?thesis
    proof (cases okc)
      case True
      have "f2 = (\<lambda>a. if p \<le> a \<and> a < p + len then Some (p, True) else pages m a)"
        using c2 True by (auto simp: setCommit_def p(8) giveRange_def)
      moreover have "r = Some p" "pages m' = f2" using r q Some c True
        by (auto simp: Windows_mmapAnon_def virtualReserve_def virtualCommit_def)
      ultimately show ?thesis using p by simp
    next
      case False
      then have "r = None" "pages m' = freeBase p f1" using r q Some c c2 rel
        by (auto simp: Windows_mmapAnon_def virtualReserve_def virtualCommit_def virtualRelease_def)
      then show ?thesis using freeBase_give [OF p(7,6)] by (simp add: p(8))
    qed
  qed
qed

lemma mmapAnon_empty:
  assumes "virtual_ok os" "inLimit os (pages m)" "v_gran os dvd base"
  obtains m' where "Windows_mmapAnon os base 0 m = (None, m')" "pages m' = pages m"
proof -
  obtain r m' where r: "Windows_mmapAnon os base 0 m = (r, m')" by fastforce
  have "r = None" "pages m' = pages m"
    using mmapAnon_spec [OF assms dvd_0_right r] by (cases r; simp)+
  then show thesis using that r by simp
qed

section \<open>Releasing\<close>

text \<open>The pages without the heap from \<open>h\<close> on.\<close>

definition freed :: "nat \<Rightarrow> nat \<Rightarrow> pages \<Rightarrow> pages" where
  "freed h e f = (\<lambda>a. if h \<le> a \<and> a < e then None else f a)"

lemma freeBase_block: "block f b l t \<Longrightarrow> freeBase b f = freed b (b + l + t) f"
proof (rule ext)
  fix a
  assume bl: "block f b l t"
  show "freeBase b f a = freed b (b + l + t) f a"
  proof (cases "b \<le> a \<and> a < b + l + t")
    case True
    then obtain c where "f a = Some (b, c)" using block_base [OF bl] by blast
    then show ?thesis using True by (simp add: freeBase_def freed_def)
  next
    case False
    have "(f a = Some (b, True)) = (b \<le> a \<and> a < b + l)" "(f a = Some (b, False)) = (b + l \<le> a \<and> a < b + l + t)"
      using bl by (simp_all only: block_def)
    then have "f a \<noteq> Some (b, c)" for c using False by (cases c) auto
    then show ?thesis using False by (auto simp: freeBase_def freed_def split: option.splits)
  qed
qed

lemma freed_none: "e \<le> h \<Longrightarrow> freed h e f = f"
  by (rule ext) (auto simp: freed_def)

lemma freed_trans: "b \<le> c \<Longrightarrow> c \<le> e \<Longrightarrow> freed c e (freed b c f) = freed b e f"
  by (auto simp: freed_def)

lemma releaseLoop_spec:
  assumes "virtual_ok os" "inLimit os (pages m)" "blocks (pages m) h ls t" "h + sum_list ls + t \<le> v_limit os"
    "sum_list ls \<le> fuel"
  shows "\<exists>m'. releaseLoop fuel os h (sum_list ls) m = Inr m' \<and> pages m' = freed h (h + sum_list ls + t) (pages m)"
  using assms
proof (induction ls arbitrary: h m fuel)
  case Nil
  then show ?case by (subst releaseLoop.simps) (simp add: freed_none)
next
  case (Cons l ls)
  let ?f = "pages m" and ?t = "if ls = [] then t else 0"
  have bl: "block ?f h l ?t" "blocks ?f (h + l) ls (if ls = [] then 0 else t)"
    using Cons.prems(3) blocks_split [of ?f h "[]" l ls t] by simp_all
  have l: "0 < l" using bl(1) by (simp add: block_def)
  have run: "\<forall>x. h \<le> x \<and> x < h + l \<longrightarrow> ?f x = Some (h, True)" using bl(1) by (simp add: block_def)
  have stop: "?f (h + l) \<noteq> Some (h, True)" using bl(1) by (simp add: block_def)
  have lim: "h + l \<le> v_limit os" using Cons.prems(4) by simp
  obtain mi where mi: "v_query os h ?f = Some mi" "RegionSize mi = l" "AllocationBase mi = h" "State mi = MEM_COMMIT"
    using region_size [OF Cons.prems(1,2) l lim run stop] by auto
  have "?f h = Some (h, True)" using run l by simp
  then have rel: "v_release os (vcalls m) h ?f = (True, freeBase h ?f)"
    using Cons.prems(1,2) unfolding virtual_ok_def release_ok_def by blast
  define m1 where "m1 = \<lparr>pages = freed h (h + l + ?t) ?f, vcalls = Suc (vcalls m)\<rparr>"
  have r1: "virtualRelease os h m = (True, m1)"
    by (simp add: virtualRelease_def rel freeBase_block [OF bl(1)] m1_def)
  have l1: "inLimit os (pages m1)" using Cons.prems(2) by (simp add: m1_def inLimit_def freed_def)
  obtain fuel' where fuel: "fuel = Suc fuel'" using Cons.prems(5) l by (cases fuel) auto
  have step: "releaseLoop fuel os h (sum_list (l # ls)) m = releaseLoop fuel' os (h + l) (sum_list ls) m1"
    using l by (subst releaseLoop.simps) (simp add: fuel mi r1 asserting_def)
  show ?case
  proof (cases ls)
    case Nil
    have "releaseLoop fuel' os (h + l) 0 m1 = Inr m1" by (subst releaseLoop.simps) simp
    then show ?thesis unfolding step using Nil by (simp add: m1_def)
  next
    case (Cons k ks)
    have "blocks (pages m1) (h + l) ls t"
    proof (rule blocks_cong [of ?f])
      show "blocks ?f (h + l) ls t" using bl(2) Cons by simp
      fix a b c
      assume b: "h + l \<le> b"
      have "?f a = Some (h, True)" if "h \<le> a" "a < h + l" using run that by blast
      then show "?f a = Some (b, c) \<longleftrightarrow> pages m1 a = Some (b, c)"
        using b l Cons by (auto simp: m1_def freed_def)
    qed
    then obtain m' where "releaseLoop fuel' os (h + l) (sum_list ls) m1 = Inr m'"
      "pages m' = freed (h + l) (h + l + sum_list ls + t) (pages m1)"
      using Cons.IH [OF Cons.prems(1) l1, of "h + l" fuel'] Cons.prems(4,5) l fuel by (auto simp: add.assoc)
    then show ?thesis unfolding step using Cons
      by (auto simp: m1_def freed_trans add.assoc)
  qed
qed

lemma dvd_sum_list: "(\<And>l. l \<in> set ls \<Longrightarrow> (d :: nat) dvd l) \<Longrightarrow> d dvd sum_list ls"
  by (induction ls) auto

lemma sum_list_split:
  "(k :: nat) < sum_list ls \<Longrightarrow> \<exists>as b cs x. ls = as @ b # cs \<and> k = sum_list as + x \<and> x < b"
proof (induction ls arbitrary: k)
  case (Cons l ls)
  show ?case
  proof (cases "k < l")
    case True
    then show ?thesis by (intro exI [of _ "[]"] exI [of _ l] exI [of _ ls] exI [of _ k]) simp
  next
    case False
    then have "k - l < sum_list ls" using Cons.prems by simp
    then obtain as b cs x where x: "ls = as @ b # cs" "k - l = sum_list as + x" "x < b" using Cons.IH by blast
    then show ?thesis using False
      by (intro exI [of _ "l # as"] exI [of _ b] exI [of _ cs] exI [of _ x]) simp
  qed
qed simp

text \<open>A part of the heap stays when the pages of later bases change.\<close>

lemma blocks_prefix:
  assumes "blocks f h as 0" "\<And>a. f' a = f a \<or> (\<forall>b c. b < h + sum_list as \<longrightarrow> f a \<noteq> Some (b, c) \<and> f' a \<noteq> Some (b, c))"
  shows "blocks f' h as 0"
proof (rule blocks_cong [OF assms(1)])
  fix a b c
  assume "b < h + sum_list as"
  then show "f a = Some (b, c) \<longleftrightarrow> f' a = Some (b, c)" using assms(2) [of a] by auto
qed

text \<open>The first reservation, as it is seen by a query somewhere in it.\<close>

lemma query_block:
  assumes os: "virtual_ok os" and lim: "inLimit os f" "s + l + t \<le> v_limit os" and b: "block f s l t" and x: "x < l"
  obtains mi where "v_query os (s + x) f = Some mi" "RegionSize mi = l - x" "AllocationBase mi = s" "State mi = MEM_COMMIT"
proof -
  have run: "\<forall>a. s + x \<le> a \<and> a < s + x + (l - x) \<longrightarrow> f a = Some (s, True)" using b x by (simp add: block_def)
  have stop: "f (s + x + (l - x)) \<noteq> Some (s, True)" using b x by (simp add: block_def)
  have "0 < l - x" "s + x + (l - x) \<le> v_limit os" using lim(2) x by simp_all
  from region_size [OF os lim(1) this run stop] that show thesis by auto
qed

lemma query_tail:
  assumes os: "virtual_ok os" and lim: "inLimit os f" "s + l + t \<le> v_limit os" and b: "block f s l t" and t: "0 < t"
  obtains mi where "v_query os (s + l) f = Some mi" "RegionSize mi = t" "AllocationBase mi = s" "State mi = MEM_RESERVE"
proof -
  have run: "\<forall>a. s + l \<le> a \<and> a < s + l + t \<longrightarrow> f a = Some (s, False)" using b by (simp add: block_def)
  have stop: "f (s + l + t) \<noteq> Some (s, False)" using b by (simp add: block_def)
  from region_size [OF os lim(1) t lim(2) run stop] that show thesis by auto
qed

lemma release_boundary:
  assumes os: "virtual_ok os" and lim: "inLimit os (pages m)" "s + sum_list (b # cs) + t \<le> v_limit os"
    and bl: "blocks (pages m) s (b # cs) t"
  shows "\<exists>m'. Windows_release os s (sum_list (b # cs)) m = Inr m' \<and>
    pages m' = freed s (s + sum_list (b # cs) + t) (pages m)"
proof -
  let ?t = "if cs = [] then t else 0"
  have blk: "block (pages m) s b ?t" using bl blocks_split [of "pages m" s "[]" b cs t] by simp
  then have b: "0 < b" by (simp add: block_def)
  have "s + b + ?t \<le> v_limit os" using lim(2) by simp
  then obtain mi where mi: "v_query os s (pages m) = Some mi" "RegionSize mi = b" "AllocationBase mi = s" "State mi = MEM_COMMIT"
    using query_block [OF os lim(1) _ blk b] by auto
  obtain m' where m': "releaseLoop (sum_list (b # cs)) os s (sum_list (b # cs)) m = Inr m'"
      "pages m' = freed s (s + sum_list (b # cs) + t) (pages m)"
    using releaseLoop_spec [OF os lim(1) bl lim(2) order_refl] by blast
  have "Windows_release os s (sum_list (b # cs)) m = Inr m'"
    using m'(1) mi b unfolding Windows_release_def by (simp add: asserting_def)
  then show ?thesis using m'(2) by blast
qed

text \<open>Inside of a reservation: its end is decommitted, the reservations after it are released.\<close>

definition cutPages :: "nat \<Rightarrow> nat \<Rightarrow> nat \<Rightarrow> nat \<Rightarrow> pages \<Rightarrow> pages" where
  "cutPages s c e z f = (\<lambda>a. if c \<le> a \<and> a < e then Some (s, False) else if e \<le> a \<and> a < z then None else f a)"

lemma cut_block:
  assumes b: "block f s b t" and x: "0 < x" "x < b" and z: "z = 0 \<or> t = 0"
  shows "block (cutPages s (s + x) (s + b) z f) s x (b - x + t)"
proof -
  have e: "s + x + (b - x + t) = s + b + t" using x by simp
  have "(cutPages s (s + x) (s + b) z f a = Some (s, True) \<longleftrightarrow> s \<le> a \<and> a < s + x) \<and>
    (cutPages s (s + x) (s + b) z f a = Some (s, False) \<longleftrightarrow> s + x \<le> a \<and> a < s + b + t)" for a
  proof -
    have "(f a = Some (s, True)) = (s \<le> a \<and> a < s + b)" "(f a = Some (s, False)) = (s + b \<le> a \<and> a < s + b + t)"
      using b by (simp_all only: block_def)
    then show ?thesis using x z unfolding cutPages_def by auto
  qed
  then show ?thesis using x(1) unfolding block_def e by blast
qed

lemma release_within:
  assumes os: "virtual_ok os" and lim: "inLimit os (pages m)" "s + sum_list (b # cs) + t \<le> v_limit os"
    and bl: "blocks (pages m) s (b # cs) t" and x: "0 < x" "x < b"
  shows "\<exists>m'. Windows_release os (s + x) (b - x + sum_list cs) m = Inr m' \<and>
    pages m' = cutPages s (s + x) (s + b) (if cs = [] then 0 else s + sum_list (b # cs) + t) (pages m)"
proof -
  let ?f = "pages m" and ?t = "if cs = [] then t else 0"
  let ?f1 = "cutPages s (s + x) (s + b) 0 ?f"
  define m1 where "m1 = \<lparr>pages = ?f1, vcalls = Suc (vcalls m)\<rparr>"
  have blk: "block ?f s b ?t" and rest: "blocks ?f (s + b) cs (if cs = [] then 0 else t)"
    using bl blocks_split [of ?f s "[]" b cs t] by simp_all
  have end1: "s + b + ?t \<le> v_limit os" using lim(2) by simp
  obtain mi where mi: "v_query os (s + x) ?f = Some mi" "RegionSize mi = b - x" "AllocationBase mi = s" "State mi = MEM_COMMIT"
    using query_block [OF os lim(1) end1 blk x(2)] by auto
  have run: "?f a = Some (s, True)" if "s + x \<le> a" "a < s + b" for a using blk that by (simp add: block_def)
  then have in1: "\<forall>a. s + x \<le> a \<and> a < s + x + (b - x) \<longrightarrow> (\<exists>c. ?f a = Some (s, c))" using x by auto
  have "setCommit False (s + x) (b - x) ?f a = ?f1 a" for a
    using run [of a] x by (simp add: setCommit_def cutPages_def)
  then have "setCommit False (s + x) (b - x) ?f = ?f1" by (rule ext)
  then have dc: "virtualDecommit os (s + x) (b - x) m = (True, m1)"
    using commit_laws(2) [OF os lim(1) _ in1] x by (simp add: virtualDecommit_def m1_def)
  have lim1: "inLimit os ?f1" using lim by (auto simp: inLimit_def cutPages_def)
  have "block ?f1 s x (b - x + ?t)" by (rule cut_block [OF blk x]) simp
  then obtain mi2 where mi2: "v_query os (s + x) ?f1 = Some mi2" "RegionSize mi2 = b - x + ?t" "State mi2 = MEM_RESERVE"
    using query_tail [OF os lim1, of s x "b - x + ?t"] end1 x by auto
  show ?thesis
  proof (cases "cs = []")
    case True
    moreover have "b - x \<le> b + t - x" by simp
    ultimately have "Windows_release os (s + x) (b - x + sum_list cs) m = Inr m1"
      using mi mi2 x by (simp add: Windows_release_def asserting_def dc m1_def)
    then show ?thesis using True by (simp add: m1_def)
  next
    case False
    have "blocks ?f1 (s + b) cs t"
    proof (rule blocks_cong)
      show "blocks ?f (s + b) cs t" using rest False by simp
      show "?f a = Some (q, c) \<longleftrightarrow> ?f1 a = Some (q, c)" if "s + b \<le> q" for a q c
        using that run [of a] x by (auto simp: cutPages_def)
    qed
    moreover have "s + b + sum_list cs + t \<le> v_limit os" using lim(2) by simp
    ultimately obtain m' where m': "releaseLoop (b - x + sum_list cs) os (s + b) (sum_list cs) m1 = Inr m'"
        "pages m' = freed (s + b) (s + b + sum_list cs + t) ?f1"
      using releaseLoop_spec [OF os, of m1 "s + b" cs t "b - x + sum_list cs"] lim1 by (auto simp: m1_def)
    have "0 < sum_list cs" using False rest blocks_pos [of ?f "s + b" cs t] by (cases cs) auto
    moreover have "b - x \<le> b + sum_list cs - x" by simp
    ultimately have "Windows_release os (s + x) (b - x + sum_list cs) m = Inr m'"
      using m'(1) mi mi2 x False by (simp add: Windows_release_def asserting_def dc m1_def)
    moreover have "pages m' = cutPages s (s + x) (s + b) (s + sum_list (b # cs) + t) ?f"
      using False by (auto simp: m'(2) freed_def cutPages_def)
    ultimately show ?thesis using False by auto
  qed
qed

text \<open>The pages of the released part belong to reservations that start in it, or to the one that is cut.\<close>

lemma release_prefix:
  assumes "blocks f h as 0" "blocks f (h + sum_list as) ls t" "0 < sum_list ls \<or> t = 0"
    "\<And>a. f' a = f a \<or> h + sum_list as \<le> a \<and> a < h + sum_list as + sum_list ls + t \<and> (\<forall>q c. f' a = Some (q, c) \<longrightarrow> h + sum_list as \<le> q)"
  shows "blocks f' h as 0"
proof (rule blocks_prefix [OF assms(1)])
  fix a
  show "f' a = f a \<or> (\<forall>q c. q < h + sum_list as \<longrightarrow> f a \<noteq> Some (q, c) \<and> f' a \<noteq> Some (q, c))"
  proof (cases "f' a = f a")
    case False
    with assms(4) have r: "h + sum_list as \<le> a" "a < h + sum_list as + sum_list ls + t"
      "\<forall>q c. f' a = Some (q, c) \<longrightarrow> h + sum_list as \<le> q" by blast+
    from blocks_base [OF assms(2) r(1,2)] r(3) show ?thesis by fastforce
  qed simp
qed

text \<open>
  C16: giving back the end of a heap on Windows, from any boundary of pages on, ends well: no assertion and no call of the
  system fails, the heap is again a sequence of reservations of which only the last has a tail, with the bytes
  that were kept, nothing given back is still committed, when the whole heap is given back no
  address stays reserved, and memory outside does not change.
\<close>

theorem Windows_release_spec:
  assumes os: "virtual_ok os" and heap: "winHeap os (pages m) h ls t" and k: "k < sum_list ls" "v_gran os dvd k"
  shows "\<exists>m' ls' t'. Windows_release os (h + k) (sum_list ls - k) m = Inr m' \<and> winHeap os (pages m') h ls' t' \<and>
    sum_list ls' = k \<and> (\<forall>a. h + k \<le> a \<and> a < h + sum_list ls + t \<longrightarrow>
      (\<forall>b. pages m' a \<noteq> Some (b, True)) \<and> (k = 0 \<longrightarrow> pages m' a = None)) \<and>
    (\<forall>a. a < h + k \<or> h + sum_list ls + t \<le> a \<longrightarrow> pages m' a = pages m a)"
proof -
  obtain as b cs x where x: "ls = as @ b # cs" "k = sum_list as + x" "x < b" using sum_list_split [OF k(1)] by blast
  let ?f = "pages m" and ?s = "h + sum_list as" and ?t = "if cs = [] then t else 0"
  have bl: "blocks ?f h as 0" "blocks ?f ?s (b # cs) t" "block ?f ?s b ?t"
    using heap blocks_split [of ?f h as b cs t] blocks_split [of ?f ?s "[]" b cs t] by (simp_all add: winHeap_def x(1))
  have lim: "inLimit os ?f" "?s + sum_list (b # cs) + t \<le> v_limit os" using heap by (simp_all add: winHeap_def x(1) add.assoc)
  have gran: "v_gran os dvd h" "\<forall>l \<in> set as. v_gran os dvd l" "v_gran os dvd b" "v_gran os dvd t" "0 < h"
    using heap by (auto simp: winHeap_def x(1))
  have dv: "v_gran os dvd x" using k(2) gran(2) x(2) using dvd_sum_list [of as] by (simp add: dvd_add_right_iff)
  have z: "h + sum_list ls + t = ?s + sum_list (b # cs) + t" "h + k = ?s + x" using x by simp_all
  show ?thesis
  proof (cases "x = 0")
    case True
    obtain m' where m': "Windows_release os ?s (sum_list (b # cs)) m = Inr m'" "pages m' = freed ?s (?s + sum_list (b # cs) + t) ?f"
      using release_boundary [OF os lim bl(2)] by blast
    have "blocks (pages m') h as 0"
      by (rule release_prefix [OF bl(1,2)]) (use x True in \<open>auto simp: m'(2) freed_def\<close>)
    then have "winHeap os (pages m') h as 0"
      using gran lim by (auto simp: winHeap_def m'(2) inLimit_def freed_def)
    moreover have "sum_list ls - k = sum_list (b # cs)" using x True by simp
    ultimately show ?thesis using m' True z x(2)
      by (intro exI [of _ m'] exI [of _ as] exI [of _ 0]) (simp add: freed_def)
  next
    case False
    obtain m' where m': "Windows_release os (?s + x) (b - x + sum_list cs) m = Inr m'"
        "pages m' = cutPages ?s (?s + x) (?s + b) (if cs = [] then 0 else ?s + sum_list (b # cs) + t) ?f"
      using release_within [OF os lim bl(2) _ x(3)] False by blast
    have "blocks (pages m') h as 0"
      by (rule release_prefix [OF bl(1,2)]) (use x in \<open>auto simp: m'(2) cutPages_def\<close>)
    moreover have "block (pages m') ?s x (b - x + ?t)"
      unfolding m'(2) by (rule cut_block [OF bl(3) _ x(3)]) (use False in auto)
    moreover have "inLimit os (pages m')" using lim by (auto simp: inLimit_def m'(2) cutPages_def)
    moreover have "v_gran os dvd b - x + ?t" using gran dv by (simp add: dvd_diff_nat)
    ultimately have "winHeap os (pages m') h (as @ [x]) (b - x + ?t)"
      using gran dv lim(2) x by (auto simp: winHeap_def blocks_append)
    moreover have "sum_list ls - k = b - x + sum_list cs" using x by simp
    moreover have "pages m' a \<noteq> Some (q, True)" if "h + k \<le> a" "a < h + sum_list ls + t" for a q
    proof -
      have "(f = Some (?s, False)) \<Longrightarrow> f \<noteq> Some (q, True)" for f by simp
      moreover have "?f a = Some (?s, False)" if "cs = []" "?s + b \<le> a"
        using bl(3) that \<open>a < h + sum_list ls + t\<close> z by (simp add: block_def)
      ultimately show ?thesis using that z x by (auto simp: m'(2) cutPages_def)
    qed
    moreover have "pages m' a = ?f a" if "a < h + k \<or> h + sum_list ls + t \<le> a" for a
      using that z x(3) by (auto simp: m'(2) cutPages_def)
    moreover have "Windows_release os (h + k) (sum_list ls - k) m = Inr m'" using m'(1) x by (simp add: add.assoc)
    moreover have "k \<noteq> 0" "sum_list (as @ [x]) = k" using False x(2) by simp_all
    ultimately show ?thesis
      by (intro exI [of _ m'] exI [of _ "as @ [x]"] exI [of _ "b - x + ?t"] conjI allI impI) blast+
  qed
qed

section \<open>Extending\<close>

lemma block_positive: "block f s l t \<Longrightarrow> 0 < l"
  by (simp add: block_def)

lemma commit_block:
  assumes b: "block f s l t" and c: "c \<le> t"
  shows "setCommit True (s + l) c f = (\<lambda>a. if s + l \<le> a \<and> a < s + l + c then Some (s, True) else f a)"
    and "block (setCommit True (s + l) c f) s (l + c) (t - c)"
proof -
  have blk: "(f a = Some (s, True)) = (s \<le> a \<and> a < s + l)" "(f a = Some (s, False)) = (s + l \<le> a \<and> a < s + l + t)" for a
    using b by (simp_all only: block_def)
  show e: "setCommit True (s + l) c f = (\<lambda>a. if s + l \<le> a \<and> a < s + l + c then Some (s, True) else f a)"
    using c by (intro ext) (auto simp: setCommit_def iffD2 [OF blk(2)])
  have "s + (l + c) + (t - c) = s + l + t" using c by simp
  then show "block (setCommit True (s + l) c f) s (l + c) (t - c)"
    using block_positive [OF b] c unfolding e block_def by (auto simp: blk)
qed

text \<open>A new reservation at the end of the heap.\<close>

lemma blocks_new:
  assumes "blocks f h ls 0" "\<forall>a c. f a \<noteq> Some (h + sum_list ls, c)" "0 < n"
    "\<forall>a. h + sum_list ls \<le> a \<and> a < h + sum_list ls + n \<longrightarrow> f a = None"
  shows "blocks (\<lambda>a. if h + sum_list ls \<le> a \<and> a < h + sum_list ls + n then Some (h + sum_list ls, True) else f a) h (ls @ [n]) 0"
    (is "blocks ?f' h _ 0")
proof -
  have "blocks ?f' h ls 0" by (rule blocks_prefix [OF assms(1)]) (use assms(4) in auto)
  moreover have "block ?f' (h + sum_list ls) n 0" using assms(2,3) by (auto simp: block_def)
  ultimately show ?thesis by (simp add: blocks_append)
qed

lemma dvd_winHeap: "winHeap os f h ls t \<Longrightarrow> v_gran os dvd h + sum_list ls"
  using dvd_sum_list [of ls "v_gran os"] by (auto simp: winHeap_def)

lemma extend_free:
  assumes os: "virtual_ok os" and heap: "winHeap os (pages m) h ls 0" and len: "v_gran os dvd len"
    and r: "Windows_mmapAnon os (h + sum_list ls) len m = (r, m')"
  shows "case r of None \<Rightarrow> pages m' = pages m
    | Some p \<Rightarrow> p = h + sum_list ls \<and> winHeap os (pages m') h (ls @ [len]) 0 \<and>
        (\<forall>a. h + sum_list ls \<le> a \<and> a < h + sum_list ls + len \<longrightarrow> pages m a = None) \<and>
        (\<forall>a. a < h + sum_list ls \<or> h + sum_list ls + len \<le> a \<longrightarrow> pages m' a = pages m a)"
proof -
  have lim: "inLimit os (pages m)" and bl: "blocks (pages m) h ls 0" and h: "h + sum_list ls \<noteq> 0"
    using heap by (simp_all add: winHeap_def)
  note spec = mmapAnon_spec [OF os lim dvd_winHeap [OF heap] len r]
  show ?thesis
  proof (cases r)
    case None
    then show ?thesis using spec by simp
  next
    case (Some p)
    then have p: "0 < len" "p = h + sum_list ls" "p + len \<le> v_limit os"
        "\<forall>a. p \<le> a \<and> a < p + len \<longrightarrow> pages m a = None" "\<forall>a c. pages m a \<noteq> Some (p, c)"
        "pages m' = (\<lambda>a. if p \<le> a \<and> a < p + len then Some (p, True) else pages m a)"
      using spec h by auto
    have "blocks (pages m') h (ls @ [len]) 0"
      using blocks_new [OF bl, of len] p unfolding p(2) by simp
    moreover have "inLimit os (pages m')" using lim p(3) by (auto simp: inLimit_def p(6))
    ultimately have "winHeap os (pages m') h (ls @ [len]) 0"
      using heap len p(2,3) by (auto simp: winHeap_def add.assoc)
    then show ?thesis using Some p by simp
  qed
qed

lemma query_state:
  assumes "virtual_ok os" "inLimit os f" "a < v_limit os"
  shows "\<exists>mi. v_query os a f = Some mi \<and> State mi = stateOf (f a)"
proof -
  have "query_ok os" using assms(1) by (simp only: virtual_ok_def)
  note q = this [unfolded query_ok_def, rule_format, OF conjI [OF assms(2,3)]]
  then obtain mi where v: "v_query os a f = Some mi" by (cases "v_query os a f") auto
  from q [unfolded v option.case] v show ?thesis by blast
qed

text \<open>The cases of a heap with a tail: a part of it, or all of it and a new reservation.\<close>

lemma extend_commit:
  assumes os: "virtual_ok os" and heap: "winHeap os (pages m) h (ks @ [l]) t" and c: "0 < c" "c \<le> t" "v_gran os dvd c"
    and r: "virtualCommit os (h + sum_list (ks @ [l])) c m = (ok, m')"
  shows "pages m' = (if ok then (\<lambda>a. if h + sum_list (ks @ [l]) \<le> a \<and> a < h + sum_list (ks @ [l]) + c
      then Some (h + sum_list ks, True) else pages m a) else pages m)"
    and "ok \<Longrightarrow> winHeap os (pages m') h (ks @ [l + c]) (t - c)"
proof -
  let ?f = "pages m" and ?s = "h + sum_list ks"
  have bl: "blocks ?f h ks 0" "block ?f ?s l t" using heap by (simp_all add: winHeap_def blocks_append)
  have lim: "inLimit os ?f" using heap by (simp add: winHeap_def)
  have e: "h + sum_list (ks @ [l]) = ?s + l" by simp
  have in1: "\<forall>a. ?s + l \<le> a \<and> a < ?s + l + c \<longrightarrow> (\<exists>c. ?f a = Some (?s, c))" using bl(2) c by (auto simp: block_def)
  obtain f' where f': "v_commit os (vcalls m) (?s + l) c ?f = (ok, f')" "pages m' = f'"
    using r unfolding e by (auto simp: virtualCommit_def split: prod.splits)
  have pm: "pages m' = (if ok then setCommit True (?s + l) c ?f else ?f)"
    using commit_law [OF os lim c(1) in1 f'(1)] f'(2) by simp
  then show eq: "pages m' = (if ok then (\<lambda>a. if h + sum_list (ks @ [l]) \<le> a \<and> a < h + sum_list (ks @ [l]) + c
      then Some (?s, True) else ?f a) else ?f)"
    unfolding e commit_block(1) [OF bl(2) c(2)] .
  show "winHeap os (pages m') h (ks @ [l + c]) (t - c)" if ok
  proof -
    have "block (pages m') ?s (l + c) (t - c)" using commit_block(2) [OF bl(2) c(2)] pm that by simp
    moreover have "blocks (pages m') h ks 0"
    proof (rule blocks_prefix [OF bl(1)])
      fix a
      have "pages m a = Some (?s, False)" if "?s + l \<le> a" "a < ?s + l + c"
        using bl(2) c(2) that by (simp add: block_def)
      then show "pages m' a = pages m a \<or> (\<forall>b c. b < ?s \<longrightarrow> pages m a \<noteq> Some (b, c) \<and> pages m' a \<noteq> Some (b, c))"
        using \<open>ok\<close> unfolding eq e by auto
    qed
    moreover have "inLimit os (pages m')" using lim heap c that by (auto simp: inLimit_def eq winHeap_def)
    moreover have "v_gran os dvd t - c" using heap c(3) by (simp add: winHeap_def dvd_diff_nat)
    ultimately show ?thesis using heap c by (auto simp: winHeap_def blocks_append)
  qed
qed

lemma extend_beyond:
  assumes os: "virtual_ok os" and heap: "winHeap os (pages m) h (ks @ [l]) t" and t: "0 < t" "t \<le> len" and len: "v_gran os dvd len"
    and r: "Windows_mmapAnon os (h + sum_list (ks @ [l]) + t) (len - t) m = (r, m1)"
  shows "r \<noteq> Some (h + sum_list (ks @ [l]) + t) \<Longrightarrow> r = None \<and> pages m1 = pages m"
    and "r = Some (h + sum_list (ks @ [l]) + t) \<Longrightarrow> virtualCommit os (h + sum_list (ks @ [l])) t m1 = (ok, m2) \<Longrightarrow> t < len \<and>
      (if ok then winHeap os (pages m2) h (ks @ [l + t, len - t]) 0 \<and>
         (\<forall>a. h + sum_list (ks @ [l]) + t \<le> a \<and> a < h + sum_list (ks @ [l]) + len \<longrightarrow> pages m a = None) \<and>
         (\<forall>a. a < h + sum_list (ks @ [l]) \<or> h + sum_list (ks @ [l]) + len \<le> a \<longrightarrow> pages m2 a = pages m a)
       else pages (snd (virtualRelease os (h + sum_list (ks @ [l]) + t) m2)) = pages m)"
proof -
  let ?f = "pages m" and ?s = "h + sum_list ks" and ?e = "h + sum_list (ks @ [l])"
  have bl: "blocks ?f h ks 0" "block ?f ?s l t" and lim: "inLimit os ?f" and g: "v_gran os dvd t"
    using heap by (simp_all add: winHeap_def blocks_append)
  have e: "?e = ?s + l" by simp
  have d: "v_gran os dvd ?e + t" using dvd_winHeap [OF heap] g by (rule dvd_add)
  have d2: "v_gran os dvd len - t" using len g by (rule dvd_diff_nat)
  note spec = mmapAnon_spec [OF os lim d d2 r]
  show "r = None \<and> pages m1 = ?f" if "r \<noteq> Some (?e + t)"
    using spec that t by (cases r) auto
  show "t < len \<and> (if ok then winHeap os (pages m2) h (ks @ [l + t, len - t]) 0 \<and>
         (\<forall>a. ?e + t \<le> a \<and> a < ?e + len \<longrightarrow> ?f a = None) \<and> (\<forall>a. a < ?e \<or> ?e + len \<le> a \<longrightarrow> pages m2 a = ?f a)
       else pages (snd (virtualRelease os (?e + t) m2)) = ?f)"
    if new: "r = Some (?e + t)" and c: "virtualCommit os ?e t m1 = (ok, m2)"
  proof -
    have z: "?e + t + (len - t) = ?e + len" using t by simp
    have p: "t < len" "?e + len \<le> v_limit os" "\<forall>a. ?e + t \<le> a \<and> a < ?e + len \<longrightarrow> ?f a = None"
        "\<forall>a c. ?f a \<noteq> Some (?e + t, c)"
        "pages m1 = (\<lambda>a. if ?e + t \<le> a \<and> a < ?e + len then Some (?e + t, True) else ?f a)"
      using spec unfolding new option.case z by auto
    have lim1: "inLimit os (pages m1)" using lim p(2) by (auto simp: inLimit_def p(5))
    have "blocks (pages m1) h (ks @ [l]) t"
      by (rule blocks_cong [of ?f]) (use heap p(3) in \<open>auto simp: p(5) winHeap_def\<close>)
    then have heap1: "winHeap os (pages m1) h (ks @ [l]) t" using heap lim1 by (simp add: winHeap_def)
    note com = extend_commit [OF os heap1 t(1) order_refl g c]
    show ?thesis
    proof (cases ok)
      case True
      have pm: "pages m2 a = (if ?e \<le> a \<and> a < ?e + t then Some (?s, True) else if ?e + t \<le> a \<and> a < ?e + len then Some (?e + t, True) else ?f a)" for a
        using com(1) True by (simp add: p(5))
      have bl2: "blocks (pages m2) h (ks @ [l + t]) 0" using com(2) True by (simp add: winHeap_def)
      moreover have "block (pages m2) (h + sum_list (ks @ [l + t])) (len - t) 0"
        using p(1,4) t by (auto simp: block_def pm add.assoc)
      ultimately have "blocks (pages m2) h ((ks @ [l + t]) @ [len - t]) 0" unfolding blocks_append by blast
      moreover have "inLimit os (pages m2)" using com(2) True by (simp add: winHeap_def)
      ultimately have "winHeap os (pages m2) h (ks @ [l + t, len - t]) 0"
        using heap p(1,2) d2 t g by (auto simp: winHeap_def add.assoc)
      then show ?thesis using True p(1,3) t by (auto simp: pm)
    next
      case False
      then have m2: "pages m2 = pages m1" using com(1) by simp
      have "pages m2 (?e + t) = Some (?e + t, True)" using p(1) by (simp add: m2 p(5))
      then have rel: "v_release os i (?e + t) (pages m2) = (True, freeBase (?e + t) (pages m2))" for i
        using os lim1 m2 unfolding virtual_ok_def release_ok_def by metis
      have "freeBase (?e + t) (pages m2) = ?f"
        by (rule ext) (use p(3,4) in \<open>auto simp: freeBase_def m2 p(5) split: option.splits\<close>)
      then show ?thesis using False p(1) rel by (simp add: virtualRelease_def)
    qed
  qed
qed

text \<open>
  C15: extending a heap on Windows either succeeds, with the requested bytes committed behind those of the
  heap, taken from the tail and from addresses that were free, in reservations of the same structure; or
  it fails and no page has changed, also when a second reservation had been made already. When the tail has
  just the requested size, it fails always, though the bytes are there.
\<close>

theorem Windows_extend_spec:
  assumes os: "virtual_ok os" and heap: "winHeap os (pages m) h ls t" and "ls \<noteq> []" "0 < len" "v_gran os dvd len"
    "h + sum_list ls < v_limit os" "t = 0 \<longrightarrow> (\<forall>b. pages m (h + sum_list ls) \<noteq> Some (b, False))"
  shows "\<exists>r m'. Windows_extend os (h + sum_list ls) len m = Inr (r, m') \<and>
    (case r of
       None \<Rightarrow> pages m' = pages m
     | Some p \<Rightarrow> p = h + sum_list ls \<and> len \<noteq> t \<and>
         (\<exists>ls' t'. winHeap os (pages m') h ls' t' \<and> sum_list ls' = sum_list ls + len) \<and>
         (\<forall>a. p + t \<le> a \<and> a < p + len \<longrightarrow> pages m a = None) \<and>
         (\<forall>a. a < p \<or> p + max t len \<le> a \<longrightarrow> pages m' a = pages m a))"
proof -
  obtain ks l where ls: "ls = ks @ [l]" using assms(3) by (metis append_butlast_last_id)
  let ?f = "pages m" and ?e = "h + sum_list ls" and ?s = "h + sum_list ks"
  have lim: "inLimit os ?f" and bl: "block ?f ?s l t" and e: "?e = ?s + l" and d: "v_gran os dvd ?e + t"
    and fit: "?s + l + t \<le> v_limit os"
    using heap dvd_winHeap [OF heap] by (auto simp: winHeap_def ls blocks_append)
  have se: "?s \<le> ?e" using e by simp
  show ?thesis
  proof (cases "t = 0")
    case True
    obtain r m' where r: "Windows_mmapAnon os ?e len m = (r, m')" by fastforce
    obtain mi where mi: "v_query os ?e ?f = Some mi" "State mi = stateOf (?f ?e)"
      using query_state [OF os lim assms(6)] by blast
    have "?f ?e \<noteq> Some (b, False)" for b using assms(7) True by blast
    then have "Windows_extend os ?e len m = Inr (if ?f ?e = None then (r, m') else (None, m))"
      using mi r by (auto simp: Windows_extend_def stateOf_def split: option.splits)
    moreover note extend_free [OF os heap [unfolded True] assms(5) r]
    ultimately show ?thesis using True assms(4)
      by (cases "?f ?e = None"; cases r) auto
  next
    case False
    then have tpos: "0 < t" by simp
    obtain mi where mi: "v_query os ?e ?f = Some mi" "RegionSize mi = t" "AllocationBase mi = ?s" "State mi = MEM_RESERVE"
      using query_tail [OF os lim fit bl] False unfolding e by auto
    show ?thesis
    proof (cases "len < t")
      case True
      obtain ok m' where r: "virtualCommit os ?e len m = (ok, m')" by fastforce
      have "Windows_extend os ?e len m = Inr (if ok then Some ?e else None, m')"
        using mi r True se by (simp add: Windows_extend_def asserting_def)
      moreover note extend_commit [OF os heap [unfolded ls] assms(4) less_imp_le [OF True] assms(5) r [unfolded ls], folded ls]
      moreover have "sum_list (ks @ [l + len]) = sum_list ls + len" by (simp add: ls)
      ultimately show ?thesis using True
        by (intro exI [of _ "if ok then Some ?e else None"] exI [of _ m'])
           (cases ok; auto simp: e intro!: exI [of _ "ks @ [l + len]"] exI [of _ "t - len"])
    next
      case ge: False
      obtain r m1 where r: "Windows_mmapAnon os (?e + t) (len - t) m = (r, m1)" by fastforce
      have step: "Windows_extend os ?e len m =
          (if r = Some (?e + t) then
             (let (ok, m) = virtualCommit os ?e t m1
              in if ok then Inr (Some ?e, m) else Inr (None, snd (virtualRelease os (?e + t) m)))
           else Inr (None, m1))"
        using mi r ge se by (simp add: Windows_extend_def asserting_def)
      show ?thesis
      proof (cases "r = Some (?e + t)")
        case new: False
        then show ?thesis using step extend_beyond(1) [OF os heap [unfolded ls] _ _ assms(5) r [unfolded ls] new [unfolded ls]] ge tpos
          by simp
      next
        case new: True
        obtain ok m' where c: "virtualCommit os ?e t m1 = (ok, m')" by fastforce
        note new' = extend_beyond(2) [OF os heap [unfolded ls] _ _ assms(5) r [unfolded ls] new [unfolded ls] c [unfolded ls], folded ls]
        show ?thesis
        proof (cases ok)
          case True
          then have "Windows_extend os ?e len m = Inr (Some ?e, m')" using step new c by simp
          moreover have "sum_list (ks @ [l + t, len - t]) = sum_list ls + len" using ge by (simp add: ls)
          ultimately show ?thesis using new' True False ge
            by (intro exI [of _ "Some ?e"] exI [of _ m']) (auto intro!: exI [of _ "ks @ [l + t, len - t]"] exI [of _ 0])
        next
          case no: False
          then have "Windows_extend os ?e len m = Inr (None, snd (virtualRelease os (?e + t) m'))" using step new c by simp
          then show ?thesis using new' no False ge by auto
        qed
      qed
    qed
  qed
qed

section \<open>A new heap, a heap extended at its head, and a neighbour\<close>

lemma new_heap:
  assumes "virtual_ok os" "inLimit os (pages m)" "v_gran os dvd base" "v_gran os dvd len"
    "Windows_mmapAnon os base len m = (Some p, m')"
  shows "winHeap os (pages m') p [len] 0"
  using mmapAnon_spec [OF assms] assms(2,4) by (auto simp: winHeap_def block_def inLimit_def)

text \<open>\<open>GC_extendHead\<close> is \<open>Windows_mmapAnon\<close> at the address before the heap: one more reservation.\<close>

lemma extend_head:
  assumes os: "virtual_ok os" and heap: "winHeap os (pages m) h ls t" and n: "v_gran os dvd len" "len < h" "ls \<noteq> []"
    and r: "Windows_mmapAnon os (h - len) len m = (Some p, m')"
  shows "p = h - len \<and> winHeap os (pages m') (h - len) (len # ls) t"
proof -
  have lim: "inLimit os (pages m)" and bl: "blocks (pages m) h ls t" and d: "v_gran os dvd h - len"
    using heap n(1) by (auto simp: winHeap_def dvd_diff_nat)
  have p: "0 < len" "p = h - len" "p + len = h" "\<forall>a. p \<le> a \<and> a < h \<longrightarrow> pages m a = None"
      "\<forall>a c. pages m a \<noteq> Some (p, c)" "pages m' = (\<lambda>a. if p \<le> a \<and> a < h then Some (p, True) else pages m a)"
    using mmapAnon_spec [OF os lim d n(1) r] n(2) by auto
  have "blocks (pages m') h ls t"
    by (rule blocks_cong [OF bl]) (use p(3,4) \<open>0 < len\<close> in \<open>auto simp: p(6)\<close>)
  moreover have "block (pages m') (h - len) len 0" using p(1,3,5) by (auto simp: block_def p(6) p(2) [symmetric])
  ultimately have "blocks (pages m') (h - len) (len # ls) t" using n p(3) unfolding p(2) by (cases ls) simp_all
  then show ?thesis using heap p(1,2,3) n d
    by (auto simp: winHeap_def inLimit_def p(6))
qed

text \<open>
  When the reservation of someone else, not committed at its start (such as the stack of a thread), follows the
  heap, the code takes it for the tail of the heap: it passes the assertion, and its bytes are committed.
\<close>

lemma extend_foreign:
  assumes os: "virtual_ok os" and lim: "inLimit os (pages m)" "e + n \<le> v_limit os" and n: "0 < len" "len < n"
    and foreign: "\<forall>a. e \<le> a \<and> a < e + n \<longrightarrow> pages m a = Some (e, False)" "pages m (e + n) \<noteq> Some (e, False)"
  shows "\<exists>ok m'. Windows_extend os e len m = Inr (if ok then Some e else None, m') \<and>
    (ok \<longrightarrow> pages m' e = Some (e, True))"
proof -
  obtain mi where mi: "v_query os e (pages m) = Some mi" "RegionSize mi = n" "AllocationBase mi = e" "State mi = MEM_RESERVE"
    using region_size [OF os lim(1) _ lim(2) foreign] n by auto
  obtain ok m' where r: "virtualCommit os e len m = (ok, m')" by fastforce
  have "\<forall>a. e \<le> a \<and> a < e + len \<longrightarrow> (\<exists>c. pages m a = Some (e, c))" using foreign(1) n(2) by auto
  then have "pages m' = (if ok then setCommit True e len (pages m) else pages m)"
    using commit_law [OF os lim(1) n(1), of e e "vcalls m" ok "pages m'"] r
    by (auto simp: virtualCommit_def split: prod.splits)
  moreover have "pages m e = Some (e, False)" using foreign(1) n by simp
  moreover have "Windows_extend os e len m = Inr (if ok then Some e else None, m')"
    using mi r n(2) by (simp add: Windows_extend_def asserting_def)
  ultimately show ?thesis using n(1) by (auto simp: setCommit_def)
qed

section \<open>The hypotheses can hold\<close>

text \<open>A small system: 40 addresses, in pages of 2.\<close>

definition small_os :: VirtualOS where
  "small_os = \<lparr>v_gran = 2, v_limit = 40,
     v_reserve = (\<lambda>i b n f. let r = (if b = 0 then 2 else b) in
       if 0 < n \<and> even r \<and> r + n \<le> 40 \<and> list_all (\<lambda>a. f a = None) [r..<r + n] \<and>
          list_all (\<lambda>a. f a \<noteq> Some (r, True) \<and> f a \<noteq> Some (r, False)) [0..<40]
       then (Some r, giveRange r n f) else (None, f)),
     v_commit = (\<lambda>i b n f. (True, setCommit True b n f)),
     v_release = (\<lambda>i b f. (True, freeBase b f)),
     v_decommit = (\<lambda>i b n f. (True, setCommit False b n f)),
     v_query = (\<lambda>a f. Some \<lparr>AllocationBase = (case f a of None \<Rightarrow> 0 | Some (b, _) \<Rightarrow> b),
       RegionSize = length (takeWhile (\<lambda>x. f x = f a) [a..<40]), State = stateOf (f a)\<rparr>)\<rparr>"

definition small_pages :: pages where
  "small_pages a = (if 8 \<le> a \<and> a < 12 then Some (8, True) else if 12 \<le> a \<and> a < 18 then Some (12, True)
     else if 18 \<le> a \<and> a < 20 then Some (12, False) else None)"

lemma small_query: "query_ok small_os"
proof -
  have "0 < n \<and> a + n \<le> 40 \<and> (\<forall>x. a \<le> x \<and> x < a + n \<longrightarrow> f x = f a) \<and> (a + n = 40 \<or> f (a + n) \<noteq> f a)"
    if a: "a < 40" and n: "n = length (takeWhile (\<lambda>x. f x = f a) [a..<40])" for a n and f :: pages
  proof -
    have le: "n \<le> 40 - a" using length_takeWhile_le [of "\<lambda>x. f x = f a" "[a..<40]"] by (simp add: n)
    have "f (a + i) = f a" if "i < n" for i
    proof -
      let ?w = "takeWhile (\<lambda>x. f x = f a) [a..<40]"
      have "?w ! i = [a..<40] ! i" using that unfolding n by (rule takeWhile_nth)
      also have "\<dots> = a + i" using that le by simp
      finally have "a + i \<in> set ?w" using that unfolding n by (metis nth_mem)
      from set_takeWhileD [OF this] show ?thesis by (rule conjunct2)
    qed
    then have "f x = f a" if "a \<le> x" "x < a + n" for x using that by (metis le_add_diff_inverse nat_add_left_cancel_less)
    moreover have "f (a + n) \<noteq> f a" if "a + n < 40"
      using nth_length_takeWhile [of "\<lambda>x. f x = f a" "[a..<40]"] that by (simp add: n)
    moreover have "0 < n" using a by (simp add: n upt_conv_Cons)
    moreover have "a + n \<le> 40" using le a by linarith
    moreover from this have "a + n = 40 \<or> a + n < 40" by linarith
    ultimately show ?thesis by blast
  qed
  note run = this
  show ?thesis
    unfolding query_ok_def
  proof (intro allI impI)
    fix a and f :: pages
    assume a: "inLimit small_os f \<and> a < v_limit small_os"
    define n where "n = length (takeWhile (\<lambda>x. f x = f a) [a..<40])"
    define mi where "mi = \<lparr>AllocationBase = (case f a of None \<Rightarrow> 0 | Some (b, _) \<Rightarrow> b), RegionSize = n, State = stateOf (f a)\<rparr>"
    have v: "v_query small_os a f = Some mi" by (simp only: small_os_def VirtualOS.simps n_def mi_def)
    have lim: "v_limit small_os = 40" by (simp only: small_os_def VirtualOS.simps)
    have f: "\<forall>ab c. f a = Some (ab, c) \<longrightarrow> AllocationBase mi = ab" "State mi = stateOf (f a)"
      by (simp_all add: mi_def)
    have size: "RegionSize mi = n" by (simp add: mi_def)
    have "a < 40" using a lim by simp
    from run [OF this n_def] f show "case v_query small_os a f of
          None \<Rightarrow> False
        | Some mi \<Rightarrow> 0 < RegionSize mi \<and> a + RegionSize mi \<le> v_limit small_os \<and>
            (\<forall>x. a \<le> x \<and> x < a + RegionSize mi \<longrightarrow> f x = f a) \<and>
            (a + RegionSize mi = v_limit small_os \<or> f (a + RegionSize mi) \<noteq> f a) \<and>
            State mi = stateOf (f a) \<and> (\<forall>ab c. f a = Some (ab, c) \<longrightarrow> AllocationBase mi = ab)"
      unfolding v lim option.case size by blast
  qed
qed

lemma small_virtual: "virtual_ok small_os"
proof -
  have "reserve_ok small_os"
    unfolding reserve_ok_def
  proof (intro allI impI)
    fix i b n and f :: pages
    assume a: "inLimit small_os f \<and> v_gran small_os dvd b \<and> v_gran small_os dvd n"
    let ?r = "if b = 0 then 2 else b"
    have "f a \<noteq> Some (?r, c)" if "list_all (\<lambda>a. f a \<noteq> Some (?r, True) \<and> f a \<noteq> Some (?r, False)) [0..<40]" for a c
      using that a by (cases "a < 40"; cases c) (auto simp: list_all_iff inLimit_def small_os_def)
    then have none: "\<forall>a c. f a \<noteq> Some (?r, c)"
      if "list_all (\<lambda>a. f a \<noteq> Some (?r, True) \<and> f a \<noteq> Some (?r, False)) [0..<40]" using that by blast
    have free: "\<forall>a. ?r \<le> a \<and> a < ?r + n \<longrightarrow> f a = None" if "list_all (\<lambda>a. f a = None) [?r..<?r + n]"
      using that by (simp only: list_all_iff set_upt atLeastLessThan_iff Ball_def)
    show "case v_reserve small_os i b n f of
          (None, f') \<Rightarrow> f' = f
        | (Some r, f') \<Rightarrow> 0 < n \<and> 0 < r \<and> (b \<noteq> 0 \<longrightarrow> r = b) \<and> v_gran small_os dvd r \<and> r + n \<le> v_limit small_os \<and>
            (\<forall>a. r \<le> a \<and> a < r + n \<longrightarrow> f a = None) \<and> (\<forall>a c. f a \<noteq> Some (r, c)) \<and> f' = giveRange r n f"
    proof (cases "v_reserve small_os i b n f = (None, f)")
      case False
      then have c: "0 < n" "even ?r" "?r + n \<le> 40" "list_all (\<lambda>a. f a = None) [?r..<?r + n]"
          "list_all (\<lambda>a. f a \<noteq> Some (?r, True) \<and> f a \<noteq> Some (?r, False)) [0..<40]"
        unfolding small_os_def Let_def VirtualOS.simps by argo+
      then have v: "v_reserve small_os i b n f = (Some ?r, giveRange ?r n f)"
        unfolding small_os_def Let_def VirtualOS.simps by argo
      have "v_gran small_os dvd ?r" "?r + n \<le> v_limit small_os" "0 < ?r" "b \<noteq> 0 \<longrightarrow> ?r = b"
        using c(2,3) by (simp_all add: small_os_def)
      then show ?thesis unfolding v prod.case option.case using c(1) free [OF c(4)] none [OF c(5)] by blast
    qed simp
  qed
  moreover have "commit_ok small_os" "release_ok small_os" by (simp_all add: commit_ok_def release_ok_def small_os_def)
  ultimately show ?thesis using small_query by (simp add: virtual_ok_def) (simp add: small_os_def)
qed

lemma small_heap: "winHeap small_os small_pages 8 [4, 6] 2"
  by (auto simp: winHeap_def inLimit_def block_def small_pages_def small_os_def)

text \<open>The example cut inside of its first reservation, and extended by more than its tail.\<close>

theorem Windows_release_witness:
  "\<exists>m' ls' t'. Windows_release small_os 10 8 \<lparr>pages = small_pages, vcalls = 0\<rparr> = Inr m' \<and>
    winHeap small_os (pages m') 8 ls' t' \<and> sum_list ls' = 2"
  using Windows_release_spec [OF small_virtual, of "\<lparr>pages = small_pages, vcalls = 0\<rparr>" 8 "[4, 6]" 2 2] small_heap
  by (fastforce simp: small_os_def)

theorem Windows_extend_witness:
  "\<exists>r m'. Windows_extend small_os 18 6 \<lparr>pages = small_pages, vcalls = 0\<rparr> = Inr (r, m') \<and>
    (r = None \<and> pages m' = small_pages \<or>
     r = Some 18 \<and> (\<exists>ls' t'. winHeap small_os (pages m') 8 ls' t' \<and> sum_list ls' = 16))"
  using Windows_extend_spec [OF small_virtual, of "\<lparr>pages = small_pages, vcalls = 0\<rparr>" 8 "[4, 6]" 2 6] small_heap
  by (fastforce simp: small_os_def split: option.splits)

section \<open>Processes: the handles\<close>

text \<open>When all goes well, the duplicates are closed; when \<open>CreateProcess\<close> fails they are not.\<close>

lemma create_closes:
  assumes "\<forall>fd \<in> {i, out, err}. dupHandle raw dup fd = Inr (h fd)"
  shows "Windows_Process_create raw dup (Some (p, q)) i out err = (Inr p, [q, h i, h out, h err])"
    "Windows_Process_create raw dup None i out err = (Inl ENOENT, [])"
  using assms by (simp_all add: Windows_Process_create_def)

end
