(* ===== verification/Platform.thy ===== *)
theory Platform
  imports Windows
begin

text \<open>
  The adaptation to other systems as far as it has logic of its own: sizes of pages and memory (\<open>platform/cygwin.c\<close>,
  \<open>sysconf.c\<close>, \<open>sysctl.c\<close>, \<open>linux.c\<close>), the choice of the functions for memory on Cygwin, memory between guard
  pages (\<open>mmap-protect.c\<close>), \<open>setenv\<close> by \<open>putenv\<close>, receiving without waiting where the system has no flag for it
  (\<open>recv.nonblock.c\<close>), and renaming on MinGW (\<open>basis/Posix/FileSys/rename.c\<close>).
\<close>

section \<open>Sizes\<close>

text \<open>Cygwin: the least common multiple of two sizes, by the loop of Euclid.\<close>

function gcdLoop :: "nat \<Rightarrow> nat \<Rightarrow> nat" where
  "gcdLoop a b = (if b \<noteq> 0 then gcdLoop b (a mod b) else a)"
  by pat_completeness auto
termination by (relation "measure snd") auto

declare gcdLoop.simps [simp del]

definition GC_pageSize_sysconf :: "int \<Rightarrow> nat \<Rightarrow> nat" where
  "GC_pageSize_sysconf pgSize granularity =
     (let p = nat (pgSize mod 2 ^ 64) in if p < granularity then granularity else p)"

definition GC_pageSize_cygwin :: "int \<Rightarrow> nat \<Rightarrow> nat \<Rightarrow> nat res" where
  "GC_pageSize_cygwin pgSize granularity winPageSize =
     (let pageSize_sysconf = GC_pageSize_sysconf pgSize granularity;
          g = gcdLoop pageSize_sysconf winPageSize
      in if g = 0 then Inl Undefined else Inr (wrap ((pageSize_sysconf div g) * winPageSize)))"

text \<open>\<open>sysconf\<close> answers with \<open>-1\<close> when it fails.\<close>

definition GC_pageSize_unix :: "int \<Rightarrow> nat res" where
  "GC_pageSize_unix pgSize =
     (if pgSize < 0 then Inl (Die ''GC_pageSize error: sysconf (_SC_PAGESIZE) failed'') else Inr (nat pgSize))"

definition GC_physMem_sysconf :: "int \<Rightarrow> int \<Rightarrow> nat res" where
  "GC_physMem_sysconf pgSize physPages =
     bindE (GC_pageSize_unix pgSize) (\<lambda>pgSize.
       if physPages < 0 then Inl (Die ''GC_physMem error: sysconf (_SC_PHYS_PAGES) failed'')
       else Inr (wrap (pgSize * nat physPages)))"

definition GC_physMem_linux :: "(nat \<times> nat) option \<Rightarrow> nat res" where
  "GC_physMem_linux si =
     (case si of
        None \<Rightarrow> Inl (Die ''GC_physMem error: sysinfo failed'')
      | Some (totalram, mem_unit) \<Rightarrow> Inr (wrap (totalram * mem_unit)))"

text \<open>
  \<open>sysctl\<close>: the first call gives the length of the number, the second the number in so many bytes.
\<close>

definition sysctlNumber :: "string \<Rightarrow> nat option \<Rightarrow> (nat \<Rightarrow> nat option) \<Rightarrow> nat res" where
  "sysctlNumber msg len read =
     (case len of
        None \<Rightarrow> Inl (Die ''sysctl failed'')
      | Some len \<Rightarrow>
          if len = 8 \<or> len = 4 then
            (case read len of None \<Rightarrow> Inl (Die ''sysctl failed'') | Some n \<Rightarrow> Inr (n mod 2 ^ (8 * len)))
          else Inl (Die msg))"

definition GC_pageSize_sysctl :: "nat option \<Rightarrow> (nat \<Rightarrow> nat option) \<Rightarrow> nat res" where
  "GC_pageSize_sysctl len read = sysctlNumber ''GC_pageSize'' len read"

definition GC_physMem_sysctl :: "nat option \<Rightarrow> (nat \<Rightarrow> nat option) \<Rightarrow> nat res" where
  "GC_physMem_sysctl len read = sysctlNumber ''GC_physMem'' len read"

lemma gcdLoop_gcd: "gcdLoop a b = gcd a b"
proof (induction a b rule: gcdLoop.induct)
  case (1 a b)
  then show ?case
    by (subst gcdLoop.simps) (metis gcd_0_nat gcd_red_nat)
qed

text \<open>
  On Cygwin the size of a page is the least common multiple of the size of Windows and the larger of the size of
  the system and the allocation granularity, so that it is a multiple of the granularity if the size of the system is, and below
  \<open>2 ^ 64\<close> without a wrap-around if the product is.
\<close>

lemma GC_pageSize_lcm:
  assumes "0 < pgSize" "pgSize < 2 ^ 63" "0 < win" "p = max (nat pgSize) granularity" "lcm p win < 2 ^ 64"
  shows "GC_pageSize_cygwin pgSize granularity win = Inr (lcm p win) \<and> p dvd lcm p win \<and> win dvd lcm p win"
proof -
  have "GC_pageSize_sysconf pgSize granularity = p"
    using assms(1,2,4) by (auto simp: GC_pageSize_sysconf_def max_def Let_def)
  moreover have "p div gcd p win * win = lcm p win"
    by (simp add: lcm_nat_def div_mult_swap mult.commute)
  moreover have "gcd p win \<noteq> 0" using assms(3) by simp
  ultimately show ?thesis using assms(5) by (simp add: GC_pageSize_cygwin_def gcdLoop_gcd wrap_small)
qed

text \<open>A granularity of 64 KiB, and pages of 4 KiB.\<close>

lemma GC_pageSize_lcm_example: "GC_pageSize_cygwin 4096 65536 4096 = Inr 65536"
proof -
  have l: "lcm (65536 :: nat) 4096 = 65536" by (simp add: lcm_nat_def)
  show ?thesis using GC_pageSize_lcm [of 4096 4096 65536 65536] unfolding l by simp
qed

section \<open>Memory on Cygwin\<close>

text \<open>
  Either the calls of POSIX (parameters) or those of Windows, by a flag of the program.
\<close>

record posixMap =
  px_mmap :: "nat \<Rightarrow> nat \<Rightarrow> winMem \<Rightarrow> nat option \<times> winMem"
  px_munmap :: "nat \<Rightarrow> nat \<Rightarrow> winMem \<Rightarrow> bool \<times> winMem"

definition munmap_safe :: "posixMap \<Rightarrow> nat \<Rightarrow> nat \<Rightarrow> winMem \<Rightarrow> winMem res" where
  "munmap_safe px base len m =
     bindE (asserting (base \<noteq> 0)) (\<lambda>_.
       if len = 0 then Inr m
       else let (ok, m) = px_munmap px base len m in if ok then Inr m else Inl (Die ''munmap failed''))"

definition cygwin_mmapAnon :: "bool \<Rightarrow> posixMap \<Rightarrow> VirtualOS \<Rightarrow> nat \<Rightarrow> nat \<Rightarrow> winMem \<Rightarrow> nat option \<times> winMem" where
  "cygwin_mmapAnon useMmap px os start len m =
     (if useMmap then px_mmap px start len m else Windows_mmapAnon os start len m)"

definition cygwin_release :: "bool \<Rightarrow> posixMap \<Rightarrow> VirtualOS \<Rightarrow> nat \<Rightarrow> nat \<Rightarrow> winMem \<Rightarrow> winMem res" where
  "cygwin_release useMmap px os base len m =
     (if useMmap then munmap_safe px base len m else Windows_release os base len m)"

definition cygwin_extendTail :: "bool \<Rightarrow> posixMap \<Rightarrow> VirtualOS \<Rightarrow> nat \<Rightarrow> nat \<Rightarrow> winMem \<Rightarrow> (nat option \<times> winMem) res" where
  "cygwin_extendTail useMmap px os base len m =
     (if useMmap then Inr (px_mmap px base len m) else Windows_extend os base len m)"

section \<open>Memory between guard pages\<close>

abbreviation (input) PROT_NONE :: nat where "PROT_NONE \<equiv> 0"

text \<open>The protections are a function of the address; the parameter says if \<open>mprotect\<close> succeeds.\<close>

definition mprotect :: "(nat \<Rightarrow> nat \<Rightarrow> bool) \<Rightarrow> nat \<Rightarrow> nat \<Rightarrow> nat \<Rightarrow> (nat \<Rightarrow> nat) \<Rightarrow> (nat \<Rightarrow> nat) res" where
  "mprotect ok a len prot f =
     (if ok a len then Inr (\<lambda>x. if a \<le> x \<and> x < a + len then prot else f x) else Inl (Die ''mprotect failed''))"

definition GC_mmapAnonFlags_safe_protect ::
  "(nat \<Rightarrow> nat option) \<Rightarrow> (nat \<Rightarrow> nat \<Rightarrow> bool) \<Rightarrow> nat \<Rightarrow> nat \<Rightarrow> nat \<Rightarrow> nat \<Rightarrow> (nat \<Rightarrow> nat) \<Rightarrow>
    (nat \<times> (nat \<Rightarrow> nat)) res" where
  "GC_mmapAnonFlags_safe_protect alloc ok len prot dead_low dead_high f =
     (let totlen = wrap (len + dead_low + dead_high)
      in case alloc totlen of
           None \<Rightarrow> Inl (Die ''Out of memory'')
         | Some base \<Rightarrow>
             bindE (mprotect ok base dead_low PROT_NONE f) (\<lambda>f.
             let result = base + dead_low in
             bindE (mprotect ok result len prot f) (\<lambda>f.
             let high = result + len in
             bindE (mprotect ok high dead_high PROT_NONE f) (\<lambda>f. Inr (result, f)))))"

lemma protect_spec:
  assumes "GC_mmapAnonFlags_safe_protect alloc ok len prot lo hi f = Inr (p, f')" "len + lo + hi < 2 ^ 64"
  shows "alloc (len + lo + hi) = Some (p - lo) \<and> lo \<le> p \<and> (\<forall>x. p \<le> x \<and> x < p + len \<longrightarrow> f' x = prot) \<and>
    (\<forall>x. p - lo \<le> x \<and> x < p \<or> p + len \<le> x \<and> x < p + len + hi \<longrightarrow> f' x = PROT_NONE) \<and>
    (\<forall>x. x < p - lo \<or> p + len + hi \<le> x \<longrightarrow> f' x = f x)"
  using assms by (auto simp: GC_mmapAnonFlags_safe_protect_def mprotect_def wrap_small Let_def split: option.splits if_splits)

section \<open>The environment, files, receiving\<close>

definition setenv_putenv :: "(string \<Rightarrow> string option) \<Rightarrow> (string \<Rightarrow> int) \<Rightarrow> string \<Rightarrow> string \<Rightarrow> bool \<Rightarrow> int" where
  "setenv_putenv env putenv name v overwrite =
     (if \<not> overwrite \<and> env name \<noteq> None then 0 else putenv (name @ ''='' @ v))"

text \<open>\<open>'w\<close> is the state of the files; \<open>rename\<close> gives its result with the \<open>errno\<close>.\<close>

definition Posix_FileSys_rename ::
  "bool \<Rightarrow> (string \<Rightarrow> string \<Rightarrow> 'w \<Rightarrow> int \<times> errno \<times> 'w) \<Rightarrow> (string \<Rightarrow> 'w \<Rightarrow> int \<times> 'w) \<Rightarrow> string \<Rightarrow> string \<Rightarrow> 'w \<Rightarrow> int \<times> 'w" where
  "Posix_FileSys_rename mingw c_rename unlink p1 p2 w =
     (let (res, e, w) = c_rename p1 p2 w
      in if mingw \<and> res \<noteq> 0 \<and> e = EEXIST then
           (let (res, w) = unlink p2 w
            in if res = 0 then (let (res, _, w) = c_rename p1 p2 w in (res, w)) else (res, w))
         else (res, w))"

text \<open>The flags of a descriptor, by \<open>fcntl\<close>, which does nothing and answers \<open>-1\<close> for a bad descriptor; \<open>errno\<close> is kept.\<close>

definition fd_modify :: "bool \<Rightarrow> bool \<Rightarrow> 32 word \<Rightarrow> 32 word \<Rightarrow> 32 word \<Rightarrow> 32 word" where
  "fd_modify good dontWait add shouldRemove fl =
     (if dontWait then
        (let f = (if good then fl else - 1) in if good then (f OR add) AND NOT shouldRemove else fl)
      else fl)"

text \<open>The parameter is \<open>recv\<close> with the flags of the descriptor: its result and its \<open>errno\<close>.\<close>

definition MLton_recv_nonblock ::
  "(32 word \<Rightarrow> int \<times> nat) \<Rightarrow> 32 word \<Rightarrow> bool \<Rightarrow> bool \<Rightarrow> 32 word \<Rightarrow> (int \<times> nat) \<times> 32 word" where
  "MLton_recv_nonblock recv O_NONBLOCK good dontWait fl =
     (let fl = fd_modify good dontWait O_NONBLOCK 0 fl;
          r = recv fl;
          fl = fd_modify good dontWait 0 O_NONBLOCK fl
      in (r, fl))"

text \<open>The call sees a descriptor that does not block; after it the descriptor blocks, also when it did not before.\<close>

lemma recv_nonblock:
  "MLton_recv_nonblock recv nb True True fl = (recv (fl OR nb), fl AND NOT nb)"
proof -
  have "(fl OR nb) AND NOT nb = fl AND NOT nb" by (auto intro: bit_word_eqI simp: bit_simps)
  then show ?thesis by (simp add: MLton_recv_nonblock_def fd_modify_def)
qed

end
