(* ===== verification/Remap.thy ===== *)
theory Remap
  imports Memory Align
begin

text \<open>
  Growing a block of memory in place or by moving it, where the system has no \<open>mremap\<close>
  (\<open>platform/mremap.c\<close>, used on Cygwin, the Hurd and MinGW): a binary search for the space that is free
  behind and before the block, whose result is kept for the calls that follow while the size backs off. The calls
  of the operating system are parameters.
\<close>

section \<open>The system\<close>

text \<open>\<open>None\<close> is \<open>(void* )-1\<close>; \<open>'v\<close> is the state of the address space.\<close>

record 'v VM =
  GC_extendHead :: "pointer \<Rightarrow> nat \<Rightarrow> 'v \<Rightarrow> 'v \<times> pointer option"
  GC_extendTail :: "pointer \<Rightarrow> nat \<Rightarrow> 'v \<Rightarrow> 'v \<times> pointer option"
  VM_mmapAnon :: "pointer \<Rightarrow> nat \<Rightarrow> 'v \<Rightarrow> 'v \<times> pointer option"
  VM_release :: "pointer \<Rightarrow> nat \<Rightarrow> 'v \<Rightarrow> 'v"

type_synonym 'v vm = "'v \<times> mem"

text \<open>New memory is zero.\<close>

definition allocVM :: "('v \<Rightarrow> 'v \<times> pointer option) \<Rightarrow> nat \<Rightarrow> 'v vm \<Rightarrow> 'v vm \<times> pointer option" where
  "allocVM f n vm =
     (case f (fst vm) of
        (v, None) \<Rightarrow> ((v, snd vm), None)
      | (v, Some p) \<Rightarrow> ((v, fill_block (snd vm) p n 0), Some p))"

definition releaseVM :: "'v VM \<Rightarrow> pointer \<Rightarrow> nat \<Rightarrow> 'v vm \<Rightarrow> 'v vm" where
  "releaseVM sys p n vm = (VM_release sys p n (fst vm), snd vm)"

section \<open>The search\<close>

abbreviation (input) GC_SMALLEST_PAGESIZE :: nat where "GC_SMALLEST_PAGESIZE \<equiv> 4096"

text \<open>\<open>for (bsTry = 1; bsTry <= bsHigh; bsTry += bsTry)\<close>\<close>

function powerAbove :: "nat \<Rightarrow> nat \<Rightarrow> nat" where
  "powerAbove bsTry bsHigh = (if 0 < bsTry \<and> bsTry \<le> bsHigh then powerAbove (bsTry + bsTry) bsHigh else bsTry)"
  by pat_completeness auto
termination by (relation "measure (\<lambda>(t, h). h + 1 - t)") auto

declare powerAbove.simps [simp del]

text \<open>A try: whether the space at \<open>hint\<close> can be had; it is given back in any case.\<close>

definition tryExtend ::
  "'v VM \<Rightarrow> ('v VM \<Rightarrow> pointer \<Rightarrow> nat \<Rightarrow> 'v \<Rightarrow> 'v \<times> pointer option) \<Rightarrow> pointer \<Rightarrow> nat \<Rightarrow> 'v vm \<Rightarrow> 'v vm \<times> bool" where
  "tryExtend sys grab hint n vm =
     (case allocVM (grab sys hint n) n vm of
        (vm, None) \<Rightarrow> (vm, False)
      | (vm, Some alloc) \<Rightarrow> (releaseVM sys alloc n vm, alloc = hint))"

function searchExtend ::
  "'v VM \<Rightarrow> ('v VM \<Rightarrow> pointer \<Rightarrow> nat \<Rightarrow> 'v \<Rightarrow> 'v \<times> pointer option) \<Rightarrow> (nat \<Rightarrow> pointer) \<Rightarrow> nat \<Rightarrow> nat \<Rightarrow> 'v vm \<Rightarrow> 'v vm \<times> nat" where
  "searchExtend sys grab hint bsLow bsHigh vm =
     (if bsHigh - bsLow > 1 then
        (let bsTry = (bsHigh + bsLow) div 2;
             (vm, ok) = tryExtend sys grab (hint (bsTry * GC_SMALLEST_PAGESIZE)) (bsTry * GC_SMALLEST_PAGESIZE) vm
         in if ok then searchExtend sys grab hint bsTry bsHigh vm
            else searchExtend sys grab hint bsLow bsTry vm)
      else (vm, bsLow))"
  by pat_completeness auto
termination by (relation "measure (\<lambda>(_, _, _, low, high, _). high - low)") auto

declare searchExtend.simps [simp del]

section \<open>The operation\<close>

record remapCache =
  cacheAddress :: pointer
  cacheOldLength :: nat
  cacheNewLength :: nat
  cacheTailSize :: nat
  cacheHeadSize :: nat

definition probeSpace :: "'v VM \<Rightarrow> pointer \<Rightarrow> nat \<Rightarrow> nat \<Rightarrow> remapCache \<Rightarrow> 'v vm \<Rightarrow> remapCache \<times> 'v vm" where
  "probeSpace sys base oldLength growth c vm =
     (let bsHigh = powerAbove 1 ((growth + GC_SMALLEST_PAGESIZE - 1) div GC_SMALLEST_PAGESIZE);
          (vm, tailPages) = searchExtend sys GC_extendTail (\<lambda>_. base + oldLength) 0 bsHigh vm;
          (vm, headPages) = searchExtend sys GC_extendHead (\<lambda>n. wrap_sub base n) 0 bsHigh vm
      in (c\<lparr>cacheTailSize := tailPages * GC_SMALLEST_PAGESIZE, cacheHeadSize := headPages * GC_SMALLEST_PAGESIZE,
           cacheAddress := base, cacheOldLength := oldLength\<rparr>, vm))"

text \<open>No space around it: move the block.\<close>

definition moveBlock :: "'v VM \<Rightarrow> pointer \<Rightarrow> nat \<Rightarrow> nat \<Rightarrow> 'v vm \<Rightarrow> ('v vm \<times> pointer option) res" where
  "moveBlock sys base oldLength newLength vm =
     (case allocVM (VM_mmapAnon sys 0 newLength) newLength vm of
        (vm, None) \<Rightarrow> Inr (vm, None)
      | (vm, Some alloc) \<Rightarrow>
          bindE (GC_memcpy (snd vm) base alloc oldLength) (\<lambda>m.
            Inr (releaseVM sys base oldLength (fst vm, m), Some alloc)))"

text \<open>\<open>GC_extendTail\<close> or \<open>GC_extendHead\<close> where the space is needed: other space is given back.\<close>

definition extendAt ::
  "'v VM \<Rightarrow> ('v VM \<Rightarrow> pointer \<Rightarrow> nat \<Rightarrow> 'v \<Rightarrow> 'v \<times> pointer option) \<Rightarrow> pointer \<Rightarrow> nat \<Rightarrow> 'v vm \<Rightarrow> 'v vm \<times> bool" where
  "extendAt sys grab hint n vm =
     (case allocVM (grab sys hint n) n vm of
        (vm, None) \<Rightarrow> (vm, False)
      | (vm, Some alloc) \<Rightarrow> if alloc = hint then (vm, True) else (releaseVM sys alloc n vm, False))"

definition extendBlock ::
  "'v VM \<Rightarrow> pointer \<Rightarrow> nat \<Rightarrow> nat \<Rightarrow> nat \<Rightarrow> 'v vm \<Rightarrow> 'v vm \<times> pointer option" where
  "extendBlock sys base oldLength growth tailSize vm =
     (let tailp = base + oldLength
      in if growth \<le> tailSize then
           (let (vm, ok) = extendAt sys GC_extendTail tailp growth vm in (vm, if ok then Some base else None))
         else
           (let (vm, ok) = (if tailSize > 0 then extendAt sys GC_extendTail tailp tailSize vm else (vm, True))
            in if \<not> ok then (vm, None)
               else
                 (let headp = wrap_sub base (growth - tailSize);
                      (vm, ok) = extendAt sys GC_extendHead headp (growth - tailSize) vm
                  in if \<not> ok then ((if tailSize > 0 then releaseVM sys tailp tailSize vm else vm), None)
                     else ((fst vm, GC_memmove (snd vm) base headp oldLength), Some headp))))"

definition GC_mremap_portable ::
  "'v VM \<Rightarrow> remapCache \<Rightarrow> 'v vm \<Rightarrow> pointer \<Rightarrow> nat \<Rightarrow> nat \<Rightarrow> (remapCache \<times> 'v vm \<times> pointer option) res" where
  "GC_mremap_portable sys c vm base oldLength newLength =
     (if newLength = oldLength then Inr (c, vm, Some base)
      else if newLength < oldLength then
        Inr (c, releaseVM sys (base + newLength) (oldLength - newLength) vm, Some base)
      else
        (let growth = newLength - oldLength;
             (c, vm) = (if cacheAddress c = base \<and> cacheOldLength c = oldLength \<and> cacheNewLength c > newLength
                        then (c, vm) else probeSpace sys base oldLength growth c vm);
             c = c\<lparr>cacheNewLength := newLength\<rparr>
         in if wrap (cacheTailSize c + cacheHeadSize c) < growth then
              bindE (moveBlock sys base oldLength newLength vm) (\<lambda>(vm, r). Inr (c, vm, r))
            else
              (let (vm, r) = extendBlock sys base oldLength growth (cacheTailSize c) vm in Inr (c, vm, r))))"

section \<open>What the system promises\<close>

text \<open>
  The calls as their manual pages describe them: an allocation that succeeds adds a block that was not
  mapped before and lies in the address space, one that fails changes nothing, and a release
  takes out what it names.
\<close>

definition allocates :: "('v \<Rightarrow> pointer set) \<Rightarrow> nat \<Rightarrow> 'v \<Rightarrow> 'v \<times> pointer option \<Rightarrow> bool" where
  "allocates mapped n v r \<longleftrightarrow>
     (case r of
        (v', None) \<Rightarrow> mapped v' = mapped v
      | (v', Some p) \<Rightarrow> mapped v' = mapped v \<union> {p..<p + n} \<and> mapped v \<inter> {p..<p + n} = {} \<and> p + n \<le> 2 ^ 64)"

text \<open>Mapped memory that is neither changed nor given back.\<close>

definition keeps :: "('v \<Rightarrow> pointer set) \<Rightarrow> 'v vm \<Rightarrow> 'v vm \<Rightarrow> pointer set \<Rightarrow> bool" where
  "keeps mapped vm vm' A \<longleftrightarrow> mapped (fst vm') = mapped (fst vm) \<union> A \<and> mapped (fst vm) \<inter> A = {} \<and>
     (\<forall>a\<in>mapped (fst vm). snd vm' a = snd vm a)"

text \<open>The block at \<open>base\<close> has become the block at \<open>p\<close>.\<close>

definition resized :: "('v \<Rightarrow> pointer set) \<Rightarrow> 'v vm \<Rightarrow> 'v vm \<Rightarrow> pointer \<Rightarrow> nat \<Rightarrow> pointer \<Rightarrow> nat \<Rightarrow> bool" where
  "resized mapped vm vm' base old p new \<longleftrightarrow>
     mapped (fst vm') = (mapped (fst vm) - {base..<base + old}) \<union> {p..<p + new} \<and>
     (mapped (fst vm) - {base..<base + old}) \<inter> {p..<p + new} = {} \<and>
     (\<forall>i<min old new. snd vm' (p + i) = snd vm (base + i)) \<and>
     (\<forall>a\<in>mapped (fst vm) - {base..<base + old}. snd vm' a = snd vm a)"

locale address_space =
  fixes sys :: "'v VM" and mapped :: "'v \<Rightarrow> pointer set"
  assumes extendHead: "allocates mapped n v (GC_extendHead sys p n v)"
    and extendTail: "allocates mapped n v (GC_extendTail sys p n v)"
    and mmapAnon: "allocates mapped n v (VM_mmapAnon sys p n v)"
    and release: "mapped (VM_release sys p n v) = mapped v - {p..<p + n}"
begin

lemma keeps_refl [simp]: "keeps mapped vm vm {}"
  by (simp add: keeps_def)

lemma keeps_trans: "keeps mapped vm vm1 A \<Longrightarrow> keeps mapped vm1 vm2 B \<Longrightarrow> keeps mapped vm vm2 (A \<union> B)"
  by (auto simp: keeps_def)

lemma allocVM_keeps:
  assumes "allocates mapped n (fst vm) (f (fst vm))" "allocVM f n vm = (vm', r)"
  shows "case r of None \<Rightarrow> keeps mapped vm vm' {} | Some p \<Rightarrow> keeps mapped vm vm' {p..<p + n} \<and> p + n \<le> 2 ^ 64"
proof -
  obtain v q where q: "f (fst vm) = (v, q)" by fastforce
  show ?thesis
  proof (cases q)
    case None
    then have "r = None" "vm' = (v, snd vm)" using assms(2) q by (simp_all add: allocVM_def)
    moreover have "mapped v = mapped (fst vm)" using assms(1) q None by (simp add: allocates_def)
    ultimately show ?thesis by (simp add: keeps_def)
  next
    case (Some p)
    then have "r = Some p" "vm' = (v, fill_block (snd vm) p n 0)" using assms(2) q by (simp_all add: allocVM_def)
    moreover have "mapped v = mapped (fst vm) \<union> {p..<p + n}" "mapped (fst vm) \<inter> {p..<p + n} = {}" "p + n \<le> 2 ^ 64"
      using assms(1) q Some by (simp_all add: allocates_def)
    moreover from this have "fill_block (snd vm) p n 0 a = snd vm a" if "a \<in> mapped (fst vm)" for a
      using that by (auto simp: fill_block_def)
    ultimately show ?thesis by (simp add: keeps_def)
  qed
qed

lemma releaseVM_keeps:
  assumes "keeps mapped vm vm1 (A \<union> {p..<p + n})" "A \<inter> {p..<p + n} = {}"
  shows "keeps mapped vm (releaseVM sys p n vm1) A"
  using assms by (auto simp: releaseVM_def keeps_def release)

lemma tryExtend_keeps:
  assumes "\<And>p n v. allocates mapped n v (grab sys p n v)"
  shows "keeps mapped vm (fst (tryExtend sys grab hint n vm)) {}"
proof -
  obtain vm' r where r: "allocVM (grab sys hint n) n vm = (vm', r)" by fastforce
  show ?thesis
    using allocVM_keeps [OF assms r] releaseVM_keeps [of vm vm' "{}"]
    by (auto simp: tryExtend_def r split: option.splits)
qed

lemma searchExtend_keeps:
  assumes "\<And>p n v. allocates mapped n v (grab sys p n v)"
  shows "keeps mapped vm (fst (searchExtend sys grab hint low high vm)) {}"
proof (induction "high - low" arbitrary: low high vm rule: less_induct)
  case less
  show ?case
  proof (cases "high - low > 1")
    case True
    let ?t = "(high + low) div 2"
    obtain vm1 ok where t: "tryExtend sys grab (hint (?t * 4096)) (?t * 4096) vm = (vm1, ok)" by fastforce
    have "keeps mapped vm (fst (tryExtend sys grab (hint (?t * 4096)) (?t * 4096) vm)) {}"
      by (rule tryExtend_keeps) (rule assms)
    then have k: "keeps mapped vm vm1 {}" by (simp add: t)
    have "high - ?t < high - low" "?t - low < high - low" using True by auto
    then have "keeps mapped vm1 (fst (searchExtend sys grab hint ?t high vm1)) {}"
      "keeps mapped vm1 (fst (searchExtend sys grab hint low ?t vm1)) {}" using less by blast+
    then show ?thesis using k True t keeps_trans [of vm vm1 "{}"]
      by (subst searchExtend.simps) (simp add: Let_def)
  next
    case False
    then show ?thesis by (subst searchExtend.simps) simp
  qed
qed

lemma probeSpace_keeps:
  assumes "probeSpace sys base old growth c vm = (c', vm')"
  shows "keeps mapped vm vm' {}"
proof -
  let ?h = "powerAbove 1 ((growth + 4096 - 1) div 4096)"
  obtain vm1 k where 1: "searchExtend sys GC_extendTail (\<lambda>_. base + old) 0 ?h vm = (vm1, k)" by fastforce
  obtain vm2 j where 2: "searchExtend sys GC_extendHead (\<lambda>n. wrap_sub base n) 0 ?h vm1 = (vm2, j)" by fastforce
  have "vm' = vm2" using assms 1 2 by (simp add: probeSpace_def Let_def)
  moreover have "keeps mapped vm (fst (searchExtend sys GC_extendTail (\<lambda>_. base + old) 0 ?h vm)) {}"
    by (rule searchExtend_keeps) (rule extendTail)
  moreover have "keeps mapped vm1 (fst (searchExtend sys GC_extendHead (\<lambda>n. wrap_sub base n) 0 ?h vm1)) {}"
    by (rule searchExtend_keeps) (rule extendHead)
  ultimately show ?thesis using keeps_trans [of vm vm1 "{}" vm2 "{}"] 1 2 by simp
qed

lemma extendAt_keeps:
  assumes "\<And>p n v. allocates mapped n v (grab sys p n v)" "extendAt sys grab hint n vm = (vm', ok)"
  shows "if ok then keeps mapped vm vm' {hint..<hint + n} \<and> hint + n \<le> 2 ^ 64 else keeps mapped vm vm' {}"
proof -
  obtain vm1 r where r: "allocVM (grab sys hint n) n vm = (vm1, r)" by fastforce
  show ?thesis
    using allocVM_keeps [where f = "grab sys hint n", OF assms(1) r] releaseVM_keeps [of vm vm1 "{}"] assms(2)
    by (cases r) (auto simp: extendAt_def r split: if_splits)
qed

lemma resized_after:
  assumes "keeps mapped vm vm1 {}" "resized mapped vm1 vm' base old p new" "{base..<base + old} \<subseteq> mapped (fst vm)"
  shows "resized mapped vm vm' base old p new"
proof -
  have "base + i \<in> mapped (fst vm)" if "i < old" for i using assms(3) that by auto
  then show ?thesis using assms(1,2) by (simp add: keeps_def resized_def)
qed

lemma grown_tail:
  assumes "keeps mapped vm vm' {base + old..<base + old + growth}" "{base..<base + old} \<subseteq> mapped (fst vm)"
  shows "resized mapped vm vm' base old base (old + growth)"
proof -
  have "base + i \<in> mapped (fst vm)" if "i < old" for i using assms(2) that by auto
  moreover have "{base..<base + (old + growth)} = {base..<base + old} \<union> {base + old..<base + old + growth}" by auto
  ultimately show ?thesis using assms by (auto simp: keeps_def resized_def)
qed

lemma grown_head:
  assumes k: "keeps mapped vm vm1 (T \<union> {base - k..<base})" and T: "T = {base + old..<base + old + t}"
    and b: "{base..<base + old} \<subseteq> mapped (fst vm)" "0 < k" "k \<le> base"
  shows "resized mapped vm (fst vm1, GC_memmove (snd vm1) base (base - k) old) base old (base - k) (old + (k + t))"
proof -
  have in_b: "base + i \<in> mapped (fst vm)" if "i < old" for i using b(1) that by auto
  have range: "{base - k..<base - k + (old + (k + t))} = {base..<base + old} \<union> (T \<union> {base - k..<base})"
    using b T by auto
  have mv: "GC_memmove (snd vm1) base (base - k) old = copy_block (snd vm1) base (base - k) old"
    using b by (auto simp: GC_memmove_def)
  have "copy_block (snd vm1) base (base - k) old (base - k + i) = snd vm (base + i)" if "i < old" for i
    using k in_b [OF that] that by (simp add: copy_block_def keeps_def)
  moreover have "copy_block (snd vm1) base (base - k) old a = snd vm a"
    if "a \<in> mapped (fst vm) - {base..<base + old}" for a
  proof -
    have "a \<notin> T \<union> {base - k..<base}" using k that by (auto simp: keeps_def)
    then have "\<not> (base - k \<le> a \<and> a < base - k + old)" using that b by auto
    then show ?thesis using k that by (auto simp: copy_block_def keeps_def)
  qed
  ultimately show ?thesis
    unfolding resized_def range mv using k b(1) by (auto simp: keeps_def)
qed

lemma wrapped_head:
  assumes "wrap_sub base k + k \<le> 18446744073709551616" "0 < base" "base < 18446744073709551616" "k < 18446744073709551616"
  shows "k \<le> base \<and> wrap_sub base k = base - k"
proof (cases "k \<le> base")
  case True
  then show ?thesis using assms by (simp add: wrap_sub_eq)
next
  case False
  then have "wrap_sub base k = base + (18446744073709551616 - k)"
    unfolding wrap_sub_def using assms by (intro wrap_small) simp
  then show ?thesis using assms False by simp
qed

lemma extendBlock_spec:
  assumes e: "extendBlock sys base old growth t vm = (vm', r)"
    and b: "{base..<base + old} \<subseteq> mapped (fst vm)" "0 < base" "base < 18446744073709551616"
      "growth < 18446744073709551616"
  shows "case r of None \<Rightarrow> keeps mapped vm vm' {} | Some p \<Rightarrow> resized mapped vm vm' base old p (old + growth)"
proof -
  let ?T = "{base + old..<base + old + t}"
  consider "growth \<le> t" | "t < growth" by linarith
  then show ?thesis
  proof cases
    case 1
    obtain vm1 ok where x: "extendAt sys GC_extendTail (base + old) growth vm = (vm1, ok)" by fastforce
    show ?thesis using extendAt_keeps [where grab = GC_extendTail, OF extendTail x] e 1 x grown_tail [of vm vm1 base old growth, OF _ b(1)]
      by (auto simp: extendBlock_def Let_def split: if_splits)
  next
    case 2
    obtain vm1 ok where x: "(if t > 0 then extendAt sys GC_extendTail (base + old) t vm else (vm, True)) = (vm1, ok)"
      by fastforce
    have k1: "if ok then keeps mapped vm vm1 ?T else keeps mapped vm vm1 {}"
      using extendAt_keeps [where grab = GC_extendTail and hint = "base + old" and n = t and vm = vm, OF extendTail] x by (auto split: if_splits)
    show ?thesis
    proof (cases ok)
      case False
      then show ?thesis using k1 e 2 x by (simp add: extendBlock_def Let_def)
    next
      case True
      let ?k = "growth - t"
      obtain vm2 ok2 where y: "extendAt sys GC_extendHead (wrap_sub base ?k) ?k vm1 = (vm2, ok2)" by fastforce
      note k2 = extendAt_keeps [where grab = GC_extendHead, OF extendHead y]
      have k1: "keeps mapped vm vm1 ?T" using k1 True by simp
      show ?thesis
      proof (cases ok2)
        case False
        then have "r = None" "vm' = (if t > 0 then releaseVM sys (base + old) t vm2 else vm2)"
          using e 2 x y True by (simp_all add: extendBlock_def Let_def)
        moreover have "keeps mapped vm vm2 ?T" using keeps_trans [OF k1, of vm2 "{}"] k2 False by simp
        moreover from this have "keeps mapped vm (releaseVM sys (base + old) t vm2) {}"
          using releaseVM_keeps [of vm vm2 "{}"] by simp
        ultimately show ?thesis by (cases "t = 0") simp_all
      next
        case ok: True
        have h: "?k \<le> base" "wrap_sub base ?k = base - ?k"
          using wrapped_head [of base ?k] k2 ok b by simp_all
        then have "keeps mapped vm vm2 (?T \<union> {base - ?k..<base})" using keeps_trans [OF k1, of vm2] k2 ok by simp
        then have "resized mapped vm (fst vm2, GC_memmove (snd vm2) base (base - ?k) old) base old (base - ?k) (old + (?k + t))"
          using b(1) h(1) 2 by (intro grown_head) simp_all
        moreover have "?k + t = growth" using 2 by simp
        moreover have "r = Some (base - ?k)" "vm' = (fst vm2, GC_memmove (snd vm2) base (base - ?k) old)"
          using e 2 x y True ok h by (simp_all add: extendBlock_def Let_def)
        ultimately show ?thesis by simp
      qed
    qed
  qed
qed

lemma moveBlock_spec:
  assumes b: "{base..<base + old} \<subseteq> mapped (fst vm)" and old: "old \<le> new"
  shows "\<exists>vm' r. moveBlock sys base old new vm = Inr (vm', r) \<and>
    (case r of None \<Rightarrow> keeps mapped vm vm' {} | Some p \<Rightarrow> resized mapped vm vm' base old p new)"
proof -
  obtain vm1 q where q: "allocVM (VM_mmapAnon sys 0 new) new vm = (vm1, q)" by fastforce
  note k = allocVM_keeps [where f = "VM_mmapAnon sys 0 new", OF mmapAnon q]
  show ?thesis
  proof (cases q)
    case None
    then show ?thesis using k q by (simp add: moveBlock_def)
  next
    case (Some p)
    then have k: "keeps mapped vm vm1 {p..<p + new}" using k by simp
    have disj: "{p..<p + new} \<inter> {base..<base + old} = {}" using k b unfolding keeps_def by blast
    then have apart: "p + old \<le> base \<or> base + old \<le> p \<or> old = 0" using old by auto
    then have c: "GC_memcpy (snd vm1) base p old = Inr (copy_block (snd vm1) base p old)"
      by (auto simp: GC_memcpy_def)
    let ?m = "copy_block (snd vm1) base p old"
    have in_b: "base + i \<in> mapped (fst vm)" if "i < old" for i using b that by auto
    have "?m (p + i) = snd vm (base + i)" if "i < old" for i
      using k in_b [OF that] that by (simp add: copy_block_def keeps_def)
    moreover have "?m a = snd vm a" if "a \<in> mapped (fst vm)" for a
    proof -
      have "\<not> (p \<le> a \<and> a < p + old)" using k that old by (auto simp: keeps_def)
      then show ?thesis using k that by (auto simp: copy_block_def keeps_def)
    qed
    moreover note disj
    ultimately have "resized mapped vm (releaseVM sys base old (fst vm1, ?m)) base old p new"
      using k by (auto simp: resized_def releaseVM_def release keeps_def)
    then show ?thesis using Some q c by (simp add: moveBlock_def)
  qed
qed

lemma GC_mremap_portable_spec:
  assumes b: "{base..<base + old} \<subseteq> mapped (fst vm)" "0 < base" "base < 18446744073709551616" "new < 18446744073709551616"
  shows "\<exists>c' vm' r. GC_mremap_portable sys c vm base old new = Inr (c', vm', r) \<and>
    (case r of None \<Rightarrow> old < new \<and> keeps mapped vm vm' {} | Some p \<Rightarrow> resized mapped vm vm' base old p new)"
proof -
  consider "new = old" | "new < old" | "old < new" by linarith
  then show ?thesis
  proof cases
    case 1
    then show ?thesis using b(1) by (auto simp: GC_mremap_portable_def resized_def)
  next
    case 2
    have "{base..<base + old} = {base..<base + new} \<union> {base + new..<base + new + (old - new)}" using 2 by auto
    then show ?thesis using b(1) 2
      by (auto simp: GC_mremap_portable_def resized_def releaseVM_def release)
  next
    case 3
    let ?hit = "cacheAddress c = base \<and> cacheOldLength c = old \<and> cacheNewLength c > new"
    obtain c1 vm1 where p: "(if ?hit then (c, vm) else probeSpace sys base old (new - old) c vm) = (c1, vm1)"
      by (rule prod.exhaust)
    have k: "keeps mapped vm vm1 {}"
      using probeSpace_keeps [of base old "new - old" c vm c1 vm1] p by (auto split: if_splits)
    have b1: "{base..<base + old} \<subseteq> mapped (fst vm1)" using k b(1) by (simp add: keeps_def)
    note after = resized_after [OF k _ b(1)] keeps_trans [OF k, of _ "{}"]
    let ?c = "c1\<lparr>cacheNewLength := new\<rparr>"
    show ?thesis
    proof (cases "wrap (cacheTailSize c1 + cacheHeadSize c1) < new - old")
      case True
      obtain vm2 r where m: "moveBlock sys base old new vm1 = Inr (vm2, r)"
        "case r of None \<Rightarrow> keeps mapped vm1 vm2 {} | Some p \<Rightarrow> resized mapped vm1 vm2 base old p new"
        using moveBlock_spec [OF b1, of new] 3 by auto
      have "GC_mremap_portable sys c vm base old new = Inr (?c, vm2, r)"
        using 3 p True m(1) by (simp add: GC_mremap_portable_def Let_def)
      then show ?thesis using m(2) after 3 by (cases r) auto
    next
      case False
      obtain vm2 r where m: "extendBlock sys base old (new - old) (cacheTailSize c1) vm1 = (vm2, r)" by fastforce
      note e = extendBlock_spec [OF m b1 b(2,3)]
      have "GC_mremap_portable sys c vm base old new = Inr (?c, vm2, r)"
        using 3 p False m by (simp add: GC_mremap_portable_def Let_def)
      then show ?thesis using e after 3 b(4) by (cases r) auto
    qed
  qed
qed

end

section \<open>A system that gives out free space\<close>

text \<open>Space is given at the hint, where it is free below \<open>2 ^ 47\<close>, and without a hint at the first of some addresses.\<close>

definition giveSpace :: "pointer list \<Rightarrow> nat \<Rightarrow> pointer set \<Rightarrow> pointer set \<times> pointer option" where
  "giveSpace ps n v =
     (case filter (\<lambda>p. v \<inter> {p..<p + n} = {} \<and> p + n \<le> 2 ^ 47) ps of
        [] \<Rightarrow> (v, None)
      | p # _ \<Rightarrow> (v \<union> {p..<p + n}, Some p))"

definition freeSpaceVM :: "pointer set VM" where
  "freeSpaceVM = \<lparr>GC_extendHead = (\<lambda>p. giveSpace [p]), GC_extendTail = (\<lambda>p. giveSpace [p]),
     VM_mmapAnon = (\<lambda>p. giveSpace (p # map (\<lambda>i. i * 2 ^ 40) [1..<128])), VM_release = (\<lambda>p n v. v - {p..<p + n})\<rparr>"

lemma giveSpace_allocates: "allocates (\<lambda>v. v) n v (giveSpace ps n v)"
proof (cases "filter (\<lambda>p. v \<inter> {p..<p + n} = {} \<and> p + n \<le> 2 ^ 47) ps")
  case Nil
  then show ?thesis by (simp add: giveSpace_def allocates_def)
next
  case (Cons p qs)
  then have "p \<in> set (filter (\<lambda>p. v \<inter> {p..<p + n} = {} \<and> p + n \<le> 2 ^ 47) ps)" by simp
  then have p: "v \<inter> {p..<p + n} = {}" "p + n \<le> 2 ^ 47" unfolding set_filter by blast+
  have "(2::nat) ^ 47 \<le> 2 ^ 64" by simp
  then have "p + n \<le> 2 ^ 64" using p(2) by (rule order_trans [rotated])
  moreover have "giveSpace ps n v = (v \<union> {p..<p + n}, Some p)" unfolding giveSpace_def Cons list.case by (rule refl)
  ultimately show ?thesis unfolding allocates_def using p(1) by (simp only: prod.case option.case)
qed

interpretation freeSpace: address_space freeSpaceVM "\<lambda>v. v"
  by unfold_locales (simp_all add: freeSpaceVM_def giveSpace_allocates)



end
