(* ===== verification/SavedWorld.thy ===== *)
theory SavedWorld
  imports World
begin

text \<open>
  A saved world read back (\<open>world.c\<close>): what the loader finds in the file is what the saver
  wrote, field by field and byte by byte, up to the translation of pointers to the new heap.
\<close>

section \<open>The text at the start of the file\<close>

lemma digitChar_code: "k < 16 \<Longrightarrow> 0 < (of_char (digitChar k) :: nat)"
  by (simp add: digitChar_def)

lemma showBase_text:
  "1 < b \<Longrightarrow> b \<le> 16 \<Longrightarrow> \<forall>c\<in>set (showBase b n). 0 < (of_char c :: nat)"
proof (induction b n rule: showBase.induct)
  case (1 b n)
  show ?case
  proof (cases "n < b")
    case True
    then show ?thesis using 1 digitChar_code [of n] by (subst showBase.simps) simp
  next
    case False
    have "n mod b < 16" using 1(2,3) mod_less_divisor [of b n] by linarith
    then show ?thesis using False 1 digitChar_code [of "n mod b"] by (subst showBase.simps) auto
  qed
qed

lemma skipText_line:
  assumes "\<forall>c\<in>set cs. 0 < (of_char c :: nat)"
  shows "length cs < n \<Longrightarrow> skipText n (map of_char cs @ 0 # f) = Inr f"
  using assms
proof (induction cs arbitrary: n)
  case Nil
  have "readChar (0 # f) = Inr (char_of (0::nat), f)" by (simp add: readChar_def fread_safe_def)
  then show ?case using Nil by (cases n) simp_all
next
  case (Cons c cs)
  then show ?case using read_write(6) [of c "map of_char cs @ 0 # f"]
    by (cases n) simp_all
qed

lemma worldText_line:
  "\<exists>cs. worldText s = map of_char cs @ [0] \<and> (\<forall>c\<in>set cs. 0 < (of_char c :: nat))"
proof -
  have "\<forall>c\<in>set (showDec n). 0 < (of_char c :: nat)" for n
    using showBase_text [of 10] by (simp add: showDec_def)
  moreover have "\<forall>c\<in>set (showHexPad k n). 0 < (of_char c :: nat)" for k n
    using showBase_text [of 16] by (auto simp: showHexPad_def Let_def)
  ultimately have "\<forall>c\<in>set (''Heap file created by MLton.'' @ [CHR 0x0A] @ ''heap.start = ''
       @ ''0x'' @ showHexPad 16 (heapStart (heap s)) @ [CHR 0x0A] @ ''bytesLive = ''
       @ showDec (lm_bytesLive (lastMajorStatistics s)) @ [CHR 0x0A]). 0 < (of_char c :: nat)"
    by (simp add: ball_Un)
  then show ?thesis unfolding worldText_def by (intro exI conjI) (rule refl)
qed

lemma skipText_world:
  assumes "length (worldText w) < n"
  shows "skipText n (worldText w @ f) = Inr f"
proof -
  obtain cs where "worldText w = map of_char cs @ [0]" "\<forall>c\<in>set cs. 0 < (of_char c :: nat)"
    using worldText_line by blast
  then show ?thesis using assms skipText_line [of cs _ f] by (simp del: skipText.simps)
qed

section \<open>The fields\<close>

text \<open>The state after the fields of a saved state \<open>w\<close> are read.\<close>

definition savedHeader :: "GC_state \<Rightarrow> GC_state \<Rightarrow> GC_state" where
  "savedHeader w s =
     write64 (signalHandlerThreadp s) (signalHandlerThread w)
       (write64 (currentThreadp s) (currentThread w)
         (write64 (callFromCHandlerThreadp s) (callFromCHandlerThread w)
           (s\<lparr>heap := (heap s)\<lparr>oldGenSize := oldGenSize (heap w)\<rparr>, atomicState := atomicState w\<rparr>)))"

lemma loadWorldHeader_saved:
  assumes "magic s = magic w"
    and "gcStateFn prog < 2 ^ 64" "gcStateAddr prog < 2 ^ 64" "heapStart (heap w) < 2 ^ 64" "oldGenSize (heap w) < 2 ^ 64"
  shows "loadWorldHeader prog s (concat (take 10 (worldBlocks prog w)) @ f)
    = Inr (savedHeader w s, f, heapStart (heap w))"
proof -
  have "unat (magic w) < 4294967296" "unat (atomicState w) < 4294967296" by (rule unat_lt_32)+
  then show ?thesis
    using assms by (simp add: loadWorldHeader_def worldBlocks_def read_write heap_upd_def savedHeader_def
        set_currentThread_def write64_def skipText_world del: skipText.simps)
qed

section \<open>The blocks of memory\<close>

lemma fread_block:
  "length bs = n \<Longrightarrow> fread_mem p n (s, bs @ f) = Inr (storeBytes p bs s, f)"
  by (simp add: fread_mem_def fread_safe_def)

lemma length_loadBytes [simp]: "length (loadBytes s p n) = n"
  by (simp add: loadBytes_def)

lemma storeBytes_mem:
  "mem (storeBytes p (loadBytes w q n) s) a = (if p \<le> a \<and> a < p + n then mem w (q + (a - p)) else mem s a)"
  by (auto simp: storeBytes_def loadBytes_def)

lemma storeBytes_only_mem: "only_mem s (storeBytes p bs s)"
  by (auto simp: storeBytes_def only_mem_def)

text \<open>The new heap: what the creation of a heap and of its maps leaves alone.\<close>

definition quiet :: "GC_state \<Rightarrow> GC_state \<Rightarrow> bool" where
  "quiet s t \<longleftrightarrow> staticHeaps t = staticHeaps s \<and> atomicState t = atomicState s \<and> heap t = heap s \<and>
     callFromCHandlerThreadp t = callFromCHandlerThreadp s \<and> currentThreadp t = currentThreadp s \<and>
     signalHandlerThreadp t = signalHandlerThreadp s \<and> mutatorMarksCards t = mutatorMarksCards s \<and>
     sysvals t = sysvals s"

lemma quiet_trans: "quiet s t \<Longrightarrow> quiet t u \<Longrightarrow> quiet s u"
  by (simp add: quiet_def)

lemma quiet_mem: "only_mem s t \<Longrightarrow> quiet s t"
  by (auto simp: quiet_def only_mem_def)

lemma mmap_quiet:
  assumes "GC_mmapAnon os s p len = (t, r)"
  shows "quiet s t" "mem t = (case r of None \<Rightarrow> mem s | Some start \<Rightarrow> fill_block (mem s) start len 0)"
  using assms by (auto simp: GC_mmapAnon_def Let_def quiet_def split: option.splits)

lemma createHeapScan_quiet:
  assumes "createHeapScan os s n is = (t, r)"
  shows "quiet s t" "mem t = (case r of None \<Rightarrow> mem s | Some start \<Rightarrow> fill_block (mem s) start n 0)"
proof -
  have "quiet s t \<and> mem t = (case r of None \<Rightarrow> mem s | Some start \<Rightarrow> fill_block (mem s) start n 0)"
    using assms
  proof (induction "is" arbitrary: s)
    case (Cons i "is")
    obtain s1 q a where q: "GC_mmapAnon os s a n = (s1, q)"
      and r: "(t, r) = (case q of Some start \<Rightarrow> (s1\<lparr>addressScanDir := \<not> addressScanDir s1\<rparr>, Some start)
                         | None \<Rightarrow> createHeapScan os s1 n is)"
      using Cons.prems by (auto simp: Let_def split: prod.splits)
    show ?case
    proof (cases q)
      case None
      then have "quiet s s1" "mem s1 = mem s" "createHeapScan os s1 n is = (t, r)"
        using mmap_quiet [OF q] r by simp_all
      then show ?thesis using Cons.IH [of s1] quiet_trans [of s s1 t]
        by (simp split: option.splits)
    next
      case (Some start)
      then show ?thesis using mmap_quiet [OF q] r by (auto simp: quiet_def)
    qed
  qed (auto simp: quiet_def)
  then show "quiet s t" "mem t = (case r of None \<Rightarrow> mem s | Some start \<Rightarrow> fill_block (mem s) start n 0)" by auto
qed

lemma noteHeapSize_quiet: "quiet s (noteHeapSize h s)" "mem (noteHeapSize h s) = mem s"
  by (simp_all add: noteHeapSize_def cumul_upd_def quiet_def)

lemma createHeap_quiet:
  assumes "createHeap os s h desired minimum = Inr (t, h', True)"
  shows "quiet s t" "mem t = fill_block (mem s) (heapStart h') (withMapsSize h') 0" "oldGenSize h' = oldGenSize h"
proof -
  have *: "createHeapLoop n os s h low high new factor lc = Inr (t, h', True) \<Longrightarrow>
    quiet s t \<and> mem t = fill_block (mem s) (heapStart h') (withMapsSize h') 0 \<and> oldGenSize h' = oldGenSize h"
    for n low high new factor lc
  proof (induction n arbitrary: s high new factor lc)
    case (Suc n)
    let ?w = "wrap (new + sizeofCardMapAndCrossMap s new)"
    obtain s1 q where q: "createHeapScan os s ?w [1..<addressCount + 1] = (s1, q)" by fastforce
    have le: "low \<le> high" using Suc.prems by (auto split: if_splits)
    show ?case
    proof (cases q)
      case None
      obtain f l where r: "createHeapLoop n os s1 h low (wrap_sub new (pageSize (sysvals s1)))
          (nextHeapSize s1 factor low (wrap_sub new (pageSize (sysvals s1)))) f l = Inr (t, h', True)"
        using Suc.prems le q None by (auto simp: Let_def split: if_splits)
      moreover have "quiet s s1" "mem s1 = mem s" using createHeapScan_quiet [OF q] None by simp_all
      ultimately show ?thesis using Suc.IH [OF r] quiet_trans by metis
    next
      case (Some start)
      then show ?thesis using Suc.prems le q createHeapScan_quiet [OF q] noteHeapSize_quiet quiet_trans
        by (auto simp: Let_def)
    qed
  qed simp
  show "quiet s t" "mem t = fill_block (mem s) (heapStart h') (withMapsSize h') 0" "oldGenSize h' = oldGenSize h"
    using assms * unfolding createHeap_def Let_def by blast+
qed

lemma setCardMap_quiet:
  shows "quiet s (setCardMapAndCrossMap s)"
    "a < heapStart (heap s) + heapSize (heap s)
       \<or> heapStart (heap s) + heapSize (heap s) + sizeofCardMap s (heapSize (heap s))
            + sizeofCrossMap s (heapSize (heap s)) \<le> a \<Longrightarrow>
     mem (setCardMapAndCrossMap s) a = mem s a"
  by (auto simp: setCardMapAndCrossMap_def Let_def maps_upd_def setCardMapAbsolute_def quiet_def
      clearCardMapAndCrossMap_def clearCardMap_def clearCrossMap_def lenofCardMap_def lenofCrossMap_def fill_block_def sizeofCrossMap_def)

section \<open>The round trip\<close>

text \<open>Blocks of bytes, by their address and length, and those that loading a world writes.\<close>

definition disjointBlocks :: "(pointer \<times> nat) list \<Rightarrow> bool" where
  "disjointBlocks = sorted_wrt (\<lambda>(a, n) (b, k). a + n \<le> b \<or> b + k \<le> a)"

definition inBlocks :: "(pointer \<times> nat) list \<Rightarrow> pointer \<Rightarrow> bool" where
  "inBlocks bs p \<longleftrightarrow> (\<exists>(a, n)\<in>set bs. a \<le> p \<and> p < a + n)"

definition worldLayout :: "GC_state \<Rightarrow> GC_heap \<Rightarrow> (pointer \<times> nat) list" where
  "worldLayout s h =
     [(callFromCHandlerThreadp s, 8), (currentThreadp s, 8), (signalHandlerThreadp s, 8),
      (staticStart (mutableHeap (staticHeaps s)), staticSize (mutableHeap (staticHeaps s))),
      (staticStart (rootHeap (staticHeaps s)), staticSize (rootHeap (staticHeaps s))),
      (heapStart h, max (withMapsSize h)
         (heapSize h + sizeofCardMap s (heapSize h) + sizeofCrossMap s (heapSize h)))]"

text \<open>The part of a state that a saved world holds, here in another process.\<close>

definition savedIn :: "GC_state \<Rightarrow> GC_state \<Rightarrow> bool" where
  "savedIn w t \<longleftrightarrow>
     oldGenSize (heap t) = oldGenSize (heap w) \<and> atomicState t = atomicState w \<and>
     callFromCHandlerThread t = callFromCHandlerThread w \<and> currentThread t = currentThread w \<and>
     signalHandlerThread t = signalHandlerThread w \<and> staticHeaps t = staticHeaps w \<and>
     (let mu = mutableHeap (staticHeaps w); ro = rootHeap (staticHeaps w)
      in loadBytes t (staticStart mu) (staticSize mu) = loadBytes w (staticStart mu) (staticSize mu) \<and>
         loadBytes t (staticStart ro) (staticSize ro) = loadBytes w (staticStart ro) (staticSize ro)) \<and>
     loadBytes t (heapStart (heap t)) (oldGenSize (heap w)) = loadBytes w (heapStart (heap w)) (oldGenSize (heap w))"

lemma writeBlocks_all: "writeBlocks fwriteOk bs f = Some f' \<Longrightarrow> f' = f @ concat bs"
proof (induction bs arbitrary: f)
  case (Cons b bs)
  then show ?case using Cons.IH [of "f @ b"] by (simp split: if_splits)
qed simp

text \<open>The state in which the three blocks are written.\<close>

definition loadBlocks :: "GC_state \<Rightarrow> GC_state \<Rightarrow> GC_state" where
  "loadBlocks w s =
     (let mu = mutableHeap (staticHeaps w); ro = rootHeap (staticHeaps w)
      in storeBytes (heapStart (heap s)) (loadBytes w (heapStart (heap w)) (oldGenSize (heap w)))
           (storeBytes (staticStart ro) (loadBytes w (staticStart ro) (staticSize ro))
             (storeBytes (staticStart mu) (loadBytes w (staticStart mu) (staticSize mu)) s)))"

lemma loadBlocks_quiet: "quiet s (loadBlocks w s)"
  by (simp add: loadBlocks_def Let_def storeBytes_def quiet_def)

lemma loadWorld_run:
  assumes f: "loadWorldHeader prog s (concat (take 10 (worldBlocks prog w)) @ rest) = Inr (s0, rest, heapStart (heap w))"
    and rest: "rest = concat (drop 10 (worldBlocks prog w)) @ g"
    and d: "sizeofHeapDesired s0 (oldGenSize (heap s0)) 0 = Inr d"
    and h: "createHeap os s0 (heap s0) d (oldGenSize (heap s0)) = Inr (s1, h, ok)"
    and old: "oldGenSize h = oldGenSize (heap w)" and st: "staticHeaps s1 = staticHeaps w"
    and g: "loadGlobals prog (loadBlocks w (setCardMapAndCrossMap (s1\<lparr>heap := h\<rparr>))) g = Some (t, [])"
    and t: "heap t = h"
  shows "loadWorldFromFILE os prog s (concat (worldBlocks prog w) @ g) =
    bindE (translateHeap t (heapStart (heap w)) (heapStart h) (oldGenSize (heap w))) (\<lambda>t.
    bindE (setGCStateCurrentHeap t 0 0) (\<lambda>t. Inr (setGCStateCurrentThreadAndStack t)))"
proof -
  let ?s2 = "setCardMapAndCrossMap (s1\<lparr>heap := h\<rparr>)"
  have q: "heap ?s2 = h" "staticHeaps ?s2 = staticHeaps w"
    using setCardMap_quiet(1) [of "s1\<lparr>heap := h\<rparr>"] st by (simp_all add: quiet_def)
  have split: "concat (worldBlocks prog w) @ g = concat (take 10 (worldBlocks prog w)) @ rest"
    unfolding rest by (metis append_take_drop_id append.assoc concat_append)
  show ?thesis
    unfolding loadWorldFromFILE_def split f
    using d h q old g t by (simp add: rest worldBlocks_def Let_def fread_block loadBlocks_def storeBytes_def)
qed

lemma disjointBlocksD:
  assumes "disjointBlocks bs" "i < j" "j < length bs" "fst (bs ! i) \<le> p" "p < fst (bs ! i) + snd (bs ! i)"
  shows "p < fst (bs ! j) \<or> fst (bs ! j) + snd (bs ! j) \<le> p"
  using assms sorted_wrt_nth_less [of _ bs i j] by (fastforce simp: disjointBlocks_def split_beta)

lemma layout_words:
  assumes "disjointBlocks (worldLayout s h)"
    and "p \<in> {callFromCHandlerThreadp s, currentThreadp s, signalHandlerThreadp s}" "p \<le> a" "a < p + 8"
  shows "a < staticStart (mutableHeap (staticHeaps s)) \<or>
      staticStart (mutableHeap (staticHeaps s)) + staticSize (mutableHeap (staticHeaps s)) \<le> a"
    "a < staticStart (rootHeap (staticHeaps s)) \<or>
      staticStart (rootHeap (staticHeaps s)) + staticSize (rootHeap (staticHeaps s)) \<le> a"
    "a < heapStart h \<or> heapStart h + withMapsSize h \<le> a \<and>
      heapStart h + heapSize h + sizeofCardMap s (heapSize h) + sizeofCrossMap s (heapSize h) \<le> a"
    "inBlocks (worldLayout s h) a"
proof -
  note D = disjointBlocksD [OF assms(1)]
  consider "p = callFromCHandlerThreadp s" | "p = currentThreadp s" | "p = signalHandlerThreadp s"
    using assms(2) by auto
  note k = this
  show "a < staticStart (mutableHeap (staticHeaps s)) \<or>
      staticStart (mutableHeap (staticHeaps s)) + staticSize (mutableHeap (staticHeaps s)) \<le> a"
    using k by cases (use D [of 0 3 a] D [of 1 3 a] D [of 2 3 a] assms(3,4) in \<open>simp_all add: worldLayout_def\<close>)
  show "a < staticStart (rootHeap (staticHeaps s)) \<or>
      staticStart (rootHeap (staticHeaps s)) + staticSize (rootHeap (staticHeaps s)) \<le> a"
    using k by cases (use D [of 0 4 a] D [of 1 4 a] D [of 2 4 a] assms(3,4) in \<open>simp_all add: worldLayout_def\<close>)
  have "a < heapStart h \<or> heapStart h + max (withMapsSize h)
      (heapSize h + sizeofCardMap s (heapSize h) + sizeofCrossMap s (heapSize h)) \<le> a"
    using k by cases (use D [of 0 5 a] D [of 1 5 a] D [of 2 5 a] assms(3,4) in \<open>simp_all add: worldLayout_def\<close>)
  then show "a < heapStart h \<or> heapStart h + withMapsSize h \<le> a \<and>
      heapStart h + heapSize h + sizeofCardMap s (heapSize h) + sizeofCrossMap s (heapSize h) \<le> a"
    by auto
  show "inBlocks (worldLayout s h) a"
    using k by cases (use assms(3,4) in \<open>simp_all add: worldLayout_def inBlocks_def\<close>)
qed

text \<open>
  C10: What \<open>GC_saveWorld\<close> writes, \<open>loadWorldFromFILE\<close> reads back. When the file is read in a process of
  the same program (same magic, same static heaps), and a heap is found for it, the loader accepts the
  file, reads the text, the fields and the three blocks in the order they were written, and
  ends, but for what it derives from them, with the pointers of a state translated
  in which the size of the old generation, the atomic state, the three threads, and every
  byte of the mutable and root static heaps and of the heap are as saved.
\<close>

theorem loadWorld_saved:
  assumes same: "magic s = magic w" "staticHeaps s = staticHeaps w"
    and bounds: "gcStateFn prog < 2 ^ 64" "gcStateAddr prog < 2 ^ 64" "heapStart (heap w) < 2 ^ 64"
      "oldGenSize (heap w) < 2 ^ 64"
    and written: "writeBlocks fwriteOk (worldBlocks prog w) [] = Some f"
    and d: "sizeofHeapDesired (savedHeader w s) (oldGenSize (heap w)) 0 = Inr d"
    and h: "createHeap os (savedHeader w s) (heap (savedHeader w s)) d (oldGenSize (heap w)) = Inr (s1, h, True)"
      "oldGenSize (heap w) \<le> heapSize h"
    and layout: "disjointBlocks (worldLayout s h)"
    and globals: "\<forall>t. \<exists>t'. loadGlobals prog t g = Some (t', []) \<and> only_mem t t' \<and>
      (\<forall>a. inBlocks (worldLayout s h) a \<longrightarrow> mem t' a = mem t a)"
  shows "\<exists>t. savedIn w t \<and> heapStart (heap t) = heapStart h \<and>
    loadWorldFromFILE os prog s (f @ g) =
      bindE (translateHeap t (heapStart (heap w)) (heapStart h) (oldGenSize (heap w))) (\<lambda>t.
      bindE (setGCStateCurrentHeap t 0 0) (\<lambda>t. Inr (setGCStateCurrentThreadAndStack t)))"
proof -
  let ?s0 = "savedHeader w s" and ?s2 = "setCardMapAndCrossMap (s1\<lparr>heap := h\<rparr>)" and ?L = "worldLayout s h"
  let ?s3 = "loadBlocks w ?s2"
  obtain t where g: "loadGlobals prog ?s3 g = Some (t, [])" "only_mem ?s3 t"
      "\<And>a. inBlocks ?L a \<Longrightarrow> mem t a = mem ?s3 a"
    using globals by blast
  have s0: "quiet (s\<lparr>heap := heap ?s0, atomicState := atomicState w\<rparr>) ?s0" "oldGenSize (heap ?s0) = oldGenSize (heap w)"
    by (simp_all add: savedHeader_def quiet_def write64_def)
  note c = createHeap_quiet [OF h(1)]
  have q: "quiet (s1\<lparr>heap := h\<rparr>) t"
    using setCardMap_quiet(1) loadBlocks_quiet quiet_mem [OF g(2)] quiet_trans by blast
  have fields: "heap t = h" "staticHeaps t = staticHeaps w" "atomicState t = atomicState w"
    "callFromCHandlerThreadp t = callFromCHandlerThreadp s" "currentThreadp t = currentThreadp s"
    "signalHandlerThreadp t = signalHandlerThreadp s"
    using q c(1) s0(1) same(2) by (simp_all add: quiet_def)
  have f: "f = concat (worldBlocks prog w)" using writeBlocks_all [OF written] by simp
  have run: "loadWorldFromFILE os prog s (f @ g) =
      bindE (translateHeap t (heapStart (heap w)) (heapStart h) (oldGenSize (heap w))) (\<lambda>t.
      bindE (setGCStateCurrentHeap t 0 0) (\<lambda>t. Inr (setGCStateCurrentThreadAndStack t)))"
    unfolding f using s0 d h(1) c(1,3) same g(1) fields(1)
    by (intro loadWorld_run [OF loadWorldHeader_saved [OF same(1) bounds] refl, of d os s1 h True])
      (simp_all add: quiet_def)
  let ?mu = "mutableHeap (staticHeaps w)" and ?ro = "rootHeap (staticHeaps w)" and ?old = "oldGenSize (heap w)"
  have s3: "mem ?s3 a =
      (if heapStart h \<le> a \<and> a < heapStart h + ?old then mem w (heapStart (heap w) + (a - heapStart h))
       else if staticStart ?ro \<le> a \<and> a < staticStart ?ro + staticSize ?ro then mem w a
       else if staticStart ?mu \<le> a \<and> a < staticStart ?mu + staticSize ?mu then mem w a
       else mem ?s2 a)" for a
    using setCardMap_quiet(1) [of "s1\<lparr>heap := h\<rparr>"]
    by (simp add: loadBlocks_def Let_def storeBytes_mem quiet_def)
  note D = disjointBlocksD [OF layout]
  have mu: "mem t a = mem w a" if "staticStart ?mu \<le> a" "a < staticStart ?mu + staticSize ?mu" for a
    using that g(3) [of a] s3 [of a] D [of 3 5 a] D [of 3 4 a] same(2) h(2)
    by (auto simp: worldLayout_def inBlocks_def)
  have ro: "mem t a = mem w a" if "staticStart ?ro \<le> a" "a < staticStart ?ro + staticSize ?ro" for a
    using that g(3) [of a] s3 [of a] D [of 4 5 a] same(2) h(2)
    by (auto simp: worldLayout_def inBlocks_def)
  have hp: "mem t (heapStart h + i) = mem w (heapStart (heap w) + i)" if "i < ?old" for i
    using that g(3) [of "heapStart h + i"] s3 [of "heapStart h + i"] h(2)
    by (auto simp: worldLayout_def inBlocks_def less_max_iff_disj)
  have maps: "sizeofCardMap (s1\<lparr>heap := h\<rparr>) k = sizeofCardMap s k" "sizeofCrossMap (s1\<lparr>heap := h\<rparr>) k = sizeofCrossMap s k" for k
    using c(1) s0(1) by (simp_all add: quiet_def sizeofCardMap_def sizeofCrossMap_def)
  have word: "mem t a = mem ?s0 a"
    if "p \<in> {callFromCHandlerThreadp s, currentThreadp s, signalHandlerThreadp s}" "p \<le> a" "a < p + 8" for p a
  proof -
    note out = layout_words [OF layout that]
    have "mem ?s3 a = mem ?s2 a" using s3 [of a] out(1-3) same(2) h(2) by auto
    also have "\<dots> = mem (s1\<lparr>heap := h\<rparr>) a" by (rule setCardMap_quiet(2)) (use out(3) in \<open>auto simp: maps\<close>)
    also have "\<dots> = mem ?s0 a" using c(2) out(3) by (auto simp: fill_block_def)
    finally show ?thesis using g(3) [OF out(4)] by simp
  qed
  have "load64 (mem t) p = load64 (mem ?s0) p"
    if "p \<in> {callFromCHandlerThreadp s, currentThreadp s, signalHandlerThreadp s}" for p
    using word [OF that] by (intro load64_cong)
  then have threads: "callFromCHandlerThread t = callFromCHandlerThread w" "currentThread t = currentThread w"
    "signalHandlerThread t = signalHandlerThread w"
    using layout fields(4-6)
    by (simp_all add: worldLayout_def disjointBlocks_def savedHeader_def callFromCHandlerThread_def currentThread_def
        signalHandlerThread_def load64_store64_disjoint)
  have "savedIn w t"
    using fields c(3) s0(2) mu ro hp threads by (simp add: savedIn_def Let_def loadBytes_def)
  then show ?thesis using run fields(1) by auto
qed

text \<open>A world of 40000 bytes, read where the system grants every request at \<open>2 ^ 30\<close>.\<close>

definition granting_os :: OS where
  "granting_os = \<lparr>os_mmapAnon = (\<lambda>_ _ _. Some 1073741824), os_mremap = (\<lambda>_ _ _ _. None),
     os_getrusage = (\<lambda>_. rusage0), os_malloc = (\<lambda>_ _. True)\<rparr>"

lemma createHeap_granted:
  assumes "align minSize (pageSize (sysvals s)) \<le> align desired (pageSize (sysvals s))" "minSize \<le> desired"
  shows "\<exists>t h'. createHeap granting_os s h desired minSize = Inr (t, h', True) \<and> heapStart h' = 1073741824
    \<and> heapSize h' = align desired (pageSize (sysvals s))"
proof -
  have "[1..<addressCount + 1] = 1 # [2..<addressCount + 1]" by (simp add: upt_rec)
  then show ?thesis
    using assms by (simp add: createHeap_def Let_def GC_mmapAnon_def granting_os_def split_beta)
qed

definition world_example :: GC_state where
  "world_example = heap_example\<lparr>heap := GC_heap0\<lparr>heapStart := 65536, heapSize := 65536, oldGenSize := 40000\<rparr>,
     callFromCHandlerThreadp := 64, currentThreadp := 72, signalHandlerThreadp := 80\<rparr>"

definition world_program :: Program where
  "world_program = \<lparr>gcStateFn = 4096, gcStateAddr = 8192, saveGlobals = (\<lambda>_. Some []),
     loadGlobals = (\<lambda>s f. Some (s, f))\<rparr>"

lemma world_example_fields:
  "heapStart (heap world_example) = 65536" "oldGenSize (heap world_example) = 40000"
  "callFromCHandlerThreadp world_example = 64" "currentThreadp world_example = 72"
  "signalHandlerThreadp world_example = 80" "mutableHeap (staticHeaps world_example) = GC_staticHeap0"
  "rootHeap (staticHeaps world_example) = GC_staticHeap0"
  "heap (savedHeader world_example world_example) = heap world_example"
  by (simp_all add: world_example_def heap_example_def maps_example_def savedHeader_def write64_def zero_defs)

lemma world_example_heap:
  "\<exists>d s1 h. sizeofHeapDesired (savedHeader world_example world_example) 40000 0 = Inr d \<and>
     createHeap granting_os (savedHeader world_example world_example) (heap world_example) d 40000 = Inr (s1, h, True) \<and>
     heapStart h = 1073741824 \<and> 40000 \<le> heapSize h"
proof -
  let ?s = "savedHeader world_example world_example"
  have ctl: "controls ?s = controls heap_example" "sysvals ?s = sysvals heap_example"
    "mutatorMarksCards ?s = mutatorMarksCards heap_example"
    by (simp_all add: savedHeader_def world_example_def write64_def)
  have ok: "resize_ok ?s 40000 0"
    using heap_example_ok by (simp add: resize_ok_def page_ok_def ctl isAligned_def)
  have "sizeofCardMapAndCrossMap ?s 40960 = sizeofCardMapAndCrossMap heap_example 40960"
    by (simp only: sizeofCardMapAndCrossMap_def sizeofCardMap_def sizeofCrossMap_def ctl)
  then have "sizeofCardMapAndCrossMap ?s 40960 = 8192" using heap_example_fields(6) by simp
  then obtain d where d: "sizeofHeapDesired ?s 40000 0 = Inr d" "40960 \<le> d" "d < 4503599627370496"
    using sizeofHeapDesired_spec [OF ok]
    by (cases "sizeofHeapDesired ?s 40000 0") (auto simp: ctl heap_example_fields Let_def)
  have "d \<le> align d 4096" using d(3) by (intro align_ge is_power2_numeral) simp
  then show ?thesis
    using createHeap_granted [of 40000 ?s d "heap world_example"] d by (auto simp: ctl heap_example_fields)
qed

theorem loadWorld_witness:
  "\<exists>f t. writeBlocks (\<lambda>_. True) (worldBlocks world_program world_example) [] = Some f \<and>
     savedIn world_example t \<and> heapStart (heap t) = 1073741824 \<and>
     loadWorldFromFILE granting_os world_program world_example f =
      bindE (translateHeap t 65536 1073741824 40000) (\<lambda>t.
      bindE (setGCStateCurrentHeap t 0 0) (\<lambda>t. Inr (setGCStateCurrentThreadAndStack t)))"
proof -
  let ?w = world_example
  obtain d s1 h where d: "sizeofHeapDesired (savedHeader ?w ?w) 40000 0 = Inr d"
    and h: "createHeap granting_os (savedHeader ?w ?w) (heap ?w) d 40000 = Inr (s1, h, True)"
      "heapStart h = 1073741824" "40000 \<le> heapSize h"
    using world_example_heap by blast
  obtain f where f: "writeBlocks (\<lambda>_. True) (worldBlocks world_program ?w) [] = Some f"
    by (simp add: worldBlocks_def)
  have "disjointBlocks (worldLayout ?w h)"
    using h(2) by (simp add: disjointBlocks_def worldLayout_def world_example_fields zero_defs)
  moreover have "\<forall>t. \<exists>t'. loadGlobals world_program t [] = Some (t', []) \<and> only_mem t t' \<and>
      (\<forall>a. inBlocks (worldLayout ?w h) a \<longrightarrow> mem t' a = mem t a)"
    by (simp add: world_program_def)
  ultimately show ?thesis
    using loadWorld_saved [of ?w ?w world_program "\<lambda>_. True" f d granting_os s1 h "[]"] d h f
    by (fastforce simp: world_example_fields world_program_def)
qed

end
