(* ===== verification/IntInf.thy ===== *)
theory IntInf
  imports NewObject
begin

text \<open>
  Arbitrary-precision integers (\<open>gc/int-inf.c\<close>, \<open>basis/IntInf/int-inf.c\<close>): an integer is an
  object pointer that is odd (a small integer of 63 bits) or points to a sequence of limbs
  after a sign. GnuMP's functions are parameters: they get the numbers as the structures
  the code fills in, and give the size and the limbs they store in the result.
\<close>

section \<open>Numbers of GnuMP\<close>

text \<open>The limbs of an argument are in a local array or in the heap.\<close>

datatype limbsAt = Space "64 word list" | At pointer

record mpz =
  mp_alloc :: int
  mp_size :: int
  mp_d :: limbsAt

definition mpzLimbs :: "GC_state \<Rightarrow> mpz \<Rightarrow> 64 word list" where
  "mpzLimbs s z =
     (let n = nat \<bar>mp_size z\<bar>
      in case mp_d z of Space ls \<Rightarrow> take n ls | At p \<Rightarrow> map (\<lambda>i. load64 (mem s) (p + 8 * i)) [0..<n])"

abbreviation (input) LIMBS_PER_OBJPTR :: nat where "LIMBS_PER_OBJPTR \<equiv> 1"
abbreviation (input) GC_INTINF_HEADER :: "64 word" where "GC_INTINF_HEADER \<equiv> GC_WORD64_VECTOR_HEADER"
abbreviation (input) GC_STRING8_HEADER :: "64 word" where "GC_STRING8_HEADER \<equiv> GC_WORD8_VECTOR_HEADER"
abbreviation (input) offsetof_obj :: nat where "offsetof_obj \<equiv> 24"
abbreviation (input) offsetof_limbs :: nat where "offsetof_limbs \<equiv> 32"
abbreviation (input) INT_MAX :: nat where "INT_MAX \<equiv> 2147483647"

section \<open>Arguments and results\<close>

definition isSmall :: "objptr \<Rightarrow> bool" where
  "isSmall arg \<longleftrightarrow> arg AND 1 \<noteq> 0"

definition areSmall :: "objptr \<Rightarrow> objptr \<Rightarrow> bool" where
  "areSmall arg1 arg2 \<longleftrightarrow> (arg1 AND arg2) AND 1 \<noteq> 0"

definition toBignum :: "GC_state \<Rightarrow> objptr \<Rightarrow> pointer" where
  "toBignum s arg = objptrToPointer arg (heapStart (heap s)) - offsetof_obj"

text \<open>The value of a small integer, from its bits.\<close>

definition smallArg :: "objptr \<Rightarrow> mpz" where
  "smallArg arg =
     (if arg = 1 then \<lparr>mp_alloc = 2, mp_size = 0, mp_d = Space [0, 0]\<rparr>
      else
        (let highBitMask = push_bit 63 1 :: 64 word;
             neg = (arg AND highBitMask \<noteq> 0);
             arg = (if neg then - (drop_bit 1 arg OR highBitMask) else drop_bit 1 arg)
         in \<lparr>mp_alloc = 2, mp_size = (if neg then - 1 else 1), mp_d = Space [arg, 0]\<rparr>))"

definition fillIntInfArg :: "GC_state \<Rightarrow> objptr \<Rightarrow> mpz" where
  "fillIntInfArg s arg =
     (if isSmall arg then smallArg arg
      else
        (let bp = toBignum s arg;
             alloc = int (unat (load64 (mem s) (bp + 8))) - 1;
             isneg = (load64 (mem s) (bp + offsetof_obj) \<noteq> 0)
         in \<lparr>mp_alloc = alloc, mp_size = (if isneg then - alloc else alloc),
             mp_d = At (bp + offsetof_limbs)\<rparr>))"

definition initIntInfRes :: "GC_state \<Rightarrow> mpz" where
  "initIntInfRes s =
     (let bp = frontier s; limbs = bp + offsetof_limbs;
          nlimbs = wrap_sub (limitPlusSlop s) limbs div 8
      in \<lparr>mp_alloc = int (min nlimbs INT_MAX), mp_size = 0, mp_d = At limbs\<rparr>)"

text \<open>A result of one limb as a small integer, if it fits.\<close>

definition smallRes :: "bool \<Rightarrow> 64 word \<Rightarrow> objptr option" where
  "smallRes isneg val =
     (let ans = (if isneg then - val else val);
          val = (if isneg then val - 1 else val)
      in if val < push_bit 62 1 then Some (push_bit 1 ans OR 1) else None)"

text \<open>
  The other branch, for limbs of 32 bits under object pointers of 64 bits; it is not in the
  configuration of this model, and it is not used below.
\<close>

definition combineLimbs32 :: "32 word list \<Rightarrow> 64 word" where
  "combineLimbs32 limbs =
     fold (\<lambda>limb val. push_bit 32 val AND ucast limb) (tl limbs) (ucast (hd limbs))"

definition finiIntInfRes :: "GC_state \<Rightarrow> pointer \<Rightarrow> int \<Rightarrow> (GC_state \<times> objptr) res" where
  "finiIntInfRes s limbs rsize =
     (let bp = limbs - offsetof_limbs;
          s = write64 (bp + offsetof_obj) (if rsize < 0 then 1 else 0) s;
          size = nat \<bar>rsize\<bar>
      in if size = 0 then Inr (s, 1)
         else
           (case (if size \<le> LIMBS_PER_OBJPTR then smallRes (rsize < 0) (load64 (mem s) limbs) else None) of
              Some ans \<Rightarrow> Inr (s, ans)
            | None \<Rightarrow>
                bindE (setFrontier s (limbs + 8 * size)) (\<lambda>s.
                  let s = write64 bp 0 s;
                      s = write64 (bp + 8) (word_of_nat (size + 1)) s;
                      s = write64 (bp + 16) GC_INTINF_HEADER s
                  in Inr (s, pointerToObjptr (bp + offsetof_obj) (heapStart (heap s))))))"

section \<open>Operations\<close>

text \<open>What a function of GnuMP leaves in the result: its size and its limbs, in the heap.\<close>

definition storeLimbs :: "pointer \<Rightarrow> 64 word list \<Rightarrow> GC_state \<Rightarrow> GC_state" where
  "storeLimbs p ls s = fold (\<lambda>i. write64 (p + 8 * i) (ls ! i)) [0..<length ls] s"

type_synonym mpzArg = "int \<times> 64 word list"

definition argOf :: "GC_state \<Rightarrow> objptr \<Rightarrow> mpzArg" where
  "argOf s arg = (let z = fillIntInfArg s arg in (mp_size z, mpzLimbs s z))"

definition finishOp :: "GC_state \<Rightarrow> mpzArg \<Rightarrow> (GC_state \<times> objptr) res" where
  "finishOp s r =
     (case mp_d (initIntInfRes s) of
        At limbs \<Rightarrow> finiIntInfRes (storeLimbs limbs (snd r) s) limbs (fst r)
      | Space _ \<Rightarrow> Inl Undefined)"

definition IntInf_binop :: "(mpzArg \<Rightarrow> mpzArg \<Rightarrow> mpzArg) \<Rightarrow> GC_state \<Rightarrow> objptr \<Rightarrow> objptr \<Rightarrow> (GC_state \<times> objptr) res" where
  "IntInf_binop binop s lhs rhs = finishOp s (binop (argOf s lhs) (argOf s rhs))"

definition IntInf_unop :: "(mpzArg \<Rightarrow> mpzArg) \<Rightarrow> GC_state \<Rightarrow> objptr \<Rightarrow> (GC_state \<times> objptr) res" where
  "IntInf_unop unop s arg = finishOp s (unop (argOf s arg))"

definition IntInf_shop :: "(mpzArg \<Rightarrow> nat \<Rightarrow> mpzArg) \<Rightarrow> GC_state \<Rightarrow> objptr \<Rightarrow> 32 word \<Rightarrow> (GC_state \<times> objptr) res" where
  "IntInf_shop shop s arg shift = finishOp s (shop (argOf s arg) (unat shift))"

definition IntInf_cmpop :: "(mpzArg \<Rightarrow> mpzArg \<Rightarrow> int) \<Rightarrow> GC_state \<Rightarrow> objptr \<Rightarrow> objptr \<Rightarrow> int" where
  "IntInf_cmpop cmpop s lhs rhs =
     (let res = cmpop (argOf s lhs) (argOf s rhs)
      in if res < 0 then - 1 else if res > 0 then 1 else 0)"

text \<open>The text is written where the sequence begins; the sign of SML is a tilde.\<close>

definition storeChars :: "pointer \<Rightarrow> string \<Rightarrow> GC_state \<Rightarrow> GC_state" where
  "storeChars p cs s = s\<lparr>mem := (\<lambda>a. if p \<le> a \<and> a < p + length cs then of_char (cs ! (a - p)) else mem s a)\<rparr>"

definition IntInf_strop :: "(int \<Rightarrow> mpzArg \<Rightarrow> string) \<Rightarrow> GC_state \<Rightarrow> objptr \<Rightarrow> int \<Rightarrow> (GC_state \<times> objptr) res" where
  "IntInf_strop strop s arg base =
     (let sp = frontier s; obj = sp + offsetof_obj;
          str = strop (- base) (argOf s arg);
          size = length str;
          str = (if str \<noteq> [] \<and> hd str = CHR ''-'' then CHR ''~'' # tl str else str);
          s = storeChars obj str s
      in bindE (setFrontier s (obj + size)) (\<lambda>s.
           let s = write64 sp 0 s;
               s = write64 (sp + 8) (word_of_nat size) s;
               s = write64 (sp + 16) GC_STRING8_HEADER s
           in Inr (s, pointerToObjptr obj (heapStart (heap s)))))"

section \<open>The basis functions\<close>

text \<open>The functions of GnuMP the basis library uses.\<close>

record GMP =
  mpz_add :: "mpzArg \<Rightarrow> mpzArg \<Rightarrow> mpzArg"
  mpz_and :: "mpzArg \<Rightarrow> mpzArg \<Rightarrow> mpzArg"
  mpz_gcd :: "mpzArg \<Rightarrow> mpzArg \<Rightarrow> mpzArg"
  mpz_mul :: "mpzArg \<Rightarrow> mpzArg \<Rightarrow> mpzArg"
  mpz_tdiv_q :: "mpzArg \<Rightarrow> mpzArg \<Rightarrow> mpzArg"
  mpz_ior :: "mpzArg \<Rightarrow> mpzArg \<Rightarrow> mpzArg"
  mpz_tdiv_r :: "mpzArg \<Rightarrow> mpzArg \<Rightarrow> mpzArg"
  mpz_sub :: "mpzArg \<Rightarrow> mpzArg \<Rightarrow> mpzArg"
  mpz_xor :: "mpzArg \<Rightarrow> mpzArg \<Rightarrow> mpzArg"
  mpz_neg :: "mpzArg \<Rightarrow> mpzArg"
  mpz_com :: "mpzArg \<Rightarrow> mpzArg"
  mpz_fdiv_q_2exp :: "mpzArg \<Rightarrow> nat \<Rightarrow> mpzArg"
  mpz_mul_2exp :: "mpzArg \<Rightarrow> nat \<Rightarrow> mpzArg"
  mpz_cmp :: "mpzArg \<Rightarrow> mpzArg \<Rightarrow> int"
  mpz_get_str :: "int \<Rightarrow> mpzArg \<Rightarrow> string"

definition IntInf_add :: "GMP \<Rightarrow> GC_state \<Rightarrow> objptr \<Rightarrow> objptr \<Rightarrow> (GC_state \<times> objptr) res" where
  "IntInf_add g s lhs rhs = IntInf_binop (mpz_add g) s lhs rhs"

definition IntInf_andb :: "GMP \<Rightarrow> GC_state \<Rightarrow> objptr \<Rightarrow> objptr \<Rightarrow> (GC_state \<times> objptr) res" where
  "IntInf_andb g s lhs rhs = IntInf_binop (mpz_and g) s lhs rhs"

definition IntInf_gcd :: "GMP \<Rightarrow> GC_state \<Rightarrow> objptr \<Rightarrow> objptr \<Rightarrow> (GC_state \<times> objptr) res" where
  "IntInf_gcd g s lhs rhs = IntInf_binop (mpz_gcd g) s lhs rhs"

definition IntInf_mul :: "GMP \<Rightarrow> GC_state \<Rightarrow> objptr \<Rightarrow> objptr \<Rightarrow> (GC_state \<times> objptr) res" where
  "IntInf_mul g s lhs rhs = IntInf_binop (mpz_mul g) s lhs rhs"

definition IntInf_quot :: "GMP \<Rightarrow> GC_state \<Rightarrow> objptr \<Rightarrow> objptr \<Rightarrow> (GC_state \<times> objptr) res" where
  "IntInf_quot g s lhs rhs = IntInf_binop (mpz_tdiv_q g) s lhs rhs"

definition IntInf_orb :: "GMP \<Rightarrow> GC_state \<Rightarrow> objptr \<Rightarrow> objptr \<Rightarrow> (GC_state \<times> objptr) res" where
  "IntInf_orb g s lhs rhs = IntInf_binop (mpz_ior g) s lhs rhs"

definition IntInf_rem :: "GMP \<Rightarrow> GC_state \<Rightarrow> objptr \<Rightarrow> objptr \<Rightarrow> (GC_state \<times> objptr) res" where
  "IntInf_rem g s lhs rhs = IntInf_binop (mpz_tdiv_r g) s lhs rhs"

definition IntInf_sub :: "GMP \<Rightarrow> GC_state \<Rightarrow> objptr \<Rightarrow> objptr \<Rightarrow> (GC_state \<times> objptr) res" where
  "IntInf_sub g s lhs rhs = IntInf_binop (mpz_sub g) s lhs rhs"

definition IntInf_xorb :: "GMP \<Rightarrow> GC_state \<Rightarrow> objptr \<Rightarrow> objptr \<Rightarrow> (GC_state \<times> objptr) res" where
  "IntInf_xorb g s lhs rhs = IntInf_binop (mpz_xor g) s lhs rhs"

definition IntInf_neg :: "GMP \<Rightarrow> GC_state \<Rightarrow> objptr \<Rightarrow> (GC_state \<times> objptr) res" where
  "IntInf_neg g s arg = IntInf_unop (mpz_neg g) s arg"

definition IntInf_notb :: "GMP \<Rightarrow> GC_state \<Rightarrow> objptr \<Rightarrow> (GC_state \<times> objptr) res" where
  "IntInf_notb g s arg = IntInf_unop (mpz_com g) s arg"

definition IntInf_arshift :: "GMP \<Rightarrow> GC_state \<Rightarrow> objptr \<Rightarrow> 32 word \<Rightarrow> (GC_state \<times> objptr) res" where
  "IntInf_arshift g s arg shift = IntInf_shop (mpz_fdiv_q_2exp g) s arg shift"

definition IntInf_lshift :: "GMP \<Rightarrow> GC_state \<Rightarrow> objptr \<Rightarrow> 32 word \<Rightarrow> (GC_state \<times> objptr) res" where
  "IntInf_lshift g s arg shift = IntInf_shop (mpz_mul_2exp g) s arg shift"

definition IntInf_compare :: "GMP \<Rightarrow> GC_state \<Rightarrow> objptr \<Rightarrow> objptr \<Rightarrow> int" where
  "IntInf_compare g s lhs rhs = IntInf_cmpop (mpz_cmp g) s lhs rhs"

definition IntInf_toString :: "GMP \<Rightarrow> GC_state \<Rightarrow> objptr \<Rightarrow> int \<Rightarrow> (GC_state \<times> objptr) res" where
  "IntInf_toString g s arg base = IntInf_strop (mpz_get_str g) s arg base"

definition small_of :: "int \<Rightarrow> objptr" where
  "small_of v = word_of_int (2 * v + 1)"

abbreviation (input) small_range :: "int \<Rightarrow> bool" where
  "small_range v \<equiv> - (2 ^ 62) \<le> v \<and> v < 2 ^ 62"

lemma sint_word_of_int_id: "- (2 ^ 63) \<le> k \<Longrightarrow> k < 2 ^ 63 \<Longrightarrow> sint (word_of_int k :: 64 word) = k"
  by (subst signed_of_int) (simp add: signed_take_bit_int_eq_self)

lemma small_of_sint: "small_range v \<Longrightarrow> sint (small_of v) = 2 * v + 1"
  unfolding small_of_def by (rule sint_word_of_int_id) simp_all

lemma isSmall_odd: "isSmall arg \<longleftrightarrow> odd arg"
  by (simp add: isSmall_def and_one_eq odd_iff_mod_2_eq_one)

lemma odd_sint: "odd (arg :: 64 word) \<longleftrightarrow> odd (sint arg)"
  by (metis bit_0 bit_sint_iff not_less_zero len_gt_0 linorder_not_less)

lemma small_of_isSmall: "isSmall (small_of v)"
  unfolding isSmall_odd by (simp add: small_of_def)

lemma isSmall_small_of:
  assumes "isSmall arg" shows "arg = small_of (sint arg div 2)" "small_range (sint arg div 2)"
proof -
  have "odd (sint arg)" using assms isSmall_odd odd_sint by blast
  then have *: "2 * (sint arg div 2) + 1 = sint arg" by simp
  show "arg = small_of (sint arg div 2)" unfolding small_of_def * by simp
  have "- (2 ^ 63) \<le> sint arg" "sint arg < 2 ^ 63"
    using sint_greater_eq [of arg] sint_less [of arg] by simp_all
  then show "small_range (sint arg div 2)" using * by (simp; linarith)
qed

lemma smallRes_eq:
  assumes "isneg \<Longrightarrow> val \<noteq> 0"
  defines "v \<equiv> if isneg then - uint val else uint val"
  shows "smallRes isneg val = (if small_range v then Some (small_of v) else None)"
proof -
  have two: "push_bit 1 a OR 1 = 2 * a + 1" for a :: "64 word"
    by (simp add: or_one_eq)
  have "word_of_int (2 * v + 1) = 2 * word_of_int v + (1 :: 64 word)" by simp
  moreover have "(word_of_int v :: 64 word) = (if isneg then - val else val)" by (simp add: v_def)
  ultimately have e: "push_bit 1 (if isneg then - val else val) OR 1 = small_of v"
    unfolding two small_of_def by simp
  have p: "uint (push_bit 62 1 :: 64 word) = 2 ^ 62" by simp
  have "(if isneg then val - 1 else val) < push_bit 62 1 \<longleftrightarrow> small_range v"
  proof (cases isneg)
    case True
    then have "uint val \<noteq> 0" using assms(1) by (simp add: uint_0_iff)
    then have "1 \<le> uint val" using uint_ge_0 [of val] by linarith
    then have "uint (val - 1) = uint val - 1" using uint_sub_lem [of 1 val] by simp
    then have "uint (val - 1) < 2 ^ 62 \<longleftrightarrow> small_range (- uint val)" using \<open>1 \<le> uint val\<close> by (simp; linarith)
    then show ?thesis using True unfolding word_less_def p v_def by simp
  next
    case False
    have "uint val < 2 ^ 62 \<longleftrightarrow> small_range (uint val)" using uint_ge_0 [of val] by linarith
    then show ?thesis using False unfolding word_less_def p v_def by simp
  qed
  then show ?thesis unfolding smallRes_def Let_def e by simp
qed


lemma push63: "push_bit 63 1 = (2 :: 64 word) ^ 63"
  by (simp add: push_bit_eq_mult)

lemma neg_bit: "(arg :: 64 word) AND push_bit 63 1 \<noteq> 0 \<longleftrightarrow> sint arg < 0"
proof -
  show ?thesis unfolding push63 and_exp_eq_0_iff_not_bit using bit_last_iff [of arg] by simp
qed

lemma arith_shift:
  assumes "small_range v"
  shows "(if v < 0 then - (drop_bit 1 (small_of v) OR push_bit 63 1) else drop_bit 1 (small_of v)) = word_of_int \<bar>v\<bar>"
proof (cases "v < 0")
  case True
  have "uint (small_of v) = (2 * v + 1) mod 2 ^ 64" unfolding small_of_def by (subst uint_word_of_int) simp
  also have "\<dots> = (2 * v + 1 + 2 ^ 64) mod 2 ^ 64" by (rule mod_add_self2 [symmetric])
  also have "\<dots> = 2 * v + 1 + 2 ^ 64" using True assms by (intro mod_pos_pos_trivial) simp_all
  finally have "uint (drop_bit 1 (small_of v)) = v + 2 ^ 63"
    by (simp add: drop_bit_eq_div uint_div)
  then have d: "drop_bit 1 (small_of v) = word_of_int (v + 2 ^ 63)" by (metis word_of_int_uint)
  have "\<not> bit (drop_bit 1 (small_of v)) 63" by (simp add: bit_drop_bit_eq bit_imp_le_length [of _ 64] impossible_bit)
  then have "drop_bit 1 (small_of v) AND push_bit 63 1 = 0"
    unfolding push63 and_exp_eq_0_iff_not_bit .
  then have "drop_bit 1 (small_of v) OR push_bit 63 1 = drop_bit 1 (small_of v) + push_bit 63 1"
    by (simp add: disjunctive_add_eq_or)
  also have "\<dots> = word_of_int (v + 2 ^ 63) + word_of_int (2 ^ 63)" unfolding d by (simp add: push_bit_eq_mult)
  also have "\<dots> = word_of_int (v + 2 ^ 64)" by (simp flip: wi_hom_syms)
  also have "\<dots> = word_of_int v" by simp
  finally show ?thesis using True by simp
next
  case False
  have "uint (small_of v) = (2 * v + 1) mod 2 ^ 64" unfolding small_of_def by (subst uint_word_of_int) simp
  also have "\<dots> = 2 * v + 1" using False assms by (intro mod_pos_pos_trivial) simp_all
  finally have "uint (drop_bit 1 (small_of v)) = v"
    by (simp add: drop_bit_eq_div uint_div)
  then have d: "drop_bit 1 (small_of v) = word_of_int v" by (metis word_of_int_uint)
  then show ?thesis using False by simp
qed

definition limbsValue :: "64 word list \<Rightarrow> int" where
  "limbsValue ls = (\<Sum>i<length ls. uint (ls ! i) * 2 ^ (64 * i))"

definition mpzValue :: "mpzArg \<Rightarrow> int" where
  "mpzValue z = sgn (fst z) * limbsValue (snd z)"

text \<open>No limbs of value 0 at the top, as GnuMP keeps and wants its numbers.\<close>

definition mpz_normal :: "mpzArg \<Rightarrow> bool" where
  "mpz_normal z \<longleftrightarrow> length (snd z) = nat \<bar>fst z\<bar> \<and> (snd z \<noteq> [] \<longrightarrow> last (snd z) \<noteq> 0)"

lemma smallArg_value:
  assumes "small_range v"
  defines "z \<equiv> smallArg (small_of v)"
  shows "mpzValue (mp_size z, mpzLimbs s z) = v \<and> mpz_normal (mp_size z, mpzLimbs s z)"
proof (cases "v = 0")
  case True
  then have "small_of v = 1" by (simp add: small_of_def)
  then show ?thesis using True unfolding z_def
    by (simp add: smallArg_def mpzLimbs_def mpzValue_def mpz_normal_def)
next
  case False
  have "sint (small_of v) = 2 * v + 1" by (rule small_of_sint [OF assms(1)])
  with False have n1: "small_of v \<noteq> 1" and neg: "small_of v AND push_bit 63 1 \<noteq> 0 \<longleftrightarrow> v < 0"
    unfolding neg_bit by auto
  have "smallArg (small_of v) = \<lparr>mp_alloc = 2, mp_size = (if v < 0 then - 1 else 1),
      mp_d = Space [if v < 0 then - (drop_bit 1 (small_of v) OR push_bit 63 1) else drop_bit 1 (small_of v), 0]\<rparr>"
    unfolding smallArg_def Let_def neg using n1 by (simp only: if_False)
  then have z: "z = \<lparr>mp_alloc = 2, mp_size = (if v < 0 then - 1 else 1), mp_d = Space [word_of_int \<bar>v\<bar>, 0]\<rparr>"
    unfolding arith_shift [OF assms(1)] z_def .
  have "uint (word_of_int \<bar>v\<bar> :: 64 word) = \<bar>v\<bar>" using assms(1) by (subst uint_word_of_int) (intro mod_pos_pos_trivial; simp; linarith)
  moreover from this False have "(word_of_int \<bar>v\<bar> :: 64 word) \<noteq> 0" by auto
  ultimately show ?thesis
    by (auto simp: z mpzLimbs_def mpzValue_def mpz_normal_def limbsValue_def)
qed


section \<open>Correctness\<close>

definition intInf_ok :: "GC_state \<Rightarrow> objptr \<Rightarrow> bool" where
  "intInf_ok s arg \<longleftrightarrow> isSmall arg \<or> mpz_normal (argOf s arg)"

text \<open>The integer an object pointer stands for.\<close>

definition intInf_value :: "GC_state \<Rightarrow> objptr \<Rightarrow> int" where
  "intInf_value s arg = (if isSmall arg then sint arg div 2 else mpzValue (argOf s arg))"

lemma argOf_value:
  assumes "intInf_ok s arg"
  shows "mpz_normal (argOf s arg)" "mpzValue (argOf s arg) = intInf_value s arg"
  using assms smallArg_value [of "sint arg div 2" s] isSmall_small_of [of arg]
  unfolding intInf_ok_def intInf_value_def argOf_def fillIntInfArg_def Let_def
  by (cases "isSmall arg"; simp)+

lemma argOf_mem: "mem s = mem s' \<Longrightarrow> argOf s arg = argOf s' arg"
  by (auto simp: argOf_def fillIntInfArg_def mpzLimbs_def toBignum_def Let_def split: limbsAt.split)

lemma limbsValue_nonneg: "0 \<le> limbsValue ls"
  unfolding limbsValue_def by (intro sum_nonneg mult_nonneg_nonneg) simp_all

lemma limbsValue_ge: "i < length ls \<Longrightarrow> uint (ls ! i) * 2 ^ (64 * i) \<le> limbsValue ls"
  unfolding limbsValue_def by (rule member_le_sum) simp_all

lemma mpz_large:
  assumes "mpz_normal z" "1 < length (snd z)" shows "\<not> small_range (mpzValue z)"
proof -
  let ?n = "length (snd z) - 1"
  have "snd z ! ?n \<noteq> 0" using assms by (auto simp: mpz_normal_def last_conv_nth)
  then have "1 \<le> uint (snd z ! ?n)" using uint_ge_0 [of "snd z ! ?n"] uint_0_iff by (metis int_one_le_iff_zero_less order_le_less)
  moreover have "(2 :: int) ^ 64 \<le> 2 ^ (64 * ?n)" using assms(2) by (intro power_increasing) simp_all
  ultimately have "1 * 2 ^ 64 \<le> uint (snd z ! ?n) * 2 ^ (64 * ?n)" by (intro mult_mono) simp_all
  then have "2 ^ 64 \<le> limbsValue (snd z)" using limbsValue_ge [of ?n "snd z"] assms(2) by linarith
  moreover have "fst z \<noteq> 0" using assms by (auto simp: mpz_normal_def)
  ultimately show ?thesis unfolding mpzValue_def by (cases "fst z < 0") simp_all
qed

lemma mpz_one:
  assumes "mpz_normal z" "length (snd z) = 1"
  shows "mpzValue z = (if fst z < 0 then - uint (snd z ! 0) else uint (snd z ! 0))" "snd z ! 0 \<noteq> 0"
proof -
  have "limbsValue (snd z) = uint (snd z ! 0)" unfolding limbsValue_def assms(2) by simp
  then show "mpzValue z = (if fst z < 0 then - uint (snd z ! 0) else uint (snd z ! 0))"
    using assms unfolding mpz_normal_def mpzValue_def by auto
  show "snd z ! 0 \<noteq> 0" using assms by (auto simp: mpz_normal_def last_conv_nth)
qed

lemma storeLimbs_only: "only_mem s (storeLimbs p ls s)"
  unfolding storeLimbs_def by (rule fold_invariant [where Q = "\<lambda>_. True"]) (auto intro: only_mem_trans)

lemma storeLimbs_prefix:
  "k \<le> length ls \<Longrightarrow>
   (\<forall>i<k. load64 (mem (fold (\<lambda>i. write64 (p + 8 * i) (ls ! i)) [0..<k] s)) (p + 8 * i) = ls ! i) \<and>
   (\<forall>b. b < p \<or> p + 8 * k \<le> b \<longrightarrow> mem (fold (\<lambda>i. write64 (p + 8 * i) (ls ! i)) [0..<k] s) b = mem s b)"
proof (induction k)
  case (Suc k)
  then show ?case by (auto simp: less_Suc_eq load64_store64_disjoint store64_other)
qed simp

lemma storeLimbs_load: "i < length ls \<Longrightarrow> load64 (mem (storeLimbs p ls s)) (p + 8 * i) = ls ! i"
  using storeLimbs_prefix [of "length ls" ls p s] by (simp add: storeLimbs_def)

lemma storeLimbs_other: "b < p \<or> p + 8 * length ls \<le> b \<Longrightarrow> mem (storeLimbs p ls s) b = mem s b"
  using storeLimbs_prefix [of "length ls" ls p s] unfolding storeLimbs_def by blast


lemma setFrontier_off:
  assumes "\<not> isOn (profiling s)"
  shows "\<exists>s'. setFrontier s p = Inr s' \<and> mem s' = mem s \<and> heap s' = heap s"
  using assms by (simp add: setFrontier_def GC_profileAllocInc_def bindE_def cumul_upd_def Let_def)

text \<open>An object written at the frontier is read back as it was.\<close>

lemma argOf_written:
  fixes bp :: nat and z :: mpzArg
  assumes z: "length (snd z) = nat \<bar>fst z\<bar>" and n: "bp + 32 + 8 * length (snd z) < 2 ^ 64"
    and even: "even bp"
    and len: "load64 (mem s) (bp + 8) = word_of_nat (length (snd z) + 1)"
    and sign: "load64 (mem s) (bp + 24) = (if fst z < 0 then 1 else 0)"
    and limbs: "\<And>i. i < length (snd z) \<Longrightarrow> load64 (mem s) (bp + 32 + 8 * i) = snd z ! i"
  shows "argOf s (word_of_nat (bp + 24)) = z" "\<not> isSmall (word_of_nat (bp + 24))"
proof -
  define r :: objptr where "r = word_of_nat (bp + 24)"
  have u: "unat r = bp + 24" unfolding r_def using n by (intro unat_of_nat_small) simp
  obtain k where "bp = 2 * k" using even by (rule evenE)
  then have "r = 2 * word_of_nat (k + 12)" by (simp add: r_def)
  then have "even r" by (metis dvd_triv_left)
  then have small: "\<not> isSmall r" unfolding isSmall_odd by simp
  have "unat (load64 (mem s) (bp + 8)) = length (snd z) + 1"
    unfolding len using n by (intro unat_of_nat_small) simp
  then have ulen: "uint (load64 (mem s) (bp + 8)) = int (length (snd z)) + 1" unfolding uint_nat by simp
  have "(if fst z < 0 then - int (length (snd z)) else int (length (snd z))) = fst z" using z by simp
  moreover have "map (\<lambda>i. load64 (mem s) (bp + 32 + 8 * i)) [0..<length (snd z)] = snd z"
    using limbs by (intro nth_equalityI) simp_all
  ultimately have "argOf s r = z"
    using small by (simp add: argOf_def fillIntInfArg_def toBignum_def u ulen sign mpzLimbs_def Let_def prod_eq_iff split: if_splits)
  with small show "argOf s (word_of_nat (bp + 24)) = z" "\<not> isSmall (word_of_nat (bp + 24))"
    unfolding r_def by simp_all
qed

section \<open>Results\<close>

lemma mpz_length_0: "mpz_normal z \<Longrightarrow> length (snd z) = 0 \<Longrightarrow> mpzValue z = 0"
  by (simp add: mpz_normal_def mpzValue_def)

lemma intInf_value_small: "small_range v \<Longrightarrow> intInf_value s (small_of v) = v"
  by (simp add: intInf_value_def small_of_isSmall small_of_sint)

definition intInf_result :: "GC_state \<Rightarrow> int \<Rightarrow> GC_state \<times> objptr \<Rightarrow> bool" where
  "intInf_result s v r \<longleftrightarrow>
     intInf_ok (fst r) (snd r) \<and> intInf_value (fst r) (snd r) = v \<and>
     (isSmall (snd r) \<longleftrightarrow> small_range v) \<and> (isSmall (snd r) \<longrightarrow> frontier (fst r) = frontier s)"

text \<open>The part of \<open>finiIntInfRes\<close> that makes a small integer, where the size allows it.\<close>

lemma smallRes_result:
  assumes z: "mpz_normal z" and n: "length (snd z) = 1"
  shows "smallRes (fst z < 0) (snd z ! 0) =
    (if small_range (mpzValue z) then Some (small_of (mpzValue z)) else None)"
  using smallRes_eq [of "fst z < 0" "snd z ! 0"] mpz_one [OF assms] by simp

lemma finishOp_eq:
  fixes s :: GC_state
  assumes "mpz_normal z"
  defines "s1 \<equiv> write64 (frontier s + 24) (if fst z < 0 then 1 else 0) (storeLimbs (frontier s + 32) (snd z) s)"
  shows "finishOp s z =
    (if small_range (mpzValue z) then Inr (s1, small_of (mpzValue z))
     else bindE (setFrontier s1 (frontier s + 32 + 8 * length (snd z))) (\<lambda>s2.
       Inr (write64 (frontier s + 16) GC_INTINF_HEADER
             (write64 (frontier s + 8) (word_of_nat (length (snd z) + 1)) (write64 (frontier s) 0 s2)),
            word_of_nat (frontier s + 24))))"
proof -
  have len: "nat \<bar>fst z\<bar> = length (snd z)" using assms by (simp add: mpz_normal_def)
  have ld: "load64 (mem s1) (frontier s + 32) = snd z ! 0" if "0 < length (snd z)"
    using storeLimbs_load [of 0 "snd z" "frontier s + 32" s] that by (simp add: s1_def load64_store64_disjoint)
  let ?rest = "bindE (setFrontier s1 (frontier s + 32 + 8 * length (snd z))) (\<lambda>s2.
       Inr (write64 (frontier s + 16) GC_INTINF_HEADER
             (write64 (frontier s + 8) (word_of_nat (length (snd z) + 1)) (write64 (frontier s) 0 s2)),
            word_of_nat (frontier s + 24)))"
  have fin: "finishOp s z = (if length (snd z) = 0 then Inr (s1, 1)
     else case (if length (snd z) \<le> 1 then smallRes (fst z < 0) (load64 (mem s1) (frontier s + 32)) else None) of
        Some ans \<Rightarrow> Inr (s1, ans) | None \<Rightarrow> ?rest)"
    unfolding finishOp_def finiIntInfRes_def initIntInfRes_def Let_def s1_def mpz.simps limbsAt.case
      add_diff_cancel_right' len pointerToObjptr_eq by (rule refl)
  consider "length (snd z) = 0" | "length (snd z) = 1" | "1 < length (snd z)" by linarith
  then show ?thesis
  proof cases
    case 1
    then have "mpzValue z = 0" by (rule mpz_length_0 [OF assms(1)])
    with 1 fin show ?thesis by (simp add: small_of_def)
  next
    case 2
    then have "load64 (mem s1) (frontier s + 32) = snd z ! 0" by (intro ld) simp
    then have "finishOp s z = (case smallRes (fst z < 0) (snd z ! 0) of Some ans \<Rightarrow> Inr (s1, ans) | None \<Rightarrow> ?rest)"
      using 2 fin by (simp only: if_False if_True one_neq_zero order_refl simp_thms)
    then show ?thesis unfolding smallRes_result [OF assms(1) 2] by (auto split: if_splits)
  next
    case 3
    then have "length (snd z) \<noteq> 0" "\<not> length (snd z) \<le> 1" by linarith+
    then have "finishOp s z = ?rest" using fin by (simp only: if_False option.case)
    then show ?thesis using mpz_large [OF assms(1) 3] by (simp only: if_False)
  qed
qed


lemma finishOp_result:
  assumes z: "mpz_normal z"
    and room: "frontier s + 32 + 8 * length (snd z) < 2 ^ 64" and even: "even (frontier s)"
    and off: "\<not> isOn (profiling s)"
  shows "\<exists>r. finishOp s z = Inr r \<and> intInf_result s (mpzValue z) r"
proof -
  define s1 where "s1 = write64 (frontier s + 24) (if fst z < 0 then 1 else 0) (storeLimbs (frontier s + 32) (snd z) s)"
  have only: "only_mem s s1" unfolding s1_def by (rule only_mem_trans [OF storeLimbs_only only_mem_write64])
  then have fr: "frontier s1 = frontier s" and prof: "profiling s1 = profiling s"
    unfolding only_mem_def by (metis GC_state.select_convs GC_state.surjective GC_state.update_convs)+
  show ?thesis
  proof (cases "small_range (mpzValue z)")
    case True
    then have "finishOp s z = Inr (s1, small_of (mpzValue z))" unfolding finishOp_eq [OF z] s1_def by simp
    moreover have "intInf_result s (mpzValue z) (s1, small_of (mpzValue z))"
      using True by (simp add: intInf_result_def intInf_ok_def small_of_isSmall intInf_value_small fr)
    ultimately show ?thesis by blast
  next
    case False
    obtain s2 where s2: "setFrontier s1 (frontier s + 32 + 8 * length (snd z)) = Inr s2" "mem s2 = mem s1"
      using setFrontier_off [of s1] off unfolding prof by blast
    define s3 where "s3 = write64 (frontier s + 16) GC_INTINF_HEADER
      (write64 (frontier s + 8) (word_of_nat (length (snd z) + 1)) (write64 (frontier s) 0 s2))"
    have fin: "finishOp s z = Inr (s3, word_of_nat (frontier s + 24))"
      using False unfolding finishOp_eq [OF z] s1_def [symmetric] s2 s3_def by (simp only: if_False bindE_simps)
    have len: "length (snd z) = nat \<bar>fst z\<bar>" using z by (simp add: mpz_normal_def)
    have hd: "load64 (mem s3) (frontier s + 8) = word_of_nat (length (snd z) + 1)"
      "load64 (mem s3) (frontier s + 24) = (if fst z < 0 then 1 else 0)"
      by (simp_all add: s3_def s2 s1_def load64_store64_disjoint)
    have limbs: "load64 (mem s3) (frontier s + 32 + 8 * i) = snd z ! i" if "i < length (snd z)" for i
      using storeLimbs_load [OF that] by (simp add: s3_def s2 s1_def load64_store64_disjoint)
    have "argOf s3 (word_of_nat (frontier s + 24)) = z" "\<not> isSmall (word_of_nat (frontier s + 24))"
      using argOf_written [OF len room even hd limbs] by blast+
    then have "intInf_result s (mpzValue z) (s3, word_of_nat (frontier s + 24))"
      using z False by (simp add: intInf_result_def intInf_ok_def intInf_value_def del: of_nat_add)
    with fin show ?thesis by blast
  qed
qed


section \<open>Properties\<close>

text \<open>
  A function of GnuMP implements a function on integers, where it is defined: from numbers
  without leading limbs of 0 it makes such a number, of the value the function has.
\<close>

definition gmp_implements ::
  "(mpzArg \<Rightarrow> mpzArg \<Rightarrow> mpzArg) \<Rightarrow> (int \<Rightarrow> int \<Rightarrow> bool) \<Rightarrow> (int \<Rightarrow> int \<Rightarrow> int) \<Rightarrow> bool" where
  "gmp_implements binop D f \<longleftrightarrow>
     (\<forall>l r. mpz_normal l \<longrightarrow> mpz_normal r \<longrightarrow> D (mpzValue l) (mpzValue r) \<longrightarrow>
        mpz_normal (binop l r) \<and> mpzValue (binop l r) = f (mpzValue l) (mpzValue r))"

text \<open>
  C13: An operation on two integers gives the integer that the function of GnuMP stands for, in
  whatever representation the arguments have: a value in the range of 63 bits as a small
  integer, with the frontier where it was, and any other value as an object at the old
  frontier that reads back as that value.
\<close>

theorem IntInf_binop_correct:
  assumes "gmp_implements binop D f"
    and "intInf_ok s lhs" "intInf_ok s rhs" "D (intInf_value s lhs) (intInf_value s rhs)"
    and "frontier s + 32 + 8 * length (snd (binop (argOf s lhs) (argOf s rhs))) < 2 ^ 64"
    and "even (frontier s)" "\<not> isOn (profiling s)"
  shows "\<exists>s' res. IntInf_binop binop s lhs rhs = Inr (s', res) \<and>
    intInf_ok s' res \<and> intInf_value s' res = f (intInf_value s lhs) (intInf_value s rhs) \<and>
    (isSmall res \<longleftrightarrow> - (2 ^ 62) \<le> intInf_value s' res \<and> intInf_value s' res < 2 ^ 62) \<and>
    (isSmall res \<longrightarrow> frontier s' = frontier s)"
proof -
  let ?z = "binop (argOf s lhs) (argOf s rhs)"
  have "mpz_normal ?z" "mpzValue ?z = f (intInf_value s lhs) (intInf_value s rhs)"
    using assms(1) [unfolded gmp_implements_def, rule_format, OF argOf_value(1) [OF assms(2)] argOf_value(1) [OF assms(3)]]
      assms(4) unfolding argOf_value(2) [OF assms(2)] argOf_value(2) [OF assms(3)] by blast+
  with finishOp_result [OF this(1) assms(5,6,7)] show ?thesis
    by (auto simp: IntInf_binop_def intInf_result_def)
qed

section \<open>An instance\<close>

text \<open>Numbers of GnuMP from integers; addition over them shows that the hypothesis can hold.\<close>

fun toLimbs :: "nat \<Rightarrow> 64 word list" where
  "toLimbs n = (if n = 0 then [] else word_of_nat n # toLimbs (n div 18446744073709551616))"

declare toLimbs.simps [simp del]

definition mpzOf :: "int \<Rightarrow> mpzArg" where
  "mpzOf v = (sgn v * int (length (toLimbs (nat \<bar>v\<bar>))), toLimbs (nat \<bar>v\<bar>))"

lemma limbsValue_Cons: "limbsValue (w # ls) = uint w + 2 ^ 64 * limbsValue ls"
proof -
  have "limbsValue (w # ls) = uint w + (\<Sum>i<length ls. uint (ls ! i) * 2 ^ (64 * Suc i))"
    by (simp add: limbsValue_def sum.lessThan_Suc_shift del: sum.lessThan_Suc)
  also have "(\<Sum>i<length ls. uint (ls ! i) * 2 ^ (64 * Suc i)) = 2 ^ 64 * limbsValue ls"
    unfolding limbsValue_def sum_distrib_left by (intro sum.cong refl) (simp add: power_add)
  finally show ?thesis .
qed

lemma toLimbs_value: "limbsValue (toLimbs n) = int n"
proof (induction n rule: toLimbs.induct)
  case (1 n)
  show ?case
  proof (cases "n = 0")
    case False
    have "uint (word_of_nat n :: 64 word) = int n mod 18446744073709551616"
      by (simp add: unsigned_of_nat take_bit_eq_mod zmod_int)
    with 1 [OF False] show ?thesis using False
      by (subst toLimbs.simps) (simp add: limbsValue_Cons zdiv_int)
  qed (simp add: toLimbs.simps limbsValue_def)
qed

lemma toLimbs_last: "toLimbs n \<noteq> [] \<Longrightarrow> last (toLimbs n) \<noteq> 0"
proof (induction n rule: toLimbs.induct)
  case (1 n)
  have "n \<noteq> 0" using 1(2) by (cases n) (simp_all add: toLimbs.simps [of 0])
  moreover have "(word_of_nat n :: 64 word) \<noteq> 0" if "toLimbs (n div 18446744073709551616) = []"
  proof -
    have "n < 18446744073709551616" using that by (subst (asm) toLimbs.simps) (auto split: if_splits simp: div_eq_0_iff)
    then show ?thesis using \<open>n \<noteq> 0\<close> unat_of_nat_small by fastforce
  qed
  ultimately show ?case using 1(1) by (subst toLimbs.simps) simp
qed

lemma mpzOf_value: "mpzValue (mpzOf v) = v" "mpz_normal (mpzOf v)"
proof -
  have e: "toLimbs (nat \<bar>v\<bar>) = [] \<longleftrightarrow> v = 0" by (simp add: toLimbs.simps)
  then show "mpzValue (mpzOf v) = v"
    by (cases "v = 0") (auto simp: mpzValue_def mpzOf_def toLimbs_value sgn_mult mult_sgn_abs)
  show "mpz_normal (mpzOf v)"
    using toLimbs_last [of "nat \<bar>v\<bar>"] e by (auto simp: mpz_normal_def mpzOf_def abs_mult)
qed

theorem IntInf_binop_correct_witness:
  "\<exists>s' res. IntInf_binop (\<lambda>l r. mpzOf (mpzValue l + mpzValue r)) state0 9223372036854775807 3 = Inr (s', res) \<and>
     intInf_value s' res = 4611686018427387904 \<and> \<not> isSmall res"
proof -
  have small: "isSmall 9223372036854775807" "isSmall 3" by (simp_all add: isSmall_def)
  have v: "intInf_value state0 9223372036854775807 = 4611686018427387903" "intInf_value state0 3 = 1"
    by (simp_all add: intInf_value_def small)
  have ok: "intInf_ok state0 9223372036854775807" "intInf_ok state0 3" by (simp_all add: intInf_ok_def small)
  note a = argOf_value(2) [OF ok(1), unfolded v] argOf_value(2) [OF ok(2), unfolded v]
  have "gmp_implements (\<lambda>l r. mpzOf (mpzValue l + mpzValue r)) (\<lambda>_ _. True) (+)"
    by (simp add: gmp_implements_def mpzOf_value)
  note IntInf_binop_correct [OF this ok TrueI]
  moreover have "length (snd (mpzOf 4611686018427387904)) = 1"
    by (simp add: mpzOf_def toLimbs.simps)
  moreover have "frontier state0 = 0" "\<not> isOn (profiling state0)" by (simp_all add: zero_defs)
  ultimately show ?thesis by (auto simp: a v)
qed

end
