(* ===== verification/Marking.thy ===== *)
theory Marking
  imports ObjectGraph GarbageCollection
begin

text \<open>
  Correctness of depth-first marking (\<open>dfs-mark.c\<close>) and of the size of objects (\<open>size.c\<close>) on
  graphs of normal objects, weak pointers and sequences: the goto machine returns, it has
  flipped the mark of exactly the objects that can be reached through objects not marked
  before, every pointer and counter it used as its stack is back, and it has added up the
  sizes. One lemma for each thing the machine does at a slot (look, push, pop, advance) and on
  entering an object; then induction over the objects not yet visited.
\<close>

section \<open>Counted steps\<close>

inductive dfs_reach :: "OS \<Rightarrow> GC_markState \<Rightarrow> dfsConfig \<Rightarrow> nat \<Rightarrow> dfsConfig \<Rightarrow> bool" for os ms where
  none [intro]: "dfs_reach os ms c 0 c"
| more: "dfsStep os ms c = Inr c' \<Longrightarrow> dfs_reach os ms c' n c'' \<Longrightarrow> dfs_reach os ms c (Suc n) c''"

lemma dfs_reach_trans:
  "dfs_reach os ms c m c' \<Longrightarrow> dfs_reach os ms c' n c'' \<Longrightarrow> dfs_reach os ms c (m + n) c''"
  by (induction rule: dfs_reach.induct) (auto intro: dfs_reach.more)

lemma dfs_step1: "dfsStep os ms c = Inr c' \<Longrightarrow> dfs_reach os ms c 1 c'"
  using dfs_reach.more [OF _ dfs_reach.none] by (simp add: numeral_eq_Suc)

lemma dfs_step2:
  "dfsStep os ms c = Inr c' \<Longrightarrow> dfsStep os ms c' = Inr c'' \<Longrightarrow> dfs_reach os ms c 2 c''"
  using dfs_reach.more [OF _ dfs_reach.more [OF _ dfs_reach.none]] by (simp add: numeral_eq_Suc)

inductive_cases dfs_reach_SucE: "dfs_reach os ms c (Suc n) c'"
inductive_simps dfs_reach_0: "dfs_reach os ms c 0 c'"

lemma dfsRun_reach:
  "dfs_reach os ms c n (Return, s, l) \<Longrightarrow> n < fuel \<Longrightarrow> dfsRun fuel os ms c = Inr (s, l_size l)"
proof (induction n arbitrary: c fuel)
  case 0
  then show ?case by (cases fuel) (auto simp: dfs_reach_0)
next
  case (Suc n)
  obtain f where f: "fuel = Suc f" "n < f" using Suc(3) by (cases fuel) auto
  obtain c' where c: "dfsStep os ms c = Inr c'" "dfs_reach os ms c' n (Return, s, l)"
    using Suc(2) by (rule dfs_reach_SucE)
  show ?case
  proof (cases "fst c = Return")
    case True
    then have "c' = c" using c(1) by (cases c) auto
    have "dfs_reach os ms c m (Return, s, l) \<Longrightarrow> c = (Return, s, l)" for m
    proof (induction m)
      case (Suc m)
      then show ?case using True by (cases c) (auto elim: dfs_reach_SucE)
    qed (simp add: dfs_reach_0)
    then have "c = (Return, s, l)" using c(2) \<open>c' = c\<close> by blast
    then show ?thesis by (simp add: f)
  next
    case False
    then show ?thesis using Suc(1) [OF c(2) f(2)] by (simp add: f c)
  qed
qed

section \<open>Where the machine is\<close>

abbreviation (input) is_seq :: "GC_state \<Rightarrow> pointer \<Rightarrow> bool" where
  "is_seq s p \<equiv> tag (typeOf s p) = SEQUENCE_TAG"

definition inLabel :: "GC_state \<Rightarrow> pointer \<Rightarrow> dfsLabel" where
  "inLabel s p = (if is_seq s p then MarkInSequence else MarkInNormal)"

definition nextLabel :: "GC_state \<Rightarrow> pointer \<Rightarrow> dfsLabel" where
  "nextLabel s p = (if is_seq s p then MarkNextInSequence else MarkNextInNormal)"

text \<open>
  In object \<open>p\<close> at its slot \<open>k\<close>, with \<open>q\<close> below it on the mark stack. The state \<open>s0\<close> is
  the one before marking.
\<close>

definition dfs_at :: "GC_state \<Rightarrow> pointer \<Rightarrow> pointer \<Rightarrow> nat \<Rightarrow> GC_state \<Rightarrow> dfsLocals \<Rightarrow> bool" where
  "dfs_at s0 p q k s l \<longleftrightarrow>
     cur l = p \<and> prev l = q \<and> headerp l = getHeaderp p \<and> header l = getHeader s p \<and>
     getHeader s p AND NOT COUNTER_MASK = getHeader s0 p XOR MARK_MASK \<and> objType l = typeOf s0 p \<and>
     todo l = slotAddr s0 p k \<and> objptrIndex l = k mod numObjptrs (typeOf s0 p) \<and>
     (is_seq s0 p \<longrightarrow> sequenceIndex l = k div numObjptrs (typeOf s0 p) \<and>
        getSequenceLength s p = getSequenceLength s0 p)"

lemma dfs_at_tag: "k < numSlots s0 p \<Longrightarrow> tag (typeOf s0 p) = NORMAL_TAG \<or> is_seq s0 p"
  by (cases "tag (typeOf s0 p)") (auto simp: numSlots_def elems_def)

lemma dfs_at_locals [simp]:
  "dfs_at s0 p q k s (l\<lparr>nxt := a\<rparr>) = dfs_at s0 p q k s l"
  "dfs_at s0 p q k s (l\<lparr>nextHeaderp := a\<rparr>) = dfs_at s0 p q k s l"
  "dfs_at s0 p q k s (l\<lparr>nextHeader := h\<rparr>) = dfs_at s0 p q k s l"
  by (simp_all add: dfs_at_def)

text \<open>The pointer at a slot is read, and the header of the object it leads to.\<close>

definition dfs_fetch :: "GC_state \<Rightarrow> dfsLocals \<Rightarrow> dfsLocals" where
  "dfs_fetch s l =
     (let c = unat (load64 (mem s) (todo l))
      in l\<lparr>nxt := c, nextHeaderp := getHeaderp c, nextHeader := getHeader s c\<rparr>)"

lemma dfs_fetch_at [simp]: "dfs_at s0 p q k s (dfs_fetch s l) = dfs_at s0 p q k s l"
  by (simp add: dfs_fetch_def Let_def)

lemma dfs_fetch_sel [simp]:
  "nxt (dfs_fetch s l) = unat (load64 (mem s) (todo l))" "nextHeader (dfs_fetch s l) = getHeader s (nxt (dfs_fetch s l))"
  "nextHeaderp (dfs_fetch s l) = getHeaderp (nxt (dfs_fetch s l))" "l_size (dfs_fetch s l) = l_size l"
  by (simp_all add: dfs_fetch_def Let_def)

text \<open>The code that looks at a slot, of normal objects and sequences, in one equation.\<close>

lemma dfs_look:
  assumes "dfs_at s0 p q k s l" "\<not> shouldHashCons ms" and "c = unat (load64 (mem s) (slotAddr s0 p k))"
  shows "dfsStep os ms (inLabel s0 p, s, l) =
    (if \<not> follows s c then Inr (nextLabel s0 p, s, l\<lparr>nxt := c\<rparr>)
     else if getHeader s c AND MARK_MASK = markOf ms then Inr (nextLabel s0 p, s, dfs_fetch s l)
     else Inr (MarkNext, write64 (getHeaderp p) (setCounter (getHeader s p) (k mod numObjptrs (typeOf s0 p)))
       (if is_seq s0 p then write64 (getSequenceCounterp p) (word_of_nat (k div numObjptrs (typeOf s0 p))) s else s),
       dfs_fetch s l))"
proof -
  note at = assms(1) [unfolded dfs_at_def]
  note c = assms(3) [symmetric]
  show ?thesis
    using at assms(2)
    by (simp add: inLabel_def nextLabel_def dfs_markInNormal_def dfs_markInSequence_def dfs_follow_def
        follows_def fetchObjptrToPointer_def c Let_def dfs_fetch_def eq_commute [of "markOf ms"])
qed

lemma dfs_skip:
  assumes "dfs_at s0 p q k s l" "\<not> shouldHashCons ms" and "c = unat (load64 (mem s) (slotAddr s0 p k))"
    and "\<not> follows s c \<or> getHeader s c AND MARK_MASK = markOf ms"
  shows "\<exists>l'. dfs_reach os ms (inLabel s0 p, s, l) 1 (nextLabel s0 p, s, l') \<and>
    dfs_at s0 p q k s l' \<and> l_size l' = l_size l"
proof -
  have 1: "dfsStep os ms (inLabel s0 p, s, l) = Inr (nextLabel s0 p, s, if follows s c then dfs_fetch s l else l\<lparr>nxt := c\<rparr>)"
    unfolding dfs_look [OF assms(1-3)] using assms(4) by simp
  show ?thesis by (rule exI, intro conjI, rule dfs_step1 [OF 1]) (simp_all add: assms(1))
qed

text \<open>What is stored when a pointer is followed.\<close>

definition pushMem :: "GC_state \<Rightarrow> pointer \<Rightarrow> pointer \<Rightarrow> nat \<Rightarrow> 64 word \<Rightarrow> mem \<Rightarrow> mem" where
  "pushMem s0 p q k h m =
     (let n = numObjptrs (typeOf s0 p);
          m = (if is_seq s0 p then store64 m (getSequenceCounterp p) (word_of_nat (k div n)) else m);
          m = store64 m (getHeaderp p) (setCounter h (k mod n))
      in store64 m (slotAddr s0 p k) (word_of_nat q))"

lemma dfs_push:
  assumes "dfs_at s0 p q k s l" "\<not> shouldHashCons ms" and "c = unat (load64 (mem s) (slotAddr s0 p k))"
    and "follows s c" "getHeader s c AND MARK_MASK \<noteq> markOf ms"
  shows "\<exists>l'. dfs_reach os ms (inLabel s0 p, s, l) 2
      (Mark, s\<lparr>mem := pushMem s0 p q k (getHeader s p) (mem s)\<rparr>, l') \<and>
    cur l' = c \<and> prev l' = p \<and> headerp l' = getHeaderp c \<and> header l' = getHeader s c \<and> l_size l' = l_size l"
proof -
  note at = assms(1) [unfolded dfs_at_def]
  have c: "unat (load64 (mem s) (todo l)) = c" using at assms(3) by simp
  let ?s1 = "write64 (getHeaderp p) (setCounter (getHeader s p) (k mod numObjptrs (typeOf s0 p)))
       (if is_seq s0 p then write64 (getSequenceCounterp p) (word_of_nat (k div numObjptrs (typeOf s0 p))) s else s)"
  let ?l = "dfs_fetch s l"
  have 1: "dfsStep os ms (inLabel s0 p, s, l) = Inr (MarkNext, ?s1, ?l)"
    unfolding dfs_look [OF assms(1-3)] using assms(4,5) by simp
  have sel: "cur ?l = p" "prev ?l = q" "todo ?l = slotAddr s0 p k" using at by (simp_all add: dfs_fetch_def Let_def)
  have 2: "dfsStep os ms (MarkNext, ?s1, ?l)
    = Inr (Mark, s\<lparr>mem := pushMem s0 p q k (getHeader s p) (mem s)\<rparr>,
        ?l\<lparr>headerp := getHeaderp c, header := getHeader s c, prev := p, cur := c\<rparr>)"
    by (simp add: dfs_markNext_def sel c storeObjptrFromPointer_def write64_def pushMem_def Let_def)
  show ?thesis by (rule exI, intro conjI, rule dfs_step2 [OF 1 2]) simp_all
qed


section \<open>Back in an object\<close>

lemma typeOf_split:
  assumes "object_ok s0 p" "objectTypes s = objectTypes s0"
    and "h AND NOT COUNTER_MASK = getHeader s0 p XOR MARK_MASK"
  shows "splitHeader s h = Inr (typeOf s0 p)"
proof -
  have "typeIndexOfHeader h = typeIndexOfHeader (getHeader s0 p)"
    using typeIndex_clear [of h] typeIndex_flip [of "getHeader s0 p"] assms(3) by simp
  then show ?thesis using assms by (simp add: splitHeader_def typeOf_def object_ok_def)
qed

lemma dfs_pop:
  assumes "k < numSlots s0 p" "object_ok s0 p" "objectTypes s = objectTypes s0" "\<not> shouldHashCons ms"
    and l: "cur l = c" "prev l = p"
    and h: "getHeader s p = setCounter h (k mod numObjptrs (typeOf s0 p))" "h AND NOT COUNTER_MASK = getHeader s0 p XOR MARK_MASK"
    and seq: "is_seq s0 p \<Longrightarrow> getSequenceCounter s p = k div numObjptrs (typeOf s0 p) \<and> getSequenceLength s p = getSequenceLength s0 p"
    and q: "load64 (mem s) (slotAddr s0 p k) = word_of_nat q" "q < 2 ^ 64"
  defines "s' \<equiv> s\<lparr>mem := store64 (mem s) (slotAddr s0 p k) (word_of_nat c)\<rparr>"
  shows "\<exists>l'. dfs_reach os ms (Ret, s, l) 1 (nextLabel s0 p, s', l') \<and> dfs_at s0 p q k s' l' \<and> l_size l' = l_size l"
proof -
  let ?n = "numObjptrs (typeOf s0 p)"
  have i: "k mod ?n < 2048" using slot_index(3) [OF assms(1)] assms(2) by (simp add: object_ok_def)
  have clear: "getHeader s p AND NOT COUNTER_MASK = getHeader s0 p XOR MARK_MASK"
    unfolding h(1) setCounter_clear [OF i] by (rule h(2))
  note split = typeOf_split [OF assms(2,3) clear]
  have count: "getCounter (getHeader s p) = k mod ?n" unfolding h(1) by (rule getCounter_setCounter [OF i])
  have p0: "p \<noteq> 0" using assms(2) by (auto simp: object_ok_def metaBytes_def split: if_splits)
  have uq: "unat (word_of_nat q :: 64 word) = q" using q(2) by (intro unat_of_nat_small) simp
  have hs': "getHeader s' p = getHeader s p"
    using header_slot_apart(1) [OF assms(2,1)] by (simp add: s'_def getHeader_def apart_load)
  have ls': "is_seq s0 p \<Longrightarrow> getSequenceLength s' p = getSequenceLength s0 p"
    using seq header_slot_apart(3) [OF assms(2,1)] by (simp add: s'_def getSequenceLength_def apart_load)
  let ?l = "l\<lparr>nxt := c, cur := p, headerp := getHeaderp p, header := getHeader s p, objType := typeOf s0 p,
      objptrIndex := k mod ?n, todo := slotAddr s0 p k, prev := q\<rparr>"
  have slot: "is_seq s0 p \<Longrightarrow> p + k div ?n * (bytesNonObjptrs (typeOf s0 p) + ?n * 8) + (bytesNonObjptrs (typeOf s0 p) + k mod ?n * 8) = slotAddr s0 p k"
    by (simp add: slotAddr_def elemSize_def Let_def)
  have slotN: "tag (typeOf s0 p) = NORMAL_TAG \<Longrightarrow> p + bytesNonObjptrs (typeOf s0 p) + k mod ?n * 8 = slotAddr s0 p k"
    using slot_index(2) [OF assms(1)] by (simp add: slotAddr_def elems_def Let_def)
  show ?thesis
  proof (cases "is_seq s0 p")
    case True
    have 1: "dfsStep os ms (Ret, s, l) = Inr (nextLabel s0 p, s', ?l\<lparr>sequenceIndex := k div ?n\<rparr>)"
      using True l p0 assms(4) seq [OF True] slot [OF True]
      by (simp add: dfs_ret_def Let_def split count dfs_restore_def fetchObjptrToPointer_def storeObjptrFromPointer_def
          q(1) uq write64_def nextLabel_def s'_def)
    show ?thesis
      by (rule exI, intro conjI, rule dfs_step1 [OF 1]) (use True seq hs' ls' clear in \<open>simp_all add: dfs_at_def\<close>)
  next
    case False
    then have t: "tag (typeOf s0 p) = NORMAL_TAG" using dfs_at_tag [OF assms(1)] by blast
    have 1: "dfsStep os ms (Ret, s, l) = Inr (nextLabel s0 p, s', ?l)"
      using t l p0 assms(4) slotN [OF t]
      by (simp add: dfs_ret_def Let_def split count dfs_restore_def fetchObjptrToPointer_def storeObjptrFromPointer_def
          q(1) uq write64_def nextLabel_def s'_def)
    show ?thesis
      by (rule exI, intro conjI, rule dfs_step1 [OF 1]) (use False hs' clear in \<open>simp_all add: dfs_at_def\<close>)
  qed
qed


section \<open>From slot to slot\<close>

definition cleanMem :: "GC_state \<Rightarrow> pointer \<Rightarrow> mem \<Rightarrow> mem" where
  "cleanMem s0 p m =
     store64 (if is_seq s0 p then store64 m (getSequenceCounterp p) 0 else m)
       (getHeaderp p) (getHeader s0 p XOR MARK_MASK)"

lemma normal_slots:
  assumes "tag (typeOf s0 p) = NORMAL_TAG" "k < numSlots s0 p"
  shows "numSlots s0 p = numObjptrs (typeOf s0 p)" "k mod numObjptrs (typeOf s0 p) = k"
    "slotAddr s0 p k = p + bytesNonObjptrs (typeOf s0 p) + k * 8"
  using assms by (simp_all add: numSlots_def elems_def slotAddr_def Let_def)

lemma dfs_advance_normal:
  assumes at: "dfs_at s0 p q k s l" and k: "k < numSlots s0 p" and ok: "object_ok s0 p"
    and t: "tag (typeOf s0 p) = NORMAL_TAG" and ms: "\<not> shouldHashCons ms"
  shows "Suc k < numSlots s0 p \<Longrightarrow>
      \<exists>l'. dfs_reach os ms (nextLabel s0 p, s, l) 1 (inLabel s0 p, s, l') \<and> dfs_at s0 p q (Suc k) s l' \<and> l_size l' = l_size l"
    "\<not> Suc k < numSlots s0 p \<Longrightarrow>
      \<exists>l'. dfs_reach os ms (nextLabel s0 p, s, l) 2 (Ret, s\<lparr>mem := cleanMem s0 p (mem s)\<rparr>, l') \<and>
        cur l' = p \<and> prev l' = q \<and> l_size l' = l_size l"
proof -
  note a = at [unfolded dfs_at_def] and n = normal_slots [OF t k]
  have lt: "numSlots s0 p \<le> 2048" using ok n(1) by (simp add: object_ok_def)
  have idx: "(objptrIndex l + 1) mod 4294967296 = Suc k" using a n k lt by simp
  {
    assume k': "Suc k < numSlots s0 p"
    have 1: "dfsStep os ms (nextLabel s0 p, s, l) = Inr (inLabel s0 p, s, l\<lparr>objptrIndex := Suc k, todo := todo l + 8\<rparr>)"
      using a t idx k' n(1) by (simp add: nextLabel_def inLabel_def dfs_markNextInNormal_def Let_def)
    show "\<exists>l'. dfs_reach os ms (nextLabel s0 p, s, l) 1 (inLabel s0 p, s, l') \<and> dfs_at s0 p q (Suc k) s l' \<and> l_size l' = l_size l"
      by (rule exI, intro conjI, rule dfs_step1 [OF 1])
        (use a t n normal_slots [OF t k'] in \<open>simp_all add: dfs_at_def\<close>)
  next
    assume "\<not> Suc k < numSlots s0 p"
    then have k': "Suc k = numObjptrs (typeOf s0 p)" using k n(1) by simp
    let ?s = "s\<lparr>mem := cleanMem s0 p (mem s)\<rparr>"
    have 1: "dfsStep os ms (nextLabel s0 p, s, l) = Inr (NormalDone, ?s, l\<lparr>objptrIndex := Suc k\<rparr>)"
      using a t idx k' by (simp add: nextLabel_def dfs_markNextInNormal_def Let_def cleanMem_def write64_def)
    have 2: "dfsStep os ms (NormalDone, ?s, l\<lparr>objptrIndex := Suc k\<rparr>) = Inr (Ret, ?s, l\<lparr>objptrIndex := Suc k\<rparr>)"
      using ms by (simp add: dfs_done_def)
    show "\<exists>l'. dfs_reach os ms (nextLabel s0 p, s, l) 2 (Ret, ?s, l') \<and> cur l' = p \<and> prev l' = q \<and> l_size l' = l_size l"
      by (rule exI, intro conjI, rule dfs_step2 [OF 1 2]) (use a in simp_all)
  }
qed

lemma dfs_advance_sequence:
  assumes at: "dfs_at s0 p q k s l" and k: "k < numSlots s0 p" and ok: "object_ok s0 p"
    and t: "is_seq s0 p" and ms: "\<not> shouldHashCons ms"
  shows "Suc k < numSlots s0 p \<Longrightarrow>
      \<exists>n\<le>2. \<exists>l'. dfs_reach os ms (nextLabel s0 p, s, l) n (inLabel s0 p, s, l') \<and> dfs_at s0 p q (Suc k) s l' \<and> l_size l' = l_size l"
    "\<not> Suc k < numSlots s0 p \<Longrightarrow>
      \<exists>l'. dfs_reach os ms (nextLabel s0 p, s, l) 2 (Ret, s\<lparr>mem := cleanMem s0 p (mem s)\<rparr>, l') \<and>
        cur l' = p \<and> prev l' = q \<and> l_size l' = l_size l"
proof -
  let ?n = "numObjptrs (typeOf s0 p)" and ?len = "getSequenceLength s0 p"
  note a = at [unfolded dfs_at_def] and sl = slot_index [OF k]
  have e: "elems s0 p = ?len" using t by (simp add: elems_def)
  have lt: "k mod ?n < 2048" using sl(3) ok by (simp add: object_ok_def)
  have len: "?len < 18446744073709551616" unfolding getSequenceLength_def by (rule unat_lt_64)
  have idx: "(objptrIndex l + 1) mod 4294967296 = Suc (k mod ?n)" using a lt by simp
  have seqi: "sequenceIndex l = k div ?n" "getSequenceLength s p = ?len" using a t by simp_all
  have wr: "wrap (sequenceIndex l + 1) = Suc (k div ?n)" using seqi sl(2) e len by simp
  have todo: "todo l = p + k div ?n * elemSize s0 p + (bytesNonObjptrs (typeOf s0 p) + k mod ?n * 8)"
    using a by (simp add: slotAddr_def Let_def)
  show "\<exists>n\<le>2. \<exists>l'. dfs_reach os ms (nextLabel s0 p, s, l) n (inLabel s0 p, s, l') \<and> dfs_at s0 p q (Suc k) s l' \<and> l_size l' = l_size l"
    if k': "Suc k < numSlots s0 p"
  proof (cases "Suc (k mod ?n) < ?n")
    case True
    then have m: "Suc k mod ?n = Suc (k mod ?n)" "Suc k div ?n = k div ?n" by (simp_all add: mod_Suc div_Suc)
    have 1: "dfsStep os ms (nextLabel s0 p, s, l)
      = Inr (inLabel s0 p, s, l\<lparr>todo := todo l + 8, objptrIndex := Suc (k mod ?n)\<rparr>)"
      using a t idx True by (simp add: nextLabel_def inLabel_def dfs_markNextInSequence_def Let_def)
    have "\<exists>l'. dfs_reach os ms (nextLabel s0 p, s, l) 1 (inLabel s0 p, s, l') \<and> dfs_at s0 p q (Suc k) s l' \<and> l_size l' = l_size l"
      by (rule exI, intro conjI, rule dfs_step1 [OF 1])
        (use a t m todo in \<open>simp_all add: dfs_at_def slotAddr_def Let_def\<close>)
    then show ?thesis by (intro exI [of _ 1]) simp
  next
    case False
    then have n: "Suc (k mod ?n) = ?n" using sl(3) by simp
    then have m: "Suc k mod ?n = 0" "Suc k div ?n = Suc (k div ?n)" by (simp_all add: mod_Suc div_Suc)
    have more: "Suc (k div ?n) < ?len" using slot_index(2) [OF k'] m e by simp
    let ?l = "l\<lparr>todo := todo l + 8, objptrIndex := ?n, sequenceIndex := Suc (k div ?n)\<rparr>"
    have 1: "dfsStep os ms (nextLabel s0 p, s, l) = Inr (MarkSequenceElt, s, ?l)"
      using a t idx n wr more seqi(2) by (simp add: nextLabel_def dfs_markNextInSequence_def Let_def)
    have 2: "dfsStep os ms (MarkSequenceElt, s, ?l)
      = Inr (inLabel s0 p, s, ?l\<lparr>objptrIndex := 0, todo := todo l + 8 + bytesNonObjptrs (typeOf s0 p)\<rparr>)"
      using a t by (simp add: inLabel_def dfs_markSequenceElt_def)
    have "k mod ?n * 8 + 8 = ?n * 8" using n by (metis add.commute mult_Suc)
    then have slot: "todo l + 8 + bytesNonObjptrs (typeOf s0 p) = slotAddr s0 p (Suc k)"
      by (simp add: todo slotAddr_def Let_def m elemSize_def algebra_simps)
    have "\<exists>l'. dfs_reach os ms (nextLabel s0 p, s, l) 2 (inLabel s0 p, s, l') \<and> dfs_at s0 p q (Suc k) s l' \<and> l_size l' = l_size l"
      by (rule exI, intro conjI, rule dfs_step2 [OF 1 2])
        (use a t m slot in \<open>simp_all add: dfs_at_def\<close>)
    then show ?thesis by (intro exI [of _ 2]) simp
  qed
  show "\<exists>l'. dfs_reach os ms (nextLabel s0 p, s, l) 2 (Ret, s\<lparr>mem := cleanMem s0 p (mem s)\<rparr>, l') \<and>
        cur l' = p \<and> prev l' = q \<and> l_size l' = l_size l"
    if "\<not> Suc k < numSlots s0 p"
  proof -
    have sk: "Suc k = ?len * ?n" using that k by (simp add: numSlots_def e)
    then have m: "Suc k mod ?n = 0" "Suc k div ?n = ?len" using sl(1) by simp_all
    then have n: "Suc (k mod ?n) = ?n" "Suc (k div ?n) = ?len" by (auto simp: mod_Suc div_Suc split: if_splits)
    let ?s = "s\<lparr>mem := cleanMem s0 p (mem s)\<rparr>"
    let ?l = "l\<lparr>todo := todo l + 8, objptrIndex := ?n, sequenceIndex := ?len\<rparr>"
    have 1: "dfsStep os ms (nextLabel s0 p, s, l) = Inr (SequenceDone, ?s, ?l)"
      using a t idx n wr seqi(2) by (simp add: nextLabel_def dfs_markNextInSequence_def Let_def cleanMem_def write64_def)
    have 2: "dfsStep os ms (SequenceDone, ?s, ?l) = Inr (Ret, ?s, ?l)" using ms by (simp add: dfs_done_def)
    show ?thesis by (rule exI, intro conjI, rule dfs_step2 [OF 1 2]) (use a in simp_all)
  qed
qed


lemma dfs_advance:
  assumes "dfs_at s0 p q k s l" "k < numSlots s0 p" "object_ok s0 p" "\<not> shouldHashCons ms"
  shows "Suc k < numSlots s0 p \<Longrightarrow>
      \<exists>n\<le>2. \<exists>l'. dfs_reach os ms (nextLabel s0 p, s, l) n (inLabel s0 p, s, l') \<and> dfs_at s0 p q (Suc k) s l' \<and> l_size l' = l_size l"
    "\<not> Suc k < numSlots s0 p \<Longrightarrow>
      \<exists>l'. dfs_reach os ms (nextLabel s0 p, s, l) 2 (Ret, s\<lparr>mem := cleanMem s0 p (mem s)\<rparr>, l') \<and>
        cur l' = p \<and> prev l' = q \<and> l_size l' = l_size l"
proof -
  note tag = dfs_at_tag [OF assms(2)]
  note normal = dfs_advance_normal [OF assms(1-3) _ assms(4)] and seq = dfs_advance_sequence [OF assms(1-3) _ assms(4)]
  show "\<exists>n\<le>2. \<exists>l'. dfs_reach os ms (nextLabel s0 p, s, l) n (inLabel s0 p, s, l') \<and> dfs_at s0 p q (Suc k) s l' \<and> l_size l' = l_size l"
    if "Suc k < numSlots s0 p"
    using tag
  proof
    assume "tag (typeOf s0 p) = NORMAL_TAG"
    from normal(1) [OF this that] show ?thesis by (intro exI [of _ 1]) simp
  next
    assume "is_seq s0 p"
    from seq(1) [OF this that] show ?thesis .
  qed
  show "\<exists>l'. dfs_reach os ms (nextLabel s0 p, s, l) 2 (Ret, s\<lparr>mem := cleanMem s0 p (mem s)\<rparr>, l') \<and>
        cur l' = p \<and> prev l' = q \<and> l_size l' = l_size l"
    if "\<not> Suc k < numSlots s0 p"
    using tag normal(2) [OF _ that] seq(2) [OF _ that] by blast
qed

section \<open>Into an object\<close>

lemma dfs_enter:
  assumes only: "only_mem s0 s" and ok: "object_ok s0 p" and ms: "\<not> shouldHashCons ms" "\<not> shouldLinkWeaks ms"
    and l: "cur l = p" "prev l = q" "headerp l = getHeaderp p" "header l = getHeader s p"
    and h: "getHeader s p = getHeader s0 p" "is_seq s0 p \<Longrightarrow> getSequenceLength s p = getSequenceLength s0 p"
  defines "s1 \<equiv> s\<lparr>mem := flips {p} (mem s)\<rparr>"
  shows "numSlots s0 p = 0 \<Longrightarrow> \<exists>n\<le>2. \<exists>l'. dfs_reach os ms (Mark, s, l) n (Ret, s1, l') \<and>
      cur l' = p \<and> prev l' = q \<and> wrap (l_size l') = wrap (l_size l + objSize s0 p)"
    "0 < numSlots s0 p \<Longrightarrow> \<exists>n\<le>2. \<exists>l'. dfs_reach os ms (Mark, s, l) n (inLabel s0 p, s1, l') \<and>
      dfs_at s0 p q 0 s1 l' \<and> wrap (l_size l') = wrap (l_size l + objSize s0 p)"
proof -
  obtain m where m: "s = s0\<lparr>mem := m\<rparr>" using only by (auto simp: only_mem_def)
  have w: "write64 (headerp l) (header l XOR MARK_MASK) s = s1"
    using flips_one [of "mem s" p] by (simp add: write64_def s1_def l getHeader_def)
  let ?h = "getHeader s0 p XOR MARK_MASK"
  have clear: "?h AND NOT COUNTER_MASK = ?h"
  proof -
    have "?h AND COUNTER_MASK = getHeader s0 p AND COUNTER_MASK"
      by (rule bit_word_eqI) (simp only: bit_and_iff bit_xor_iff mark_bit counter_bit, auto)
    then show ?thesis using ok by (intro clear_id) (simp add: object_ok_def)
  qed
  have split: "splitHeader s1 ?h = Inr (typeOf s0 p)"
    using typeOf_split [OF ok, of s1 ?h] clear by (simp add: s1_def m)
  have h1: "getHeader s1 p = ?h"
    using flips_header [of p "{p}" "mem s"] by (simp add: s1_def getHeader_def h [unfolded getHeader_def])
  have len: "getSequenceLength s1 p = getSequenceLength s0 p" if "is_seq s0 p"
    using h(2) [OF that] meta_apart(2) [OF ok that]
    by (simp add: s1_def getSequenceLength_def flips_load apart_sym)
  have al: "sizeofSequenceNoMetaData s1 = sizeofSequenceNoMetaData s0"
    by (simp add: fun_eq_iff sizeofSequenceNoMetaData_def alignWithExtra_def s1_def m)
  let ?t = "typeOf s0 p"
  let ?l = "l\<lparr>header := ?h, objType := ?t\<rparr>"
  let ?ls = "\<lambda>x. ?l\<lparr>l_size := wrap (l_size l + x)\<rparr>"
  have mark: "dfsStep os ms (Mark, s, l) =
      (if tag ?t = NORMAL_TAG then
         (if numObjptrs ?t = 0 then Inr (NormalDone, s1, ?ls (objSize s0 p))
          else Inr (MarkInNormal, s1, (?ls (objSize s0 p))\<lparr>todo := p + bytesNonObjptrs ?t, objptrIndex := 0\<rparr>))
       else if tag ?t = WEAK_TAG then Inr (Ret, s1, ?l)
       else if numObjptrs ?t = 0 \<or> getSequenceLength s0 p = 0 then Inr (SequenceDone, s1, ?ls (objSize s0 p))
       else Inr (MarkSequenceElt, s1, (?ls (objSize s0 p))\<lparr>sequenceIndex := 0, todo := p\<rparr>))"
    using ok ms(2) len
    by (cases "tag ?t") (simp_all add: dfs_mark_def Let_def w [unfolded l h(1)] l h(1) split objSize_def elemSize_def al
        object_ok_def dfs_linkWeak_def add.assoc)
  have fin: "dfsStep os ms (NormalDone, s1, l') = Inr (Ret, s1, l')" "dfsStep os ms (SequenceDone, s1, l') = Inr (Ret, s1, l')" for l'
    using ms(1) by (simp_all add: dfs_done_def)
  have size: "wrap (wrap a + b) = wrap (a + b)" "wrap (wrap a) = wrap a" for a b by (simp_all add: wrap_def mod_add_left_eq)
  show "\<exists>n\<le>2. \<exists>l'. dfs_reach os ms (Mark, s, l) n (Ret, s1, l') \<and>
      cur l' = p \<and> prev l' = q \<and> wrap (l_size l') = wrap (l_size l + objSize s0 p)" if none: "numSlots s0 p = 0"
  proof (cases "tag ?t = WEAK_TAG")
    case True
    have 1: "dfsStep os ms (Mark, s, l) = Inr (Ret, s1, ?l)" unfolding mark using True by simp
    have z: "objSize s0 p = 0" using True by (simp add: objSize_def)
    have "\<exists>l'. dfs_reach os ms (Mark, s, l) 1 (Ret, s1, l') \<and>
      cur l' = p \<and> prev l' = q \<and> wrap (l_size l') = wrap (l_size l + objSize s0 p)"
      by (intro exI, intro conjI, rule dfs_step1 [OF 1]) (simp_all add: l z)
    then show ?thesis by (intro exI [of _ 1]) simp
  next
    case False
    then obtain d where d: "d = NormalDone \<or> d = SequenceDone"
      and 1: "dfsStep os ms (Mark, s, l) = Inr (d, s1, ?ls (objSize s0 p))"
      using none ok unfolding mark numSlots_def elems_def object_ok_def by (cases "tag ?t") auto
    have 2: "dfsStep os ms (d, s1, ?ls (objSize s0 p)) = Inr (Ret, s1, ?ls (objSize s0 p))" using d fin by auto
    have "\<exists>l'. dfs_reach os ms (Mark, s, l) 2 (Ret, s1, l') \<and>
      cur l' = p \<and> prev l' = q \<and> wrap (l_size l') = wrap (l_size l + objSize s0 p)"
      by (intro exI, intro conjI, rule dfs_step2 [OF 1 2]) (simp_all add: l size)
    then show ?thesis by (intro exI [of _ 2]) simp
  qed
  show "\<exists>n\<le>2. \<exists>l'. dfs_reach os ms (Mark, s, l) n (inLabel s0 p, s1, l') \<and>
      dfs_at s0 p q 0 s1 l' \<and> wrap (l_size l') = wrap (l_size l + objSize s0 p)" if some: "0 < numSlots s0 p"
    using dfs_at_tag [OF some]
  proof
    assume t: "tag ?t = NORMAL_TAG"
    have 1: "dfsStep os ms (Mark, s, l) = Inr (inLabel s0 p, s1, (?ls (objSize s0 p))\<lparr>todo := p + bytesNonObjptrs ?t, objptrIndex := 0\<rparr>)"
      unfolding mark using t slot_index(1) [OF some] by (simp add: inLabel_def)
    have "\<exists>l'. dfs_reach os ms (Mark, s, l) 1 (inLabel s0 p, s1, l') \<and>
      dfs_at s0 p q 0 s1 l' \<and> wrap (l_size l') = wrap (l_size l + objSize s0 p)"
      by (intro exI, intro conjI, rule dfs_step1 [OF 1]) (use clear in \<open>simp_all add: l size dfs_at_def h1 t slotAddr_def Let_def\<close>)
    then show ?thesis by (intro exI [of _ 1]) simp
  next
    assume t: "is_seq s0 p"
    let ?l2 = "(?ls (objSize s0 p))\<lparr>sequenceIndex := 0, todo := p\<rparr>"
    have 1: "dfsStep os ms (Mark, s, l) = Inr (MarkSequenceElt, s1, ?l2)"
      unfolding mark using t slot_index(1,2) [OF some] by (simp add: elems_def)
    have 2: "dfsStep os ms (MarkSequenceElt, s1, ?l2)
      = Inr (inLabel s0 p, s1, ?l2\<lparr>objptrIndex := 0, todo := p + bytesNonObjptrs ?t\<rparr>)"
      using t by (simp add: dfs_markSequenceElt_def inLabel_def)
    have "\<exists>l'. dfs_reach os ms (Mark, s, l) 2 (inLabel s0 p, s1, l') \<and>
      dfs_at s0 p q 0 s1 l' \<and> wrap (l_size l') = wrap (l_size l + objSize s0 p)"
      by (intro exI, intro conjI, rule dfs_step2 [OF 1 2])
        (use clear in \<open>simp_all add: l size dfs_at_def h1 t len slotAddr_def Let_def\<close>)
    then show ?thesis by (intro exI [of _ 2]) simp
  qed
qed


section \<open>Memory around a followed pointer\<close>

lemma cleanMem_push:
  assumes ok: "object_ok s0 p" and k: "k < numSlots s0 p"
    and N: "\<And>a x. a \<in> objWords s0 p \<Longrightarrow> x \<in> N \<Longrightarrow> apart a (getHeaderp x)"
  shows "cleanMem s0 p (store64 (flips N (pushMem s0 p q k h m)) (slotAddr s0 p k) (load64 m (slotAddr s0 p k)))
    = flips N (cleanMem s0 p m)"
proof -
  let ?a = "slotAddr s0 p k" and ?m = "flips N m"
  have a: "?a \<in> objWords s0 p" "getHeaderp p \<in> objWords s0 p" using k by (auto simp: objWords_def)
  have c: "getSequenceCounterp p \<in> objWords s0 p" if "is_seq s0 p" using that by (simp add: objWords_def)
  have fs: "flips N (store64 m' b v) = store64 (flips N m') b v" if "b \<in> objWords s0 p" for m' b v
    using N [OF that] by (simp add: flips_store)
  have v: "load64 m ?a = load64 ?m ?a" using N [OF a(1)] by (simp add: flips_load)
  note ap = header_slot_apart [OF ok k]
  show ?thesis
  proof (cases "is_seq s0 p")
    case True
    let ?c = "getSequenceCounterp p"
    have "cleanMem s0 p (store64 (flips N (pushMem s0 p q k h m)) ?a (load64 m ?a)) =
      store64 (store64 (store64 (store64 (store64 (store64 ?m ?c (word_of_nat (k div numObjptrs (typeOf s0 p))))
        (getHeaderp p) (setCounter h (k mod numObjptrs (typeOf s0 p)))) ?a (word_of_nat q)) ?a (load64 ?m ?a)) ?c 0)
        (getHeaderp p) (getHeader s0 p XOR MARK_MASK)"
      unfolding v using True by (simp add: cleanMem_def pushMem_def Let_def fs a c)
    also have "\<dots> = store64 (store64 (store64 ?m ?a (load64 ?m ?a)) ?c 0) (getHeaderp p) (getHeader s0 p XOR MARK_MASK)"
      using ap(1) ap(2) [OF True] meta_apart(1) [OF ok True]
      by (simp add: store64_same apart_store [of "getHeaderp p" ?a] apart_store [of ?c ?a] apart_store [of "getHeaderp p" ?c])
    also have "\<dots> = flips N (cleanMem s0 p m)" using True by (simp add: store64_load cleanMem_def fs a c)
    finally show ?thesis .
  next
    case False
    have "cleanMem s0 p (store64 (flips N (pushMem s0 p q k h m)) ?a (load64 m ?a)) =
      store64 (store64 (store64 (store64 ?m (getHeaderp p) (setCounter h (k mod numObjptrs (typeOf s0 p)))) ?a (word_of_nat q))
        ?a (load64 ?m ?a)) (getHeaderp p) (getHeader s0 p XOR MARK_MASK)"
      unfolding v using False by (simp add: cleanMem_def pushMem_def Let_def fs a)
    also have "\<dots> = store64 (store64 ?m ?a (load64 ?m ?a)) (getHeaderp p) (getHeader s0 p XOR MARK_MASK)"
      using ap(1) by (simp add: store64_same apart_store [of "getHeaderp p" ?a])
    also have "\<dots> = flips N (cleanMem s0 p m)" using False by (simp add: store64_load cleanMem_def fs a)
    finally show ?thesis .
  qed
qed

lemma pushMem_load:
  assumes "object_ok s0 p" "k < numSlots s0 p" "\<And>b. b \<in> objWords s0 p \<Longrightarrow> apart a b"
  shows "load64 (pushMem s0 p q k h m) a = load64 m a"
  using assms(2,3) by (auto simp: pushMem_def Let_def objWords_def apart_load)

lemma pushMem_own:
  assumes ok: "object_ok s0 p" and k: "k < numSlots s0 p"
  shows "load64 (pushMem s0 p q k h m) (slotAddr s0 p k) = word_of_nat q"
    "load64 (pushMem s0 p q k h m) (getHeaderp p) = setCounter h (k mod numObjptrs (typeOf s0 p))"
    "is_seq s0 p \<Longrightarrow> load64 (pushMem s0 p q k h m) (getSequenceCounterp p) = word_of_nat (k div numObjptrs (typeOf s0 p))"
    "is_seq s0 p \<Longrightarrow> load64 (pushMem s0 p q k h m) (getSequenceLengthp p) = load64 m (getSequenceLengthp p)"
    "j < numSlots s0 p \<Longrightarrow> j \<noteq> k \<Longrightarrow> load64 (pushMem s0 p q k h m) (slotAddr s0 p j) = load64 m (slotAddr s0 p j)"
proof -
  note ap = header_slot_apart [OF ok k]
  show "load64 (pushMem s0 p q k h m) (slotAddr s0 p k) = word_of_nat q" by (simp add: pushMem_def Let_def)
  show "load64 (pushMem s0 p q k h m) (getHeaderp p) = setCounter h (k mod numObjptrs (typeOf s0 p))"
    using ap(1) by (simp add: pushMem_def Let_def apart_load)
  show "load64 (pushMem s0 p q k h m) (getSequenceCounterp p) = word_of_nat (k div numObjptrs (typeOf s0 p))" if "is_seq s0 p"
    using that ap(2) [OF that] apart_sym [OF meta_apart(1) [OF ok that]] by (simp add: pushMem_def Let_def apart_load)
  show "load64 (pushMem s0 p q k h m) (getSequenceLengthp p) = load64 m (getSequenceLengthp p)" if "is_seq s0 p"
    using that ap(3) [OF that] apart_sym [OF meta_apart(2) [OF ok that]] meta_apart(3) [OF ok that]
    by (simp add: pushMem_def Let_def apart_load)
  show "load64 (pushMem s0 p q k h m) (slotAddr s0 p j) = load64 m (slotAddr s0 p j)" if "j < numSlots s0 p" "j \<noteq> k"
  proof (cases "is_seq s0 p")
    case True
    then show ?thesis
      using slot_apart [OF that(1) k that(2)] header_slot_apart(1,2) [OF ok that(1)]
      by (simp add: pushMem_def Let_def apart_load apart_sym)
  next
    case False
    then show ?thesis
      using slot_apart [OF that(1) k that(2)] header_slot_apart(1) [OF ok that(1)]
      by (simp add: pushMem_def Let_def apart_load apart_sym)
  qed
qed


section \<open>The invariant\<close>

text \<open>
  Objects of \<open>U\<close> are not visited: their words are those before marking, and their marks are to be
  flipped; the other objects have the mark of the mode. Nothing but memory has changed.
\<close>

definition dfs_inv :: "GC_state \<Rightarrow> GC_markState \<Rightarrow> pointer set \<Rightarrow> pointer set \<Rightarrow> GC_state \<Rightarrow> bool" where
  "dfs_inv s0 ms Objs U s \<longleftrightarrow>
     only_mem s0 s \<and> U \<subseteq> Objs \<and>
     (\<forall>x\<in>U. (\<forall>a\<in>objWords s0 x. load64 (mem s) a = load64 (mem s0) a) \<and> getHeader s0 x AND MARK_MASK \<noteq> markOf ms) \<and>
     (\<forall>x\<in>Objs - U. getHeader s x AND MARK_MASK = markOf ms)"

lemma header_word: "getHeaderp x \<in> objWords s x"
  by (simp add: objWords_def)

lemma dfs_inv_header: "dfs_inv s0 ms Objs U s \<Longrightarrow> x \<in> U \<Longrightarrow> getHeader s x = getHeader s0 x"
  using header_word [of x s0] by (auto simp: dfs_inv_def getHeader_def)

lemma dfs_inv_unmarked:
  "dfs_inv s0 ms Objs U s \<Longrightarrow> x \<in> Objs \<Longrightarrow> x \<in> U \<longleftrightarrow> getHeader s x AND MARK_MASK \<noteq> markOf ms"
  using dfs_inv_header [of s0 ms Objs U s x] by (auto simp: dfs_inv_def)

lemma dfs_inv_update:
  assumes "dfs_inv s0 ms Objs U s" "U' \<subseteq> U"
    and "\<And>x a. x \<in> U' \<Longrightarrow> a \<in> objWords s0 x \<Longrightarrow> load64 m a = load64 (mem s) a"
    and "\<And>x. x \<in> Objs - U' \<Longrightarrow> load64 m (getHeaderp x) AND MARK_MASK = markOf ms"
  shows "dfs_inv s0 ms Objs U' (s\<lparr>mem := m\<rparr>)"
proof -
  have "only_mem s0 (s\<lparr>mem := m\<rparr>)" using assms(1) by (auto simp: dfs_inv_def only_mem_def)
  then show ?thesis using assms by (auto simp: dfs_inv_def getHeader_def)
qed

lemma dfs_inv_flips:
  assumes g: "heap_graph s0 Objs" and inv: "dfs_inv s0 ms Objs U s" and N: "N \<subseteq> U"
  shows "dfs_inv s0 ms Objs (U - N) (s\<lparr>mem := flips N (mem s)\<rparr>)"
proof (rule dfs_inv_update [OF inv])
  have U: "U \<subseteq> Objs" using inv by (simp add: dfs_inv_def)
  have ap: "apart a (getHeaderp y)" if "x \<in> Objs" "y \<in> Objs" "x \<noteq> y" "a \<in> objWords s0 x" for x y a
    using objWords_apart [OF g that header_word] .
  show "load64 (flips N (mem s)) a = load64 (mem s) a" if "x \<in> U - N" "a \<in> objWords s0 x" for x a
    using that N U by (intro flips_load ballI ap [of x]) auto
  show "load64 (flips N (mem s)) (getHeaderp x) AND MARK_MASK = markOf ms" if x: "x \<in> Objs - (U - N)" for x
  proof (cases "x \<in> N")
    case True
    have "load64 (flips N (mem s)) (getHeaderp x) = getHeader s x XOR MARK_MASK"
      unfolding getHeader_def using True N U by (intro flips_header ballI impI ap [of x, OF _ _ _ header_word]) auto
    moreover have "getHeader s x AND MARK_MASK \<noteq> markOf ms"
      using dfs_inv_unmarked [OF inv] True N U by blast
    ultimately show ?thesis by (simp only: flip_marked)
  next
    case False
    have "load64 (flips N (mem s)) (getHeaderp x) = getHeader s x"
      unfolding getHeader_def using x False N U by (intro flips_load ballI ap [of x, OF _ _ _ header_word]) auto
    moreover have "getHeader s x AND MARK_MASK = markOf ms" using dfs_inv_unmarked [OF inv] x False by blast
    ultimately show ?thesis by simp
  qed
qed auto

text \<open>A change of the words of a visited object that keeps its mark.\<close>

lemma dfs_inv_own:
  assumes g: "heap_graph s0 Objs" and inv: "dfs_inv s0 ms Objs U s" and p: "p \<in> Objs - U"
    and own: "\<And>a. (\<And>b. b \<in> objWords s0 p \<Longrightarrow> apart a b) \<Longrightarrow> load64 m a = load64 (mem s) a"
    and mark: "load64 m (getHeaderp p) AND MARK_MASK = markOf ms"
  shows "dfs_inv s0 ms Objs U (s\<lparr>mem := m\<rparr>)"
proof (rule dfs_inv_update [OF inv order_refl])
  have U: "U \<subseteq> Objs" using inv by (simp add: dfs_inv_def)
  have o: "load64 m a = load64 (mem s) a" if "x \<in> Objs" "x \<noteq> p" "a \<in> objWords s0 x" for x a
    using that p by (intro own objWords_apart [OF g, of x p a]) auto
  show "load64 m a = load64 (mem s) a" if "x \<in> U" "a \<in> objWords s0 x" for x a
    using that p U by (intro o [of x a]) auto
  show "load64 m (getHeaderp x) AND MARK_MASK = markOf ms" if "x \<in> Objs - U" for x
    using that mark o [of x, OF _ _ header_word] dfs_inv_unmarked [OF inv, of x] by (cases "x = p") (auto simp: getHeader_def)
qed

section \<open>Visiting objects\<close>

definition dfs_returns :: "OS \<Rightarrow> GC_markState \<Rightarrow> dfsConfig \<Rightarrow> GC_state \<Rightarrow> pointer \<Rightarrow> pointer \<Rightarrow> nat \<Rightarrow> nat \<Rightarrow> bool" where
  "dfs_returns os ms c s p q sz k \<longleftrightarrow>
     (\<exists>n\<le>k. \<exists>l. dfs_reach os ms c n (Ret, s, l) \<and> cur l = p \<and> prev l = q \<and> wrap (l_size l) = wrap sz)"

lemma dfs_returns_trans:
  "dfs_reach os ms c n c' \<Longrightarrow> dfs_returns os ms c' s p q sz k \<Longrightarrow> n + k \<le> k' \<Longrightarrow> wrap sz = wrap sz' \<Longrightarrow>
   dfs_returns os ms c s p q sz' k'"
  unfolding dfs_returns_def by (smt (verit) add_le_cancel_left dfs_reach_trans order_trans)

text \<open>The sizes of a set of objects, and a bound on the steps to visit them.\<close>

definition sizes :: "GC_state \<Rightarrow> pointer set \<Rightarrow> nat" where
  "sizes s N = (\<Sum>x\<in>N. objSize s x)"

definition steps :: "GC_state \<Rightarrow> pointer set \<Rightarrow> nat" where
  "steps s N = (\<Sum>x\<in>N. 2 + 5 * numSlots s x)"

lemma sizes_union: "finite M \<Longrightarrow> finite N \<Longrightarrow> M \<inter> N = {} \<Longrightarrow> sizes s (M \<union> N) = sizes s M + sizes s N"
  by (simp add: sizes_def sum.union_disjoint)

lemma steps_union: "finite M \<Longrightarrow> finite N \<Longrightarrow> M \<inter> N = {} \<Longrightarrow> steps s (M \<union> N) = steps s M + steps s N"
  by (simp add: steps_def sum.union_disjoint)

definition closedIn :: "GC_state \<Rightarrow> pointer set \<Rightarrow> pointer set \<Rightarrow> bool" where
  "closedIn s U N \<longleftrightarrow> N \<subseteq> U \<and> (\<forall>x\<in>N. succs s x \<inter> U \<subseteq> N)"

lemma closedIn_union: "closedIn s U M \<Longrightarrow> closedIn s (U - M) N \<Longrightarrow> closedIn s U (M \<union> N)"
  unfolding closedIn_def by blast

definition dfs_visits :: "OS \<Rightarrow> GC_markState \<Rightarrow> GC_state \<Rightarrow> pointer set \<Rightarrow> pointer set \<Rightarrow> bool" where
  "dfs_visits os ms s0 Objs U \<longleftrightarrow>
     (\<forall>p\<in>U. \<forall>q s l. dfs_inv s0 ms Objs U s \<longrightarrow> cur l = p \<longrightarrow> prev l = q \<longrightarrow> headerp l = getHeaderp p \<longrightarrow>
        header l = getHeader s p \<longrightarrow> q < 2 ^ 64 \<longrightarrow>
        (\<exists>N. p \<in> N \<and> closedIn s0 U N \<and> N \<subseteq> reachIn s0 U p \<and>
           dfs_returns os ms (Mark, s, l) (s\<lparr>mem := flips N (mem s)\<rparr>) p q (l_size l + sizes s0 N) (steps s0 N)))"

text \<open>The objects found from the slots of \<open>p\<close>, from slot \<open>k\<close> on.\<close>

definition target :: "GC_state \<Rightarrow> pointer \<Rightarrow> nat \<Rightarrow> pointer" where
  "target s p i = unat (load64 (mem s) (slotAddr s p i))"

definition scanned :: "GC_state \<Rightarrow> pointer set \<Rightarrow> pointer \<Rightarrow> nat \<Rightarrow> pointer set \<Rightarrow> bool" where
  "scanned s U p k N \<longleftrightarrow>
     closedIn s U N \<and> (\<forall>i. k \<le> i \<longrightarrow> i < numSlots s p \<longrightarrow> target s p i \<in> U \<longrightarrow> target s p i \<in> N) \<and>
     (\<forall>x\<in>N. \<exists>y\<in>U \<inter> succs s p. x \<in> reachIn s U y)"

lemma scannedD:
  assumes "scanned s U p k N"
  shows "closedIn s U N" "k \<le> i \<Longrightarrow> i < numSlots s p \<Longrightarrow> target s p i \<in> U \<Longrightarrow> target s p i \<in> N"
    "x \<in> N \<Longrightarrow> \<exists>y\<in>U \<inter> succs s p. x \<in> reachIn s U y"
  using assms by (simp_all add: scanned_def)

lemma scanned_union:
  assumes "closedIn s U M" "M \<subseteq> reachIn s U c" "c \<in> U \<inter> succs s p" "c \<in> M" "target s p k = c" "scanned s (U - M) p (Suc k) N"
  shows "scanned s U p k (M \<union> N)"
proof -
  have "\<exists>y\<in>U \<inter> succs s p. x \<in> reachIn s U y" if "x \<in> M \<union> N" for x
    using that assms reachIn_mono [of "U - M" U s] unfolding scanned_def by blast
  moreover have "target s p i \<in> M \<union> N" if "k \<le> i" "i < numSlots s p" "target s p i \<in> U" for i
  proof (cases "i = k")
    case False
    then have "Suc k \<le> i" using that(1) by simp
    then show ?thesis using assms(6) that(2,3) unfolding scanned_def by blast
  qed (use assms(4,5) in simp)
  ultimately show ?thesis using closedIn_union assms unfolding scanned_def by blast
qed

lemma scanned_skip:
  assumes "target s p k \<notin> U" "scanned s U p (Suc k) N" shows "scanned s U p k N"
  using assms unfolding scanned_def by (metis Suc_leI le_neq_implies_less)

lemma scanned_end: "scanned s U p (numSlots s p) {}"
  by (simp add: scanned_def closedIn_def)


lemma dfs_scan:
  assumes g: "heap_graph s0 Objs" and ms: "\<not> shouldHashCons ms" and p: "p \<in> Objs" "p \<notin> U" and q: "q < 2 ^ 64"
    and visits: "\<And>V. V \<subseteq> U \<Longrightarrow> dfs_visits os ms s0 Objs V"
    and inv: "dfs_inv s0 ms Objs U s" and at: "dfs_at s0 p q k s l" and k: "k < numSlots s0 p"
    and intact: "\<forall>i<numSlots s0 p. load64 (mem s) (slotAddr s0 p i) = load64 (mem s0) (slotAddr s0 p i)"
  shows "\<exists>N. scanned s0 U p k N \<and>
    dfs_returns os ms (inLabel s0 p, s, l) (s\<lparr>mem := flips N (cleanMem s0 p (mem s))\<rparr>) p q
      (l_size l + sizes s0 N) (steps s0 N + 5 * (numSlots s0 p - k))"
  using p(2) visits inv at k intact
proof (induction "numSlots s0 p - k" arbitrary: k U s l rule: less_induct)
  case less
  note inv = less.prems(3) and at = less.prems(4) and k = less.prems(5) and intact = less.prems(6)
  have ok: "object_ok s0 p" and sub: "succs s0 p \<subseteq> Objs" using g p(1) by (auto simp: heap_graph_def)
  have U: "U \<subseteq> Objs" and fin: "finite U" using inv g finite_subset by (auto simp: dfs_inv_def heap_graph_def)
  have only: "only_mem s0 s" using inv by (simp add: dfs_inv_def)
  have tgt: "unat (load64 (mem s) (slotAddr s0 p k)) = target s0 p k" using intact k by (simp add: target_def)
  text \<open>Behind the slot.\<close>
  have rest: "\<exists>N. scanned s0 V p (Suc k) N \<and>
      dfs_returns os ms (nextLabel s0 p, t, l') (t\<lparr>mem := flips N (cleanMem s0 p (mem t))\<rparr>) p q
        (l_size l' + sizes s0 N) (steps s0 N + 5 * (numSlots s0 p - Suc k) + 2)"
    if V: "V \<subseteq> U" "dfs_inv s0 ms Objs V t" "dfs_at s0 p q k t l'"
      "\<forall>i<numSlots s0 p. load64 (mem t) (slotAddr s0 p i) = load64 (mem s0) (slotAddr s0 p i)" for V t l'
  proof (cases "Suc k < numSlots s0 p")
    case True
    obtain n l2 where n: "n \<le> 2" "dfs_reach os ms (nextLabel s0 p, t, l') n (inLabel s0 p, t, l2)"
      and l2: "dfs_at s0 p q (Suc k) t l2" "l_size l2 = l_size l'"
      using dfs_advance(1) [OF V(3) k ok ms True] by blast
    have nV: "p \<notin> V" and lt: "numSlots s0 p - Suc k < numSlots s0 p - k" using V(1) less.prems(1) True by auto
    have vis: "dfs_visits os ms s0 Objs W" if "W \<subseteq> V" for W using less.prems(2) V(1) that by blast
    obtain N where N: "scanned s0 V p (Suc k) N"
      and r: "dfs_returns os ms (inLabel s0 p, t, l2) (t\<lparr>mem := flips N (cleanMem s0 p (mem t))\<rparr>) p q
        (l_size l2 + sizes s0 N) (steps s0 N + 5 * (numSlots s0 p - Suc k))"
      using less.hyps [OF lt nV vis V(2) l2(1) True V(4)] by blast
    show ?thesis
      by (intro exI [of _ N] conjI N, rule dfs_returns_trans [OF n(2) r]) (use n(1) l2(2) in simp_all)
  next
    case False
    then have e: "Suc k = numSlots s0 p" using k by simp
    obtain l2 where "dfs_reach os ms (nextLabel s0 p, t, l') 2 (Ret, t\<lparr>mem := cleanMem s0 p (mem t)\<rparr>, l2)"
      "cur l2 = p" "prev l2 = q" "l_size l2 = l_size l'"
      using dfs_advance(2) [OF V(3) k ok ms False] by blast
    then have "dfs_returns os ms (nextLabel s0 p, t, l') (t\<lparr>mem := cleanMem s0 p (mem t)\<rparr>) p q (l_size l') 2"
      unfolding dfs_returns_def by (intro exI [of _ 2] exI [of _ l2] conjI) simp_all
    then show ?thesis using scanned_end [of s0 V p] by (intro exI [of _ "{}"]) (simp add: e sizes_def steps_def numeral_2_eq_2)
  qed
  let ?c = "target s0 p k"
  show ?case
  proof (cases "follows s ?c \<and> getHeader s ?c AND MARK_MASK \<noteq> markOf ms")
    case False
    then obtain l1 where r1: "dfs_reach os ms (inLabel s0 p, s, l) 1 (nextLabel s0 p, s, l1)"
      and l1: "dfs_at s0 p q k s l1" "l_size l1 = l_size l"
      using dfs_skip [OF at ms tgt [symmetric]] by blast
    have fc: "follows s x = follows s0 x" for x using follows_mem [OF only] .
    have cU: "?c \<notin> U"
    proof
      assume "?c \<in> U"
      then have "follows s ?c" using g U by (auto simp: heap_graph_def fc)
      moreover have "getHeader s ?c AND MARK_MASK \<noteq> markOf ms" using dfs_inv_unmarked [OF inv] \<open>?c \<in> U\<close> U by blast
      ultimately show False using False by simp
    qed
    obtain N where N: "scanned s0 U p (Suc k) N"
      and r: "dfs_returns os ms (nextLabel s0 p, s, l1) (s\<lparr>mem := flips N (cleanMem s0 p (mem s))\<rparr>) p q
        (l_size l1 + sizes s0 N) (steps s0 N + 5 * (numSlots s0 p - Suc k) + 2)"
      using rest [OF order_refl inv l1(1) intact] by blast
    show ?thesis
      by (intro exI [of _ N] conjI scanned_skip [OF cU N], rule dfs_returns_trans [OF r1 r]) (use k l1(2) in simp_all)
  next
    case True
    let ?a = "slotAddr s0 p k" and ?m1 = "pushMem s0 p q k (getHeader s p) (mem s)"
    have ca: "word_of_nat ?c = load64 (mem s0) ?a" by (simp add: target_def)
    have "follows s0 ?c" using True follows_mem [OF only] by simp
    then have "?c \<in> succs s0 p" using k by (auto simp: succs_def target_def)
    then have cO: "?c \<in> Objs" and cU: "?c \<in> U \<inter> succs s0 p" using sub True dfs_inv_unmarked [OF inv, of ?c] by blast+
    have pc: "p \<noteq> ?c" using cU less.prems(1) by auto
    obtain l1 where r1: "dfs_reach os ms (inLabel s0 p, s, l) 2 (Mark, s\<lparr>mem := ?m1\<rparr>, l1)"
      and l1: "cur l1 = ?c" "prev l1 = p" "headerp l1 = getHeaderp ?c" "header l1 = getHeader s ?c" "l_size l1 = l_size l"
      using dfs_push [OF at ms tgt [symmetric]] True by blast
    have own1: "load64 ?m1 a = load64 (mem s) a" if "\<And>b. b \<in> objWords s0 p \<Longrightarrow> apart a b" for a
      using pushMem_load [OF ok k that] .
    have mark: "setCounter (getHeader s p) (k mod numObjptrs (typeOf s0 p)) AND MARK_MASK = markOf ms"
    proof -
      have "k mod numObjptrs (typeOf s0 p) < 2048" using slot_index(3) [OF k] ok by (simp add: object_ok_def)
      moreover have "getHeader s p AND MARK_MASK = markOf ms" using dfs_inv_unmarked [OF inv p(1)] less.prems(1) by blast
      ultimately show ?thesis by (simp only: setCounter_mark)
    qed
    have inv1: "dfs_inv s0 ms Objs U (s\<lparr>mem := ?m1\<rparr>)"
    proof (rule dfs_inv_own [OF g inv])
      show "p \<in> Objs - U" using p(1) less.prems(1) by simp
      show "load64 ?m1 (getHeaderp p) AND MARK_MASK = markOf ms" unfolding pushMem_own(2) [OF ok k] by (rule mark)
    qed (rule own1)
    have "load64 ?m1 (getHeaderp ?c) = load64 (mem s) (getHeaderp ?c)"
      by (rule own1, rule objWords_apart [OF g cO p(1) pc [symmetric] header_word])
    then have h1: "header l1 = getHeader (s\<lparr>mem := ?m1\<rparr>) ?c" unfolding l1(4) by (simp add: getHeader_def)
    have "p < 2 ^ 64" using ok by (simp add: object_ok_def)
    then obtain M where M: "?c \<in> M" "closedIn s0 U M" "M \<subseteq> reachIn s0 U ?c"
      and "dfs_returns os ms (Mark, s\<lparr>mem := ?m1\<rparr>, l1) (s\<lparr>mem := flips M ?m1\<rparr>) ?c p
        (l_size l1 + sizes s0 M) (steps s0 M)"
      using less.prems(2) [OF order_refl, unfolded dfs_visits_def, rule_format, OF _ inv1 l1(1,2,3) h1] cU by auto
    then obtain n2 l2 where r2: "dfs_reach os ms (Mark, s\<lparr>mem := ?m1\<rparr>, l1) n2 (Ret, s\<lparr>mem := flips M ?m1\<rparr>, l2)"
      and n2: "n2 \<le> steps s0 M" and l2: "cur l2 = ?c" "prev l2 = p" "wrap (l_size l2) = wrap (l_size l1 + sizes s0 M)"
      unfolding dfs_returns_def by blast
    have MU: "M \<subseteq> U" "finite M" "p \<notin> M" using M(2) fin less.prems(1) by (auto simp: closedIn_def intro: finite_subset)
    have far: "apart a (getHeaderp x)" if "a \<in> objWords s0 p" "x \<in> M" for a x
      using that MU U p(1) by (intro objWords_apart [OF g p(1) _ _ that(1) header_word]) auto
    have keep: "load64 (flips M m) a = load64 m a" if "a \<in> objWords s0 p" for m a
      using far [OF that] by (simp add: flips_load)
    note w = header_word [of p s0] and pm = pushMem_own [OF ok k]
    have wa: "?a \<in> objWords s0 p" using k by (simp add: objWords_def)
    let ?m2 = "flips M ?m1" let ?m3 = "store64 ?m2 ?a (word_of_nat ?c)"
    have clear: "getHeader s p AND NOT COUNTER_MASK = getHeader s0 p XOR MARK_MASK" using at by (simp add: dfs_at_def)
    have seq: "getSequenceCounter (s\<lparr>mem := ?m2\<rparr>) p = k div numObjptrs (typeOf s0 p) \<and>
        getSequenceLength (s\<lparr>mem := ?m2\<rparr>) p = getSequenceLength s0 p" if t: "is_seq s0 p"
    proof -
      have "getSequenceCounterp p \<in> objWords s0 p" "getSequenceLengthp p \<in> objWords s0 p" using t by (simp_all add: objWords_def)
      moreover have "getSequenceLength s p = getSequenceLength s0 p" using at t by (simp add: dfs_at_def)
      moreover have "k div numObjptrs (typeOf s0 p) < 18446744073709551616"
        using slot_index(2) [OF k] t unat_lt_64 [of "load64 (mem s0) (getSequenceLengthp p)"]
        by (simp add: elems_def getSequenceLength_def)
      ultimately show ?thesis
        using pm(3,4) [OF t] by (simp add: getSequenceCounter_def getSequenceLength_def keep unat_of_nat_small)
    qed
    obtain l3 where r3: "dfs_reach os ms (Ret, s\<lparr>mem := ?m2\<rparr>, l2) 1 (nextLabel s0 p, s\<lparr>mem := ?m3\<rparr>, l3)"
      and l3: "dfs_at s0 p q k (s\<lparr>mem := ?m3\<rparr>) l3" "l_size l3 = l_size l2"
    proof -
      have "objectTypes (s\<lparr>mem := ?m2\<rparr>) = objectTypes s0" using only by (auto simp: only_mem_def)
      moreover have "getHeader (s\<lparr>mem := ?m2\<rparr>) p = setCounter (getHeader s p) (k mod numObjptrs (typeOf s0 p))"
        using pm(2) by (simp add: getHeader_def keep [OF w])
      moreover have "load64 (mem (s\<lparr>mem := ?m2\<rparr>)) ?a = word_of_nat q" using pm(1) by (simp add: keep [OF wa])
      ultimately show thesis using dfs_pop [OF k ok _ ms l2(1,2) _ clear seq _ q, of os] that by auto
    qed
    have inv3: "dfs_inv s0 ms Objs (U - M) (s\<lparr>mem := ?m3\<rparr>)"
    proof -
      have "dfs_inv s0 ms Objs (U - M) (s\<lparr>mem := ?m2\<rparr>)" using dfs_inv_flips [OF g inv1 MU(1)] by simp
      from dfs_inv_own [OF g this, of p ?m3] show ?thesis
        using p(1) less.prems(1) wa mark header_slot_apart(1) [OF ok k] by (simp add: apart_load keep w pm)
    qed
    have intact3: "\<forall>i<numSlots s0 p. load64 ?m3 (slotAddr s0 p i) = load64 (mem s0) (slotAddr s0 p i)"
    proof (intro allI impI)
      fix i assume i: "i < numSlots s0 p"
      then have "slotAddr s0 p i \<in> objWords s0 p" by (simp add: objWords_def)
      then show "load64 ?m3 (slotAddr s0 p i) = load64 (mem s0) (slotAddr s0 p i)"
        using slot_apart [OF i k] pm(5) [OF i] intact i by (cases "i = k") (simp_all add: ca apart_load keep)
    qed
    obtain N where N: "scanned s0 (U - M) p (Suc k) N"
      and r: "dfs_returns os ms (nextLabel s0 p, s\<lparr>mem := ?m3\<rparr>, l3) (s\<lparr>mem := flips N (cleanMem s0 p ?m3)\<rparr>) p q
        (l_size l3 + sizes s0 N) (steps s0 N + 5 * (numSlots s0 p - Suc k) + 2)"
      using rest [OF _ inv3 l3(1)] intact3 by auto
    have NU: "N \<subseteq> U - M" "finite N" using N fin by (auto simp: scanned_def closedIn_def intro: finite_subset)
    have dis: "M \<inter> N = {}" using NU(1) by blast
    have "?m3 = store64 ?m2 ?a (load64 (mem s) ?a)" using intact k by (simp add: ca)
    then have clean: "cleanMem s0 p ?m3 = flips M (cleanMem s0 p (mem s))" using cleanMem_push [OF ok k far] by simp
    have "apart (getHeaderp x) (getHeaderp y)" if "x \<in> N" "y \<in> M" for x y
      using that NU MU U by (intro objWords_apart [OF g _ _ _ header_word header_word]) auto
    then have mem: "flips N (cleanMem s0 p ?m3) = flips (M \<union> N) (cleanMem s0 p (mem s))"
      unfolding clean by (simp add: flips_union Un_commute)
    have sz: "wrap (l_size l3 + sizes s0 N) = wrap (l_size l + sizes s0 (M \<union> N))"
    proof -
      have "wrap (l_size l3 + sizes s0 N) = wrap (wrap (l_size l2) + sizes s0 N)" by (simp add: l3(2) wrap_def mod_add_left_eq)
      also have "\<dots> = wrap (l_size l1 + sizes s0 M + sizes s0 N)" unfolding l2(3) by (simp add: wrap_def mod_add_left_eq)
      finally show ?thesis using sizes_union [OF MU(2) NU(2) dis] l1(5) by (simp add: add.assoc)
    qed
    have st: "2 + (n2 + 1 + (steps s0 N + 5 * (numSlots s0 p - Suc k) + 2)) \<le> steps s0 (M \<union> N) + 5 * (numSlots s0 p - k)"
      using steps_union [OF MU(2) NU(2) dis] n2 k by simp
    have run: "dfs_reach os ms (inLabel s0 p, s, l) (2 + (n2 + 1)) (nextLabel s0 p, s\<lparr>mem := ?m3\<rparr>, l3)"
      by (rule dfs_reach_trans [OF r1 dfs_reach_trans [OF r2 r3]])
    have "scanned s0 U p k (M \<union> N)" by (rule scanned_union [OF M(2,3) cU M(1) refl N])
    moreover have "dfs_returns os ms (inLabel s0 p, s, l) (s\<lparr>mem := flips (M \<union> N) (cleanMem s0 p (mem s))\<rparr>) p q
        (l_size l + sizes s0 (M \<union> N)) (steps s0 (M \<union> N) + 5 * (numSlots s0 p - k))"
      unfolding mem [symmetric] by (rule dfs_returns_trans [OF run r _ sz]) (use st in simp)
    ultimately show ?thesis by blast
  qed
qed


lemma dfs_visit:
  assumes g: "heap_graph s0 Objs" and ms: "\<not> shouldHashCons ms" "\<not> shouldLinkWeaks ms"
    and "finite U" "U \<subseteq> Objs"
  shows "dfs_visits os ms s0 Objs U"
  using assms(4,5)
proof (induction rule: finite_psubset_induct)
  case (psubset U)
  show ?case unfolding dfs_visits_def
  proof (intro ballI allI impI)
    fix p q s and l :: dfsLocals
    assume p: "p \<in> U" and inv: "dfs_inv s0 ms Objs U s" and l: "cur l = p" "prev l = q" "headerp l = getHeaderp p" "header l = getHeader s p"
      and q: "q < 2 ^ 64"
    have pO: "p \<in> Objs" using p psubset.prems by blast
    have ok: "object_ok s0 p" using g pO by (auto simp: heap_graph_def)
    have only: "only_mem s0 s" using inv by (simp add: dfs_inv_def)
    have words: "load64 (mem s) a = load64 (mem s0) a" if "a \<in> objWords s0 p" for a
      using inv p that by (auto simp: dfs_inv_def)
    have h: "getHeader s p = getHeader s0 p" using dfs_inv_header [OF inv p] .
    have sl: "is_seq s0 p \<Longrightarrow> getSequenceLength s p = getSequenceLength s0 p"
      using words [of "getSequenceLengthp p"] by (simp add: objWords_def getSequenceLength_def)
    note enter = dfs_enter [where os = os, OF only ok ms l h]
    let ?s1 = "s\<lparr>mem := flips {p} (mem s)\<rparr>"
    have inv1: "dfs_inv s0 ms Objs (U - {p}) ?s1" using dfs_inv_flips [OF g inv, of "{p}"] p by simp
    show "\<exists>N. p \<in> N \<and> closedIn s0 U N \<and> N \<subseteq> reachIn s0 U p \<and>
        dfs_returns os ms (Mark, s, l) (s\<lparr>mem := flips N (mem s)\<rparr>) p q (l_size l + sizes s0 N) (steps s0 N)"
    proof (cases "numSlots s0 p = 0")
      case True
      then have "closedIn s0 U {p}" using p by (simp add: closedIn_def succs_def)
      moreover have "dfs_returns os ms (Mark, s, l) ?s1 p q (l_size l + sizes s0 {p}) (steps s0 {p})"
        using enter(1) [OF sl True] True unfolding dfs_returns_def sizes_def steps_def
        by (simp add: numeral_2_eq_2)
      ultimately show ?thesis by (intro exI [of _ "{p}"]) simp
    next
      case False
      then obtain n l1 where n: "n \<le> 2" "dfs_reach os ms (Mark, s, l) n (inLabel s0 p, ?s1, l1)"
        and l1: "dfs_at s0 p q 0 ?s1 l1" "wrap (l_size l1) = wrap (l_size l + objSize s0 p)"
        using enter(2) [OF sl] by blast
      have intact: "\<forall>i<numSlots s0 p. load64 (mem ?s1) (slotAddr s0 p i) = load64 (mem s0) (slotAddr s0 p i)"
      proof (intro allI impI)
        fix i assume i: "i < numSlots s0 p"
        then have "load64 (mem s) (slotAddr s0 p i) = load64 (mem s0) (slotAddr s0 p i)"
          by (intro words) (simp add: objWords_def)
        then show "load64 (mem ?s1) (slotAddr s0 p i) = load64 (mem s0) (slotAddr s0 p i)"
          using apart_sym [OF header_slot_apart(1) [OF ok i]] by (simp add: flips_load)
      qed
      have vis: "dfs_visits os ms s0 Objs V" if "V \<subseteq> U - {p}" for V
        using psubset.IH [of V] psubset.prems that p by blast
      obtain N where N: "scanned s0 (U - {p}) p 0 N"
        and r: "dfs_returns os ms (inLabel s0 p, ?s1, l1) (?s1\<lparr>mem := flips N (cleanMem s0 p (mem ?s1))\<rparr>) p q
          (l_size l1 + sizes s0 N) (steps s0 N + 5 * (numSlots s0 p - 0))"
        using dfs_scan [OF g ms(1) pO _ q vis inv1 l1(1) _ intact] False by auto
      have NU: "N \<subseteq> U - {p}" using N by (simp add: scanned_def closedIn_def)
      then have NF: "finite N" "p \<notin> N" using psubset.hyps by (auto intro: finite_subset)
      have "cleanMem s0 p (mem ?s1) = mem ?s1"
      proof -
        have hd: "load64 (mem ?s1) (getHeaderp p) = getHeader s0 p XOR MARK_MASK"
          using flips_header [of p "{p}" "mem s"] h by (simp add: getHeader_def)
        have "load64 (mem ?s1) (getSequenceCounterp p) = 0" if t: "is_seq s0 p"
        proof -
          have "load64 (mem s0) (getSequenceCounterp p) = 0"
            using ok t unat_eq_zero by (auto simp: object_ok_def getSequenceCounter_def)
          then show ?thesis
            using t words [of "getSequenceCounterp p"] meta_apart(1) [OF ok t] by (simp add: objWords_def flips_load apart_sym)
        qed
        then show ?thesis unfolding cleanMem_def hd [symmetric] by (auto simp: store64_load) (metis store64_load)
      qed
      moreover have "flips N (flips {p} (mem s)) = flips (insert p N) (mem s)"
      proof -
        have "apart (getHeaderp x) (getHeaderp p)" if "x \<in> N" for x
          using that NU psubset.prems pO by (intro objWords_apart [OF g _ _ _ header_word header_word]) auto
        then show ?thesis using flips_union [of N "{p}" "mem s"] by (simp add: Un_commute)
      qed
      ultimately have mem: "?s1\<lparr>mem := flips N (cleanMem s0 p (mem ?s1))\<rparr> = s\<lparr>mem := flips (insert p N) (mem s)\<rparr>" by simp
      have succ: "y \<in> insert p N" if y: "y \<in> succs s0 p" "y \<in> U" for y
      proof (cases "y = p")
        case False
        obtain i where i: "i < numSlots s0 p" "y = target s0 p i" using y(1) unfolding succs_def target_def by blast
        have "target s0 p i \<in> U - {p}" using i(2) y(2) False by simp
        then have "target s0 p i \<in> N" using scannedD(2) [OF N _ i(1)] by simp
        then show ?thesis using i(2) by simp
      qed simp
      have "closedIn s0 U (insert p N)" using scannedD(1) [OF N] succ p unfolding closedIn_def by blast
      moreover have "insert p N \<subseteq> reachIn s0 U p"
      proof
        fix x assume "x \<in> insert p N"
        then consider "x = p" | y where "y \<in> U" "y \<in> succs s0 p" "x \<in> reachIn s0 (U - {p}) y"
          using scannedD(3) [OF N, of x] by blast
        then show "x \<in> reachIn s0 U p"
        proof cases
          case 2
          then show ?thesis using reachIn_mono [of "U - {p}" U s0 y] reachIn_edge [OF p 2(1,2)] by blast
        qed simp
      qed
      moreover have "dfs_returns os ms (Mark, s, l) (s\<lparr>mem := flips (insert p N) (mem s)\<rparr>) p q
          (l_size l + sizes s0 (insert p N)) (steps s0 (insert p N))"
        unfolding mem [symmetric]
      proof (rule dfs_returns_trans [OF n(2) r])
        show "n + (steps s0 N + 5 * (numSlots s0 p - 0)) \<le> steps s0 (insert p N)" using n(1) NF by (simp add: steps_def)
        have "wrap (l_size l1 + sizes s0 N) = wrap (wrap (l_size l1) + sizes s0 N)" by (simp add: wrap_def mod_add_left_eq)
        also have "\<dots> = wrap (l_size l + sizes s0 (insert p N))"
          unfolding l1(2) using NF by (simp add: wrap_def mod_add_left_eq sizes_def add.assoc)
        finally show "wrap (l_size l1 + sizes s0 N) = wrap (l_size l + sizes s0 (insert p N))" .
      qed
      ultimately show ?thesis by (intro exI [of _ "insert p N"]) simp
    qed
  qed
qed


section \<open>Enough fuel\<close>

lemma extent_card:
  assumes "object_ok s p" shows "8 * (1 + numSlots s p) \<le> card (extent s p)"
proof -
  have "8 * numSlots s p \<le> elems s p * elemSize s p"
    by (simp add: numSlots_def elemSize_def algebra_simps)
  then show ?thesis using assms by (auto simp: extent_def object_ok_def metaBytes_def split: if_splits)
qed

lemma steps_bound:
  assumes g: "heap_graph s Objs" and N: "N \<subseteq> Objs" shows "steps s N \<le> heapSize (heap s)"
proof -
  have fin: "finite N" using g N finite_subset by (auto simp: heap_graph_def)
  have "steps s N \<le> (\<Sum>x\<in>N. card (extent s x))"
    unfolding steps_def
  proof (rule sum_mono)
    fix x assume "x \<in> N"
    then have "object_ok s x" using g N by (auto simp: heap_graph_def)
    from extent_card [OF this] show "2 + 5 * numSlots s x \<le> card (extent s x)" by simp
  qed
  also have "\<dots> = card (\<Union>x\<in>N. extent s x)"
  proof -
    have "\<forall>i\<in>N. finite (extent s i)" by (simp add: extent_def)
    moreover have "\<forall>i\<in>N. \<forall>j\<in>N. i \<noteq> j \<longrightarrow> extent s i \<inter> extent s j = {}"
      using g N unfolding heap_graph_def by blast
    ultimately show ?thesis using card_UN_disjoint [OF fin] by metis
  qed
  also have "\<dots> \<le> card {heapStart (heap s) ..< heapStart (heap s) + heapSize (heap s)}"
    using g N by (intro card_mono) (auto simp: heap_graph_def)
  finally show ?thesis by simp
qed

section \<open>Marking\<close>

text \<open>The objects of a graph whose mark is not yet that of the mode.\<close>

definition unvisited :: "GC_state \<Rightarrow> pointer set \<Rightarrow> GC_markMode \<Rightarrow> pointer set" where
  "unvisited s Objs m = {x \<in> Objs. \<not> isPointerMarkedByMode s x m}"

lemma unvisited_iff:
  "x \<in> unvisited s Objs (mode ms) \<longleftrightarrow> x \<in> Objs \<and> getHeader s x AND MARK_MASK \<noteq> markOf ms"
  using mark_cases [of "getHeader s x"]
  by (cases "mode ms") (auto simp: unvisited_def isPointerMarkedByMode_def isPointerMarked_def markOf_def and.commute)

lemma dfs_inv_start: "dfs_inv s ms Objs (unvisited s Objs (mode ms)) s"
  using unvisited_iff [of _ s Objs ms] by (auto simp: dfs_inv_def)

lemma dfsRun_start:
  assumes g: "heap_graph s Objs" and root: "rootp \<in> unvisited s Objs (mode ms)"
    and ms: "\<not> shouldHashCons ms" "\<not> shouldLinkWeaks ms"
  defines "R \<equiv> reachIn s (unvisited s Objs (mode ms)) rootp"
  shows "\<exists>size. dfsRun (dfsFuel s) os ms (dfsStart s rootp) = Inr (s\<lparr>mem := flips R (mem s)\<rparr>, size) \<and>
    wrap size = wrap (sizes s R)"
proof -
  let ?U = "unvisited s Objs (mode ms)"
  have U: "?U \<subseteq> Objs" "finite ?U" using g by (auto simp: unvisited_def heap_graph_def)
  obtain l where start: "dfsStart s rootp = (Mark, s, l)" and l: "cur l = rootp" "prev l = 0"
    "headerp l = getHeaderp rootp" "header l = getHeader s rootp" "l_size l = 0"
    by (simp add: dfsStart_def)
  obtain N where N: "rootp \<in> N" "closedIn s ?U N" "N \<subseteq> reachIn s ?U rootp"
    and r: "dfs_returns os ms (Mark, s, l) (s\<lparr>mem := flips N (mem s)\<rparr>) rootp 0 (l_size l + sizes s N) (steps s N)"
    using dfs_visit [OF g ms U(2,1), unfolded dfs_visits_def, rule_format, OF root dfs_inv_start l(1-4)] by auto
  have "reachIn s ?U rootp \<subseteq> N" using N(1,2) by (intro reachIn_closed) (auto simp: closedIn_def)
  then have NR: "N = R" using N(3) by (auto simp: R_def)
  obtain n l' where n: "n \<le> steps s N" "dfs_reach os ms (Mark, s, l) n (Ret, s\<lparr>mem := flips N (mem s)\<rparr>, l')"
    and l': "prev l' = 0" "wrap (l_size l') = wrap (sizes s N)"
    using r unfolding dfs_returns_def l(5) by auto
  have "dfsStep os ms (Ret, s\<lparr>mem := flips N (mem s)\<rparr>, l') = Inr (Return, s\<lparr>mem := flips N (mem s)\<rparr>, l')"
    using l'(1) by (simp add: dfs_ret_def)
  from dfs_reach_trans [OF n(2) dfs_step1 [OF this]]
  have "dfs_reach os ms (Mark, s, l) (n + 1) (Return, s\<lparr>mem := flips N (mem s)\<rparr>, l')" .
  moreover have "N \<subseteq> Objs" using N(2) U(1) by (auto simp: closedIn_def)
  from steps_bound [OF g this] have "n + 1 < dfsFuel s" using n(1) by (simp add: dfsFuel_def)
  ultimately have "dfsRun (dfsFuel s) os ms (Mark, s, l) = Inr (s\<lparr>mem := flips N (mem s)\<rparr>, l_size l')"
    by (rule dfsRun_reach)
  then show ?thesis unfolding start NR [symmetric] using l'(2) by auto
qed


text \<open>Flipping marks changes nothing else of a graph.\<close>

lemma flips_own:
  assumes g: "heap_graph s Objs" and R: "R \<subseteq> Objs" and x: "x \<in> Objs" and a: "a \<in> objWords s x"
  shows "load64 (flips R (mem s)) a = (if a = getHeaderp x \<and> x \<in> R then load64 (mem s) a XOR MARK_MASK else load64 (mem s) a)"
proof -
  have ok: "object_ok s x" using g x by (auto simp: heap_graph_def)
  have ap: "apart b (getHeaderp y)" if "y \<in> R" "y \<noteq> x" "b \<in> objWords s x" for b y
    using that R x by (intro objWords_apart [OF g x _ _ that(3) header_word]) auto
  show ?thesis
  proof (cases "x \<in> R")
    case True
    show ?thesis
    proof (cases "a = getHeaderp x")
      case True
      then show ?thesis using \<open>x \<in> R\<close> ap header_word by (simp add: flips_header)
    next
      case False
      have "apart a (getHeaderp x)"
        using a False header_slot_apart(1) [OF ok] meta_apart(1,2) [OF ok]
        by (auto simp: objWords_def apart_sym split: if_splits)
      then show ?thesis using False ap [OF _ _ a] by (auto intro!: flips_load)
    qed
  next
    case False
    then show ?thesis using ap [OF _ _ a] by (auto intro!: flips_load)
  qed
qed

lemma flips_graph:
  assumes g: "heap_graph s Objs" and R: "R \<subseteq> Objs"
  defines "s' \<equiv> s\<lparr>mem := flips R (mem s)\<rparr>"
  shows "heap_graph s' Objs" "\<And>x. x \<in> Objs \<Longrightarrow> succs s' x = succs s x \<and> objSize s' x = objSize s x"
proof -
  have hd: "getHeader s' x = (if x \<in> R then getHeader s x XOR MARK_MASK else getHeader s x)" if "x \<in> Objs" for x
    using flips_own [OF g R that header_word] by (simp add: s'_def getHeader_def)
  have ti: "typeIndexOfHeader (getHeader s' x) = typeIndexOfHeader (getHeader s x)" if "x \<in> Objs" for x
    using hd [OF that] typeIndex_flip [of "getHeader s x"] by simp
  have ty: "typeOf s' x = typeOf s x" if "x \<in> Objs" for x
    using ti [OF that] by (simp add: typeOf_def s'_def)
  have cnt: "getHeader s' x AND COUNTER_MASK = getHeader s x AND COUNTER_MASK" if "x \<in> Objs" for x
  proof -
    have "(h XOR MARK_MASK) AND COUNTER_MASK = h AND COUNTER_MASK" for h
      by (rule bit_word_eqI) (simp only: bit_and_iff bit_xor_iff mark_bit counter_bit, auto)
    then show ?thesis using hd [OF that] by simp
  qed
  have other: "load64 (mem s') a = load64 (mem s) a" if "x \<in> Objs" "a \<in> objWords s x" "a \<noteq> getHeaderp x" for a x
    using flips_own [OF g R that(1,2)] that(3) by (simp add: s'_def)
  have sq: "getSequenceLength s' x = getSequenceLength s x" "getSequenceCounter s' x = getSequenceCounter s x"
    if "x \<in> Objs" "is_seq s x" for x
  proof -
    have ok: "object_ok s x" using g that by (auto simp: heap_graph_def)
    have "getSequenceLengthp x \<noteq> getHeaderp x" "getSequenceCounterp x \<noteq> getHeaderp x"
      using meta_apart [OF ok that(2)] by (auto simp: apart_def)
    then show "getSequenceLength s' x = getSequenceLength s x" "getSequenceCounter s' x = getSequenceCounter s x"
      using that other [OF that(1)] by (simp_all add: getSequenceLength_def getSequenceCounter_def objWords_def)
  qed
  have el: "elems s' x = elems s x" if "x \<in> Objs" for x
    using ty [OF that] sq(1) [OF that] by (simp add: elems_def split: GC_objectTypeTag.split)
  have shape: "numSlots s' x = numSlots s x" "slotAddr s' x = slotAddr s x" "extent s' x = extent s x" "metaBytes s' x = metaBytes s x"
    if "x \<in> Objs" for x
    using ty [OF that] el [OF that]
    by (simp_all add: numSlots_def slotAddr_def extent_def metaBytes_def elemSize_def fun_eq_iff Let_def)
  have fol: "follows s' = follows s" using follows_mem [of s s'] by (auto simp: s'_def only_mem_def fun_eq_iff)
  have slot: "load64 (mem s') (slotAddr s x k) = load64 (mem s) (slotAddr s x k)" if "x \<in> Objs" "k < numSlots s x" for x k
  proof -
    have "object_ok s x" using g that by (auto simp: heap_graph_def)
    then have "slotAddr s x k \<noteq> getHeaderp x" using header_slot_apart(1) [of s x k] that(2) by (auto simp: apart_def)
    then show ?thesis using that by (intro other) (auto simp: objWords_def)
  qed
  have suc: "succs s' x = succs s x" if "x \<in> Objs" for x
    using shape [OF that] slot [OF that] fol by (auto simp: succs_def)
  have ok: "object_ok s' x" if "x \<in> Objs" for x
    using g that ti [OF that] ty [OF that] cnt [OF that] sq(2) [OF that] shape [OF that]
    by (auto simp: heap_graph_def object_ok_def s'_def)
  show "heap_graph s' Objs"
    unfolding heap_graph_def using g ok suc shape fol by (auto simp: heap_graph_def s'_def)
  show "succs s' x = succs s x \<and> objSize s' x = objSize s x" if "x \<in> Objs" for x
    using suc [OF that] ty [OF that] sq(1) [OF that]
    by (simp add: objSize_def elemSize_def sizeofSequenceNoMetaData_def alignWithExtra_def s'_def split: GC_objectTypeTag.split)
qed


section \<open>Properties\<close>

lemma dfsMark_run:
  assumes "heap_graph s Objs" "rootp \<in> Objs" "\<not> isPointerMarkedByMode s rootp (mode ms)"
    and "\<not> shouldHashCons ms" "\<not> shouldLinkWeaks ms"
  defines "R \<equiv> reachIn s (unvisited s Objs (mode ms)) rootp"
  shows "\<exists>s'. dfsMark os s rootp ms = Inr (s', ms\<lparr>ms_size := wrap (ms_size ms + sizes s R)\<rparr>) \<and>
    s' = s\<lparr>mem := flips R (mem s)\<rparr> \<and>
    (\<forall>x\<in>Objs. isPointerMarkedByMode s' x (mode ms) \<longleftrightarrow> isPointerMarkedByMode s x (mode ms) \<or> x \<in> R)"
proof -
  let ?U = "unvisited s Objs (mode ms)" and ?s = "s\<lparr>mem := flips R (mem s)\<rparr>"
  have root: "rootp \<in> ?U" using assms(2,3) by (simp add: unvisited_def)
  have "isPointerInHeap s rootp" using assms(1,2) by (auto simp: heap_graph_def follows_def)
  moreover obtain size where "dfsRun (dfsFuel s) os ms (dfsStart s rootp) = Inr (?s, size)"
    and size: "wrap size = wrap (sizes s R)"
    using dfsRun_start [OF assms(1) root assms(4,5), of os] unfolding R_def by blast
  moreover have "wrap (ms_size ms + size) = wrap (ms_size ms + wrap size)" by (simp add: wrap_def mod_add_right_eq)
  then have "wrap (ms_size ms + size) = wrap (ms_size ms + sizes s R)" unfolding size by (simp add: wrap_def mod_add_right_eq)
  ultimately have run: "dfsMark os s rootp ms = Inr (?s, ms\<lparr>ms_size := wrap (ms_size ms + sizes s R)\<rparr>)"
    using assms(3) by (simp add: dfsMark_def)
  have RU: "R \<subseteq> ?U" unfolding R_def by (rule reachIn_closed [OF root]) blast
  then have inv: "dfs_inv s ms Objs (?U - R) ?s" by (rule dfs_inv_flips [OF assms(1) dfs_inv_start])
  have "isPointerMarkedByMode ?s x (mode ms) \<longleftrightarrow> isPointerMarkedByMode s x (mode ms) \<or> x \<in> R" if "x \<in> Objs" for x
    using dfs_inv_unmarked [OF inv that] unvisited_iff [of x ?s Objs ms] that by (auto simp: unvisited_def)
  with run show ?thesis by blast
qed

text \<open>
  C1: Marking from an object of a graph returns, whatever cycles the graph has, with the mark
  of exactly those objects flipped that can be reached from it through objects without the
  mark of the mode; afterwards an object has that mark if it had it before or was reached.
  Every slot, header counter and sequence counter that held the mark stack is back to what it
  was, no other byte of memory and no other field of the state has changed, and the sizes of
  the reached objects have been added up. This holds for marking and for unmarking, on graphs
  of normal objects, weak pointers and sequences, without hash-consing and linking of weaks.
\<close>

theorem dfsMark_marks:
  assumes "heap_graph s Objs" "rootp \<in> Objs" "\<not> isPointerMarkedByMode s rootp (mode ms)"
    and "\<not> shouldHashCons ms" "\<not> shouldLinkWeaks ms"
  defines "R \<equiv> reachIn s (unvisited s Objs (mode ms)) rootp"
  shows "\<exists>s'. dfsMark os s rootp ms = Inr (s', ms\<lparr>ms_size := wrap (ms_size ms + sizes s R)\<rparr>) \<and>
    s' = s\<lparr>mem := flips R (mem s)\<rparr> \<and>
    (\<forall>x\<in>Objs. isPointerMarkedByMode s' x (mode ms) \<longleftrightarrow> isPointerMarkedByMode s x (mode ms) \<or> x \<in> R)"
  using dfsMark_run [OF assms(1-5)] unfolding R_def .

text \<open>A normal object and a sequence that point to each other and the object to itself.\<close>

definition markExample :: GC_state where
  "markExample = state0\<lparr>alignment := 8,
     objectTypes := [\<lparr>tag = NORMAL_TAG, hasIdentity = False, bytesNonObjptrs = 8, numObjptrs = 2\<rparr>,
                     \<lparr>tag = SEQUENCE_TAG, hasIdentity = False, bytesNonObjptrs = 0, numObjptrs = 1\<rparr>],
     heap := GC_heap0\<lparr>heapStart := 4096, heapSize := 4096, oldGenSize := 4096\<rparr>,
     mem := store64 (store64 (store64 (store64 (store64 (store64 (store64 (store64 (\<lambda>_. 0)
       4096 1) 4112 4152) 4120 4104) 4128 0) 4136 2) 4144 3) 4152 4104) 4160 1\<rparr>"

definition like_example :: "GC_state \<Rightarrow> bool" where
  "like_example s \<longleftrightarrow>
     objectTypes s = objectTypes markExample \<and> heap s = heap markExample \<and> frontier s = 0 \<and> alignment s = 8 \<and>
     load64 (mem s) 4096 = 1 \<and> load64 (mem s) 4112 = 4152 \<and> load64 (mem s) 4120 = 4104 \<and> load64 (mem s) 4128 = 0 \<and>
     load64 (mem s) 4136 = 2 \<and> load64 (mem s) 4144 = 3 \<and> load64 (mem s) 4152 = 4104 \<and> load64 (mem s) 4160 = 1"

lemma example_facts:
  assumes "like_example s"
  shows "heap_graph s {4104, 4152}" "succs s 4104 = {4104, 4152}" "\<not> isPointerMarked s 4104" "\<not> isPointerMarked s 4152"
    "objSize s 4104 = 32" "objSize s 4152 = 40"
proof -
  note e = assms [unfolded like_example_def]
  have ti: "typeIndexOfHeader 1 = 0" "typeIndexOfHeader 3 = 1" by (simp_all add: typeIndexOfHeader_def)
  have h: "getHeader s 4104 = 1" "getHeader s 4152 = 3" using e by (simp_all add: getHeader_def getHeaderp_def)
  have t: "typeOf s 4104 = \<lparr>tag = NORMAL_TAG, hasIdentity = False, bytesNonObjptrs = 8, numObjptrs = 2\<rparr>"
    "typeOf s 4152 = \<lparr>tag = SEQUENCE_TAG, hasIdentity = False, bytesNonObjptrs = 0, numObjptrs = 1\<rparr>"
    using e by (simp_all add: typeOf_def h ti markExample_def)
  have len: "getSequenceLength s 4152 = 2" "getSequenceCounter s 4152 = 0"
    using e by (simp_all add: getSequenceLength_def getSequenceLengthp_def getSequenceCounter_def getSequenceCounterp_def)
  have el: "elems s 4104 = 1" "elems s 4152 = 2" "elemSize s 4104 = 24" "elemSize s 4152 = 8"
    by (simp_all add: elems_def elemSize_def t len)
  have ns: "numSlots s 4104 = 2" "numSlots s 4152 = 2" by (simp_all add: numSlots_def el t)
  have sl: "slotAddr s 4104 0 = 4112" "slotAddr s 4104 1 = 4120" "slotAddr s 4152 0 = 4152" "slotAddr s 4152 1 = 4160"
    by (simp_all add: slotAddr_def t el)
  have fo: "follows s 4104" "follows s 4152" "\<not> follows s 1"
    using e by (simp_all add: follows_def isPointerInHeap_def isPointerInFromSpace_def isPointerInOldGen_def
        isPointer_iff markExample_def zero_defs)
  have two: "(\<exists>k<2. P k) \<longleftrightarrow> P 0 \<or> P (1 :: nat)" for P by (auto simp: less_2_cases_iff)
  have su: "succs s 4104 = {4104, 4152}" "succs s 4152 = {4104}"
    using e fo by (auto simp: succs_def ns two sl sl [unfolded One_nat_def])
  have ex: "extent s 4104 = {4096..<4128}" "extent s 4152 = {4128..<4168}"
    by (simp_all add: extent_def metaBytes_def t el)
  show "heap_graph s {4104, 4152}"
    using e fo su by (auto simp: heap_graph_def object_ok_def h ti t len metaBytes_def ex markExample_def zero_defs)
  show "succs s 4104 = {4104, 4152}" by (rule su)
  show "\<not> isPointerMarked s 4104" "\<not> isPointerMarked s 4152" by (simp_all add: isPointerMarked_def h)
  show "objSize s 4104 = 32" by (simp add: objSize_def t el)
  have "alignWithExtra s 16 24 = 16" using e by (simp add: alignWithExtra_def align_def wrap_sub_def)
  then show "objSize s 4152 = 40" using e by (simp add: objSize_def t len sizeofSequenceNoMetaData_def)
qed

lemma example_reach:
  assumes "like_example s" shows "reachIn s {4104, 4152} 4104 = {4104, 4152}"
proof
  show "reachIn s {4104, 4152} 4104 \<subseteq> {4104, 4152}" by (rule reachIn_closed) auto
  show "{4104, 4152} \<subseteq> reachIn s {4104, 4152} 4104"
    using example_facts(2) [OF assms] reachIn_edge [of 4104 "{4104, 4152}" 4152 s] reachIn_self [of 4152 s] by auto
qed

lemma example_like: "like_example markExample"
  by (simp add: like_example_def markExample_def load64_store64_disjoint zero_defs)

lemma example_sizes: "like_example s \<Longrightarrow> sizes s {4104, 4152} = 72"
  by (simp add: sizes_def example_facts)

theorem dfsMark_marks_witness:
  "\<forall>os. \<exists>s'. dfsMark os markExample 4104 (marking MARK_MODE False) = Inr (s', (marking MARK_MODE False)\<lparr>ms_size := 72\<rparr>) \<and>
     isPointerMarked s' 4104 \<and> isPointerMarked s' 4152"
proof -
  note f = example_facts [OF example_like]
  have U: "unvisited markExample {4104, 4152} MARK_MODE = {4104, 4152}"
    using f(3,4) by (auto simp: unvisited_def isPointerMarkedByMode_def)
  show ?thesis
    using dfsMark_marks [OF f(1), of 4104 "marking MARK_MODE False"] f(3)
    by (auto simp: marking_def isPointerMarkedByMode_def U example_reach [OF example_like] example_sizes [OF example_like])
qed



end
