(* ===== verification/Signals.thy ===== *)
theory Signals
  imports GarbageCollection
begin

text \<open>
  Signals of the operating system (\<open>handler.c\<close>, \<open>atomic.c\<close>, \<open>basis/Posix/Signal.c\<close>): a state
  machine of the mutator, the runtime and the handler the system calls at any moment, also
  between the two actions of entering and of leaving a critical section. \<open>sigaction\<close> is a
  parameter, from a signal and what is to be done with it to the value it returns.
\<close>

section \<open>What is done with a signal\<close>

datatype sigHandler = SIG_DFL | SIG_IGN | SIG_GC_handler

definition Posix_Signal_default :: "(nat \<Rightarrow> sigHandler \<Rightarrow> int) \<Rightarrow> GC_state \<Rightarrow> nat \<Rightarrow> GC_state \<times> int" where
  "Posix_Signal_default sigaction s signum =
     (signals_upd (\<lambda>i. i\<lparr>signalsHandled := signalsHandled i - {signum}\<rparr>) s, sigaction signum SIG_DFL)"

definition Posix_Signal_ignore :: "(nat \<Rightarrow> sigHandler \<Rightarrow> int) \<Rightarrow> GC_state \<Rightarrow> nat \<Rightarrow> GC_state \<times> int" where
  "Posix_Signal_ignore sigaction s signum =
     (signals_upd (\<lambda>i. i\<lparr>signalsHandled := signalsHandled i - {signum}\<rparr>) s, sigaction signum SIG_IGN)"

definition Posix_Signal_handlee :: "(nat \<Rightarrow> sigHandler \<Rightarrow> int) \<Rightarrow> GC_state \<Rightarrow> nat \<Rightarrow> GC_state \<times> int" where
  "Posix_Signal_handlee sigaction s signum =
     (signals_upd (\<lambda>i. i\<lparr>signalsHandled := insert signum (signalsHandled i)\<rparr>) s, sigaction signum SIG_GC_handler)"

definition Posix_Signal_handleGC :: "GC_state \<Rightarrow> GC_state" where
  "Posix_Signal_handleGC s = signals_upd (\<lambda>i. i\<lparr>gcSignalHandled := True\<rparr>) s"

definition Posix_Signal_isPending :: "GC_state \<Rightarrow> nat \<Rightarrow> bool" where
  "Posix_Signal_isPending s signum \<longleftrightarrow> signum \<in> signalsPending (signalsInfo s)"

definition Posix_Signal_isPendingGC :: "GC_state \<Rightarrow> bool" where
  "Posix_Signal_isPendingGC s \<longleftrightarrow> gcSignalPending (signalsInfo s)"

definition Posix_Signal_resetPending :: "GC_state \<Rightarrow> GC_state" where
  "Posix_Signal_resetPending s =
     signals_upd (\<lambda>i. i\<lparr>gcSignalPending := False\<rparr>) (signals_upd (\<lambda>i. i\<lparr>signalsPending := {}\<rparr>) s)"

section \<open>The two actions of a critical section\<close>

definition beginCount :: "GC_state \<Rightarrow> GC_state" where
  "beginCount s = s\<lparr>atomicState := atomicState s + 1\<rparr>"

definition beginLimit :: "GC_state \<Rightarrow> GC_state" where
  "beginLimit s = (if 0 = limit s then s\<lparr>limit := wrap_sub (limitPlusSlop s) GC_HEAP_LIMIT_SLOP\<rparr> else s)"

definition endCount :: "GC_state \<Rightarrow> GC_state" where
  "endCount s = s\<lparr>atomicState := atomicState s - 1\<rparr>"

definition endLimit :: "GC_state \<Rightarrow> GC_state" where
  "endLimit s = (if 0 = atomicState s \<and> signalIsPending (signalsInfo s) then s\<lparr>limit := 0\<rparr> else s)"

lemma beginAtomic_actions: "beginAtomic s = beginLimit (beginCount s)"
  by (simp add: beginAtomic_def beginLimit_def beginCount_def Let_def)

lemma endAtomic_actions: "endAtomic s = endLimit (endCount s)"
  by (simp add: endAtomic_def endLimit_def endCount_def Let_def)

section \<open>The machine\<close>

datatype sigPoint = Running | InBegin | InEnd

text \<open>Where the handler thread of the program is: not running, started, or behind the reset of the pending signals.\<close>

datatype sigPhase = NoHandler | Started | HasReset

type_synonym sigConfig = "sigPoint \<times> sigPhase \<times> GC_state"

text \<open>
  \<open>signal\<close> is the handler of the system, which the others do not exclude; \<open>collect\<close> is the part of a
  collection that gives the mutator a heap, \<open>run\<close> any change of memory and frontier.
\<close>

inductive sig_step :: "sigConfig \<Rightarrow> sigConfig \<Rightarrow> bool" where
  signal: "n \<in> signalsHandled (signalsInfo s) \<Longrightarrow> sig_step (pc, ph, s) (pc, ph, GC_handler n s)"
| beginning: "atomicState s \<noteq> - 1 \<Longrightarrow> sig_step (Running, ph, s) (InBegin, ph, beginCount s)"
| begun: "sig_step (InBegin, ph, s) (Running, ph, beginLimit s)"
| ending: "atomicState s \<noteq> 0 \<Longrightarrow> sig_step (Running, ph, s) (InEnd, ph, endCount s)"
| ended: "sig_step (InEnd, ph, s) (Running, ph, endLimit s)"
| start: "atomicState s = 1 \<Longrightarrow> signalIsPending (signalsInfo s) \<Longrightarrow>
    sig_step (Running, ph, s) (Running, Started, switchToSignalHandlerThreadIfNonAtomicAndSignalPending s)"
| reset: "sig_step (Running, Started, s) (Running, HasReset, Posix_Signal_resetPending s)"
| finish: "atomicState s = 1 \<Longrightarrow> sig_step (Running, HasReset, s) (Running, NoHandler, GC_finishSignalHandler s)"
| collect: "atomicState s \<noteq> 0 \<Longrightarrow> setGCStateCurrentHeap s o' n = Inr s' \<Longrightarrow>
    GC_HEAP_LIMIT_SLOP < heapStart (heap s) + heapSize (heap s) \<Longrightarrow> heapStart (heap s) + heapSize (heap s) < 2 ^ 64 \<Longrightarrow>
    sig_step (Running, ph, s) (Running, ph, s')"
| run: "sig_step (Running, ph, s) (Running, ph, s\<lparr>mem := m, frontier := f\<rparr>)"

inductive_cases sig_stepE: "sig_step c c'"
inductive_simps sig_step_InBegin: "sig_step (InBegin, ph, s) c'"

inductive sig_reach :: "sigConfig \<Rightarrow> sigConfig \<Rightarrow> bool" where
  none: "sig_reach c c"
| more: "sig_step c c' \<Longrightarrow> sig_reach c' c'' \<Longrightarrow> sig_reach c c''"

section \<open>The invariant\<close>

definition limit_zero_ok :: "sigPoint \<Rightarrow> GC_state \<Rightarrow> bool" where
  "limit_zero_ok pc s \<longleftrightarrow>
     (case pc of
        Running \<Rightarrow> limit s = 0 \<longleftrightarrow> atomicState s = 0 \<and> signalIsPending (signalsInfo s)
      | InBegin \<Rightarrow> atomicState s \<noteq> 0
      | InEnd \<Rightarrow> limit s = 0 \<longrightarrow> atomicState s = 0 \<and> signalIsPending (signalsInfo s))"

definition sig_inv :: "sigConfig \<Rightarrow> bool" where
  "sig_inv c \<longleftrightarrow>
     (case c of (pc, ph, s) \<Rightarrow>
        GC_HEAP_LIMIT_SLOP < limitPlusSlop s \<and> limitPlusSlop s < 2 ^ 64 \<and> limit_zero_ok pc s \<and>
        (amInSignalHandler (signalsInfo s) \<longleftrightarrow> ph \<noteq> NoHandler) \<and>
        (signalsPending (signalsInfo s) \<noteq> {} \<longrightarrow> signalIsPending (signalsInfo s) \<or> ph = Started))"

lemma switch_fields:
  assumes "atomicState s = 1" "signalIsPending (signalsInfo s)"
  defines "s' \<equiv> switchToSignalHandlerThreadIfNonAtomicAndSignalPending s"
  shows "limit s' = limit s" "limitPlusSlop s' = limitPlusSlop s" "atomicState s' = 2"
    "signalsInfo s' = (signalsInfo s)\<lparr>signalIsPending := False, amInSignalHandler := True\<rparr>"
  using assms(1,2)
  by (simp_all add: s'_def switchToSignalHandlerThreadIfNonAtomicAndSignalPending_def GC_startSignalHandler_def
      switchToThread_def setGCStateCurrentThreadAndStack_def markCard_def Let_def signals_upd_def
      set_savedThread_def set_currentThread_def write64_def)


lemma collect_fields:
  assumes "setGCStateCurrentHeap s o' n = Inr s'"
  shows "limitPlusSlop s' = heapStart (heap s) + heapSize (heap s)"
    "limit s' = wrap_sub (limitPlusSlop s') GC_HEAP_LIMIT_SLOP"
    "atomicState s' = atomicState s" "signalsInfo s' = signalsInfo s"
  using assms
  by (auto simp: setGCStateCurrentHeap_def Let_def clearCardMap_def upd_defs split: if_splits)

lemma slop_limit: "GC_HEAP_LIMIT_SLOP < l \<Longrightarrow> l < 2 ^ 64 \<Longrightarrow> wrap_sub l GC_HEAP_LIMIT_SLOP \<noteq> 0"
  by (simp add: wrap_sub_eq)

lemma sig_step_inv: "sig_step c c' \<Longrightarrow> sig_inv c \<Longrightarrow> sig_inv c'"
proof (induction rule: sig_step.induct)
  case (signal n s pc ph)
  then show ?case
    by (cases pc) (auto simp: sig_inv_def limit_zero_ok_def GC_handler_def Let_def signals_upd_def)
next
  case (beginning s ph)
  then have "atomicState s + 1 \<noteq> 0" by (metis add_eq_0_iff2)
  with beginning show ?case by (auto simp: sig_inv_def limit_zero_ok_def beginCount_def)
next
  case (begun ph s)
  then show ?case using slop_limit [of "limitPlusSlop s"]
    by (auto simp: sig_inv_def limit_zero_ok_def beginLimit_def)
next
  case (ending s ph)
  then show ?case by (auto simp: sig_inv_def limit_zero_ok_def endCount_def)
next
  case (ended ph s)
  then show ?case by (auto simp: sig_inv_def limit_zero_ok_def endLimit_def)
next
  case (start s ph)
  then show ?case using switch_fields [OF start(1,2)] by (auto simp: sig_inv_def limit_zero_ok_def)
next
  case (reset s)
  then show ?case
    by (auto simp: sig_inv_def limit_zero_ok_def Posix_Signal_resetPending_def signals_upd_def)
next
  case (finish s)
  then show ?case by (auto simp: sig_inv_def limit_zero_ok_def GC_finishSignalHandler_def signals_upd_def)
next
  case (collect s o' n s' ph)
  then show ?case using collect_fields [OF collect(2)] slop_limit [of "limitPlusSlop s'"]
    by (auto simp: sig_inv_def limit_zero_ok_def)
next
  case (run ph s m f)
  then show ?case by (auto simp: sig_inv_def limit_zero_ok_def)
qed

lemma sig_reach_inv: "sig_reach c c' \<Longrightarrow> sig_inv c \<Longrightarrow> sig_inv c'"
  by (induction rule: sig_reach.induct) (auto intro: sig_step_inv)

text \<open>A state in which the program starts: no signal has come, and the limit is that of the heap.\<close>

definition sig_start :: "GC_state \<Rightarrow> bool" where
  "sig_start s \<longleftrightarrow>
     GC_HEAP_LIMIT_SLOP < limitPlusSlop s \<and> limitPlusSlop s < 2 ^ 64 \<and> limit s = limitPlusSlop s - GC_HEAP_LIMIT_SLOP \<and>
     \<not> signalIsPending (signalsInfo s) \<and> \<not> amInSignalHandler (signalsInfo s) \<and> signalsPending (signalsInfo s) = {}"


text \<open>A signal between the two actions of leaving a critical section.\<close>

definition sigExample :: GC_state where
  "sigExample = state0\<lparr>limitPlusSlop := 8192, limit := 7680, atomicState := 1,
     signalsInfo := (signalsInfo state0)\<lparr>signalsHandled := {2}\<rparr>\<rparr>"


end
