(* ===== verification/Threading.thy ===== *)
theory Threading
  imports MarkCompact
begin

text \<open>
  The threads of the mark-compact collector (\<open>mark-compact.c\<close>): threading slots and fixing
  objects as changes of memory, for any number of objects whose threads are interleaved.
  Slots and headers are words that do not overlap; the laws of such words (in
  \<open>Memory\<close>) carry the proofs.
\<close>


section \<open>Threads\<close>

text \<open>What threading a slot of an object does to memory.\<close>

definition threadMem :: "mem \<Rightarrow> pointer \<times> pointer \<Rightarrow> mem" where
  "threadMem m x = (case x of (slot, hp) \<Rightarrow> store64 (store64 m slot (load64 m hp)) hp (word_of_nat slot))"

lemma threadMem_load: "apart a o' \<Longrightarrow> apart a hp \<Longrightarrow> load64 (threadMem m (o', hp)) a = load64 m a"
  by (simp add: threadMem_def apart_load)

lemma threadMem_store:
  "apart a o' \<Longrightarrow> apart a hp \<Longrightarrow> threadMem (store64 m a v) (o', hp) = store64 (threadMem m (o', hp)) a v"
  by (simp add: threadMem_def apart_store [of a] apart_load [OF apart_sym])

lemma threadMem_commute:
  assumes "apart a c" "apart a d" "apart b c" "apart b d"
  shows "threadMem (threadMem m (a, b)) (c, d) = threadMem (threadMem m (c, d)) (a, b)"
proof -
  have "threadMem (threadMem m (a, b)) (c, d) = store64 (store64 (threadMem m (c, d)) a (load64 m b)) b (word_of_nat a)"
    unfolding threadMem_def [of m "(a, b)"] using assms by (simp add: threadMem_store)
  also have "\<dots> = threadMem (threadMem m (c, d)) (a, b)"
    unfolding threadMem_def [of _ "(a, b)"] using assms by (simp add: threadMem_load)
  finally show ?thesis .
qed

text \<open>Threading a slot and giving it a new pointer at once.\<close>

lemma unthread:
  assumes "apart slot hp"
  shows "store64 (store64 (threadMem m (slot, hp)) hp (load64 m hp)) slot v = store64 m slot v"
proof -
  have "store64 (store64 (threadMem m (slot, hp)) hp (load64 m hp)) slot v
    = store64 (store64 (store64 m slot (load64 m hp)) slot v) hp (load64 m hp)"
    using assms by (simp add: threadMem_def store64_same apart_store [of slot hp])
  also have "\<dots> = store64 (store64 m hp (load64 m hp)) slot v"
    using assms by (simp add: apart_store [of slot hp] store64_same)
  also have "\<dots> = store64 m slot v" by (simp add: store64_load)
  finally show ?thesis .
qed


section \<open>Threads of several objects\<close>

text \<open>Slots with the objects they point to, threaded in the order of the list.\<close>

definition threadAll :: "(pointer \<times> pointer) list \<Rightarrow> mem \<Rightarrow> mem" where
  "threadAll = fold (\<lambda>(slot, p) m. threadMem m (slot, getHeaderp p))"

lemma threadAll_simps [simp]:
  "threadAll [] m = m"
  "threadAll ((slot, p) # xs) m = threadAll xs (threadMem m (slot, getHeaderp p))"
  "threadAll (xs @ ys) m = threadAll ys (threadAll xs m)"
  by (simp_all add: threadAll_def)

definition separate :: "(pointer \<times> pointer) set \<Rightarrow> bool" where
  "separate X \<longleftrightarrow> (\<forall>(a, p)\<in>X. \<forall>(b, q)\<in>X.
     (a \<noteq> b \<longrightarrow> apart a b) \<and> apart a (getHeaderp q) \<and> (p \<noteq> q \<longrightarrow> apart (getHeaderp p) (getHeaderp q)))"

lemma separateD:
  assumes "separate X" "(a, p) \<in> X" "(b, q) \<in> X"
  shows "a \<noteq> b \<Longrightarrow> apart a b" "apart a (getHeaderp q)" "p \<noteq> q \<Longrightarrow> apart (getHeaderp p) (getHeaderp q)"
  using assms by (auto simp: separate_def)

lemma separate_subset: "separate X \<Longrightarrow> Y \<subseteq> X \<Longrightarrow> separate Y"
  unfolding separate_def by (intro ballI) (blast dest: bspec)

text \<open>A word that is none of the slots and headers of a list.\<close>

definition away :: "pointer \<Rightarrow> (pointer \<times> pointer) list \<Rightarrow> bool" where
  "away a xs \<longleftrightarrow> (\<forall>x\<in>set xs. apart a (fst x) \<and> apart a (getHeaderp (snd x)))"

lemma away_simps [simp]:
  "away a []" "away a ((b, q) # xs) \<longleftrightarrow> apart a b \<and> apart a (getHeaderp q) \<and> away a xs"
  by (auto simp: away_def)

lemma threadAll_load: "away a xs \<Longrightarrow> load64 (threadAll xs m) a = load64 m a"
  by (induction xs arbitrary: m) (auto simp: threadMem_load)

lemma threadAll_store: "away a xs \<Longrightarrow> threadAll xs (store64 m a v) = store64 (threadAll xs m) a v"
  by (induction xs arbitrary: m) (auto simp: threadMem_store)

lemma threadAll_commute:
  "away a xs \<Longrightarrow> away b xs \<Longrightarrow> threadAll xs (threadMem m (a, b)) = threadMem (threadAll xs m) (a, b)"
  by (induction xs arbitrary: m) (auto simp: threadMem_commute [of a _ _ b])

lemma separate_away:
  assumes "separate X" "(a, q) \<in> X" "set ys \<subseteq> X"
  shows "a \<notin> fst ` set ys \<Longrightarrow> away a ys" "q \<notin> snd ` set ys \<Longrightarrow> away (getHeaderp q) ys"
proof -
  have x: "x \<in> X" "fst x \<in> fst ` set ys" "snd x \<in> snd ` set ys" if "x \<in> set ys" for x
    using that assms(3) by auto
  show "away a ys" if "a \<notin> fst ` set ys"
    unfolding away_def
  proof
    fix x assume "x \<in> set ys"
    with x [OF this] that separateD [OF assms(1,2), of "fst x" "snd x"]
    show "apart a (fst x) \<and> apart a (getHeaderp (snd x))" by auto
  qed
  show "away (getHeaderp q) ys" if "q \<notin> snd ` set ys"
    unfolding away_def
  proof
    fix x assume "x \<in> set ys"
    with x [OF this] that separateD [OF assms(1,2), of "fst x" "snd x"] separateD [OF assms(1) _ assms(2), of "fst x" "snd x"]
    show "apart (getHeaderp q) (fst x) \<and> apart (getHeaderp q) (getHeaderp (snd x))" by (auto intro: apart_sym)
  qed
qed

lemma threadAll_partition:
  assumes "separate (set xs)" "distinct (map fst xs)"
  shows "threadAll xs m = threadAll [x \<leftarrow> xs. snd x = p] (threadAll [x \<leftarrow> xs. snd x \<noteq> p] m)"
  using assms
proof (induction xs rule: rev_induct)
  case (snoc x xs)
  obtain a q where x: "x = (a, q)" by (cases x)
  have IH: "threadAll xs m = threadAll [x \<leftarrow> xs. snd x = p] (threadAll [x \<leftarrow> xs. snd x \<noteq> p] m)"
    using snoc(1) separate_subset [OF snoc(2)] snoc(3) by auto
  show ?case
  proof (cases "q = p")
    case False
    have "a \<notin> fst ` set xs" using snoc(3) x by simp
    moreover have "(a, q) \<in> set (xs @ [x])" "set [x \<leftarrow> xs. snd x = p] \<subseteq> set (xs @ [x])" using x by auto
    ultimately have "away a [x \<leftarrow> xs. snd x = p]" "away (getHeaderp q) [x \<leftarrow> xs. snd x = p]"
      using separate_away [OF snoc(2)] False by (auto simp: image_iff)
    from threadAll_commute [OF this] show ?thesis
      using False by (simp add: x IH)
  qed (simp add: x IH)
qed simp


section \<open>The end of a thread\<close>

definition slotsOf :: "pointer \<Rightarrow> (pointer \<times> pointer) list \<Rightarrow> pointer list" where
  "slotsOf p xs = map fst [x \<leftarrow> xs. snd x = p]"

text \<open>Slots are even addresses, which no header is: it has its lowest bit set.\<close>

definition slot_ok :: "pointer \<Rightarrow> bool" where
  "slot_ok a \<longleftrightarrow> even a \<and> a < 2 ^ 64"

lemma slot_ok_word:
  assumes "slot_ok a" shows "unat (word_of_nat a :: 64 word) = a" "GC_VALID_HEADER_MASK AND (word_of_nat a :: 64 word) = 0"
proof -
  show "unat (word_of_nat a :: 64 word) = a" using assms by (intro unat_of_nat_small) (simp add: slot_ok_def)
  obtain k where "a = 2 * k" using assms by (auto simp: slot_ok_def)
  then have "(word_of_nat a :: 64 word) = 2 * word_of_nat k" by simp
  then show "GC_VALID_HEADER_MASK AND (word_of_nat a :: 64 word) = 0"
    by (simp add: one_and_eq odd_iff_mod_2_eq_one flip: even_iff_mod_2_eq_zero)
qed

lemma fixPointersLoop_thread:
  fixes hp slot :: pointer
  assumes "slot_ok slot" "apart slot hp"
  shows "fixPointersLoop (Suc n) hp v (s\<lparr>mem := threadMem m (slot, hp)\<rparr>) =
    (if GC_VALID_HEADER_MASK AND load64 m hp = 0 then fixPointersLoop n hp v (s\<lparr>mem := store64 m slot v\<rparr>)
     else Inr (s\<lparr>mem := store64 m slot v\<rparr>))"
proof -
  let ?m = "threadMem m (slot, hp)"
  have "load64 ?m hp = word_of_nat slot" by (simp add: threadMem_def)
  moreover have "load64 ?m slot = load64 m hp"
    using assms(2) by (simp add: threadMem_def apart_load)
  ultimately show ?thesis
    using unthread [OF assms(2), of m v] slot_ok_word(1) [OF assms(1)] apart_load [OF apart_sym [OF assms(2)], of m v]
    by (simp add: Let_def copyForThreadInternal_def write64_def)
qed

lemma fix_thread:
  assumes "slots \<noteq> []" "length slots \<le> n" "separate ((\<lambda>a. (a, p)) ` set slots)" "distinct slots"
    "\<forall>a\<in>set slots. slot_ok a" "GC_VALID_HEADER_MASK AND load64 m (getHeaderp p) \<noteq> 0"
  shows "fixPointersLoop n (getHeaderp p) v (s\<lparr>mem := threadAll (map (\<lambda>a. (a, p)) slots) m\<rparr>)
    = Inr (s\<lparr>mem := storeAll slots v m\<rparr>)"
  using assms
proof (induction slots arbitrary: n m rule: rev_induct)
  case (snoc a as)
  let ?hp = "getHeaderp p" and ?M = "threadAll (map (\<lambda>a. (a, p)) as) m"
  obtain k where n: "n = Suc k" "length as \<le> k" using snoc(3) by (cases n) simp_all
  have sep: "separate ((\<lambda>a. (a, p)) ` set as)" by (rule separate_subset [OF snoc(4)]) auto
  have a: "apart a ?hp" "slot_ok a" using separateD(2) [OF snoc(4), of a p a p] snoc(6) by auto
  have away: "away a (map (\<lambda>a. (a, p)) as)"
    by (rule separate_away(1) [OF snoc(4), of a p]) (use snoc(5) in auto)
  have ap: "\<forall>b\<in>set as. apart a b" using away by (simp add: away_def)
  have step: "fixPointersLoop n ?hp v (s\<lparr>mem := threadAll (map (\<lambda>a. (a, p)) (as @ [a])) m\<rparr>) =
    (if GC_VALID_HEADER_MASK AND load64 ?M ?hp = 0
     then fixPointersLoop k ?hp v (s\<lparr>mem := threadAll (map (\<lambda>a. (a, p)) as) (store64 m a v)\<rparr>)
     else Inr (s\<lparr>mem := store64 ?M a v\<rparr>))"
    unfolding n using fixPointersLoop_thread [OF a(2) a(1), where n = k and v = v and s = s and m = ?M] by (simp add: threadAll_store [OF away])
  show ?case
  proof (cases as rule: rev_cases)
    case Nil
    then show ?thesis using step snoc(7) by simp
  next
    case (snoc bs b)
    then have "load64 ?M ?hp = word_of_nat b" by (simp add: threadMem_def)
    moreover have "slot_ok b" using snoc.prems snoc by simp
    ultimately have "GC_VALID_HEADER_MASK AND load64 ?M ?hp = 0" using slot_ok_word(2) by simp
    moreover have "GC_VALID_HEADER_MASK AND load64 (store64 m a v) ?hp \<noteq> 0"
      using \<open>GC_VALID_HEADER_MASK AND load64 m ?hp \<noteq> 0\<close> apart_load [OF apart_sym [OF a(1)]] by simp
    ultimately show ?thesis
      using step snoc.IH [OF _ n(2) sep, of "store64 m a v"] storeAll_store [OF ap] snoc.prems snoc by simp
  qed
qed simp


section \<open>Threading in the collector\<close>

text \<open>Slots and the objects they point to, in a state that threads nothing yet.\<close>

definition threadable :: "GC_state \<Rightarrow> (pointer \<times> pointer) list \<Rightarrow> bool" where
  "threadable s xs \<longleftrightarrow>
     separate (set xs) \<and> distinct (map fst xs) \<and>
     (\<forall>(a, p)\<in>set xs. slot_ok a \<and> p < 2 ^ 64 \<and> isPointerInHeap s p \<and> load64 (mem s) a = word_of_nat p)"

lemma isPointerInHeap_mem [simp]: "isPointerInHeap (s\<lparr>mem := m\<rparr>) p = isPointerInHeap s p"
  by (simp add: isPointerInHeap_def isPointerInFromSpace_def isPointerInOldGen_def isPointerInNursery_def)

lemma foldE_thread:
  assumes "threadable s xs"
  shows "foldE threadInternalObjptr (map fst xs) (s, ()) = Inr (s\<lparr>mem := threadAll xs (mem s)\<rparr>, ())"
  using assms
proof (induction xs arbitrary: s)
  case (Cons x xs)
  obtain a p where x: "x = (a, p)" by (cases x)
  have a: "p < 2 ^ 64" "isPointerInHeap s p" "load64 (mem s) a = word_of_nat p"
    using Cons(2) by (auto simp: threadable_def x)
  have "unat (word_of_nat p :: 64 word) = p" using a(1) by (intro unat_of_nat_small) simp
  then have step: "threadInternalObjptr (s, ()) a = Inr (s\<lparr>mem := threadMem (mem s) (a, getHeaderp p)\<rparr>, ())"
    using a by (simp add: threadInternalObjptr_def Let_def copyForThreadInternal_def write64_def threadMem_def)
  have sep: "separate (set (x # xs))" and d: "distinct (map fst (x # xs))" using Cons(2) by (auto simp: threadable_def)
  have "load64 (threadMem (mem s) (a, getHeaderp p)) b = load64 (mem s) b" if "(b, q) \<in> set xs" for b q
  proof (rule threadMem_load)
    show "apart b a" "apart b (getHeaderp p)"
      using separateD [OF sep, of b q a p] that d by (force simp: x)+
  qed
  then have "threadable (s\<lparr>mem := threadMem (mem s) (a, getHeaderp p)\<rparr>) xs"
    using Cons(2) separate_subset [OF sep, of "set xs"] by (auto simp: threadable_def)
  from Cons(1) [OF this] show ?case by (simp add: step x)
qed simp

lemma slotsOf_map: "map (\<lambda>a. (a, p)) (slotsOf p xs) = [x \<leftarrow> xs. snd x = p]"
  by (induction xs) (auto simp: slotsOf_def)

lemma slot_count:
  assumes "distinct slots" "\<forall>a\<in>set slots. slot_ok a" shows "length slots \<le> 2 ^ 64"
proof -
  have "card (set slots) \<le> card {..<2 ^ 64 :: nat}"
    using assms(2) by (intro card_mono) (auto simp: slot_ok_def)
  then show ?thesis by (simp add: distinct_card [OF assms(1)] del: card_lessThan) (simp add: card_lessThan)
qed

lemma slotsOf_set: "a \<in> set (slotsOf p xs) \<longleftrightarrow> (a, p) \<in> set xs"
  by (auto simp: slotsOf_def image_iff)

lemma slotsOf_facts:
  assumes "threadable s xs"
  shows "separate ((\<lambda>a. (a, p)) ` set (slotsOf p xs))" "distinct (slotsOf p xs)" "\<forall>a\<in>set (slotsOf p xs). slot_ok a"
proof -
  show "separate ((\<lambda>a. (a, p)) ` set (slotsOf p xs))"
    by (rule separate_subset [of "set xs"]) (use assms in \<open>auto simp: threadable_def slotsOf_set\<close>)
  show "distinct (slotsOf p xs)" using assms by (simp add: threadable_def slotsOf_def distinct_map_filter)
  show "\<forall>a\<in>set (slotsOf p xs). slot_ok a" using assms by (auto simp: threadable_def slotsOf_set)
qed

lemma rest_away:
  assumes "threadable s xs" shows "\<forall>a\<in>set (slotsOf p xs). away a [x \<leftarrow> xs. snd x \<noteq> p]"
proof
  fix a assume "a \<in> set (slotsOf p xs)"
  then have a: "(a, p) \<in> set xs" by (simp add: slotsOf_set)
  have sep: "separate (set xs)" and d: "distinct (map fst xs)" using assms by (auto simp: threadable_def)
  have "a \<notin> fst ` set [x \<leftarrow> xs. snd x \<noteq> p]"
    using a d by (auto dest: eq_key_imp_eq_value)
  then show "away a [x \<leftarrow> xs. snd x \<noteq> p]" by (rule separate_away(1) [OF sep a, rotated]) auto
qed

lemma rest_header:
  assumes "threadable s xs" "slotsOf p xs \<noteq> []"
  shows "load64 (threadAll [x \<leftarrow> xs. snd x \<noteq> p] m) (getHeaderp p) = load64 m (getHeaderp p)"
proof -
  obtain a where "(a, p) \<in> set xs" using assms(2) slotsOf_set [of _ p xs] by (metis last_in_set)
  moreover have "separate (set xs)" using assms by (simp add: threadable_def)
  ultimately show ?thesis by (intro threadAll_load separate_away(2) [of "set xs" a p]) auto
qed

lemma threadAll_storeAll:
  "\<forall>a\<in>set as. away a xs \<Longrightarrow> threadAll xs (storeAll as v m) = storeAll as v (threadAll xs m)"
  by (induction as arbitrary: m) (auto simp: threadAll_store)

lemma threadable_rest:
  assumes "threadable s xs"
  shows "threadable (s\<lparr>mem := storeAll (slotsOf p xs) v (mem s)\<rparr>) [x \<leftarrow> xs. snd x \<noteq> p]"
proof -
  have "load64 (storeAll (slotsOf p xs) v (mem s)) b = load64 (mem s) b" if "(b, q) \<in> set xs" "q \<noteq> p" for b q
    using rest_away [OF assms, of p] that by (intro storeAll_load) (fastforce simp: away_def intro: apart_sym)
  then show ?thesis
    using assms separate_subset [of "set xs" "set [x \<leftarrow> xs. snd x \<noteq> p]"]
    by (auto simp: threadable_def distinct_map_filter)
qed

lemma thread_header:
  assumes "threadable s xs" "slotsOf p xs \<noteq> []"
  shows "GC_VALID_HEADER_MASK AND load64 (threadAll [x \<leftarrow> xs. snd x = p] m) (getHeaderp p) = 0"
proof -
  obtain as a where as: "slotsOf p xs = as @ [a]" using assms(2) by (cases "slotsOf p xs" rule: rev_cases) auto
  then have "slot_ok a" using slotsOf_facts(3) [OF assms(1), of p] by simp
  then show ?thesis unfolding slotsOf_map [symmetric] as by (simp add: threadMem_def slot_ok_word)
qed

text \<open>
  C5: Threading loses nothing and needs no memory of its own. After slots that point to any
  number of objects are threaded in any order, the header of an object with a slot is no
  valid header any more, and fixing the object gives its header back, puts the new pointer
  in every slot that pointed to it, and leaves exactly the threads of the other objects, as
  though the slots of this one had never been threaded.
\<close>

theorem thread_then_fix:
  assumes "threadable s xs" and slots: "slotsOf p xs \<noteq> []"
    and valid: "GC_VALID_HEADER_MASK AND getHeader s p \<noteq> 0"
  shows "\<exists>s' s''. foldE threadInternalObjptr (map fst xs) (s, ()) = Inr (s', ()) \<and>
    GC_VALID_HEADER_MASK AND getHeader s' p = 0 \<and>
    fixPointers (getHeaderp p) newObjptr s' = Inr s'' \<and>
    foldE threadInternalObjptr (map fst [x \<leftarrow> xs. snd x \<noteq> p])
      (s\<lparr>mem := fold (\<lambda>slot m. store64 m slot newObjptr) (slotsOf p xs) (mem s)\<rparr>, ()) = Inr (s'', ())"
proof -
  let ?same = "[x \<leftarrow> xs. snd x = p]" and ?rest = "[x \<leftarrow> xs. snd x \<noteq> p]" and ?slots = "slotsOf p xs" and ?hp = "getHeaderp p"
  let ?M = "threadAll ?rest (mem s)"
  have sep: "separate (set xs)" and d: "distinct (map fst xs)" using assms(1) by (auto simp: threadable_def)
  have run: "foldE threadInternalObjptr (map fst xs) (s, ()) = Inr (s\<lparr>mem := threadAll ?same ?M\<rparr>, ())"
    unfolding foldE_thread [OF assms(1)] threadAll_partition [OF sep d, of _ p] by (rule refl)
  have fixed: "fixPointers ?hp newObjptr (s\<lparr>mem := threadAll ?same ?M\<rparr>) = Inr (s\<lparr>mem := storeAll ?slots newObjptr ?M\<rparr>)"
    unfolding fixPointers_def slotsOf_map [symmetric]
    using slotsOf_facts [OF assms(1)] slots valid rest_header [OF assms(1) slots]
    by (intro fix_thread slot_count) (simp_all add: getHeader_def)
  show ?thesis
    using run fixed foldE_thread [OF threadable_rest [OF assms(1)]] threadAll_storeAll [OF rest_away [OF assms(1)]]
      thread_header [OF assms(1) slots] by (simp add: storeAll_def getHeader_def)
qed


text \<open>Two slots of one object and one of another, threaded in turns.\<close>

definition threadExample :: GC_state where
  "threadExample = state0\<lparr>heap := GC_heap0\<lparr>heapStart := 4096, heapSize := 4096, oldGenSize := 4096\<rparr>,
     mem := store64 (store64 (store64 (store64 (store64 (\<lambda>_. 0) 4104 4136) 4120 4152) 4112 4136) 4128 1) 4144 1\<rparr>"

theorem thread_then_fix_witness:
  "\<exists>s' s''. foldE threadInternalObjptr [4104, 4120, 4112] (threadExample, ()) = Inr (s', ()) \<and>
    GC_VALID_HEADER_MASK AND getHeader s' 4136 = 0 \<and>
    fixPointers (getHeaderp 4136) 4100 s' = Inr s'' \<and>
    foldE threadInternalObjptr [4120]
      (threadExample\<lparr>mem := store64 (store64 (mem threadExample) 4104 4100) 4112 4100\<rparr>, ()) = Inr (s'', ())"
proof -
  let ?xs = "[(4104, 4136), (4120, 4152), (4112, 4136)] :: (pointer \<times> pointer) list"
  have "separate (set ?xs)" by (simp add: separate_def apart_def getHeaderp_def)
  moreover have "isPointerInHeap threadExample 4136" "isPointerInHeap threadExample 4152"
    by (simp_all add: threadExample_def isPointerInHeap_def isPointerInFromSpace_def isPointerInOldGen_def zero_defs)
  moreover have "load64 (mem threadExample) 4104 = 4136" "load64 (mem threadExample) 4120 = 4152"
    "load64 (mem threadExample) 4112 = 4136" "GC_VALID_HEADER_MASK AND getHeader threadExample 4136 \<noteq> 0"
    by (simp_all add: threadExample_def getHeader_def getHeaderp_def load64_store64_disjoint)
  ultimately have "threadable threadExample ?xs" "GC_VALID_HEADER_MASK AND getHeader threadExample 4136 \<noteq> 0"
    by (simp_all add: threadable_def slot_ok_def)
  from thread_then_fix [OF this(1) _ this(2), of 4100] show ?thesis by (simp add: slotsOf_def)
qed

end
